(* ===== verification/Prelude.thy ===== *)
theory Prelude
  imports Complex_Main "HOL-Library.Word" "HOL-Library.AList" "HOL-Library.Multiset"
    "HOL-Library.Sublist" "HOL-Library.Char_ord" "HOL-Library.List_Lexorder" "HOL-Library.Product_Lexorder"
begin

text \<open>
  The vocabulary every component shares: bytes and Python values, exceptions as values of
  a sum type, the parts of Python's \<open>str\<close>, \<open>int\<close> and \<open>dict\<close> the sources call,
  and the generic facts about lists and association lists the component proofs use.

  A Python \<open>str\<close> is a HOL \<open>string\<close>: its characters are the code points below
  256, for which \<open>isspace\<close>, \<open>strip\<close> and \<open>isdecimal\<close> below are exact. Python's
  \<open>int\<close> is \<open>int\<close> (or \<open>nat\<close> where the code keeps it non-negative), its \<open>float\<close>
  clocks are \<open>real\<close> (rounding is not modelled), a \<open>dict\<close> that is iterated in
  insertion order is an association list written with \<open>AList.update\<close>, which replaces a
  present key in place and appends a new one, as \<open>dict.__setitem__\<close> does.
\<close>

named_theorems res_simps \<open>evaluation of error-monad programs\<close>
named_theorems wf_intros \<open>well-formedness facts the components export\<close>

section \<open>Bytes and Python values\<close>

type_synonym byte = "8 word"
type_synonym bytes = "byte list"

datatype pyval =
    PyNone
  | PyBool bool
  | PyInt int
  | PyStr string
  | PyBytes bytes
  | PyOther

section \<open>Exceptions as values\<close>

text \<open>One constructor per exception class of the modelled sources. Message texts are not
  modelled: the class decides which handler runs.\<close>

datatype grpc_status =
    UNAUTHENTICATED
  | INVALID_ARGUMENT
  | UNAVAILABLE
  | NOT_FOUND
  | INTERNAL
  | FAILED_PRECONDITION
  | RESOURCE_EXHAUSTED
  | CANCELLED

datatype exn =
    TypeError
  | ValueError
  | KeyError
  | RuntimeError
  | OverflowError
  | StopanUsageError
  | StopanConfigValueError
  | StopanConfigRuntimeError
  | StopanNetworkError
  | StopanDependencyError
  | ErasureCodingError
  | ErasureCodingConfigError
  | ErasureCodingNetworkError
  | ErasureCodingDependencyError
  | ZfecError
  | CASRepositoryError
  | CASCorruptionError
  | CASMissingChunkError
  | DataPackShardStoreError
  | DataPackShardHashMismatchError
  | DataPackShardTooLargeError
  | FileNotFoundError
  | NodeIdentityError
  | NodeIdentityValueError
  | MembershipConfigError
  | StreamingReplicationError
  | RpcError
  | RemoteDataPackShardReplicationError
  | OSError
  | IndexError
  | StopanStorageOSError
  | ZstdError
  | GarbageCollectionPathError
  | ChunkUnavailableError
  | RestoreDataError
  | RestorePathError
  | MetadataDatabaseError
  | MetadataDatabaseValueError
  | StopanStorageError
  | FileExistsError
  | UnicodeError
  | MetadataIdentityError
  | MetadataPackHashValueError
  | MetadataPackStoreError
  | MetadataPackSignatureError
  | MetadataPackQuotaError
  | MetadataPackCorruptionError
  | MetadataObjectError
  | MetadataObjectGraphWalkError
  | MetadataObjectStoreError
  | MetadataObjectStoreMissingError
  | MetadataObjectStoreAuthenticationError
  | MetadataObjectGarbageCollectionError
  | JsonFileError
  | EncodingError
  | Abort grpc_status

text \<open>\<open>except ValueError\<close> catches the subclasses of \<open>ValueError\<close> too.\<close>

fun is_ValueError :: "exn \<Rightarrow> bool" where
  "is_ValueError ValueError = True"
| "is_ValueError StopanConfigValueError = True"
| "is_ValueError NodeIdentityValueError = True"
| "is_ValueError MembershipConfigError = True"
| "is_ValueError UnicodeError = True"
| "is_ValueError MetadataPackHashValueError = True"
| "is_ValueError MetadataObjectError = True"
| "is_ValueError _ = False"

type_synonym 'a result = "exn + 'a"

definition bindE :: "'e + 'a \<Rightarrow> ('a \<Rightarrow> 'e + 'b) \<Rightarrow> 'e + 'b" where
  "bindE r f = (case r of Inl e \<Rightarrow> Inl e | Inr x \<Rightarrow> f x)"

definition raise_if :: "bool \<Rightarrow> 'e \<Rightarrow> 'e + unit" where
  "raise_if b e = (if b then Inl e else Inr ())"

fun mapE :: "('a \<Rightarrow> 'e + 'b) \<Rightarrow> 'a list \<Rightarrow> 'e + 'b list" where
  "mapE f [] = Inr []"
| "mapE f (x # xs) = bindE (f x) (\<lambda>y. bindE (mapE f xs) (\<lambda>ys. Inr (y # ys)))"

fun foldE :: "('s \<Rightarrow> 'a \<Rightarrow> 'e + 's) \<Rightarrow> 's \<Rightarrow> 'a list \<Rightarrow> 'e + 's" where
  "foldE f s [] = Inr s"
| "foldE f s (x # xs) = bindE (f s x) (\<lambda>t. foldE f t xs)"

text \<open>Methods that raise keep the state changes made before the exception: an operation maps
  the state to a result and the new state.\<close>

type_synonym ('s, 'a) op = "'s \<Rightarrow> 'a result \<times> 's"

definition op_return :: "'a \<Rightarrow> ('s, 'a) op" where
  "op_return x s = (Inr x, s)"

definition op_raise :: "exn \<Rightarrow> ('s, 'a) op" where
  "op_raise e s = (Inl e, s)"

definition op_lift :: "'a result \<Rightarrow> ('s, 'a) op" where
  "op_lift r s = (r, s)"

definition op_modify :: "('s \<Rightarrow> 's) \<Rightarrow> ('s, unit) op" where
  "op_modify f s = (Inr (), f s)"

definition op_read :: "('s \<Rightarrow> ('s, 'a) op) \<Rightarrow> ('s, 'a) op" where
  "op_read f s = f s s"

definition op_bind :: "('s, 'a) op \<Rightarrow> ('a \<Rightarrow> ('s, 'b) op) \<Rightarrow> ('s, 'b) op" where
  "op_bind m f s = (case m s of (Inl e, t) \<Rightarrow> (Inl e, t) | (Inr x, t) \<Rightarrow> f x t)"

definition op_catch :: "('s, 'a) op \<Rightarrow> (exn \<Rightarrow> bool) \<Rightarrow> ('s, 'a) op \<Rightarrow> ('s, 'a) op" where
  "op_catch m caught h s = (case m s of (Inl e, t) \<Rightarrow> if caught e then h t else (Inl e, t) | (Inr x, t) \<Rightarrow> (Inr x, t))"

text \<open>A \<open>for\<close> loop over a list.\<close>

fun op_iter :: "('a \<Rightarrow> ('s, unit) op) \<Rightarrow> 'a list \<Rightarrow> ('s, unit) op" where
  "op_iter f [] = op_return ()"
| "op_iter f (x # xs) = op_bind (f x) (\<lambda>_. op_iter f xs)"

section \<open>Python strings and integers\<close>

definition py_isspace :: "char \<Rightarrow> bool" where
  "py_isspace c \<longleftrightarrow>
     (let n = (of_char c :: nat) in
        (9 \<le> n \<and> n \<le> 13) \<or> (28 \<le> n \<and> n \<le> 32) \<or> n = 133 \<or> n = 160)"

definition py_strip :: "string \<Rightarrow> string" where
  "py_strip s = rev (dropWhile py_isspace (rev (dropWhile py_isspace s)))"

definition is_dec_char :: "char \<Rightarrow> bool" where
  "is_dec_char c \<longleftrightarrow> (48::nat) \<le> of_char c \<and> of_char c \<le> (57::nat)"

definition is_hex_lower :: "char \<Rightarrow> bool" where
  "is_hex_lower c \<longleftrightarrow> is_dec_char c \<or> ((97::nat) \<le> of_char c \<and> of_char c \<le> (102::nat))"

text \<open>\<open>str.isdecimal\<close> is false for the empty string.\<close>

definition py_isdecimal :: "string \<Rightarrow> bool" where
  "py_isdecimal s \<longleftrightarrow> s \<noteq> [] \<and> list_all is_dec_char s"

definition dec_value :: "string \<Rightarrow> nat" where
  "dec_value s = foldl (\<lambda>a c. 10 * a + (of_char c - 48)) 0 s"

fun dec_nat :: "nat \<Rightarrow> string" where
  "dec_nat n = (if n < 10 then [char_of (48 + n)]
                else dec_nat (n div 10) @ [char_of (48 + n mod 10)])"

declare dec_nat.simps [simp del]

definition dec_int :: "int \<Rightarrow> string" where
  "dec_int i = (if i < 0 then CHR ''-'' # dec_nat (nat (- i)) else dec_nat (nat i))"

text \<open>\<open>xs[i:j]\<close> with both bounds given: negative bounds count from the end, bounds outside
  the list are clamped.\<close>

definition py_clamp :: "int \<Rightarrow> nat \<Rightarrow> nat" where
  "py_clamp i n = (if i < 0 then nat (max 0 (i + int n)) else min (nat i) n)"

definition py_slice :: "'a list \<Rightarrow> int \<Rightarrow> int \<Rightarrow> 'a list" where
  "py_slice xs i j = (let a = py_clamp i (length xs); b = py_clamp j (length xs) in take (b - a) (drop a xs))"

section \<open>Dictionaries and transition systems\<close>

text \<open>A dict comprehension or a loop of assignments: later pairs win, the position of a key
  is that of its first assignment.\<close>

definition dict_of :: "('k \<times> 'v) list \<Rightarrow> ('k \<times> 'v) list" where
  "dict_of ps = foldl (\<lambda>d (k, v). AList.update k v d) [] ps"

text \<open>\<open>d.setdefault(k, []).append(v)\<close> and \<open>d.update(e)\<close>.\<close>

definition dict_append :: "'k \<Rightarrow> 'v \<Rightarrow> ('k \<times> 'v list) list \<Rightarrow> ('k \<times> 'v list) list" where
  "dict_append k v d = AList.update k ((case map_of d k of None \<Rightarrow> [] | Some vs \<Rightarrow> vs) @ [v]) d"

definition dict_update :: "('k \<times> 'v) list \<Rightarrow> ('k \<times> 'v) list \<Rightarrow> ('k \<times> 'v) list" where
  "dict_update d e = foldl (\<lambda>m (k, v). AList.update k v m) d e"

text \<open>The contract of a stateful component: its initial states satisfy an invariant and every
  step keeps it. Clients use the invariant of every reachable state.\<close>

locale inv_system =
  fixes init :: "'s \<Rightarrow> bool"
    and step :: "'s \<Rightarrow> 's \<Rightarrow> bool"
    and inv :: "'s \<Rightarrow> bool"
  assumes inv_init: "init s \<Longrightarrow> inv s"
    and inv_step: "inv s \<Longrightarrow> step s t \<Longrightarrow> inv t"
begin

lemma inv_steps: "step\<^sup>*\<^sup>* s t \<Longrightarrow> inv s \<Longrightarrow> inv t"
  by (induction rule: rtranclp_induct) (auto intro: inv_step)

lemma inv_reachable: "init s \<Longrightarrow> step\<^sup>*\<^sup>* s t \<Longrightarrow> inv t"
  by (blast intro: inv_init inv_steps)

end

text \<open>A relation every operation of a component stays within, exceptions included: what holds of
  the primitive updates holds of every composition of them.\<close>

locale op_relation =
  fixes R :: "'s \<Rightarrow> 's \<Rightarrow> bool"
  assumes R_refl: "R s s"
    and R_trans: "R s t \<Longrightarrow> R t u \<Longrightarrow> R s u"
begin

definition stays :: "('s, 'a) op \<Rightarrow> bool" where
  "stays m \<longleftrightarrow> (\<forall>s. R s (snd (m s)))"

lemma stays_state: "stays m \<Longrightarrow> R s (snd (m s))"
  by (simp add: stays_def)

lemma staysI: "(\<And>s. R s (snd (m s))) \<Longrightarrow> stays m"
  by (simp add: stays_def)

lemma stays_pure: "stays (op_return x)" "stays (op_raise e)" "stays (op_lift r)"
  by (simp_all add: stays_def op_return_def op_raise_def op_lift_def R_refl)

lemma stays_read: "(\<And>s. stays (f s)) \<Longrightarrow> stays (op_read f)"
  by (simp add: stays_def op_read_def)

lemma stays_bind:
  assumes "stays m" "\<And>x. stays (f x)"
  shows "stays (op_bind m f)"
proof (rule staysI)
  fix s
  have "R s (snd (m s))" using assms(1) by (rule stays_state)
  moreover have "R (snd (m s)) (snd (f x (snd (m s))))" for x using assms(2) by (rule stays_state)
  ultimately show "R s (snd (op_bind m f s))"
    by (cases "m s"; cases "fst (m s)") (auto simp: op_bind_def intro: R_trans)
qed

lemma stays_catch:
  assumes "stays m" "stays h"
  shows "stays (op_catch m c h)"
proof (rule staysI)
  fix s
  have "R s (snd (m s))" using assms(1) by (rule stays_state)
  moreover have "R (snd (m s)) (snd (h (snd (m s))))" using assms(2) by (rule stays_state)
  ultimately show "R s (snd (op_catch m c h s))"
    by (cases "m s"; cases "fst (m s)") (auto simp: op_catch_def intro: R_trans)
qed

lemma stays_iter: "(\<And>x. stays (f x)) \<Longrightarrow> stays (op_iter f xs)"
  by (induction xs) (auto intro: stays_pure stays_bind)

lemma stays_if: "stays m \<Longrightarrow> stays n \<Longrightarrow> stays (if b then m else n)"
  by simp

lemma bind_state:
  assumes "R s (snd (m s))" "\<And>x t. m s = (Inr x, t) \<Longrightarrow> R t (snd (f x t))"
  shows "R s (snd (op_bind m f s))"
  using assms by (cases "m s"; cases "fst (m s)") (auto simp: op_bind_def intro: R_trans)

lemma stays_readI: "(\<And>s. R s (snd (f s s))) \<Longrightarrow> stays (op_read f)"
  by (simp add: stays_def op_read_def)

lemma modify_then: "R s (f s) \<Longrightarrow> (\<And>x. stays (g x)) \<Longrightarrow> R s (snd (op_bind (op_modify f) g s))"
  by (auto simp: op_bind_def op_modify_def intro: R_trans stays_state)

lemmas stays_intros = stays_pure stays_read stays_bind stays_catch stays_iter stays_if

end

section \<open>Error monad: evaluation rules\<close>

lemma bindE_simps [simp, res_simps]:
  "bindE (Inl e) f = Inl e"
  "bindE (Inr x) f = f x"
  by (simp_all add: bindE_def)

lemma bindE_eq_Inr [res_simps]: "bindE r f = Inr y \<longleftrightarrow> (\<exists>x. r = Inr x \<and> f x = Inr y)"
  by (cases r) auto

lemma bindE_eq_Inl [res_simps]:
  "bindE r f = Inl e \<longleftrightarrow> r = Inl e \<or> (\<exists>x. r = Inr x \<and> f x = Inl e)"
  by (cases r) auto

lemma bindE_raise_if [simp, res_simps]:
  "bindE (raise_if b e) f = (if b then Inl e else f ())"
  by (simp add: raise_if_def)

lemma raise_if_eq [simp, res_simps]:
  "raise_if b e = Inr u \<longleftrightarrow> \<not> b"
  "raise_if b e = Inl e' \<longleftrightarrow> b \<and> e' = e"
  by (auto simp: raise_if_def)

lemma mapE_eq_Inr: "mapE f xs = Inr ys \<longleftrightarrow> list_all2 (\<lambda>x y. f x = Inr y) xs ys"
  by (induction xs arbitrary: ys) (auto simp: bindE_eq_Inr list_all2_Cons1)

lemma foldE_inv:
  assumes "foldE f s xs = Inr t" "P s" "\<And>s x t. x \<in> set xs \<Longrightarrow> P s \<Longrightarrow> f s x = Inr t \<Longrightarrow> P t"
  shows "P t"
  using assms by (induction xs arbitrary: s) (auto simp: bindE_eq_Inr)

lemma foldE_append: "foldE f s (xs @ ys) = bindE (foldE f s xs) (\<lambda>t. foldE f t ys)"
  by (induction xs arbitrary: s) (auto simp: bindE_def split: sum.splits)

lemma mapE_member: "mapE f xs = Inr ys \<Longrightarrow> y \<in> set ys \<Longrightarrow> \<exists>x \<in> set xs. f x = Inr y"
  by (induction xs arbitrary: ys) (auto simp: bindE_eq_Inr)

lemma mapE_map: "mapE f (map g xs) = mapE (\<lambda>x. f (g x)) xs"
  by (induction xs) simp_all

lemma mapE_length: "mapE f xs = Inr ys \<Longrightarrow> length ys = length xs"
  by (auto simp: mapE_eq_Inr dest: list_all2_lengthD)

lemma mapE_total: "(\<And>x. x \<in> set xs \<Longrightarrow> f x = Inr (g x)) \<Longrightarrow> mapE f xs = Inr (map g xs)"
  by (induction xs) auto

section \<open>Strings and decimal numerals\<close>

lemma py_strip_no_space: "list_all (\<lambda>c. \<not> py_isspace c) s \<Longrightarrow> py_strip s = s"
proof -
  have no: "dropWhile py_isspace xs = xs" if "list_all (\<lambda>c. \<not> py_isspace c) xs" for xs
    using that by (cases xs) auto
  assume "list_all (\<lambda>c. \<not> py_isspace c) s"
  then show ?thesis by (simp add: py_strip_def no)
qed

lemma py_strip_idem [simp]: "py_strip (py_strip s) = py_strip s"
proof -
  have dd: "dropWhile P (dropWhile P xs) = dropWhile P xs" for P :: "char \<Rightarrow> bool" and xs
    by (induction xs) auto
  have pre: "dropWhile P (rev (dropWhile P (rev xs))) = rev (dropWhile P (rev xs))"
    if "dropWhile P xs = xs" for P :: "char \<Rightarrow> bool" and xs
  proof -
    let ?ys = "rev (dropWhile P (rev xs))"
    have "xs = ?ys @ rev (takeWhile P (rev xs))"
      by (metis rev_append rev_rev_ident takeWhile_dropWhile_id)
    then have "?ys \<noteq> [] \<Longrightarrow> xs \<noteq> [] \<and> hd xs = hd ?ys" by (metis append_is_Nil_conv hd_append2)
    then show ?thesis using that by (metis dropWhile_eq_self_iff)
  qed
  show ?thesis unfolding py_strip_def by (simp add: dd pre)
qed

lemma set_py_strip: "set (py_strip s) \<subseteq> set s"
  unfolding py_strip_def by (metis set_dropWhileD set_rev subsetI)

lemma hex_not_space: "is_hex_lower c \<Longrightarrow> \<not> py_isspace c"
  by (auto simp: is_hex_lower_def is_dec_char_def py_isspace_def Let_def)

lemma of_char_digit: "d < 10 \<Longrightarrow> (of_char (char_of (48 + d :: nat) :: char) :: nat) = 48 + d"
  by simp

lemma is_dec_char_digit: "d < 10 \<Longrightarrow> is_dec_char (char_of (48 + d :: nat))"
  by (simp add: is_dec_char_def)

lemma dec_nat_nonempty [simp]: "dec_nat n \<noteq> []"
  by (subst dec_nat.simps) simp

lemma dec_nat_dec: "list_all is_dec_char (dec_nat n)"
proof (induction n rule: dec_nat.induct)
  case (1 n)
  then show ?case
    by (subst dec_nat.simps) (auto simp: is_dec_char_digit)
qed

lemma py_isdecimal_dec_nat [simp]: "py_isdecimal (dec_nat n)"
  by (simp add: py_isdecimal_def dec_nat_dec)

lemma dec_value_snoc: "dec_value (s @ [c]) = 10 * dec_value s + (of_char c - 48)"
  by (simp add: dec_value_def)

text \<open>\<open>int(str(n))\<close> is \<open>n\<close>.\<close>

lemma dec_value_dec_nat [simp]: "dec_value (dec_nat n) = n"
proof (induction n rule: dec_nat.induct)
  case (1 n)
  show ?case
  proof (cases "n < 10")
    case True
    then show ?thesis by (subst dec_nat.simps) (simp add: dec_value_def)
  next
    case False
    then show ?thesis using "1.IH"
      by (subst dec_nat.simps) (simp add: dec_value_snoc)
  qed
qed

lemma dec_nat_inj: "dec_nat m = dec_nat n \<Longrightarrow> m = n"
  by (metis dec_value_dec_nat)

section \<open>Association lists as insertion-ordered dictionaries\<close>

lemma map_of_AList_update [simp]: "map_of (AList.update k v d) = (map_of d)(k \<mapsto> v)"
  by (rule update_conv')

lemma keys_AList_update:
  "map fst (AList.update k v d) = (if k \<in> fst ` set d then map fst d else map fst d @ [k])"
  by (induction d) auto

lemma distinct_keys_update [wf_intros]:
  "distinct (map fst d) \<Longrightarrow> distinct (map fst (AList.update k v d))"
  by (rule distinct_update)

lemma set_update_subset: "set (AList.update k v d) \<subseteq> insert (k, v) (set d)"
  by (induction d) auto

lemma AList_update_new: "k \<notin> fst ` set d \<Longrightarrow> AList.update k v d = d @ [(k, v)]"
  by (induction d) auto

lemma dict_of_snoc: "dict_of (ps @ [(k, v)]) = AList.update k v (dict_of ps)"
  by (simp add: dict_of_def)

lemma dict_of_Nil [simp]: "dict_of [] = []"
  by (simp add: dict_of_def)

lemma map_of_dict_of: "map_of (dict_of ps) = map_of (rev ps)"
  by (induction ps rule: rev_induct) (auto simp: dict_of_snoc split: prod.splits)

lemma keys_dict_of: "set (map fst (dict_of ps)) = fst ` set ps"
proof (induction ps rule: rev_induct)
  case (snoc p ps)
  then show ?case by (cases p) (simp add: dict_of_snoc dom_update)
qed simp

lemma distinct_keys_dict_of [wf_intros]: "distinct (map fst (dict_of ps))"
  by (induction ps rule: rev_induct) (auto simp: dict_of_snoc intro: distinct_keys_update)

lemma dict_of_distinct: "distinct (map fst ps) \<Longrightarrow> dict_of ps = ps"
proof (induction ps rule: rev_induct)
  case (snoc p ps)
  then have "dict_of ps = ps" "fst p \<notin> fst ` set ps" by auto
  then show ?case by (cases p) (simp add: dict_of_snoc AList_update_new)
qed simp

section \<open>Lists\<close>

lemma prefix_filter_take: "prefix (filter P (take k xs)) (take k (filter P xs))"
proof (induction xs arbitrary: k)
  case (Cons x xs)
  show ?case
  proof (cases k)
    case (Suc m)
    show ?thesis
    proof (cases "P x")
      case False
      have "prefix (filter P (take m xs)) (take m (filter P xs))" by (rule Cons.IH)
      moreover have "prefix (take m (filter P xs)) (take (Suc m) (filter P xs))"
        by (rule take_is_prefix [of m "take (Suc m) (filter P xs)", simplified take_take, simplified])
      ultimately show ?thesis using False Suc by (auto intro: prefix_order.trans)
    qed (use Suc Cons.IH in simp)
  qed simp
qed simp

lemma drop_Suc_insort:
  fixes xs :: "'a::linorder list"
  assumes "sorted xs" "m < length xs"
  shows "drop (Suc m) (insort x xs) = (if xs ! m < x then insort x (drop (Suc m) xs) else drop m xs)"
  using assms
proof (induction xs arbitrary: m)
  case (Cons y ys)
  show ?case
  proof (cases m)
    case 0
    then show ?thesis using Cons.prems by (cases ys) (auto simp: insort_is_Cons)
  next
    case (Suc n)
    have "y \<le> ys ! n" using Cons.prems Suc by simp
    then have "x \<le> y \<Longrightarrow> \<not> ys ! n < x" by order
    then show ?thesis using Cons.IH [of n] Cons.prems Suc by (cases "x \<le> y") simp_all
  qed
qed simp

lemma distinct_map_filter_sub: "distinct (map f xs) \<Longrightarrow> distinct (map f (filter P xs))"
  by (induction xs) auto

lemma sort_snoc: "sort (xs @ [x]) = insort x (sort xs)"
  by (rule properties_for_sort) (simp_all add: sorted_insort)

lemma map_filter_total: "(\<And>x. x \<in> set xs \<Longrightarrow> f x = Some (g x)) \<Longrightarrow> List.map_filter f xs = map g xs"
  by (induction xs) (auto simp: List.map_filter_simps)

lemma take_mset_le: "mset (take n xs) \<subseteq># mset xs"
  by (metis append_take_drop_id mset_append mset_subset_eq_add_left)

lemma count_list_le_1: "distinct xs \<Longrightarrow> count_list xs x \<le> 1"
  by (induction xs) auto

lemma set_dict_update: "set (dict_update d e) \<subseteq> set d \<union> set e"
proof (induction e arbitrary: d)
  case (Cons p e)
  obtain k v where p: "p = (k, v)" by (cases p)
  have "dict_update d (p # e) = dict_update (AList.update k v d) e" by (simp add: dict_update_def p)
  then show ?case using Cons.IH [of "AList.update k v d"] set_update_subset [of k v d] by (auto simp: p)
qed (simp add: dict_update_def)

lemma set_dict_of: "set (dict_of ps) \<subseteq> set ps"
  using set_dict_update [of "[]" ps] by (simp add: dict_update_def dict_of_def)

lemma int_sum_list: "int (sum_list (map f xs)) = sum_list (map (\<lambda>x. int (f x)) xs)"
  by (induction xs) simp_all

section \<open>Grouping\<close>

lemma dict_append_simps:
  "map_of (dict_append k v d) = (map_of d)(k \<mapsto> (case map_of d k of None \<Rightarrow> [] | Some vs \<Rightarrow> vs) @ [v])"
  by (simp add: dict_append_def)

lemma dict_append_keys [wf_intros]: "distinct (map fst d) \<Longrightarrow> distinct (map fst (dict_append k v d))"
  by (simp add: dict_append_def distinct_keys_update)

lemma dict_append_Cons:
  "dict_append k v ((k', vs) # d) = (if k' = k then (k, vs @ [v]) # d else (k', vs) # dict_append k v d)"
  by (simp add: dict_append_def)

lemma dict_append_Nil: "dict_append k v [] = [(k, [v])]"
  by (simp add: dict_append_def)

lemma mset_dict_append:
  "mset (concat (map snd (dict_append k v d))) = add_mset v (mset (concat (map snd d)))"
  by (induction d) (auto simp: dict_append_Nil dict_append_Cons)

lemma dict_append_members:
  "(a, vs) \<in> set (dict_append k v d) \<Longrightarrow> x \<in> set vs \<Longrightarrow> (a = k \<and> x = v) \<or> (\<exists>ws. (a, ws) \<in> set d \<and> x \<in> set ws)"
proof (induction d)
  case (Cons p d)
  then show ?case by (cases p) (auto simp: dict_append_Cons split: if_splits)
qed (auto simp: dict_append_Nil)

section \<open>Slices\<close>

lemma py_slice_nat: "py_slice xs (int a) (int b) = take (b - a) (drop a xs)"
  by (cases "b \<le> length xs"; cases "a \<le> length xs") (auto simp: py_slice_def py_clamp_def min_def)

lemma py_slice_prefix: "0 \<le> n \<Longrightarrow> py_slice xs 0 n = take (nat n) xs"
  using py_slice_nat [of xs 0 "nat n"] by simp

lemma py_slice_middle: "py_slice (xs @ ys @ zs) (int (length xs)) (int (length xs) + int (length ys)) = ys"
  using py_slice_nat [of "xs @ ys @ zs" "length xs" "length xs + length ys"] by simp

end
