(* ===== verification/Common.thy ===== *)
theory Common
  imports Prelude
begin

text \<open>
  The helpers of \<open>stopan.common\<close>: batching, order-preserving deduplication, the strict
  integer validators, the canonical BLAKE3 identifier check, passphrases. BLAKE3 itself is a
  third-party package: where a component hashes, its digest function is an argument.
\<close>

section \<open>Batching and deduplication\<close>

text \<open>\<open>iter_batches\<close>: the generator's local \<open>current\<close> is an argument; a yielded batch
  is consed in front of the rest of the generator.\<close>

fun iter_batches_loop :: "nat \<Rightarrow> 'a list \<Rightarrow> 'a list \<Rightarrow> 'a list list" where
  "iter_batches_loop n current [] = (if current \<noteq> [] then [current] else [])"
| "iter_batches_loop n current (x # xs) =
     (let current' = current @ [x]
      in if n \<le> length current' then current' # iter_batches_loop n [] xs
         else iter_batches_loop n current' xs)"

definition iter_batches :: "'a list \<Rightarrow> int \<Rightarrow> 'a list list" where
  "iter_batches items batch_size = iter_batches_loop (nat (max 1 batch_size)) [] items"

text \<open>\<open>list(dict.fromkeys(items))\<close>.\<close>

fun dict_fromkeys :: "('a \<times> unit) list \<Rightarrow> 'a list \<Rightarrow> ('a \<times> unit) list" where
  "dict_fromkeys d [] = d"
| "dict_fromkeys d (x # xs) = dict_fromkeys (AList.update x () d) xs"

definition ordered_unique :: "'a list \<Rightarrow> 'a list" where
  "ordered_unique items = map fst (dict_fromkeys [] items)"

fun ordered_unique_by_loop :: "('a \<Rightarrow> 'k) \<Rightarrow> ('k \<times> 'a) list \<Rightarrow> 'a list \<Rightarrow> ('k \<times> 'a) list" where
  "ordered_unique_by_loop key seen [] = seen"
| "ordered_unique_by_loop key seen (x # xs) =
     ordered_unique_by_loop key
       (if key x \<notin> fst ` set seen then AList.update (key x) x seen else seen) xs"

definition ordered_unique_by :: "'a list \<Rightarrow> ('a \<Rightarrow> 'k) \<Rightarrow> 'a list" where
  "ordered_unique_by items key = map snd (ordered_unique_by_loop key [] items)"

section \<open>Identifiers and scalar validators\<close>

definition BLAKE3_HEX_LENGTH :: nat where
  "BLAKE3_HEX_LENGTH = 64"

definition is_hex64 :: "string \<Rightarrow> bool" where
  "is_hex64 s \<longleftrightarrow> length s = BLAKE3_HEX_LENGTH \<and> list_all is_hex_lower s"

fun is_valid_blake3_hex :: "pyval \<Rightarrow> bool" where
  "is_valid_blake3_hex (PyStr s) = is_hex64 s"
| "is_valid_blake3_hex _ = False"

definition is_valid_chunk_hash :: "pyval \<Rightarrow> bool" where
  "is_valid_chunk_hash value = is_valid_blake3_hex value"

text \<open>The validators take the exception their caller wants raised. \<open>bool\<close> is a
  subclass of \<open>int\<close> in Python and is refused first.\<close>

fun require_strict_int :: "pyval \<Rightarrow> int \<Rightarrow> exn \<Rightarrow> int result" where
  "require_strict_int (PyInt v) min_value err = (if v < min_value then Inl err else Inr v)"
| "require_strict_int _ min_value err = Inl err"

definition require_strict_non_negative_int :: "pyval \<Rightarrow> exn \<Rightarrow> int result" where
  "require_strict_non_negative_int value err = require_strict_int value 0 err"

definition require_strict_positive_int :: "pyval \<Rightarrow> exn \<Rightarrow> int result" where
  "require_strict_positive_int value err =
     bindE (require_strict_non_negative_int value err)
       (\<lambda>number. if number \<le> 0 then Inl err else Inr number)"

definition passphrase_bytes :: "(string \<Rightarrow> bytes) \<Rightarrow> pyval \<Rightarrow> bytes result" where
  "passphrase_bytes encode_utf8 passphrase =
     bindE (case passphrase of
              PyStr s \<Rightarrow> Inr (encode_utf8 s)
            | PyBytes b \<Rightarrow> Inr b
            | _ \<Rightarrow> Inl TypeError)
       (\<lambda>data. if data = [] then Inl StopanConfigValueError else Inr data)"

section \<open>Protocol constants (p2p_storage.proto)\<close>

definition STORE_STATUS_STORED :: int where "STORE_STATUS_STORED = 1"

definition STORE_STATUS_ALREADY_PRESENT :: int where "STORE_STATUS_ALREADY_PRESENT = 2"

definition STORE_STATUS_REJECTED_CORRUPT :: int where "STORE_STATUS_REJECTED_CORRUPT = 3"

definition STORE_STATUS_REJECTED_HASH_MISMATCH :: int where "STORE_STATUS_REJECTED_HASH_MISMATCH = 4"

definition STORE_STATUS_ERROR :: int where "STORE_STATUS_ERROR = 5"

definition RETRIEVE_STATUS_FOUND :: int where "RETRIEVE_STATUS_FOUND = 1"

definition RETRIEVE_STATUS_NOT_FOUND :: int where "RETRIEVE_STATUS_NOT_FOUND = 2"

definition RETRIEVE_STATUS_ERROR :: int where "RETRIEVE_STATUS_ERROR = 3"

definition DATA_PACK_SHARD_STORE_STATUS_STORED :: int where "DATA_PACK_SHARD_STORE_STATUS_STORED = 1"

definition DATA_PACK_SHARD_STORE_STATUS_ALREADY_PRESENT :: int where "DATA_PACK_SHARD_STORE_STATUS_ALREADY_PRESENT = 2"

definition DATA_PACK_SHARD_STORE_STATUS_REJECTED_HASH_MISMATCH :: int where "DATA_PACK_SHARD_STORE_STATUS_REJECTED_HASH_MISMATCH = 3"

definition DATA_PACK_SHARD_STORE_STATUS_REJECTED_INVALID_ARGUMENT :: int where "DATA_PACK_SHARD_STORE_STATUS_REJECTED_INVALID_ARGUMENT = 4"

definition DATA_PACK_SHARD_STORE_STATUS_REJECTED_TOO_LARGE :: int where "DATA_PACK_SHARD_STORE_STATUS_REJECTED_TOO_LARGE = 5"

definition DATA_PACK_SHARD_STORE_STATUS_ERROR :: int where "DATA_PACK_SHARD_STORE_STATUS_ERROR = 6"

definition DATA_PACK_SHARD_RETRIEVE_STATUS_FOUND :: int where "DATA_PACK_SHARD_RETRIEVE_STATUS_FOUND = 1"

definition DATA_PACK_SHARD_RETRIEVE_STATUS_NOT_FOUND :: int where "DATA_PACK_SHARD_RETRIEVE_STATUS_NOT_FOUND = 2"

definition DATA_PACK_SHARD_RETRIEVE_STATUS_HASH_MISMATCH :: int where "DATA_PACK_SHARD_RETRIEVE_STATUS_HASH_MISMATCH = 3"

definition DATA_PACK_SHARD_RETRIEVE_STATUS_ERROR :: int where "DATA_PACK_SHARD_RETRIEVE_STATUS_ERROR = 4"

section \<open>Batches partition their input\<close>

lemma concat_iter_batches_loop: "concat (iter_batches_loop n cur xs) = cur @ xs"
  by (induction n cur xs rule: iter_batches_loop.induct) (auto simp: Let_def)

lemma iter_batches_loop_sizes:
  "length cur < n \<Longrightarrow> b \<in> set (iter_batches_loop n cur xs) \<Longrightarrow> b \<noteq> [] \<and> length b \<le> n"
proof (induction n cur xs arbitrary: b rule: iter_batches_loop.induct)
  case (1 n cur)
  then show ?case by (auto split: if_splits)
next
  case (2 n cur x xs)
  show ?case
  proof (cases "n \<le> length (cur @ [x])")
    case True
    with 2 have "b = cur @ [x] \<or> b \<in> set (iter_batches_loop n [] xs)" by simp
    moreover have "0 < n" using 2 by linarith
    ultimately show ?thesis using 2 True by auto
  next
    case False
    then show ?thesis using "2.IH"(2)[of "cur @ [x]" b] "2.prems" by (simp add: Let_def)
  qed
qed

lemma iter_batches_loop_full:
  "length cur < n \<Longrightarrow> b \<in> set (butlast (iter_batches_loop n cur xs)) \<Longrightarrow> length b = n"
proof (induction n cur xs arbitrary: b rule: iter_batches_loop.induct)
  case (1 n cur)
  then show ?case by (auto split: if_splits)
next
  case (2 n cur x xs)
  show ?case
  proof (cases "n \<le> length (cur @ [x])")
    case True
    with "2.prems" have "b = cur @ [x] \<or> b \<in> set (butlast (iter_batches_loop n [] xs))"
      by (auto split: if_splits)
    moreover have "length (cur @ [x]) = n" and "0 < n" using True "2.prems"(1) by simp_all
    ultimately show ?thesis using "2.IH"(1)[of "cur @ [x]" b] True by auto
  next
    case False
    then show ?thesis using "2.IH"(2)[of "cur @ [x]" b] "2.prems" by (simp add: Let_def)
  qed
qed

lemma concat_iter_batches [simp]: "concat (iter_batches items n) = items"
  by (simp add: iter_batches_def concat_iter_batches_loop)

lemma iter_batches_sizes:
  "b \<in> set (iter_batches items n) \<Longrightarrow> b \<noteq> [] \<and> length b \<le> nat (max 1 n)"
  unfolding iter_batches_def by (rule iter_batches_loop_sizes) auto

lemma iter_batches_full:
  "b \<in> set (butlast (iter_batches items n)) \<Longrightarrow> length b = nat (max 1 n)"
  unfolding iter_batches_def by (rule iter_batches_loop_full) auto

section \<open>Deduplication keeps the first occurrences, in order\<close>

lemma keys_dict_fromkeys:
  "map fst (dict_fromkeys d xs) = fold (\<lambda>x acc. if x \<in> set acc then acc else acc @ [x]) xs (map fst d)"
  by (induction xs arbitrary: d) (auto simp: keys_AList_update)

lemma ordered_unique_fold:
  "ordered_unique xs = fold (\<lambda>x acc. if x \<in> set acc then acc else acc @ [x]) xs []"
  by (simp add: ordered_unique_def keys_dict_fromkeys)

lemma ordered_unique_remdups: "ordered_unique xs = rev (remdups (rev xs))"
  unfolding ordered_unique_fold by (induction xs rule: rev_induct) auto

lemma set_ordered_unique [simp]: "set (ordered_unique xs) = set xs"
  by (simp add: ordered_unique_remdups)

lemma distinct_ordered_unique [simp, wf_intros]: "distinct (ordered_unique xs)"
  by (simp add: ordered_unique_remdups)

lemma ordered_unique_distinct: "distinct xs \<Longrightarrow> ordered_unique xs = xs"
  by (simp add: ordered_unique_remdups distinct_remdups_id)

lemma ordered_unique_idem [simp]: "ordered_unique (ordered_unique xs) = ordered_unique xs"
  by (simp add: ordered_unique_distinct)

lemma ordered_unique_Nil [simp]: "ordered_unique [] = []"
  by (simp add: ordered_unique_def)

lemma ordered_unique_by_loop_keys:
  "map fst (ordered_unique_by_loop key seen xs)
     = fold (\<lambda>k acc. if k \<in> set acc then acc else acc @ [k]) (map key xs) (map fst seen)"
  by (induction xs arbitrary: seen) (auto simp: keys_AList_update)

lemma ordered_unique_by_loop_pairs:
  assumes "\<And>p. p \<in> set seen \<Longrightarrow> key (snd p) = fst p"
    and "p \<in> set (ordered_unique_by_loop key seen xs)"
  shows "key (snd p) = fst p"
  using assms
proof (induction xs arbitrary: seen)
  case (Cons x xs)
  show ?case
  proof (rule Cons.IH)
    show "p \<in> set (ordered_unique_by_loop key
             (if key x \<notin> fst ` set seen then AList.update (key x) x seen else seen) xs)"
      using Cons.prems(2) by simp
    show "key (snd q) = fst q"
      if "q \<in> set (if key x \<notin> fst ` set seen then AList.update (key x) x seen else seen)" for q
    proof -
      from that have "q \<in> insert (key x, x) (set seen)"
        using set_update_subset by (fastforce split: if_splits)
      then show ?thesis using Cons.prems(1) by auto
    qed
  qed
qed simp

text \<open>\<open>ordered_unique_by\<close> yields one element per key, keys in order of first
  appearance.\<close>

lemma ordered_unique_by_keys: "map key (ordered_unique_by xs key) = ordered_unique (map key xs)"
proof -
  have "map key (map snd (ordered_unique_by_loop key [] xs)) = map fst (ordered_unique_by_loop key [] xs)"
    by (auto dest: ordered_unique_by_loop_pairs [rotated])
  then show ?thesis
    by (simp only: ordered_unique_by_def ordered_unique_fold ordered_unique_by_loop_keys list.map)
qed

section \<open>Scalar validators\<close>

lemma is_hex64_no_strip: "is_hex64 s \<Longrightarrow> py_strip s = s"
  by (auto simp: is_hex64_def list_all_iff hex_not_space intro!: py_strip_no_space)

lemma is_hex64_nonempty: "is_hex64 s \<Longrightarrow> s \<noteq> []"
  by (auto simp: is_hex64_def BLAKE3_HEX_LENGTH_def)

lemma require_strict_int_iff:
  "require_strict_int v m e = Inr n \<longleftrightarrow> v = PyInt n \<and> m \<le> n"
  by (cases "(v, m, e)" rule: require_strict_int.cases) auto

lemma require_strict_non_negative_int_iff [res_simps]:
  "require_strict_non_negative_int v e = Inr n \<longleftrightarrow> v = PyInt n \<and> 0 \<le> n"
  by (simp add: require_strict_non_negative_int_def require_strict_int_iff)

lemma require_strict_positive_int_iff [res_simps]:
  "require_strict_positive_int v e = Inr n \<longleftrightarrow> v = PyInt n \<and> 0 < n"
  by (cases v) (auto simp: require_strict_positive_int_def require_strict_non_negative_int_def)

end
