(* ===== verification/Json.thy ===== *)
theory Json
  imports Common
begin

text \<open>
  \<open>stopan.common.json.canonical_json_bytes\<close> and the part of \<open>json.dumps\<close> it uses:
  sorted keys, no whitespace, strings escaped as the standard library does (with or without
  \<open>ensure_ascii\<close>), then UTF-8. The main fact is that the text determines the value:
  identifiers hashed from canonical JSON differ as byte strings whenever the values differ.

  A float is kept as the text \<open>json.dumps\<close> prints for it: \<open>float.__repr__\<close>, the shortest
  decimal text that reads back to the same float, or \<open>NaN\<close>, \<open>Infinity\<close>, \<open>-Infinity\<close>.
\<close>

datatype json =
    JNull
  | JBool bool
  | JInt int
  | JFloat string
  | JStr string
  | JArr "json list"
  | JObj "(string \<times> json) list"

definition hex_digit :: "nat \<Rightarrow> char" where
  "hex_digit n = (if n < 10 then char_of (48 + n) else char_of (87 + n))"

text \<open>The escape of one character: \<open>ESCAPE\<close> (control characters, quote, backslash) or,
  with \<open>ensure_ascii\<close>, \<open>ESCAPE_ASCII\<close> (also everything outside \<open>' '..'~'\<close>).\<close>

definition json_esc_char :: "bool \<Rightarrow> char \<Rightarrow> string" where
  "json_esc_char asc c =
     (let n = (of_char c :: nat) in
      if n = 34 then [CHR 0x5C, CHR 0x22]
      else if n = 92 then [CHR 0x5C, CHR 0x5C]
      else if n = 10 then [CHR 0x5C, CHR ''n'']
      else if n = 13 then [CHR 0x5C, CHR ''r'']
      else if n = 9 then [CHR 0x5C, CHR ''t'']
      else if n = 12 then [CHR 0x5C, CHR ''f'']
      else if n = 8 then [CHR 0x5C, CHR ''b'']
      else if n < 32 \<or> (asc \<and> 126 < n)
      then [CHR 0x5C, CHR ''u'', CHR ''0'', CHR ''0'', hex_digit (n div 16), hex_digit (n mod 16)]
      else [c])"

definition json_quote :: "bool \<Rightarrow> string \<Rightarrow> string" where
  "json_quote asc s = CHR 0x22 # concat (map (json_esc_char asc) s) @ [CHR 0x22]"

fun comma_join :: "string list \<Rightarrow> string" where
  "comma_join [] = []"
| "comma_join [x] = x"
| "comma_join (x # y # xs) = x @ CHR '','' # comma_join (y # xs)"

fun json_dumps :: "bool \<Rightarrow> json \<Rightarrow> string" where
  "json_dumps asc JNull = ''null''"
| "json_dumps asc (JBool b) = (if b then ''true'' else ''false'')"
| "json_dumps asc (JInt i) = dec_int i"
| "json_dumps asc (JFloat t) = t"
| "json_dumps asc (JStr s) = json_quote asc s"
| "json_dumps asc (JArr vs) = CHR ''['' # comma_join (map (json_dumps asc) vs) @ [CHR '']'']"
| "json_dumps asc (JObj kvs) =
     CHR ''{'' # comma_join (map (\<lambda>(k, t). json_quote asc k @ CHR '':'' # t)
                  (sort_key fst (map (\<lambda>(k, v). (k, json_dumps asc v)) kvs))) @ [CHR ''}'']"

definition utf8_char :: "char \<Rightarrow> bytes" where
  "utf8_char c =
     (let n = (of_char c :: nat) in
      if n < 128 then [of_nat n] else [of_nat (192 + n div 64), of_nat (128 + n mod 64)])"

definition utf8_encode :: "string \<Rightarrow> bytes" where
  "utf8_encode s = concat (map utf8_char s)"

definition canonical_json_bytes :: "json \<Rightarrow> bytes" where
  "canonical_json_bytes v = utf8_encode (json_dumps False v)"

text \<open>A value as a Python dict has it: every object has distinct keys; here they are also
  listed in sorted order, so that equal dicts are equal values.\<close>

definition is_num_char :: "char \<Rightarrow> bool" where
  "is_num_char c \<longleftrightarrow> is_dec_char c \<or> c \<in> {CHR ''.'', CHR ''e'', CHR ''+'', CHR ''-''}"

text \<open>The text of a finite float: it has a point or an exponent, which sets it apart from an integer.\<close>

definition is_float_text :: "string \<Rightarrow> bool" where
  "is_float_text t \<longleftrightarrow> t \<noteq> [] \<and> (hd t = CHR ''-'' \<or> is_dec_char (hd t)) \<and> list_all is_num_char t
     \<and> (CHR ''.'' \<in> set t \<or> CHR ''e'' \<in> set t)"

fun json_wf :: "json \<Rightarrow> bool" where
  "json_wf (JArr vs) = list_all json_wf vs"
| "json_wf (JObj kvs) = (sorted (map fst kvs) \<and> distinct (map fst kvs) \<and> list_all (\<lambda>(k, v). json_wf v) kvs)"
| "json_wf (JFloat t) = is_float_text t"
| "json_wf _ = True"

section \<open>Escapes form a prefix code\<close>

lemma hex_digit_inj: "m < 16 \<Longrightarrow> n < 16 \<Longrightarrow> hex_digit m = hex_digit n \<Longrightarrow> m = n"
  unfolding hex_digit_def
  by (auto split: if_splits dest: arg_cong [where f = "of_char :: char \<Rightarrow> nat"])

lemma of_char_lt: "(of_char c :: nat) < 256"
  by (metis of_char_mod_256 mod_less_divisor zero_less_numeral)

lemma char_eq_of_char: "c = d \<longleftrightarrow> (of_char c :: nat) = of_char d"
  by simp

lemma json_esc_char_hd: "json_esc_char asc c = x # xs \<Longrightarrow> x \<noteq> CHR 0x22"
  unfolding json_esc_char_def Let_def by (auto split: if_splits)

lemma json_esc_char_nonempty: "json_esc_char asc c \<noteq> []"
  unfolding json_esc_char_def Let_def by auto

lemma json_esc_u_inj:
  assumes "hex_digit ((of_char c :: nat) div 16) = hex_digit (of_char d div 16)"
    and "hex_digit ((of_char c :: nat) mod 16) = hex_digit (of_char d mod 16)"
  shows "c = d"
proof -
  have "(of_char c :: nat) div 16 < 16" "(of_char d :: nat) div 16 < 16"
    using of_char_lt [of c] of_char_lt [of d] by (simp_all add: less_mult_imp_div_less)
  then have "(of_char c :: nat) div 16 = of_char d div 16" "(of_char c :: nat) mod 16 = of_char d mod 16"
    using assms hex_digit_inj by auto
  then have "(of_char c :: nat) = of_char d" by (metis div_mult_mod_eq)
  then show ?thesis by simp
qed

definition short_escapes :: "(char \<times> nat) set" where
  "short_escapes = {(CHR 0x22, 34), (CHR 0x5C, 92), (CHR ''n'', 10), (CHR ''r'', 13),
                    (CHR ''t'', 9), (CHR ''f'', 12), (CHR ''b'', 8)}"

lemma short_escapes_fun: "(k, m) \<in> short_escapes \<Longrightarrow> (k, n) \<in> short_escapes \<Longrightarrow> m = n"
  unfolding short_escapes_def by auto

lemma short_escapes_not_u: "(CHR ''u'', m) \<notin> short_escapes"
  unfolding short_escapes_def by simp

lemma json_esc_char_shape:
  "(json_esc_char asc c = [c] \<and> c \<noteq> CHR 0x5C)
   \<or> (\<exists>k. json_esc_char asc c = [CHR 0x5C, k] \<and> (k, of_char c) \<in> short_escapes)
   \<or> json_esc_char asc c = [CHR 0x5C, CHR ''u'', CHR ''0'', CHR ''0'',
         hex_digit (of_char c div 16), hex_digit (of_char c mod 16)]"
proof -
  consider "(of_char c :: nat) \<in> {34, 92, 10, 13, 9, 12, 8}"
    | "(of_char c :: nat) \<notin> {34, 92, 10, 13, 9, 12, 8}" "(of_char c :: nat) < 32 \<or> (asc \<and> (126 :: nat) < of_char c)"
    | "(of_char c :: nat) \<notin> {34, 92, 10, 13, 9, 12, 8}" "\<not> ((of_char c :: nat) < 32 \<or> (asc \<and> (126 :: nat) < of_char c))"
    by blast
  then show ?thesis
  proof cases
    case 1
    then show ?thesis by (auto simp: json_esc_char_def short_escapes_def)
  next
    case 2
    then show ?thesis by (simp add: json_esc_char_def Let_def)
  next
    case 3
    then have "c \<noteq> CHR 0x5C" by auto
    with 3 show ?thesis by (simp add: json_esc_char_def Let_def)
  qed
qed

lemma json_esc_char_cases:
  obtains (plain) "json_esc_char asc c = [c]" "c \<noteq> CHR 0x5C"
  | (short) k where "json_esc_char asc c = [CHR 0x5C, k]" "(k, of_char c) \<in> short_escapes"
  | (uni) "json_esc_char asc c = [CHR 0x5C, CHR ''u'', CHR ''0'', CHR ''0'',
       hex_digit (of_char c div 16), hex_digit (of_char c mod 16)]"
  using json_esc_char_shape [of asc c] by blast

lemma json_esc_char_prefix:
  assumes eq: "json_esc_char asc c @ x = json_esc_char asc d @ y"
  shows "c = d \<and> x = y"
proof (cases asc c rule: json_esc_char_cases)
  case plain
  then show ?thesis using eq by (cases asc d rule: json_esc_char_cases) auto
next
  case c: (short k)
  show ?thesis
  proof (cases asc d rule: json_esc_char_cases)
    case (short k')
    then have "k = k'" "x = y" using c eq by auto
    then have "(of_char c :: nat) = of_char d" using c short short_escapes_fun by blast
    then show ?thesis using \<open>x = y\<close> by simp
  qed (use c eq short_escapes_not_u in auto)
next
  case c: uni
  show ?thesis
  proof (cases asc d rule: json_esc_char_cases)
    case uni
    then have "hex_digit ((of_char c :: nat) div 16) = hex_digit (of_char d div 16)"
      "hex_digit ((of_char c :: nat) mod 16) = hex_digit (of_char d mod 16)" "x = y"
      using c eq by simp_all
    then show ?thesis using json_esc_u_inj by blast
  qed (use c eq short_escapes_not_u in auto)
qed

lemma json_esc_quote_neq: "json_esc_char asc c @ x \<noteq> CHR 0x22 # y"
  using json_esc_char_hd json_esc_char_nonempty by (cases "json_esc_char asc c") auto

lemma json_esc_string_prefix:
  "concat (map (json_esc_char asc) s) @ CHR 0x22 # x = concat (map (json_esc_char asc) t) @ CHR 0x22 # y
   \<Longrightarrow> s = t \<and> x = y"
proof (induction s arbitrary: t)
  case Nil
  then show ?case
    by (cases t) (auto dest: sym [THEN json_esc_quote_neq [THEN notE]])
next
  case (Cons c s)
  show ?case
  proof (cases t)
    case Nil
    then show ?thesis using Cons.prems
      by (simp add: json_esc_quote_neq)
  next
    case (Cons d t')
    with Cons.prems have "json_esc_char asc c @ (concat (map (json_esc_char asc) s) @ CHR 0x22 # x)
        = json_esc_char asc d @ (concat (map (json_esc_char asc) t') @ CHR 0x22 # y)"
      by simp
    from json_esc_char_prefix [OF this] Cons.IH [of t'] Cons show ?thesis by auto
  qed
qed

lemma json_quote_prefix: "json_quote asc s @ x = json_quote asc t @ y \<Longrightarrow> s = t \<and> x = y"
  by (auto simp: json_quote_def dest!: json_esc_string_prefix)

section \<open>The text determines the value\<close>

definition no_digit :: "string \<Rightarrow> bool" where
  "no_digit x \<longleftrightarrow> (x = [] \<or> \<not> is_num_char (hd x))"

lemma no_digit_Cons [simp]: "no_digit (c # x) \<longleftrightarrow> \<not> is_num_char c"
  by (simp add: no_digit_def)

lemma number_prefix:
  assumes "s @ x = t @ y" "no_digit x" "no_digit y" "list_all is_num_char s" "list_all is_num_char t"
  shows "s = t \<and> x = y"
proof -
  have "takeWhile is_num_char (u @ z) = u" if "no_digit z" "list_all is_num_char u" for u z
    using that by (cases z) (auto simp: no_digit_def list_all_iff takeWhile_append2)
  then have "s = t" using assms by metis
  then show ?thesis using assms(1) by simp
qed

lemma dec_nat_hd: "dec_nat n = c # cs \<Longrightarrow> is_dec_char c"
  using dec_nat_dec [of n] by simp

lemma not_dec_chars [simp]:
  "\<not> is_dec_char (CHR ''-'')" "\<not> is_dec_char (CHR '','')" "\<not> is_dec_char (CHR '':'')"
  "\<not> is_dec_char (CHR '']'')" "\<not> is_dec_char (CHR ''}'')" "\<not> is_dec_char (CHR ''['')"
  "\<not> is_dec_char (CHR ''{'')" "\<not> is_dec_char (CHR 0x22)" "\<not> is_dec_char (CHR ''n'')"
  "\<not> is_dec_char (CHR ''t'')" "\<not> is_dec_char (CHR ''f'')" "\<not> is_dec_char (CHR ''.'')" "\<not> is_dec_char (CHR ''e'')"
  by (simp_all add: is_dec_char_def)

lemma not_num_chars [simp]:
  "\<not> is_num_char (CHR '','')" "\<not> is_num_char (CHR '':'')" "\<not> is_num_char (CHR '']'')" "\<not> is_num_char (CHR ''}'')"
  by (simp_all add: is_num_char_def)

lemma dec_int_chars: "list_all is_num_char (dec_int i)" "CHR ''.'' \<notin> set (dec_int i)" "CHR ''e'' \<notin> set (dec_int i)"
  using dec_nat_dec [of "nat i"] dec_nat_dec [of "nat (- i)"]
  by (auto simp: dec_int_def is_num_char_def list_all_iff)

lemma dec_int_inj:
  assumes "dec_int i = dec_int j"
  shows "i = j"
proof -
  have minus: "dec_nat n \<noteq> CHR ''-'' # cs" for n cs
  proof
    assume "dec_nat n = CHR ''-'' # cs"
    from dec_nat_hd [OF this] show False by simp
  qed
  show ?thesis
  proof (cases "i < 0 \<longleftrightarrow> j < 0")
    case True
    then have "dec_nat (nat (if i < 0 then - i else i)) = dec_nat (nat (if i < 0 then - j else j))" using assms by (auto simp: dec_int_def)
    then have "nat (if i < 0 then - i else i) = nat (if i < 0 then - j else j)" by (rule dec_nat_inj)
    then show ?thesis using True by (auto split: if_splits)
  next
    case False
    then show ?thesis using assms minus by (metis dec_int_def)
  qed
qed

lemma dec_int_not_float: "dec_int i \<noteq> t" if "is_float_text t"
  using that dec_int_chars [of i] by (auto simp: is_float_text_def)

text \<open>The first character of a rendered value tells its kind.\<close>

definition kind_char :: "json \<Rightarrow> char \<Rightarrow> bool" where
  "kind_char v c = (case v of
      JNull \<Rightarrow> c = CHR ''n''
    | JBool b \<Rightarrow> c = (if b then CHR ''t'' else CHR ''f'')
    | JInt i \<Rightarrow> c = CHR ''-'' \<or> is_dec_char c
    | JFloat t \<Rightarrow> c = CHR ''-'' \<or> is_dec_char c
    | JStr s \<Rightarrow> c = CHR 0x22
    | JArr vs \<Rightarrow> c = CHR ''[''
    | JObj kvs \<Rightarrow> c = CHR ''{'')"

lemma json_dumps_hd:
  assumes "json_wf v"
  shows "\<exists>c cs. json_dumps asc v = c # cs \<and> kind_char v c"
proof (cases v)
  case (JFloat t)
  then show ?thesis using assms by (cases t) (auto simp: kind_char_def is_float_text_def)
next
  case (JInt i)
  then show ?thesis using dec_nat_hd
    by (cases "dec_nat (nat i)") (auto simp: kind_char_def dec_int_def)
qed (auto simp: kind_char_def json_quote_def)

lemma json_dumps_not_closer:
  "json_wf v \<Longrightarrow> c \<in> {CHR '']'', CHR ''}''} \<Longrightarrow> json_dumps asc v @ x \<noteq> c # y"
proof -
  assume wf: "json_wf v" and c: "c \<in> {CHR '']'', CHR ''}''}"
  obtain d ds where "json_dumps asc v = d # ds" "kind_char v d" using json_dumps_hd [OF wf] by blast
  moreover have "\<not> kind_char v c" using c by (cases v) (auto simp: kind_char_def)
  ultimately show ?thesis by (metis append_Cons list.inject)
qed

lemma comma_join_Cons:
  "comma_join (e # es) @ x = e @ (if es = [] then x else CHR '','' # comma_join es @ x)"
  by (cases es) auto

lemma comma_join_prefix:
  assumes "comma_join (map e vs) @ c # x = comma_join (map e ws) @ c # y"
    and "c \<noteq> CHR '',''" "\<not> is_num_char c"
    and inj: "\<And>v w x y. v \<in> set vs \<Longrightarrow> w \<in> set ws \<Longrightarrow> e v @ x = e w @ y \<Longrightarrow>
                no_digit x \<Longrightarrow> no_digit y \<Longrightarrow> v = w \<and> x = y"
    and hd: "\<And>v x y. v \<in> set vs \<union> set ws \<Longrightarrow> e v @ x \<noteq> c # y"
  shows "vs = ws \<and> x = y"
  using assms(1) inj hd
proof (induction vs arbitrary: ws)
  case Nil
  show ?case
  proof (cases ws)
    case W: (Cons w ws')
    have "comma_join (map e ws) @ c # y = e w @ (if map e ws' = [] then c # y else CHR '','' # comma_join (map e ws') @ c # y)"
      unfolding W list.map by (rule comma_join_Cons)
    then show ?thesis using Nil.prems(1) Nil.prems(3) [of w] W by (metis UnI2 list.set_intros(1) append_Nil comma_join.simps(1) list.simps(8))
  qed (use Nil.prems(1) in simp)
next
  case (Cons v vs)
  show ?case
  proof (cases ws)
    case Nil
    have "comma_join (map e (v # vs)) @ c # x = e v @ (if map e vs = [] then c # x else CHR '','' # comma_join (map e vs) @ c # x)"
      unfolding list.map by (rule comma_join_Cons)
    then show ?thesis using Cons.prems(1) Nil Cons.prems(3) [of v] by (metis UnI1 list.set_intros(1) append_Nil comma_join.simps(1) list.simps(8))
  next
    case W: (Cons w ws')
    define r where "r us z = (if us = [] then c # z else CHR '','' # comma_join (map e us) @ c # z)" for us z
    have "e v @ r vs x = e w @ r ws' y"
      using Cons.prems(1) W by (simp add: comma_join_Cons r_def)
    moreover have "no_digit (r us z)" for us z using assms(3) by (simp add: r_def)
    ultimately have "v = w" and rest: "r vs x = r ws' y"
      using Cons.prems(2) [of v w] W by auto
    show ?thesis
    proof (cases "vs = [] \<or> ws' = []")
      case True
      then show ?thesis using rest \<open>v = w\<close> W assms(2) by (auto simp: r_def split: if_splits)
    next
      case False
      then have "comma_join (map e vs) @ c # x = comma_join (map e ws') @ c # y"
        using rest by (simp add: r_def)
      then show ?thesis using Cons.IH [of ws'] Cons.prems(2,3) W \<open>v = w\<close> by auto
    qed
  qed
qed

lemma json_dumps_JObj:
  assumes "sorted (map fst kvs)"
  shows "json_dumps asc (JObj kvs) =
     CHR ''{'' # comma_join (map (\<lambda>(k, v). json_quote asc k @ CHR '':'' # json_dumps asc v) kvs) @ [CHR ''}'']"
proof -
  let ?ts = "map (\<lambda>(k, v). (k, json_dumps asc v)) kvs"
  have "map fst ?ts = map fst kvs" by auto
  then have "sort_key fst ?ts = ?ts" using assms sort_key_id_if_sorted [of fst ?ts] by (simp only:)
  moreover have "map (\<lambda>(k, t). json_quote asc k @ CHR '':'' # t) ?ts
      = map (\<lambda>(k, v). json_quote asc k @ CHR '':'' # json_dumps asc v) kvs"
    by auto
  ultimately show ?thesis by (simp only: json_dumps.simps)
qed

lemma insort_key_fst_map:
  "insort_key fst (k, g v) (map (\<lambda>(k, v). (k, g v)) ps) = map (\<lambda>(k, v). (k, g v)) (insort_key fst (k, v) ps)"
  by (induction ps) auto

lemma sort_key_fst_map:
  "sort_key fst (map (\<lambda>(k, v). (k, g v)) kvs) = map (\<lambda>(k, v). (k, g v)) (sort_key fst kvs)"
  by (induction kvs) (auto simp: insort_key_fst_map)

text \<open>The order in which a dict was filled does not show in the text.\<close>

lemma json_dumps_sort_keys: "json_dumps asc (JObj kvs) = json_dumps asc (JObj (sort_key fst kvs))"
  by (simp add: sort_key_fst_map sort_key_id_if_sorted [OF sorted_sort_key])

lemma same_kind: "kind_char v c \<Longrightarrow> kind_char w c \<Longrightarrow>
    (case v of JArr _ \<Rightarrow> (\<exists>ws. w = JArr ws) | JObj _ \<Rightarrow> (\<exists>ws. w = JObj ws)
      | JInt _ \<Rightarrow> (\<exists>j. w = JInt j) \<or> (\<exists>t. w = JFloat t) | JFloat _ \<Rightarrow> (\<exists>j. w = JInt j) \<or> (\<exists>t. w = JFloat t) | JStr _ \<Rightarrow> (\<exists>t. w = JStr t) | _ \<Rightarrow> w = v)"
  by (cases v; cases w) (auto simp: kind_char_def split: if_splits)

lemma json_dumps_kind:
  assumes "json_wf v" "json_wf w" "json_dumps asc v @ x = json_dumps asc w @ y"
  obtains c where "kind_char v c" "kind_char w c"
proof -
  obtain c cs d ds where "json_dumps asc v = c # cs" "kind_char v c"
      "json_dumps asc w = d # ds" "kind_char w d"
    using json_dumps_hd assms(1,2) by meson
  then show ?thesis using assms(3) that by auto
qed

lemma json_dumps_prefix:
  "json_wf v \<Longrightarrow> json_wf w \<Longrightarrow> json_dumps asc v @ x = json_dumps asc w @ y \<Longrightarrow>
   no_digit x \<Longrightarrow> no_digit y \<Longrightarrow> v = w \<and> x = y"
proof (induction v arbitrary: w x y)
  case (JArr vs)
  obtain ws where w: "w = JArr ws"
    by (rule json_dumps_kind [OF JArr.prems(1-3)]) (drule (1) same_kind, auto)
  have "vs = ws \<and> x = y"
  proof (rule comma_join_prefix [where c = "CHR '']''" and e = "json_dumps asc"])
    show "comma_join (map (json_dumps asc) vs) @ CHR '']'' # x = comma_join (map (json_dumps asc) ws) @ CHR '']'' # y"
      using JArr.prems(3) w by simp
  qed (use JArr w in \<open>auto simp: list_all_iff json_dumps_not_closer\<close>)
  then show ?case using w by simp
next
  case (JObj kvs)
  obtain ws where w: "w = JObj ws"
    by (rule json_dumps_kind [OF JObj.prems(1-3)]) (drule (1) same_kind, auto)
  let ?e = "\<lambda>(k, v). json_quote asc k @ CHR '':'' # json_dumps asc v"
  have "kvs = ws \<and> x = y"
  proof (rule comma_join_prefix [where c = "CHR ''}''" and e = ?e])
    show "comma_join (map ?e kvs) @ CHR ''}'' # x = comma_join (map ?e ws) @ CHR ''}'' # y"
      using JObj.prems(1-3) w by (simp add: json_dumps_JObj del: json_dumps.simps(7))
    show "p = q \<and> x' = y'"
      if "p \<in> set kvs" "q \<in> set ws" "?e p @ x' = ?e q @ y'" "no_digit x'" "no_digit y'" for p q x' y'
    proof -
      obtain k v l u where pq: "p = (k, v)" "q = (l, u)" by (cases p; cases q)
      with that(3) have "k = l" and e: "json_dumps asc v @ x' = json_dumps asc u @ y'"
        using json_quote_prefix [of asc k "CHR '':'' # json_dumps asc v @ x'" l] by simp_all
      have "json_wf v" "json_wf u" using JObj.prems(1,2) w pq that(1,2) by (auto simp: list_all_iff)
      then show ?thesis using JObj.IH [OF that(1), of v u x' y'] pq \<open>k = l\<close> e that(4,5) by simp
    qed
  qed (auto simp: json_quote_def)
  then show ?case using w by simp
next
  case (JInt i)
  have "(\<exists>j. w = JInt j) \<or> (\<exists>t. w = JFloat t)"
    by (rule json_dumps_kind [OF JInt.prems(1-3)]) (drule (1) same_kind, simp)
  then show ?case
  proof (elim disjE exE)
    fix j assume w: "w = JInt j"
    have "dec_int i = dec_int j \<and> x = y" using JInt.prems(3-5) w dec_int_chars(1) by (intro number_prefix) auto
    then show ?thesis using w dec_int_inj by auto
  next
    fix t assume w: "w = JFloat t"
    have "dec_int i = t \<and> x = y" using JInt.prems(2-5) w dec_int_chars(1) by (intro number_prefix) (auto simp: is_float_text_def)
    then show ?thesis using w JInt.prems(2) dec_int_not_float by auto
  qed
next
  case (JFloat s)
  have "(\<exists>j. w = JInt j) \<or> (\<exists>t. w = JFloat t)"
    by (rule json_dumps_kind [OF JFloat.prems(1-3)]) (drule (1) same_kind, simp)
  then show ?case
  proof (elim disjE exE)
    fix j assume w: "w = JInt j"
    have "s = dec_int j \<and> x = y" using JFloat.prems w dec_int_chars(1) by (intro number_prefix) (auto simp: is_float_text_def)
    then show ?thesis using w JFloat.prems(1) dec_int_not_float by (metis json_wf.simps(3))
  next
    fix t assume w: "w = JFloat t"
    have "s = t \<and> x = y" using JFloat.prems w by (intro number_prefix) (auto simp: is_float_text_def)
    then show ?thesis using w by simp
  qed
next
  case (JStr s)
  obtain t where w: "w = JStr t"
    by (rule json_dumps_kind [OF JStr.prems(1-3)]) (drule (1) same_kind, auto)
  from JStr.prems(3) have "json_quote asc s @ x = json_quote asc t @ y" unfolding w by simp
  then have "s = t \<and> x = y" by (rule json_quote_prefix)
  then show ?case using w by simp
next
  case JNull
  have "w = JNull" by (rule json_dumps_kind [OF JNull.prems(1-3)]) (drule (1) same_kind, simp)
  then show ?case using JNull.prems(3) by simp
next
  case (JBool b)
  have "w = JBool b" by (rule json_dumps_kind [OF JBool.prems(1-3)]) (drule (1) same_kind, simp)
  then show ?case using JBool.prems(3) by simp
qed

lemma json_dumps_inj:
  "json_wf v \<Longrightarrow> json_wf w \<Longrightarrow> json_dumps asc v = json_dumps asc w \<Longrightarrow> v = w"
  using json_dumps_prefix [of v w asc "[]" "[]"] by (simp add: no_digit_def)

section \<open>UTF-8\<close>

lemma utf8_char_prefix:
  assumes "utf8_char c @ x = utf8_char d @ y"
  shows "c = d \<and> x = y"
proof -
  have b: "(of_nat m :: byte) = of_nat n \<longleftrightarrow> m = n" if "m < 256" "n < 256" for m n :: nat
  proof -
    have "unat (of_nat m :: byte) = m" "unat (of_nat n :: byte) = n"
      using that by (simp_all add: unat_of_nat)
    then show ?thesis by metis
  qed
  have lt: "(of_char c :: nat) < 256" "(of_char d :: nat) < 256" by (rule of_char_lt)+
  have "192 + m div 64 < 256" if "m < 256" for m :: nat
    using div_le_mono [of m 255 64] that by simp
  then have hi: "192 + (of_char c :: nat) div 64 < 256" "192 + (of_char d :: nat) div 64 < 256"
    using lt by blast+
  consider "(of_char c :: nat) < 128" "(of_char d :: nat) < 128"
    | "(of_char c :: nat) < 128" "\<not> (of_char d :: nat) < 128"
    | "\<not> (of_char c :: nat) < 128" "(of_char d :: nat) < 128"
    | "\<not> (of_char c :: nat) < 128" "\<not> (of_char d :: nat) < 128" by blast
  then show ?thesis
  proof cases
    case 1
    then show ?thesis using assms b lt by (simp add: utf8_char_def)
  next
    case 2
    then have "(of_nat (of_char c) :: byte) = of_nat (192 + of_char d div 64)"
      using assms by (simp add: utf8_char_def Let_def)
    then have "of_char c = 192 + (of_char d :: nat) div 64" using b lt hi by blast
    then show ?thesis using 2 by simp
  next
    case 3
    then have "(of_nat (192 + of_char c div 64) :: byte) = of_nat (of_char d)"
      using assms by (simp add: utf8_char_def Let_def)
    then have "192 + (of_char c :: nat) div 64 = of_char d" using b lt hi by blast
    then show ?thesis using 3 by simp
  next
    case 4
    then have "(of_nat (192 + of_char c div 64) :: byte) = of_nat (192 + of_char d div 64)"
      "(of_nat (128 + of_char c mod 64) :: byte) = of_nat (128 + of_char d mod 64)" and "x = y"
      using assms by (simp_all add: utf8_char_def Let_def)
    moreover have "128 + (of_char c :: nat) mod 64 < 256" "128 + (of_char d :: nat) mod 64 < 256"
      by simp_all
    ultimately have "192 + (of_char c :: nat) div 64 = 192 + of_char d div 64"
      "128 + (of_char c :: nat) mod 64 = 128 + of_char d mod 64"
      using b hi by blast+
    then have "(of_char c :: nat) = of_char d" by (metis add_left_cancel div_mult_mod_eq)
    with \<open>x = y\<close> show ?thesis by simp
  qed
qed

lemma utf8_encode_inj: "utf8_encode s = utf8_encode t \<Longrightarrow> s = t"
proof (induction s arbitrary: t)
  case Nil
  then show ?case by (cases t) (auto simp: utf8_encode_def utf8_char_def Let_def split: if_splits)
next
  case (Cons c s)
  obtain d t' where t: "t = d # t'"
    using Cons.prems by (cases t) (auto simp: utf8_encode_def utf8_char_def Let_def split: if_splits)
  then have "utf8_char c @ utf8_encode s = utf8_char d @ utf8_encode t'"
    using Cons.prems by (simp add: utf8_encode_def)
  then have "c = d \<and> utf8_encode s = utf8_encode t'" by (rule utf8_char_prefix)
  then show ?case using Cons.IH t by simp
qed

lemma canonical_json_bytes_inj:
  "json_wf v \<Longrightarrow> json_wf w \<Longrightarrow> canonical_json_bytes v = canonical_json_bytes w \<Longrightarrow> v = w"
  unfolding canonical_json_bytes_def by (blast dest: utf8_encode_inj json_dumps_inj)

section \<open>Reading values back\<close>

text \<open>A dict written with \<open>sort_keys\<close> and parsed again has the same items with the keys in
  sorted order, at every level.\<close>

fun json_sorted :: "json \<Rightarrow> json" where
  "json_sorted (JArr vs) = JArr (map json_sorted vs)"
| "json_sorted (JObj kvs) = JObj (sort_key fst (map (\<lambda>(k, v). (k, json_sorted v)) kvs))"
| "json_sorted v = v"

fun json_dict :: "json \<Rightarrow> bool" where
  "json_dict (JArr vs) = list_all json_dict vs"
| "json_dict (JObj kvs) = (distinct (map fst kvs) \<and> list_all (\<lambda>(k, v). json_dict v) kvs)"
| "json_dict (JFloat t) = is_float_text t"
| "json_dict _ = True"

text \<open>\<open>raw[key]\<close> and \<open>raw.get(key)\<close> on a parsed value; subscripting anything but a dict with
  a string raises \<open>TypeError\<close>.\<close>

fun json_item :: "json \<Rightarrow> string \<Rightarrow> json result" where
  "json_item (JObj kvs) key = (case map_of kvs key of None \<Rightarrow> Inl KeyError | Some v \<Rightarrow> Inr v)"
| "json_item _ key = Inl TypeError"

definition json_get :: "(string \<times> json) list \<Rightarrow> string \<Rightarrow> json" where
  "json_get kvs key = (case map_of kvs key of None \<Rightarrow> JNull | Some v \<Rightarrow> v)"

text \<open>\<open>int(text)\<close>: surrounding whitespace, a sign, decimal digits with single underscores
  between them.\<close>

fun int_digits :: "bool \<Rightarrow> nat \<Rightarrow> string \<Rightarrow> nat option" where
  "int_digits after_digit acc [] = (if after_digit then Some acc else None)"
| "int_digits after_digit acc (c # cs) =
     (if is_dec_char c then int_digits True (10 * acc + (of_char c - 48)) cs
      else if c = CHR ''_'' \<and> after_digit then int_digits False acc cs
      else None)"

definition py_int_of_str :: "string \<Rightarrow> int result" where
  "py_int_of_str s =
     (let signed = (\<lambda>sgn r. case int_digits False 0 r of None \<Rightarrow> Inl ValueError | Some n \<Rightarrow> Inr (sgn * int n))
      in case py_strip s of
           [] \<Rightarrow> Inl ValueError
         | c # r \<Rightarrow> if c = CHR ''-'' then signed (- 1) r
                    else if c = CHR ''+'' then signed 1 r else signed 1 (c # r))"

text \<open>
  The value of a float from its text: \<open>M * 10 ^ k\<close>, read to 53 significant bits with ties to even.
  Below \<open>10 ^ 16\<close> \<open>repr\<close> has no exponent and the digits before the point are the truncated value,
  because every integer in that range is a float and reading is monotone.
\<close>

definition digits_value :: "string \<Rightarrow> nat" where
  "digits_value ds = foldl (\<lambda>a c. 10 * a + (of_char c - 48)) 0 ds"

definition float_parts :: "string \<Rightarrow> bool \<times> nat \<times> int" where
  "float_parts t =
     (let neg = (t \<noteq> [] \<and> hd t = CHR ''-''); body = (if neg then tl t else t);
          ip = takeWhile is_dec_char body;
          fr = (case dropWhile is_dec_char body of [] \<Rightarrow> [] | c # r \<Rightarrow> if c = CHR ''.'' then takeWhile is_dec_char r else []);
          ex = (case tl (dropWhile (\<lambda>c. c \<noteq> CHR ''e'') body) of
                  [] \<Rightarrow> 0
                | c # r \<Rightarrow> if c = CHR ''-'' then - int (digits_value r)
                           else if c = CHR ''+'' then int (digits_value r) else int (digits_value (c # r)))
      in (neg, digits_value (ip @ fr), ex - int (length fr)))"

fun bit_length :: "nat \<Rightarrow> nat" where
  "bit_length n = (if n = 0 then 0 else Suc (bit_length (n div 2)))"

declare bit_length.simps [simp del]

definition round53 :: "nat \<Rightarrow> nat" where
  "round53 n =
     (let b = bit_length n - 53; q = n div 2 ^ b; r = n mod 2 ^ b in
      (if 2 * r > 2 ^ b \<or> 2 * r = 2 ^ b \<and> odd q then Suc q else q) * 2 ^ b)"

definition float_special :: "string \<Rightarrow> bool" where
  "float_special t \<longleftrightarrow> t \<in> {''NaN'', ''Infinity'', ''-Infinity''}"

definition float_int :: "string \<Rightarrow> int result" where
  "float_int t =
     (if t = ''NaN'' then Inl ValueError
      else if float_special t then Inl OverflowError
      else case float_parts t of (neg, m, k) \<Rightarrow>
        let a = (if 0 \<le> k then round53 (m * 10 ^ nat k) else m div 10 ^ nat (- k)) in
        Inr (if neg then - int a else int a))"

definition float_integral :: "string \<Rightarrow> bool" where
  "float_integral t \<longleftrightarrow> \<not> float_special t \<and> (case float_parts t of (neg, m, k) \<Rightarrow> 0 \<le> k \<or> m mod 10 ^ nat (- k) = 0)"

definition float_negative :: "string \<Rightarrow> bool" where
  "float_negative t \<longleftrightarrow> (case float_parts t of (neg, m, k) \<Rightarrow> neg \<and> m \<noteq> 0)"

fun json_int :: "json \<Rightarrow> int result" where
  "json_int (JInt i) = Inr i"
| "json_int (JFloat t) = float_int t"
| "json_int (JBool b) = Inr (if b then 1 else 0)"
| "json_int (JStr s) = py_int_of_str s"
| "json_int _ = Inl TypeError"

text \<open>\<open>str(value)\<close>; the rendering of a container is the argument \<open>repr\<close>.\<close>

fun json_str :: "(json \<Rightarrow> string) \<Rightarrow> json \<Rightarrow> string" where
  "json_str repr (JStr s) = s"
| "json_str repr (JInt i) = dec_int i"
| "json_str repr (JFloat t) = (if t = ''NaN'' then ''nan'' else if t = ''Infinity'' then ''inf'' else if t = ''-Infinity'' then ''-inf'' else t)"
| "json_str repr (JBool b) = (if b then ''True'' else ''False'')"
| "json_str repr JNull = ''None''"
| "json_str repr v = repr v"

text \<open>\<open>value == n\<close>: Python's \<open>True\<close> equals 1, \<open>False\<close> equals 0 and a float its exact value.\<close>

definition json_eq_int :: "json \<Rightarrow> int \<Rightarrow> bool" where
  "json_eq_int v n \<longleftrightarrow> v = JInt n \<or> v = JBool True \<and> n = 1 \<or> v = JBool False \<and> n = 0
     \<or> (case v of JFloat t \<Rightarrow> float_integral t \<and> float_int t = Inr n | _ \<Rightarrow> False)"

lemma distinct_map_sort: "distinct (map f (sort_key f xs)) = distinct (map f xs)"
  by (metis distinct_map distinct_sort set_sort)

lemma json_dumps_sorted: "json_dumps asc (json_sorted v) = json_dumps asc v"
proof (induction v)
  case (JObj kvs)
  have "map (\<lambda>(k, v). (k, json_dumps asc v)) (map (\<lambda>(k, v). (k, json_sorted v)) kvs) = map (\<lambda>(k, v). (k, json_dumps asc v)) kvs"
    using JObj by auto
  then have "json_dumps asc (JObj (map (\<lambda>(k, v). (k, json_sorted v)) kvs)) = json_dumps asc (JObj kvs)"
    by (simp only: json_dumps.simps)
  then show ?case by (simp only: json_sorted.simps json_dumps_sort_keys [symmetric])
next
  case (JArr vs)
  then show ?case by (simp cong: map_cong)
qed simp_all

lemma json_wf_sorted: "json_dict v \<Longrightarrow> json_wf (json_sorted v)"
proof (induction v)
  case (JObj kvs)
  let ?ps = "map (\<lambda>(k, v). (k, json_sorted v)) kvs"
  have "distinct (map fst (sort_key fst ?ps))"
    using JObj.prems by (simp add: distinct_map_sort comp_def split_def)
  moreover have "\<forall>p \<in> set ?ps. json_wf (snd p)"
    using JObj by (fastforce simp: list_all_iff)
  ultimately show ?case by (auto simp: list_all_iff split_def)
next
  case (JArr vs)
  then show ?case by (auto simp: list_all_iff)
qed simp_all

lemma json_dumps_eq_sorted:
  "json_dict v \<Longrightarrow> json_dict w \<Longrightarrow> json_dumps asc v = json_dumps asc w \<Longrightarrow> json_sorted v = json_sorted w"
  by (metis json_dumps_inj json_dumps_sorted json_wf_sorted)

lemma map_of_sort_key: "distinct (map fst kvs) \<Longrightarrow> map_of (sort_key fst kvs) = map_of kvs"
  by (subst map_of_inject_set) (simp_all add: distinct_map_sort)

end
