(* ===== verification/Placement.thy ===== *)
theory Placement
  imports Json
begin

text \<open>
  \<open>stopan.placement\<close> (HRW ranking, placement epoch) and \<open>stopan.cluster.view\<close>.
  BLAKE3 is a parameter: \<open>digest\<close> is the raw digest of a message, \<open>hexdigest\<close> its
  hexadecimal rendering. \<open>heapq\<close> is represented by the sorted list of the heap's
  elements: the code observes a heap only through \<open>heap[0]\<close> (its least element), its
  length and the final \<open>heap.sort(reverse=True)\<close>.
\<close>

section \<open>HRW\<close>

definition HRW_PLACEMENT_SCHEME :: string where
  "HRW_PLACEMENT_SCHEME = ''hrw-blake3-v1''"

definition int_from_bytes_big :: "bytes \<Rightarrow> int" where
  "int_from_bytes_big bs = foldl (\<lambda>a b. 256 * a + uint b) 0 bs"

definition hrw_score :: "(bytes \<Rightarrow> bytes) \<Rightarrow> string \<Rightarrow> string \<Rightarrow> string \<Rightarrow> int" where
  "hrw_score digest chunk_hash salt node_id =
     int_from_bytes_big (digest (utf8_encode (salt @ ''|'' @ node_id @ ''|'' @ chunk_hash)))"

definition heappush :: "'a::linorder list \<Rightarrow> 'a \<Rightarrow> 'a list" where
  "heappush heap item = insort item heap"

definition heapreplace :: "'a::linorder list \<Rightarrow> 'a \<Rightarrow> 'a list" where
  "heapreplace heap item = insort item (tl heap)"

fun hrw_loop :: "(string \<Rightarrow> int) \<Rightarrow> nat \<Rightarrow> (int \<times> string) list \<Rightarrow> string list \<Rightarrow> (int \<times> string) list" where
  "hrw_loop score k heap [] = heap"
| "hrw_loop score k heap (node_id # node_ids) =
     (if node_id = [] then hrw_loop score k heap node_ids
      else let item = (score node_id, node_id) in
        if length heap < k then hrw_loop score k (heappush heap item) node_ids
        else if hd heap < item then hrw_loop score k (heapreplace heap item) node_ids
        else hrw_loop score k heap node_ids)"

definition hrw_top_k_node_ids ::
    "(bytes \<Rightarrow> bytes) \<Rightarrow> string \<Rightarrow> string list \<Rightarrow> int \<Rightarrow> string \<Rightarrow> string list" where
  "hrw_top_k_node_ids digest chunk_hash node_ids k salt =
     (if k \<le> 0 then []
      else map snd (rev (sort (hrw_loop (hrw_score digest chunk_hash salt) (nat k) [] node_ids))))"

section \<open>Placement epoch\<close>

definition PLACEMENT_EPOCH_FORMAT :: string where
  "PLACEMENT_EPOCH_FORMAT = ''stopan.placement-epoch.v1''"

definition normalized_node_ids :: "string list \<Rightarrow> string list" where
  "normalized_node_ids eligible = sort (remdups (filter (\<lambda>n. n \<noteq> []) eligible))"

definition placement_epoch_material :: "string \<Rightarrow> int \<Rightarrow> string list \<Rightarrow> json" where
  "placement_epoch_material cluster_token desired_rf eligible =
     JObj [(''format'', JStr PLACEMENT_EPOCH_FORMAT),
           (''placement_scheme'', JStr HRW_PLACEMENT_SCHEME),
           (''cluster_token'', JStr cluster_token),
           (''desired_rf'', JInt desired_rf),
           (''eligible_node_ids'', JArr (map JStr (normalized_node_ids eligible)))]"

definition compute_placement_epoch ::
    "(bytes \<Rightarrow> string) \<Rightarrow> string \<Rightarrow> int \<Rightarrow> string list \<Rightarrow> string" where
  "compute_placement_epoch hexdigest cluster_token desired_rf eligible =
     hexdigest (canonical_json_bytes (placement_epoch_material cluster_token desired_rf eligible))"

section \<open>The cluster view\<close>

record cluster_member =
  node_id :: string
  address :: string

record cluster_view =
  self_node_id :: "string option"
  members :: "cluster_member list"

definition node_ids :: "cluster_view \<Rightarrow> string list" where
  "node_ids c = map node_id (members c)"

definition node_addresses :: "cluster_view \<Rightarrow> (string \<times> string) list" where
  "node_addresses c = dict_of (map (\<lambda>m. (node_id m, address m)) (members c))"

definition candidate_members_excluding :: "cluster_view \<Rightarrow> string set \<Rightarrow> cluster_member list" where
  "candidate_members_excluding c excluded =
     filter (\<lambda>m. node_id m \<noteq> [] \<and> node_id m \<notin> {n \<in> excluded. n \<noteq> []}) (members c)"

definition candidate_node_ids_excluding :: "cluster_view \<Rightarrow> string set \<Rightarrow> string list" where
  "candidate_node_ids_excluding c excluded = map node_id (candidate_members_excluding c excluded)"

definition hrw_targets_excluding ::
    "(bytes \<Rightarrow> bytes) \<Rightarrow> cluster_view \<Rightarrow> string \<Rightarrow> int \<Rightarrow> string \<Rightarrow> string set \<Rightarrow> cluster_member list" where
  "hrw_targets_excluding digest c chunk_hash rf salt excluded =
     (let candidates = candidate_members_excluding c excluded in
      if candidates = [] then []
      else let k = min (max rf 0) (int (length candidates)) in
        if k \<le> 0 then []
        else let ranked = hrw_top_k_node_ids digest chunk_hash (map node_id candidates) k salt;
                 address_map = map_of (node_addresses c)
             in List.map_filter (\<lambda>n. map_option (\<lambda>a. \<lparr>node_id = n, address = a\<rparr>) (address_map n)) ranked)"

definition hrw_targets ::
    "(bytes \<Rightarrow> bytes) \<Rightarrow> cluster_view \<Rightarrow> string \<Rightarrow> int \<Rightarrow> string \<Rightarrow> cluster_member list" where
  "hrw_targets digest c chunk_hash rf salt = hrw_targets_excluding digest c chunk_hash rf salt {}"

definition placement_epoch :: "(bytes \<Rightarrow> string) \<Rightarrow> cluster_view \<Rightarrow> int \<Rightarrow> string \<Rightarrow> string" where
  "placement_epoch hexdigest c desired_rf cluster_token =
     compute_placement_epoch hexdigest cluster_token desired_rf (node_ids c)"

definition placement_epoch_excluding ::
    "(bytes \<Rightarrow> string) \<Rightarrow> cluster_view \<Rightarrow> int \<Rightarrow> string \<Rightarrow> string set \<Rightarrow> string" where
  "placement_epoch_excluding hexdigest c desired_rf cluster_token excluded =
     compute_placement_epoch hexdigest cluster_token desired_rf (candidate_node_ids_excluding c excluded)"

section \<open>Resolving a view\<close>

text \<open>\<open>ClusterMembershipClient.get_cluster_view\<close>: the members of a \<open>GetMembers\<close>
  response, one per identifier, and the identifier announced at the caller's own address.
  \<open>response\<close> is the outcome of the RPC, an error or the listed (identifier, address)
  pairs.\<close>

definition view_of_response :: "string \<Rightarrow> (string \<times> string) list \<Rightarrow> cluster_view" where
  "view_of_response self_addr infos =
     (let by_id = dict_of (map (\<lambda>(n, a). (n, \<lparr>node_id = n, address = a\<rparr>))
                        (filter (\<lambda>(n, a). n \<noteq> [] \<and> a \<noteq> []) infos));
          ms = map snd by_id
      in \<lparr>self_node_id = map_option node_id (find (\<lambda>m. address m = self_addr) ms), members = ms\<rparr>)"

definition get_cluster_view :: "string \<Rightarrow> (exn + (string \<times> string) list) \<Rightarrow> cluster_view result" where
  "get_cluster_view self_addr response =
     (case response of Inl e \<Rightarrow> Inl StopanNetworkError
      | Inr infos \<Rightarrow> Inr (view_of_response (py_strip self_addr) infos))"

record cluster_view_resolution =
  res_seed :: string
  res_cluster :: cluster_view

definition require_cluster_view ::
    "string option \<Rightarrow> string \<Rightarrow> (string \<Rightarrow> exn + (string \<times> string) list) \<Rightarrow> bool
       \<Rightarrow> cluster_view_resolution result" where
  "require_cluster_view membership_seed self_addr get_members allow_empty_members =
     (let seed = py_strip (case membership_seed of None \<Rightarrow> [] | Some s \<Rightarrow> s) in
      if seed = [] then Inl StopanUsageError
      else bindE (get_cluster_view self_addr (get_members seed)) (\<lambda>cluster.
        if members cluster = [] \<and> \<not> allow_empty_members then Inl StopanNetworkError
        else Inr \<lparr>res_seed = seed, res_cluster = cluster\<rparr>))"

definition try_cluster_view ::
    "string option \<Rightarrow> string \<Rightarrow> (string \<Rightarrow> exn + (string \<times> string) list)
       \<Rightarrow> cluster_view_resolution option" where
  "try_cluster_view membership_seed self_addr get_members =
     (let seed = py_strip (case membership_seed of None \<Rightarrow> [] | Some s \<Rightarrow> s) in
      if seed = [] then None
      else case get_cluster_view self_addr (get_members seed) of
        Inl e \<Rightarrow> None
      | Inr cluster \<Rightarrow> if members cluster = [] then None
                       else Some \<lparr>res_seed = seed, res_cluster = cluster\<rparr>)"

text \<open>Every view a client resolves has one member per identifier.\<close>

definition view_wf :: "cluster_view \<Rightarrow> bool" where
  "view_wf c \<longleftrightarrow> distinct (node_ids c)"

section \<open>The bounded heap keeps the best k\<close>

definition hrw_ranking :: "(string \<Rightarrow> int) \<Rightarrow> string list \<Rightarrow> (int \<times> string) list" where
  "hrw_ranking score ids = rev (sort (map (\<lambda>n. (score n, n)) (filter (\<lambda>n. n \<noteq> []) ids)))"

lemma hrw_loop_drop:
  assumes "0 < k"
  shows "hrw_loop score k (drop (length items - k) (sort items)) ids =
     drop (length items + length (filter (\<lambda>n. n \<noteq> []) ids) - k)
       (sort (items @ map (\<lambda>n. (score n, n)) (filter (\<lambda>n. n \<noteq> []) ids)))"
proof (induction ids arbitrary: items)
  case Nil
  then show ?case by simp
next
  case (Cons n ids)
  let ?heap = "drop (length items - k) (sort items)" and ?it = "(score n, n)"
  have sort_it: "sort (items @ [?it]) = insort ?it (sort items)"
    by (rule sort_snoc)
  show ?case
  proof (cases "n = []")
    case True
    then show ?thesis using Cons.IH [of items] by simp
  next
    case False
    have heap': "hrw_loop score k ?heap (n # ids) = hrw_loop score k (drop (length (items @ [?it]) - k) (sort (items @ [?it]))) ids"
    proof (cases "length items < k")
      case True
      then show ?thesis using False by (simp add: sort_it heappush_def Let_def)
    next
      case full: False
      define m where "m = length items - k"
      have m: "m < length (sort items)" "Suc m = length (items @ [?it]) - k"
        using full assms by (simp_all add: m_def)
      have hd: "hd ?heap = sort items ! m" and tl: "tl ?heap = drop (Suc m) (sort items)"
        using m(1) by (simp_all add: m_def hd_drop_conv_nth tl_drop drop_Suc)
      have "length ?heap = k" using full by simp
      then show ?thesis
        using False hd tl m drop_Suc_insort [of "sort items" m ?it]
        by (simp add: sort_it heapreplace_def Let_def flip: m_def)
    qed
    show ?thesis unfolding heap' Cons.IH using False by simp
  qed
qed

lemma hrw_top_k_ranking:
  "hrw_top_k_node_ids digest h ids k salt = map snd (take (nat k) (hrw_ranking (hrw_score digest h salt) ids))"
proof (cases "k \<le> 0")
  case False
  let ?items = "map (\<lambda>n. (hrw_score digest h salt n, n)) (filter (\<lambda>n. n \<noteq> []) ids)"
  have "hrw_loop (hrw_score digest h salt) (nat k) [] ids = drop (length ?items - nat k) (sort ?items)"
    using hrw_loop_drop [of "nat k" "hrw_score digest h salt" "[]" ids] False by simp
  moreover have "sort (drop j (sort ?items)) = drop j (sort ?items)" for j
    by (rule sorted_sort_id) (simp add: sorted_wrt_drop)
  ultimately show ?thesis using False
    by (simp add: hrw_top_k_node_ids_def hrw_ranking_def take_rev del: length_map)
qed (simp add: hrw_top_k_node_ids_def)

lemma hrw_top_k_zero [simp]: "hrw_top_k_node_ids digest h ids 0 salt = []"
  by (simp add: hrw_top_k_node_ids_def)

section \<open>The selector contract\<close>

text \<open>What the planners of replication and erasure coding rely on: the chosen identifiers are
  distinct candidates, as many as asked for or all of them.\<close>

locale target_selector =
  fixes sel :: "string \<Rightarrow> string list \<Rightarrow> nat \<Rightarrow> string list"
  assumes sel_subset: "set (sel h ids k) \<subseteq> {n \<in> set ids. n \<noteq> []}"
    and sel_distinct: "distinct ids \<Longrightarrow> distinct (sel h ids k)"
    and sel_length: "length (sel h ids k) = min k (length (filter (\<lambda>n. n \<noteq> []) ids))"
begin

lemma sel_full:
  assumes "distinct ids" "[] \<notin> set ids" "length ids \<le> k"
  shows "set (sel h ids k) = set ids"
proof (rule card_subset_eq)
  have "filter (\<lambda>n. n \<noteq> []) ids = ids" using assms(2) by (auto simp: filter_id_conv)
  then show "card (set (sel h ids k)) = card (set ids)"
    using assms sel_distinct [OF assms(1)] sel_length [of h ids k] by (simp add: distinct_card)
qed (use sel_subset in auto)

lemma sel_avoids: "x \<notin> set ids \<Longrightarrow> x \<notin> set (sel h ids k)"
  using sel_subset by blast

end

lemma map_snd_ranking: "mset (map snd (hrw_ranking score ids)) = mset (filter (\<lambda>n. n \<noteq> []) ids)"
proof -
  have "mset (map snd (hrw_ranking score ids)) = image_mset snd (mset (map (\<lambda>n. (score n, n)) (filter (\<lambda>n. n \<noteq> []) ids)))"
    by (simp add: hrw_ranking_def)
  also have "\<dots> = mset (filter (\<lambda>n. n \<noteq> []) ids)"
    by (simp only: mset_map multiset.map_comp comp_def snd_conv multiset.map_ident)
  finally show ?thesis .
qed

interpretation hrw: target_selector "\<lambda>h ids k. hrw_top_k_node_ids digest h ids (int k) salt" for digest salt
proof unfold_locales
  fix h ids k
  let ?r = "hrw_ranking (hrw_score digest h salt) ids"
  have m: "mset (map snd ?r) = mset (filter (\<lambda>n. n \<noteq> []) ids)" by (rule map_snd_ranking)
  have "set (take k (map snd ?r)) \<subseteq> set (map snd ?r)" by (rule set_take_subset)
  then show "set (hrw_top_k_node_ids digest h ids (int k) salt) \<subseteq> {n \<in> set ids. n \<noteq> []}"
    using mset_eq_setD [OF m] by (auto simp: hrw_top_k_ranking take_map)
  show "distinct (hrw_top_k_node_ids digest h ids (int k) salt)" if "distinct ids"
  proof -
    have "distinct (map snd ?r)" using m that by (metis distinct_filter mset_eq_imp_distinct_iff)
    then show ?thesis by (simp add: hrw_top_k_ranking take_map [symmetric] del: map_snd_ranking)
  qed
  have "length ?r = length (filter (\<lambda>n. n \<noteq> []) ids)" by (simp add: hrw_ranking_def)
  then show "length (hrw_top_k_node_ids digest h ids (int k) salt) = min k (length (filter (\<lambda>n. n \<noteq> []) ids))"
    by (simp add: hrw_top_k_ranking min.commute)
qed

section \<open>Properties of HRW\<close>

text \<open>C6. The bounded-heap selection is rendezvous hashing: for every input it returns the
  first k identifiers of the full ranking by decreasing (score, identifier), empty
  identifiers left out.\<close>

theorem hrw_top_k_is_ranking_prefix:
  "hrw_top_k_node_ids digest chunk_hash ids k salt =
     map snd (take (nat k) (rev (sort
       (map (\<lambda>n. (hrw_score digest chunk_hash salt n, n)) (filter (\<lambda>n. n \<noteq> []) ids)))))"
  using hrw_top_k_ranking by (simp add: hrw_ranking_def)

lemma hrw_ranking_filter:
  "hrw_ranking score (filter (\<lambda>n. n \<noteq> x) ids) = filter (\<lambda>p. snd p \<noteq> x) (hrw_ranking score ids)"
proof -
  have "sort (map (\<lambda>n. (score n, n)) (filter (\<lambda>n. n \<noteq> []) (filter (\<lambda>n. n \<noteq> x) ids)))
      = sort (filter (\<lambda>p. snd p \<noteq> x) (map (\<lambda>n. (score n, n)) (filter (\<lambda>n. n \<noteq> []) ids)))"
    by (simp add: filter_map comp_def conj_commute)
  also have "\<dots> = filter (\<lambda>p. snd p \<noteq> x) (sort (map (\<lambda>n. (score n, n)) (filter (\<lambda>n. n \<noteq> []) ids)))"
    by (simp add: filter_sort)
  finally show ?thesis by (simp add: hrw_ranking_def rev_filter)
qed


text \<open>The order in which candidates are listed does not matter.\<close>

lemma hrw_top_k_order_independent:
  "mset ids = mset ids' \<Longrightarrow> hrw_top_k_node_ids digest h ids k salt = hrw_top_k_node_ids digest h ids' k salt"
proof -
  assume m: "mset ids = mset ids'"
  let ?f = "\<lambda>xs. map (\<lambda>n. (hrw_score digest h salt n, n)) (filter (\<lambda>n. n \<noteq> []) xs)"
  have "mset (?f ids) = mset (?f ids')" using m by (simp only: mset_map mset_filter)
  then have "sort (?f ids) = sort (?f ids')" by (intro properties_for_sort) simp_all
  then show ?thesis by (simp add: hrw_top_k_ranking hrw_ranking_def)
qed

section \<open>Properties of the cluster view\<close>

lemma dict_of_pairs_snd:
  assumes "\<And>p. p \<in> set ps \<Longrightarrow> node_id (snd p) = fst p" "q \<in> set (dict_of ps)"
  shows "node_id (snd q) = fst q"
  using assms
proof (induction ps arbitrary: q rule: rev_induct)
  case (snoc p ps)
  obtain k v where p: "p = (k, v)" by (cases p)
  have "q \<in> insert p (set (dict_of ps))"
    using subsetD [OF set_update_subset snoc.prems(2) [unfolded p dict_of_snoc]] p by simp
  then show ?case
  proof
    assume "q = p"
    then show ?thesis using snoc.prems(1) [of p] by simp
  next
    assume "q \<in> set (dict_of ps)"
    then show ?thesis by (rule snoc.IH [rotated]) (simp add: snoc.prems(1))
  qed
qed simp

lemma view_of_response_wf [wf_intros]: "view_wf (view_of_response a infos)"
proof -
  let ?ps = "map (\<lambda>(n, a). (n, \<lparr>node_id = n, address = a\<rparr>)) (filter (\<lambda>(n, a). n \<noteq> [] \<and> a \<noteq> []) infos)"
  have "node_id (snd q) = fst q" if "q \<in> set (dict_of ?ps)" for q
    by (rule dict_of_pairs_snd [OF _ that]) auto
  then have "map node_id (map snd (dict_of ?ps)) = map fst (dict_of ?ps)" by simp
  then show ?thesis
    by (simp only: view_wf_def node_ids_def view_of_response_def Let_def cluster_view.simps distinct_keys_dict_of)
qed

lemma require_cluster_view_wf:
  "require_cluster_view seed a get allow = Inr r \<Longrightarrow> view_wf (res_cluster r)"
  by (auto simp: require_cluster_view_def Let_def get_cluster_view_def bindE_eq_Inr
      view_of_response_wf split: sum.splits if_splits)

lemma node_addresses_member:
  assumes "view_wf c" "m \<in> set (members c)"
  shows "map_of (node_addresses c) (node_id m) = Some (address m)"
proof -
  have d: "distinct (map fst (map (\<lambda>m. (node_id m, address m)) (members c)))"
    using assms(1) by (simp add: view_wf_def node_ids_def comp_def)
  then have "node_addresses c = map (\<lambda>m. (node_id m, address m)) (members c)"
    unfolding node_addresses_def by (rule dict_of_distinct)
  then show ?thesis using d assms(2) by (auto intro: map_of_is_SomeI)
qed

lemma candidates_distinct: "view_wf c \<Longrightarrow> distinct (candidate_node_ids_excluding c X)"
  unfolding view_wf_def node_ids_def candidate_node_ids_excluding_def candidate_members_excluding_def
  by (rule distinct_map_filter_sub)

lemma candidate_ids:
  "set (candidate_node_ids_excluding c X) = {n \<in> set (node_ids c). n \<noteq> [] \<and> n \<notin> X}"
  by (auto simp: candidate_node_ids_excluding_def candidate_members_excluding_def node_ids_def)

lemma hrw_targets_map:
  assumes "view_wf c"
  shows "hrw_targets_excluding digest c h rf salt X =
     map (\<lambda>n. \<lparr>node_id = n, address = the (map_of (node_addresses c) n)\<rparr>)
       (hrw_top_k_node_ids digest h (candidate_node_ids_excluding c X)
          (int (min (nat rf) (length (candidate_node_ids_excluding c X)))) salt)" (is "?L = map ?g ?ns")
proof (cases "candidate_members_excluding c X = [] \<or> rf \<le> 0")
  case True
  then show ?thesis
    by (auto simp: hrw_targets_excluding_def candidate_node_ids_excluding_def hrw_top_k_node_ids_def Let_def)
next
  case False
  let ?C = "candidate_node_ids_excluding c X"
  have k: "min (max rf 0) (int (length (candidate_members_excluding c X))) = int (min (nat rf) (length ?C))"
    using False by (auto simp: candidate_node_ids_excluding_def)
  have "map_option (\<lambda>a. \<lparr>node_id = n, address = a\<rparr>) (map_of (node_addresses c) n) = Some (?g n)"
    if "n \<in> set ?ns" for n
  proof -
    have "n \<in> set ?C" using that hrw.sel_subset by blast
    then obtain m where "m \<in> set (members c)" "node_id m = n"
      by (auto simp: candidate_ids node_ids_def)
    then show ?thesis using node_addresses_member [OF assms] by auto
  qed
  then have "List.map_filter (\<lambda>n. map_option (\<lambda>a. \<lparr>node_id = n, address = a\<rparr>) (map_of (node_addresses c) n)) ?ns
      = map ?g ?ns"
    by (rule map_filter_total)
  moreover have "\<not> int (min (nat rf) (length ?C)) \<le> 0"
    using False by (auto simp: candidate_node_ids_excluding_def)
  ultimately show ?thesis
    using False k unfolding hrw_targets_excluding_def Let_def
    by (simp add: candidate_node_ids_excluding_def)
qed

lemma hrw_targets_excluding_props:
  assumes "view_wf c"
  shows "set (hrw_targets_excluding digest c h rf salt X) \<subseteq> set (members c)
    \<and> distinct (map node_id (hrw_targets_excluding digest c h rf salt X))
    \<and> node_id ` set (hrw_targets_excluding digest c h rf salt X) \<inter> X = {}
    \<and> length (hrw_targets_excluding digest c h rf salt X)
        = min (nat rf) (length (candidate_node_ids_excluding c X))"
proof -
  let ?C = "candidate_node_ids_excluding c X"
  let ?k = "min (nat rf) (length ?C)"
  let ?ns = "hrw_top_k_node_ids digest h ?C (int ?k) salt"
  let ?g = "\<lambda>n. \<lparr>node_id = n, address = the (map_of (node_addresses c) n)\<rparr>"
  have T: "hrw_targets_excluding digest c h rf salt X = map ?g ?ns" by (rule hrw_targets_map [OF assms])
  have sub: "set ?ns \<subseteq> set ?C" using hrw.sel_subset by blast
  have mem: "?g n \<in> set (members c)" if n: "n \<in> set ?ns" for n
  proof -
    from n sub obtain m where m: "m \<in> set (members c)" "node_id m = n"
      by (auto simp: candidate_ids node_ids_def)
    then have "?g n = m" using node_addresses_member [OF assms m(1)] by auto
    with m show ?thesis by simp
  qed
  have "filter (\<lambda>n. n \<noteq> []) ?C = ?C" by (auto simp: filter_id_conv candidate_ids)
  then have len: "length ?ns = ?k" using hrw.sel_length [of digest h ?C ?k salt] by simp
  have ids: "map node_id (map ?g ?ns) = ?ns" by (simp add: comp_def)
  have dist: "distinct ?ns" using candidates_distinct [OF assms] by (rule hrw.sel_distinct)
  have "set ?ns \<inter> X = {}" using sub by (auto simp: candidate_ids)
  then show ?thesis unfolding T using mem len ids dist by (auto simp: image_image)
qed

lemma hrw_targets_candidates:
  assumes "view_wf c" "m \<in> set (hrw_targets_excluding digest c h rf salt X)"
  shows "m \<in> set (candidate_members_excluding c X)"
proof -
  have "m \<in> set (members c)" "node_id m \<notin> X"
    using hrw_targets_excluding_props [OF assms(1), of digest h rf salt X] assms(2) by auto
  moreover have "node_id m \<in> set (candidate_node_ids_excluding c X)"
    using assms(2) hrw.sel_subset unfolding hrw_targets_map [OF assms(1)] by fastforce
  ultimately show ?thesis by (auto simp: candidate_ids candidate_members_excluding_def)
qed

text \<open>Remote targets: on a resolved view the selected members are members of the view,
  carry pairwise different identifiers, none of them is excluded, and there are as many as
  requested or, when there are not enough candidates, all of them.\<close>

theorem hrw_targets_sound:
  assumes "view_wf c"
  shows "set (hrw_targets_excluding digest c h rf salt X) \<subseteq> set (members c)
    \<and> distinct (map node_id (hrw_targets_excluding digest c h rf salt X))
    \<and> node_id ` set (hrw_targets_excluding digest c h rf salt X) \<inter> X = {}
    \<and> length (hrw_targets_excluding digest c h rf salt X)
        = min (nat rf) (length (candidate_node_ids_excluding c X))"
  by (rule hrw_targets_excluding_props [OF assms])

lemma hrw_targets_sound_witness_view: "view_wf (view_of_response ''a'' [(''n1'', ''a''), (''n2'', ''b''), (''n3'', ''c'')])"
  by (rule view_of_response_wf)

theorem hrw_targets_sound_witness:
  "length (hrw_targets_excluding (\<lambda>_. []) (view_of_response ''a'' [(''n1'', ''a''), (''n2'', ''b''), (''n3'', ''c'')])
      ''h'' 2 ''s'' {''n1''}) = 2"
  using hrw_targets_sound [OF hrw_targets_sound_witness_view, of "\<lambda>_. []" "''h''" 2 "''s''" "{''n1''}"]
  by (simp add: view_of_response_def dict_of_def candidate_node_ids_excluding_def candidate_members_excluding_def)

section \<open>Properties of the placement epoch\<close>

lemma normalized_node_ids_eq:
  "normalized_node_ids xs = normalized_node_ids ys \<longleftrightarrow> {n \<in> set xs. n \<noteq> []} = {n \<in> set ys. n \<noteq> []}"
proof
  assume "normalized_node_ids xs = normalized_node_ids ys"
  then have "set (normalized_node_ids xs) = set (normalized_node_ids ys)" by simp
  then show "{n \<in> set xs. n \<noteq> []} = {n \<in> set ys. n \<noteq> []}" by (simp add: normalized_node_ids_def)
next
  have n: "normalized_node_ids zs = sorted_list_of_set {n \<in> set zs. n \<noteq> []}" for zs
    by (simp add: normalized_node_ids_def sorted_list_of_set_sort_remdups flip: set_filter)
  assume "{n \<in> set xs. n \<noteq> []} = {n \<in> set ys. n \<noteq> []}"
  then show "normalized_node_ids xs = normalized_node_ids ys" by (simp only: n)
qed

definition epoch_material_sorted :: "string \<Rightarrow> int \<Rightarrow> string list \<Rightarrow> json" where
  "epoch_material_sorted token rf eligible =
     JObj [(''cluster_token'', JStr token), (''desired_rf'', JInt rf),
           (''eligible_node_ids'', JArr (map JStr (normalized_node_ids eligible))),
           (''format'', JStr PLACEMENT_EPOCH_FORMAT), (''placement_scheme'', JStr HRW_PLACEMENT_SCHEME)]"

lemma epoch_material_sort:
  "json_dumps asc (placement_epoch_material token rf eligible) = json_dumps asc (epoch_material_sorted token rf eligible)"
  unfolding placement_epoch_material_def epoch_material_sorted_def
  by (subst json_dumps_sort_keys) (simp add: less_eq_list_code)

lemma epoch_material_wf: "json_wf (epoch_material_sorted token rf eligible)"
  by (simp add: epoch_material_sorted_def list_all_iff less_eq_list_code)

lemma epoch_material_bytes_inj:
  "canonical_json_bytes (placement_epoch_material t rf xs) = canonical_json_bytes (placement_epoch_material t' rf' ys)
   \<longleftrightarrow> t = t' \<and> rf = rf' \<and> normalized_node_ids xs = normalized_node_ids ys"
proof -
  have c: "canonical_json_bytes (placement_epoch_material t rf xs) = canonical_json_bytes (epoch_material_sorted t rf xs)"
    for t rf xs by (simp only: canonical_json_bytes_def epoch_material_sort)
  have "canonical_json_bytes (epoch_material_sorted t rf xs) = canonical_json_bytes (epoch_material_sorted t' rf' ys)
     \<longleftrightarrow> epoch_material_sorted t rf xs = epoch_material_sorted t' rf' ys"
    using canonical_json_bytes_inj [OF epoch_material_wf epoch_material_wf] by auto
  also have "\<dots> \<longleftrightarrow> t = t' \<and> rf = rf' \<and> normalized_node_ids xs = normalized_node_ids ys"
    by (auto simp: epoch_material_sorted_def inj_map_eq_map inj_def)
  finally show ?thesis by (simp only: c)
qed

text \<open>C8. The placement epoch identifies the placement context: unless BLAKE3 collides on the
  two hashed messages, two epochs are equal exactly when the cluster token, the required
  number of copies and the set of non-empty eligible identifiers are equal. Order and
  repetition of identifiers do not matter.\<close>

theorem placement_epoch_identifies_context:
  assumes "inj_on hexdigest
     {canonical_json_bytes (placement_epoch_material t rf xs),
      canonical_json_bytes (placement_epoch_material t' rf' ys)}"
  shows "compute_placement_epoch hexdigest t rf xs = compute_placement_epoch hexdigest t' rf' ys
     \<longleftrightarrow> t = t' \<and> rf = rf' \<and> {n \<in> set xs. n \<noteq> []} = {n \<in> set ys. n \<noteq> []}"
proof -
  have "compute_placement_epoch hexdigest t rf xs = compute_placement_epoch hexdigest t' rf' ys
     \<longleftrightarrow> canonical_json_bytes (placement_epoch_material t rf xs)
           = canonical_json_bytes (placement_epoch_material t' rf' ys)"
    unfolding compute_placement_epoch_def using inj_on_eq_iff [OF assms] by simp
  then show ?thesis by (simp only: epoch_material_bytes_inj normalized_node_ids_eq)
qed

definition bytes_as_string :: "bytes \<Rightarrow> string" where
  "bytes_as_string bs = map (\<lambda>b. char_of (unat b)) bs"

lemma bytes_as_string_inj: "inj_on bytes_as_string A"
proof (rule inj_onI)
  fix x y assume e: "bytes_as_string x = bytes_as_string y"
  have "inj (\<lambda>b :: byte. char_of (unat b) :: char)"
  proof (rule injI)
    fix b c :: byte assume "(char_of (unat b) :: char) = char_of (unat c)"
    then have "(of_char (char_of (unat b) :: char) :: nat) = of_char (char_of (unat c) :: char)" by simp
    then have "unat b mod 256 = unat c mod 256" by simp
    moreover have "unat b < 2 ^ LENGTH(8)" "unat c < 2 ^ LENGTH(8)" by (rule unsigned_less)+
    ultimately show "b = c" by (simp add: word_unat_eq_iff)
  qed
  then show "x = y" using e by (simp add: bytes_as_string_def inj_map_eq_map)
qed

theorem placement_epoch_identifies_context_witness:
  "compute_placement_epoch bytes_as_string ''t'' 2 [''b'', ''a'', ''b'']
     = compute_placement_epoch bytes_as_string ''t'' 2 [''a'', ''b'', []]"
  using placement_epoch_identifies_context
      [OF bytes_as_string_inj, of "''t''" 2 "[''b'', ''a'', ''b'']" "''t''" 2 "[''a'', ''b'', []]"]
  by auto

end
