(* ===== verification/Protection.thy ===== *)
theory Protection
  imports Placement
begin

text \<open>
  \<open>stopan.protection.policy\<close>, \<open>protection.replication.states\<close>,
  \<open>protection.ec.states\<close>, \<open>protection.scope.normalize_protection_scope\<close> and the
  effective backup policy of \<open>stopan.backup.policy\<close>: when remote evidence is sufficient,
  and which state a number of confirmed copies or shards leads to.
\<close>

section \<open>Protection records\<close>

datatype protection_state = PENDING | PLACED | DEGRADED | VERIFIED | FAILED

definition counts_as_protected :: "protection_state \<Rightarrow> bool" where
  "counts_as_protected s \<longleftrightarrow> s \<in> {PLACED, VERIFIED}"

record protection_record =
  pr_chunk_hash :: string
  pr_desired_rf :: int
  pr_protection_state :: protection_state
  pr_protected_remote_copies :: int
  pr_placement_epoch :: "string option"
  pr_last_push_at :: "real option"
  pr_last_verify_at :: "real option"
  pr_last_error :: "string option"

definition is_protected :: "protection_record \<Rightarrow> bool" where
  "is_protected r = counts_as_protected (pr_protection_state r)"

definition normalize_remote_rf :: "int \<Rightarrow> int result" where
  "normalize_remote_rf v = (if v < 0 then Inl StopanConfigValueError else Inr v)"

definition is_record_sufficient ::
    "protection_record option \<Rightarrow> int \<Rightarrow> string option \<Rightarrow> bool result" where
  "is_record_sufficient record required_rf current_epoch =
     bindE (normalize_remote_rf required_rf) (\<lambda>required.
       if required = 0 then Inr True
       else case record of
         None \<Rightarrow> Inr False
       | Some r \<Rightarrow>
           if \<not> is_protected r then Inr False
           else if pr_desired_rf r < required then Inr False
           else if current_epoch \<noteq> None \<and> pr_placement_epoch r \<noteq> current_epoch then Inr False
           else if pr_protected_remote_copies r < required then Inr False
           else Inr True)"

definition protection_state_from_thresholds ::
    "int \<Rightarrow> int \<Rightarrow> int \<Rightarrow> protection_state \<Rightarrow> protection_state \<Rightarrow> protection_state \<Rightarrow> protection_state" where
  "protection_state_from_thresholds confirmed success_threshold degraded_threshold
       success_state degraded_state failed_state =
     (if success_threshold \<le> confirmed then success_state
      else if degraded_threshold \<le> confirmed then degraded_state
      else failed_state)"

definition replication_push_state :: "int \<Rightarrow> int \<Rightarrow> protection_state" where
  "replication_push_state protected_remote_copies required_remote_copies =
     protection_state_from_thresholds protected_remote_copies required_remote_copies 1 PLACED DEGRADED FAILED"

definition replication_verify_state :: "int \<Rightarrow> int \<Rightarrow> protection_state" where
  "replication_verify_state verified_remote_copies required_remote_copies =
     protection_state_from_thresholds verified_remote_copies required_remote_copies 0 VERIFIED DEGRADED DEGRADED"

definition data_pack_state :: "int \<Rightarrow> int \<Rightarrow> int \<Rightarrow> protection_state" where
  "data_pack_state protected_shards data_shards total_shards =
     protection_state_from_thresholds protected_shards total_shards data_shards PLACED DEGRADED FAILED"

section \<open>Scopes\<close>

definition PROTECTION_SCOPE_CHOICES :: "string list" where
  "PROTECTION_SCOPE_CHOICES = [''pending'', ''snapshot'', ''all-reachable'', ''all-known-chunks'']"

definition DEFAULT_PROTECTION_SCOPE :: string where
  "DEFAULT_PROTECTION_SCOPE = ''pending''"

text \<open>\<open>str(scope or DEFAULT)\<close>: both \<open>None\<close> and the empty string select the default.\<close>

definition normalize_protection_scope :: "string option \<Rightarrow> int option \<Rightarrow> string result" where
  "normalize_protection_scope scope snapshot_id =
     (let v = py_strip (case scope of None \<Rightarrow> DEFAULT_PROTECTION_SCOPE
                        | Some s \<Rightarrow> if s = [] then DEFAULT_PROTECTION_SCOPE else s) in
      bindE (case snapshot_id of
               None \<Rightarrow> Inr v
             | Some _ \<Rightarrow> if v \<notin> {DEFAULT_PROTECTION_SCOPE, ''snapshot''} then Inl ValueError
                         else Inr ''snapshot'')
        (\<lambda>value.
          if value \<notin> set PROTECTION_SCOPE_CHOICES then Inl ValueError
          else if value = ''snapshot'' \<and> snapshot_id = None then Inl ValueError
          else Inr value))"

section \<open>Backup fast-path policy\<close>

record backup_policy =
  bp_desired_rf :: int
  bp_fast_local_enabled :: bool
  bp_fast_remote_enabled :: bool
  bp_placement_epoch :: "string option"

text \<open>\<open>try_view\<close> is the outcome of \<open>try_cluster_view\<close> for the caller's seed.\<close>

definition resolve_remote_placement_epoch ::
    "(bytes \<Rightarrow> string) \<Rightarrow> int \<Rightarrow> cluster_view_resolution option \<Rightarrow> string \<Rightarrow> string \<Rightarrow> string option result" where
  "resolve_remote_placement_epoch hexdigest desired_rf try_view cluster_token origin =
     (let origin_node_id = py_strip origin in
      if origin_node_id = [] then Inl StopanConfigValueError
      else case try_view of
        None \<Rightarrow> Inr None
      | Some resolved \<Rightarrow>
          bindE (normalize_remote_rf desired_rf) (\<lambda>remote_required.
            if remote_required \<le> 0 then Inr None
            else Inr (Some (placement_epoch_excluding hexdigest (res_cluster resolved)
                              remote_required cluster_token {origin_node_id}))))"

definition build_backup_fast_path_policy ::
    "(bytes \<Rightarrow> string) \<Rightarrow> int \<Rightarrow> string option \<Rightarrow> cluster_view_resolution option \<Rightarrow> string
       \<Rightarrow> bool \<Rightarrow> bool \<Rightarrow> bool \<Rightarrow> string \<Rightarrow> backup_policy result" where
  "build_backup_fast_path_policy hexdigest desired_rf0 membership_seed try_view cluster_token
       fast_local fast_remote safe_mode origin =
     bindE (normalize_remote_rf desired_rf0) (\<lambda>desired_rf.
       let pol = (\<lambda>loc rem ep. Inr \<lparr>bp_desired_rf = desired_rf, bp_fast_local_enabled = loc,
                                  bp_fast_remote_enabled = rem, bp_placement_epoch = ep\<rparr>);
           origin_node_id = py_strip origin
       in if origin_node_id = [] then Inl StopanConfigValueError
          else if safe_mode then pol False False None
          else if \<not> (fast_local \<or> fast_remote) then pol False False None
          else if \<not> fast_remote then pol True False None
          else if desired_rf \<le> 0 then pol True False None
          else if membership_seed = None \<or> membership_seed = Some [] then pol True False None
          else case resolve_remote_placement_epoch hexdigest desired_rf try_view cluster_token origin_node_id of
            Inl e \<Rightarrow> pol True False None
          | Inr None \<Rightarrow> pol True False None
          | Inr (Some epoch) \<Rightarrow> pol True True (Some epoch))"

section \<open>Facts about states and evidence\<close>

lemmas state_defs = replication_push_state_def replication_verify_state_def data_pack_state_def
  protection_state_from_thresholds_def

lemma push_state_iff [simp]:
  "replication_push_state p r = PLACED \<longleftrightarrow> r \<le> p"
  "replication_push_state p r = FAILED \<longleftrightarrow> p < r \<and> p < 1"
  "replication_push_state p r = DEGRADED \<longleftrightarrow> p < r \<and> 1 \<le> p"
  by (auto simp: state_defs)

lemma verify_state_iff [simp]:
  "replication_verify_state p r = VERIFIED \<longleftrightarrow> r \<le> p"
  "replication_verify_state p r = DEGRADED \<longleftrightarrow> p < r"
  by (auto simp: state_defs)

lemma data_pack_state_iff [simp]:
  "data_pack_state p k n = PLACED \<longleftrightarrow> n \<le> p"
  "data_pack_state p k n = DEGRADED \<longleftrightarrow> p < n \<and> k \<le> p"
  "data_pack_state p k n = FAILED \<longleftrightarrow> p < n \<and> p < k"
  by (auto simp: state_defs)

lemma counts_as_protected_simps [simp]:
  "counts_as_protected PLACED" "counts_as_protected VERIFIED"
  "\<not> counts_as_protected PENDING" "\<not> counts_as_protected DEGRADED" "\<not> counts_as_protected FAILED"
  by (simp_all add: counts_as_protected_def)

lemma is_record_sufficient_iff:
  "is_record_sufficient rec req ep = Inr True \<longleftrightarrow>
     req = 0 \<or> (0 < req \<and> (\<exists>r. rec = Some r \<and> is_protected r \<and> req \<le> pr_desired_rf r
       \<and> req \<le> pr_protected_remote_copies r \<and> (ep = None \<or> pr_placement_epoch r = ep)))"
  by (auto simp: is_record_sufficient_def normalize_remote_rf_def split: option.splits)

text \<open>Evidence is trusted only for the current context: a stored record licenses skipping
  or counting a chunk exactly when nothing is required, or the record's state is PLACED or
  VERIFIED, it was recorded for at least the required number of remote copies, at least that
  many are confirmed and, when the caller knows the current epoch, it is the record's. A
  negative requirement is rejected.\<close>

theorem record_sufficient_characterised:
  "is_record_sufficient rec req ep =
     (if req < 0 then Inl StopanConfigValueError
      else Inr (req = 0 \<or> (\<exists>r. rec = Some r \<and> pr_protection_state r \<in> {PLACED, VERIFIED}
            \<and> req \<le> pr_desired_rf r \<and> req \<le> pr_protected_remote_copies r
            \<and> (ep = None \<or> pr_placement_epoch r = ep))))"
  by (auto simp: is_record_sufficient_def normalize_remote_rf_def is_protected_def
      counts_as_protected_def split: option.splits)

text \<open>C9. The remote fast path is only ever enabled with an epoch that describes the current
  cluster without the origin: safe mode, a missing seed, an unusable view or zero copies all
  fall back to the local fast path or to none.\<close>

theorem backup_policy_remote_needs_epoch:
  assumes "build_backup_fast_path_policy hexdigest rf seed try_view token fl fr safe origin = Inr p"
    and "bp_fast_remote_enabled p"
  shows "\<not> safe \<and> fr \<and> 0 < rf \<and> bp_fast_local_enabled p \<and>
    (\<exists>r. try_view = Some r \<and>
      bp_placement_epoch p = Some (placement_epoch_excluding hexdigest (res_cluster r) rf token {py_strip origin}))"
  using assms
  by (auto simp: build_backup_fast_path_policy_def resolve_remote_placement_epoch_def
      normalize_remote_rf_def Let_def split: if_splits option.splits sum.splits)

theorem backup_policy_remote_needs_epoch_witness:
  "\<exists>p r. build_backup_fast_path_policy bytes_as_string 2 (Some ''seed:1'') (Some r) ''tok'' True True False '' n1 ''
       = Inr p \<and> bp_fast_remote_enabled p \<and>
     bp_placement_epoch p = Some (placement_epoch_excluding bytes_as_string (res_cluster r) 2 ''tok'' {''n1''})"
proof -
  define r where "r = \<lparr>res_seed = ''seed:1'', res_cluster =
    \<lparr>self_node_id = None, members = [\<lparr>node_id = ''n1'', address = ''a:1''\<rparr>, \<lparr>node_id = ''n2'', address = ''b:1''\<rparr>]\<rparr>\<rparr>"
  define p where "p = \<lparr>bp_desired_rf = 2, bp_fast_local_enabled = True, bp_fast_remote_enabled = True,
    bp_placement_epoch = Some (placement_epoch_excluding bytes_as_string (res_cluster r) 2 ''tok'' {''n1''})\<rparr>"
  have str: "py_strip '' n1 '' = ''n1''" "py_strip ''n1'' = ''n1''" by (simp_all add: py_strip_def py_isspace_def Let_def)
  have ok: "build_backup_fast_path_policy bytes_as_string 2 (Some ''seed:1'') (Some r) ''tok'' True True False '' n1 '' = Inr p"
    by (simp add: build_backup_fast_path_policy_def resolve_remote_placement_epoch_def
        normalize_remote_rf_def str p_def)
  have en: "bp_fast_remote_enabled p" by (simp add: p_def)
  from backup_policy_remote_needs_epoch [OF ok en] ok en show ?thesis unfolding str by auto
qed

end
