(* ===== verification/ErasureCoding.thy ===== *)
theory ErasureCoding
  imports Protection
begin

text \<open>
  \<open>stopan.protection.ec\<close>: the value types of \<open>models.py\<close> with the checks of their
  \<open>__post_init__\<close> methods, the zfec adapter \<open>codec.py\<close>, the pack builder and its inverse
  \<open>packer.py\<close>, the placement of shards \<open>placement.py\<close> and the manifest \<open>manifest.py\<close>.

  The package \<open>zfec\<close> is a parameter: \<open>None\<close> when it cannot be imported, otherwise its
  encoder and decoder. \<open>zfec_recovers\<close> states what its documentation promises: \<open>n\<close> blocks
  of the size of the primary blocks, any \<open>k\<close> of which give the primary blocks back. BLAKE3
  is the parameter \<open>hexdigest\<close>; the code needs its digests to be 64 lowercase hexadecimal
  characters and, for the round trip, nothing else.
\<close>

section \<open>Validation and value types\<close>

fun require_hash64 :: "pyval \<Rightarrow> string result" where
  "require_hash64 (PyStr value) =
     (let text = py_strip value in
      if \<not> is_valid_blake3_hex (PyStr text) then Inl ErasureCodingError else Inr text)"
| "require_hash64 _ = Inl ErasureCodingError"

definition require_non_negative_int :: "pyval \<Rightarrow> int result" where
  "require_non_negative_int v = require_strict_non_negative_int v ErasureCodingError"

definition require_positive_int :: "pyval \<Rightarrow> int result" where
  "require_positive_int v = require_strict_positive_int v ErasureCodingError"

definition require_config_non_negative_int :: "pyval \<Rightarrow> int result" where
  "require_config_non_negative_int v = require_strict_non_negative_int v ErasureCodingConfigError"

definition require_config_positive_int :: "pyval \<Rightarrow> int result" where
  "require_config_positive_int v = require_strict_positive_int v ErasureCodingConfigError"

record erasure_spec =
  data_shards :: int
  parity_shards :: int
  codec :: string

definition mk_ErasureSpec :: "pyval \<Rightarrow> pyval \<Rightarrow> string \<Rightarrow> erasure_spec result" where
  "mk_ErasureSpec data parity cod =
     bindE (require_config_positive_int data) (\<lambda>d.
     bindE (require_config_non_negative_int parity) (\<lambda>p.
       if d + p > 256 then Inl ErasureCodingConfigError
       else if cod \<noteq> ''zfec'' then Inl ErasureCodingConfigError
       else Inr \<lparr>data_shards = d, parity_shards = p, codec = cod\<rparr>))"

definition total_shards :: "erasure_spec \<Rightarrow> int" where
  "total_shards spec = data_shards spec + parity_shards spec"

definition recoverable_missing_shards :: "erasure_spec \<Rightarrow> int" where
  "recoverable_missing_shards spec = parity_shards spec"

record data_pack_entry =
  de_chunk_hash :: string
  de_offset :: int
  de_length :: int
  de_ordinal :: int

definition mk_DataPackEntry :: "string \<Rightarrow> int \<Rightarrow> int \<Rightarrow> int \<Rightarrow> data_pack_entry result" where
  "mk_DataPackEntry chunk_hash off len ord =
     bindE (require_hash64 (PyStr chunk_hash)) (\<lambda>h.
     bindE (require_non_negative_int (PyInt off)) (\<lambda>o1.
     bindE (require_positive_int (PyInt len)) (\<lambda>l.
     bindE (require_non_negative_int (PyInt ord)) (\<lambda>r.
       Inr \<lparr>de_chunk_hash = h, de_offset = o1, de_length = l, de_ordinal = r\<rparr>))))"

record data_pack_shard =
  ds_pack_hash :: string
  ds_shard_index :: int
  ds_data :: bytes
  ds_shard_hash :: string

text \<open>The public constructor recomputes the digest (\<open>shard_hash\<close> keeps the value given: only
  \<open>pack_hash\<close> and \<open>shard_index\<close> are normalised); \<open>_from_prehashed\<close> does not.\<close>

definition mk_DataPackShard :: "(bytes \<Rightarrow> string) \<Rightarrow> string \<Rightarrow> int \<Rightarrow> bytes \<Rightarrow> string \<Rightarrow> data_pack_shard result" where
  "mk_DataPackShard hexdigest pack_hash shard_index data shard_hash =
     bindE (require_hash64 (PyStr pack_hash)) (\<lambda>p.
     bindE (require_non_negative_int (PyInt shard_index)) (\<lambda>i.
     bindE (require_hash64 (PyStr shard_hash)) (\<lambda>h.
       if hexdigest data \<noteq> h then Inl ErasureCodingError
       else Inr \<lparr>ds_pack_hash = p, ds_shard_index = i, ds_data = data, ds_shard_hash = shard_hash\<rparr>)))"

definition from_prehashed :: "string \<Rightarrow> int \<Rightarrow> bytes \<Rightarrow> string \<Rightarrow> data_pack_shard result" where
  "from_prehashed pack_hash shard_index data shard_hash =
     bindE (require_hash64 (PyStr pack_hash)) (\<lambda>p.
     bindE (require_non_negative_int (PyInt shard_index)) (\<lambda>i.
     bindE (require_hash64 (PyStr shard_hash)) (\<lambda>h.
       Inr \<lparr>ds_pack_hash = p, ds_shard_index = i, ds_data = data, ds_shard_hash = h\<rparr>)))"

record encoded_data_pack =
  ep_pack_hash :: string
  ep_payload_size :: int
  ep_padded_size :: int
  ep_shard_size :: int
  ep_spec :: erasure_spec
  ep_entries :: "data_pack_entry list"
  ep_shards :: "data_pack_shard list"

text \<open>The loop over \<open>enumerate(entries)\<close>: the end of the last entry, or an error.\<close>

fun check_entries :: "int \<Rightarrow> int \<Rightarrow> data_pack_entry list \<Rightarrow> int result" where
  "check_entries ordinal previous_end [] = Inr previous_end"
| "check_entries ordinal previous_end (e # es) =
     (if de_ordinal e \<noteq> ordinal then Inl ErasureCodingError
      else if de_offset e \<noteq> previous_end then Inl ErasureCodingError
      else check_entries (ordinal + 1) (de_offset e + de_length e) es)"

fun check_shards :: "string \<Rightarrow> int \<Rightarrow> int \<Rightarrow> int list \<Rightarrow> data_pack_shard list \<Rightarrow> unit result" where
  "check_shards pack_hash n_total shard_size seen [] = Inr ()"
| "check_shards pack_hash n_total shard_size seen (s # ss) =
     (if ds_pack_hash s \<noteq> pack_hash then Inl ErasureCodingError
      else if ds_shard_index s \<ge> n_total then Inl ErasureCodingError
      else if ds_shard_index s \<in> set seen then Inl ErasureCodingError
      else if int (length (ds_data s)) \<noteq> shard_size then Inl ErasureCodingError
      else check_shards pack_hash n_total shard_size (ds_shard_index s # seen) ss)"

definition mk_EncodedDataPack ::
    "string \<Rightarrow> int \<Rightarrow> int \<Rightarrow> int \<Rightarrow> erasure_spec \<Rightarrow> data_pack_entry list \<Rightarrow> data_pack_shard list
       \<Rightarrow> encoded_data_pack result" where
  "mk_EncodedDataPack pack_hash0 payload_size0 padded_size0 shard_size0 spec entries shards =
     bindE (require_hash64 (PyStr pack_hash0)) (\<lambda>pack_hash.
     bindE (require_non_negative_int (PyInt payload_size0)) (\<lambda>payload_size.
     bindE (require_non_negative_int (PyInt padded_size0)) (\<lambda>padded_size.
     bindE (require_non_negative_int (PyInt shard_size0)) (\<lambda>shard_size.
       if padded_size \<noteq> shard_size * data_shards spec then Inl ErasureCodingError
       else if payload_size > padded_size then Inl ErasureCodingError
       else if int (length shards) \<noteq> total_shards spec then Inl ErasureCodingError
       else bindE (check_entries 0 0 entries) (\<lambda>previous_end.
         if previous_end \<noteq> payload_size then Inl ErasureCodingError
         else bindE (check_shards pack_hash (total_shards spec) shard_size [] shards) (\<lambda>_.
           Inr \<lparr>ep_pack_hash = pack_hash, ep_payload_size = payload_size,
                ep_padded_size = padded_size, ep_shard_size = shard_size, ep_spec = spec,
                ep_entries = entries, ep_shards = sort_key ds_shard_index shards\<rparr>))))))"

section \<open>The codec\<close>

record zfec =
  zfec_encode :: "int \<Rightarrow> int \<Rightarrow> bytes list \<Rightarrow> int list \<Rightarrow> bytes list result"
  zfec_decode :: "int \<Rightarrow> int \<Rightarrow> bytes list \<Rightarrow> int list \<Rightarrow> bytes list result"

definition import_zfec :: "zfec option \<Rightarrow> zfec result" where
  "import_zfec m = (case m of None \<Rightarrow> Inl ErasureCodingDependencyError | Some z \<Rightarrow> Inr z)"

definition py_range :: "int \<Rightarrow> int list" where
  "py_range n = map int [0..<nat n]"

fun spec_data_shards :: "pyval \<Rightarrow> int result" where
  "spec_data_shards (PyInt v) = (if v \<le> 0 then Inl ErasureCodingError else Inr v)"
| "spec_data_shards _ = Inl ErasureCodingError"

text \<open>The source writes the padding as \<^verbatim>\<open>b"\\x00"\<close>: the four bytes backslash, x, 0, 0.\<close>

definition PAD_LITERAL :: bytes where
  "PAD_LITERAL = [0x5C, 0x78, 0x30, 0x30]"

definition split_primary_blocks :: "bytes \<Rightarrow> pyval \<Rightarrow> (bytes list \<times> int) result" where
  "split_primary_blocks payload data_shards0 =
     bindE (spec_data_shards data_shards0) (\<lambda>k.
       let shard_size0 = (int (length payload) + k - 1) div k;
           shard_size = (if shard_size0 = 0 then 1 else shard_size0);
           padded_size = shard_size * k;
           padded = payload @ concat (replicate (nat (padded_size - int (length payload))) PAD_LITERAL);
           blocks = map (\<lambda>index. py_slice padded (index * shard_size) ((index + 1) * shard_size)) (py_range k)
       in Inr (blocks, shard_size))"

text \<open>\<open>zip(wanted_indexes, raw_shards, strict=True)\<close>: a length mismatch raises at the end of
  the shorter list.\<close>

fun encode_shards :: "(bytes \<Rightarrow> string) \<Rightarrow> string \<Rightarrow> int \<Rightarrow> int list \<Rightarrow> bytes list \<Rightarrow> data_pack_shard list result" where
  "encode_shards hexdigest pack_hash shard_size [] [] = Inr []"
| "encode_shards hexdigest pack_hash shard_size (i # is) (data # raws) =
     (if int (length data) \<noteq> shard_size then Inl ErasureCodingError
      else bindE (from_prehashed pack_hash i data (hexdigest data)) (\<lambda>s.
           bindE (encode_shards hexdigest pack_hash shard_size is raws) (\<lambda>ss. Inr (s # ss))))"
| "encode_shards hexdigest pack_hash shard_size _ _ = Inl ValueError"

definition codec_encode ::
    "(bytes \<Rightarrow> string) \<Rightarrow> zfec option \<Rightarrow> string \<Rightarrow> bytes \<Rightarrow> erasure_spec \<Rightarrow> data_pack_shard list result" where
  "codec_encode hexdigest m pack_hash payload spec =
     bindE (import_zfec m) (\<lambda>zfec.
     bindE (split_primary_blocks payload (PyInt (data_shards spec))) (\<lambda>(primary_blocks, shard_size).
       let wanted_indexes = py_range (total_shards spec) in
       bindE (zfec_encode zfec (data_shards spec) (total_shards spec) primary_blocks wanted_indexes)
         (encode_shards hexdigest pack_hash shard_size wanted_indexes)))"

fun collect_shards :: "string \<Rightarrow> int \<Rightarrow> int list \<Rightarrow> data_pack_shard list \<Rightarrow> (bytes list \<times> int list) result" where
  "collect_shards expected n_total seen [] = Inr ([], [])"
| "collect_shards expected n_total seen (s # ss) =
     (if ds_pack_hash s \<noteq> expected then Inl ErasureCodingError
      else if ds_shard_index s \<ge> n_total then Inl ErasureCodingError
      else if ds_shard_index s \<in> set seen then Inl ErasureCodingError
      else bindE (collect_shards expected n_total (ds_shard_index s # seen) ss) (\<lambda>(ps, is).
             Inr (ds_data s # ps, ds_shard_index s # is)))"

definition codec_decode ::
    "(bytes \<Rightarrow> string) \<Rightarrow> zfec option \<Rightarrow> data_pack_shard list \<Rightarrow> erasure_spec \<Rightarrow> int \<Rightarrow> string \<Rightarrow> bytes result" where
  "codec_decode hexdigest m shards spec payload_size expected_pack_hash =
     (let selected = py_slice (sort_key ds_shard_index shards) 0 (data_shards spec) in
      if int (length selected) < data_shards spec then Inl ErasureCodingError
      else bindE (collect_shards expected_pack_hash (total_shards spec) [] selected) (\<lambda>(shard_payloads, shard_indexes).
           bindE (import_zfec m) (\<lambda>zfec.
           bindE (zfec_decode zfec (data_shards spec) (total_shards spec) shard_payloads shard_indexes) (\<lambda>primary_blocks.
             let payload = py_slice (concat primary_blocks) 0 payload_size in
             if hexdigest payload \<noteq> expected_pack_hash then Inl ErasureCodingError
             else Inr payload))))"

section \<open>Packing chunks\<close>

record data_pack_builder =
  db_spec :: erasure_spec
  db_target_size_bytes :: int
  db_chunks :: "(string \<times> bytes) list"
  db_current_size :: int

definition mk_DataPackBuilder :: "erasure_spec \<Rightarrow> int \<Rightarrow> data_pack_builder result" where
  "mk_DataPackBuilder spec target_size_bytes =
     (if target_size_bytes \<le> 0 then Inl ErasureCodingError
      else Inr \<lparr>db_spec = spec, db_target_size_bytes = target_size_bytes, db_chunks = [], db_current_size = 0\<rparr>)"

definition builder_is_empty :: "data_pack_builder \<Rightarrow> bool" where
  "builder_is_empty b = (db_chunks b = [])"

definition would_exceed_target :: "data_pack_builder \<Rightarrow> int \<Rightarrow> bool result" where
  "would_exceed_target b data_size =
     (if data_size < 0 then Inl ErasureCodingError
      else Inr (db_chunks b \<noteq> [] \<and> db_current_size b + data_size > db_target_size_bytes b))"

definition append_validated_chunk ::
    "data_pack_builder \<Rightarrow> string \<Rightarrow> bytes \<Rightarrow> (data_pack_builder \<times> bool) result" where
  "append_validated_chunk b chunk_hash data =
     bindE (would_exceed_target b (int (length data))) (\<lambda>exceeds.
       if exceeds then Inl ErasureCodingError
       else let b' = b\<lparr>db_chunks := db_chunks b @ [(chunk_hash, data)],
                       db_current_size := db_current_size b + int (length data)\<rparr>
            in Inr (b', db_current_size b' \<ge> db_target_size_bytes b'))"

definition validated_chunk_payload :: "(bytes \<Rightarrow> string) \<Rightarrow> string \<Rightarrow> bytes \<Rightarrow> (string \<times> bytes) result" where
  "validated_chunk_payload hexdigest chunk_hash0 data =
     bindE (require_hash64 (PyStr chunk_hash0)) (\<lambda>chunk_hash.
       if hexdigest data \<noteq> chunk_hash then Inl ErasureCodingError else Inr (chunk_hash, data))"

definition add_chunk ::
    "(bytes \<Rightarrow> string) \<Rightarrow> data_pack_builder \<Rightarrow> string \<Rightarrow> bytes \<Rightarrow> (data_pack_builder \<times> bool) result" where
  "add_chunk hexdigest b chunk_hash data =
     bindE (validated_chunk_payload hexdigest chunk_hash data) (\<lambda>(h, d). append_validated_chunk b h d)"

definition add_prevalidated_chunk ::
    "data_pack_builder \<Rightarrow> string \<Rightarrow> bytes \<Rightarrow> (data_pack_builder \<times> bool) result" where
  "add_prevalidated_chunk b chunk_hash data = append_validated_chunk b chunk_hash data"

text \<open>The loop over \<open>enumerate(chunks)\<close>: the entries and the joined payload.\<close>

fun pack_entries :: "int \<Rightarrow> int \<Rightarrow> (string \<times> bytes) list \<Rightarrow> data_pack_entry list result" where
  "pack_entries ordinal off [] = Inr []"
| "pack_entries ordinal off ((chunk_hash, data) # cs) =
     bindE (mk_DataPackEntry chunk_hash off (int (length data)) ordinal) (\<lambda>e.
     bindE (pack_entries (ordinal + 1) (off + int (length data)) cs) (\<lambda>es. Inr (e # es)))"

definition build_data_pack_from_validated_chunks ::
    "(bytes \<Rightarrow> string) \<Rightarrow> zfec option \<Rightarrow> (string \<times> bytes) list \<Rightarrow> erasure_spec \<Rightarrow> encoded_data_pack result" where
  "build_data_pack_from_validated_chunks hexdigest m chunks spec =
     (if chunks = [] then Inl ErasureCodingError
      else bindE (pack_entries 0 0 chunks) (\<lambda>entries.
        let payload = concat (map snd chunks);
            pack_hash = hexdigest payload;
            shard_size = max ((int (length payload) + data_shards spec - 1) div data_shards spec) 1;
            padded_size = shard_size * data_shards spec
        in bindE (codec_encode hexdigest m pack_hash payload spec) (\<lambda>shards.
             mk_EncodedDataPack pack_hash (int (length payload)) padded_size shard_size spec entries shards)))"

definition build_data_pack ::
    "(bytes \<Rightarrow> string) \<Rightarrow> zfec option \<Rightarrow> (string \<times> bytes) list \<Rightarrow> erasure_spec \<Rightarrow> encoded_data_pack result" where
  "build_data_pack hexdigest m chunks spec =
     bindE (mapE (\<lambda>(h, d). validated_chunk_payload hexdigest h d) chunks) (\<lambda>materialized.
       build_data_pack_from_validated_chunks hexdigest m materialized spec)"

text \<open>\<open>flush\<close> keeps the builder unchanged when encoding raises.\<close>

definition builder_flush ::
    "(bytes \<Rightarrow> string) \<Rightarrow> zfec option \<Rightarrow> data_pack_builder \<Rightarrow> (encoded_data_pack option \<times> data_pack_builder) result" where
  "builder_flush hexdigest m b =
     (if db_chunks b = [] then Inr (None, b)
      else bindE (build_data_pack_from_validated_chunks hexdigest m (db_chunks b) (db_spec b)) (\<lambda>encoded.
             Inr (Some encoded, b\<lparr>db_chunks := [], db_current_size := 0\<rparr>)))"

section \<open>Manifest and reconstruction\<close>

record data_pack_manifest =
  mf_pack_hash :: string
  mf_payload_size :: int
  mf_padded_size :: int
  mf_shard_size :: int
  mf_spec :: erasure_spec
  mf_entries :: "data_pack_entry list"

text \<open>\<open>DataPackManifest.__post_init__\<close> validates \<open>pack_hash\<close> but keeps it as given.\<close>

definition mk_DataPackManifest ::
    "string \<Rightarrow> int \<Rightarrow> int \<Rightarrow> int \<Rightarrow> erasure_spec \<Rightarrow> data_pack_entry list \<Rightarrow> data_pack_manifest result" where
  "mk_DataPackManifest pack_hash payload_size padded_size shard_size spec entries =
     bindE (require_hash64 (PyStr pack_hash)) (\<lambda>_.
       if payload_size < 0 \<or> padded_size < 0 \<or> shard_size < 0 then Inl ErasureCodingError
       else if padded_size \<noteq> shard_size * data_shards spec then Inl ErasureCodingError
       else Inr \<lparr>mf_pack_hash = pack_hash, mf_payload_size = payload_size, mf_padded_size = padded_size,
                 mf_shard_size = shard_size, mf_spec = spec, mf_entries = entries\<rparr>)"

definition reconstruct_payload ::
    "(bytes \<Rightarrow> string) \<Rightarrow> zfec option \<Rightarrow> data_pack_manifest \<Rightarrow> data_pack_shard list \<Rightarrow> bytes result" where
  "reconstruct_payload hexdigest m mf shards =
     codec_decode hexdigest m shards (mf_spec mf) (mf_payload_size mf) (mf_pack_hash mf)"

fun extract_loop ::
    "(bytes \<Rightarrow> string) \<Rightarrow> bytes \<Rightarrow> string set option \<Rightarrow> (string \<times> bytes) list \<Rightarrow> data_pack_entry list
       \<Rightarrow> (string \<times> bytes) list result" where
  "extract_loop hexdigest payload wanted chunks [] = Inr chunks"
| "extract_loop hexdigest payload wanted chunks (e # es) =
     (if (case wanted of None \<Rightarrow> False | Some w \<Rightarrow> de_chunk_hash e \<notin> w)
      then extract_loop hexdigest payload wanted chunks es
      else let data = py_slice payload (de_offset e) (de_offset e + de_length e) in
        if hexdigest data \<noteq> de_chunk_hash e then Inl ErasureCodingError
        else extract_loop hexdigest payload wanted (AList.update (de_chunk_hash e) data chunks) es)"

text \<open>\<open>wanted_hashes\<close> is a set: \<open>None\<close> or empty means every entry.\<close>

definition extract_pack_chunks ::
    "(bytes \<Rightarrow> string) \<Rightarrow> bytes \<Rightarrow> data_pack_manifest \<Rightarrow> string list \<Rightarrow> (string \<times> bytes) list result" where
  "extract_pack_chunks hexdigest payload mf wanted_hashes =
     bindE (if wanted_hashes = [] then Inr None
            else bindE (mapE (\<lambda>h. require_hash64 (PyStr h)) wanted_hashes) (\<lambda>ws. Inr (Some (set ws))))
       (\<lambda>wanted. extract_loop hexdigest payload wanted [] (mf_entries mf))"

section \<open>Shard placement\<close>

record shard_placement =
  sp_pack_hash :: string
  sp_shard_index :: int
  sp_node_id :: string
  sp_address :: string

definition mk_DataPackShardPlacement :: "string \<Rightarrow> int \<Rightarrow> string \<Rightarrow> string \<Rightarrow> shard_placement result" where
  "mk_DataPackShardPlacement pack_hash0 shard_index0 node_id0 address0 =
     bindE (require_hash64 (PyStr pack_hash0)) (\<lambda>pack_hash.
     bindE (require_non_negative_int (PyInt shard_index0)) (\<lambda>shard_index.
       if py_strip node_id0 = [] then Inl ErasureCodingNetworkError
       else if py_strip address0 = [] then Inl ErasureCodingNetworkError
       else Inr \<lparr>sp_pack_hash = pack_hash, sp_shard_index = shard_index,
                 sp_node_id = py_strip node_id0, sp_address = py_strip address0\<rparr>))"

fun placements_from :: "string \<Rightarrow> int \<Rightarrow> cluster_member list \<Rightarrow> shard_placement list result" where
  "placements_from pack_hash i [] = Inr []"
| "placements_from pack_hash i (m # ms) =
     bindE (mk_DataPackShardPlacement pack_hash i (node_id m) (address m)) (\<lambda>p.
     bindE (placements_from pack_hash (i + 1) ms) (\<lambda>ps. Inr (p # ps)))"

definition require_distinct_nodes :: "shard_placement list \<Rightarrow> unit result" where
  "require_distinct_nodes placements =
     (let ids = map sp_node_id placements in raise_if (length ids \<noteq> card (set ids)) ErasureCodingError)"

definition plan_data_pack_shard_placement ::
    "(bytes \<Rightarrow> bytes) \<Rightarrow> string \<Rightarrow> erasure_spec \<Rightarrow> cluster_view \<Rightarrow> string \<Rightarrow> string \<Rightarrow> shard_placement list result" where
  "plan_data_pack_shard_placement digest pack_hash0 spec cluster origin cluster_token =
     bindE (require_hash64 (PyStr pack_hash0)) (\<lambda>pack_hash.
       let origin_node_id = py_strip origin;
           cluster_self_node_id = py_strip (case self_node_id cluster of None \<Rightarrow> [] | Some s \<Rightarrow> s)
       in if origin_node_id = [] then Inl ErasureCodingConfigError
          else if origin_node_id \<notin> set (node_ids cluster) \<and> origin_node_id \<noteq> cluster_self_node_id
          then Inl ErasureCodingConfigError
          else let ms = hrw_targets_excluding digest cluster pack_hash (total_shards spec) cluster_token {origin_node_id}
               in if int (length ms) < total_shards spec then Inl ErasureCodingNetworkError
                  else bindE (placements_from pack_hash 0 ms) (\<lambda>placements.
                       bindE (require_distinct_nodes placements) (\<lambda>_. Inr placements)))"

section \<open>Splitting a payload into primary blocks\<close>

lemma concat_blocks: "concat (map (\<lambda>i. take s (drop (i * s) xs)) [0..<n]) = take (n * s) xs"
proof (induction n)
  case (Suc n)
  have "take (Suc n * s) xs = take (n * s) xs @ take s (drop (n * s) xs)"
    by (metis mult_Suc add.commute take_add)
  then show ?case using Suc by simp
qed simp

lemma py_range_simps: "length (py_range n) = nat n" "set (py_range n) = {i. 0 \<le> i \<and> i < n}" "distinct (py_range n)" "sorted (py_range n)"
proof -
  show "set (py_range n) = {i. 0 \<le> i \<and> i < n}"
    by (auto simp: py_range_def image_iff intro!: bexI [of _ "nat _"])
qed (simp_all add: py_range_def distinct_map sorted_wrt_map)

text \<open>The size of a block: the payload divided by the number of blocks, rounded up, at least 1.\<close>

definition block_size :: "nat \<Rightarrow> int \<Rightarrow> int" where
  "block_size len k = max ((int len + k - 1) div k) 1"

lemma block_size_bounds:
  assumes "0 < k"
  shows "1 \<le> block_size len k" "int len \<le> block_size len k * k" "len = 0 \<or> (block_size len k - 1) * k < int len"
proof -
  let ?q = "(int len + k - 1) div k"
  have mod: "?q * k + (int len + k - 1) mod k = int len + k - 1" by (rule div_mult_mod_eq)
  have m: "0 \<le> (int len + k - 1) mod k" "(int len + k - 1) mod k < k" using assms by simp_all
  show "1 \<le> block_size len k" by (simp add: block_size_def)
  have "int len \<le> ?q * k" using mod m by linarith
  moreover have "?q * k \<le> block_size len k * k" using assms by (simp add: block_size_def)
  ultimately show "int len \<le> block_size len k * k" by linarith
  have "(?q - 1) * k = ?q * k - k" by (simp add: left_diff_distrib)
  then have "(?q - 1) * k < int len" using mod m by linarith
  moreover have "len \<noteq> 0 \<Longrightarrow> 1 \<le> ?q" using assms by (simp add: pos_imp_zdiv_pos_iff zdiv_eq_0_iff int_one_le_iff_zero_less)
  ultimately show "len = 0 \<or> (block_size len k - 1) * k < int len" by (auto simp: block_size_def max_def)
qed

lemma split_primary_blocks_ok:
  assumes "0 < k"
  obtains blocks where "split_primary_blocks payload (PyInt k) = Inr (blocks, block_size (length payload) k)"
    "length blocks = nat k" "\<forall>b \<in> set blocks. int (length b) = block_size (length payload) k"
    "take (length payload) (concat blocks) = payload"
proof -
  define ss where "ss = block_size (length payload) k"
  define s where "s = nat ss"
  define K where "K = nat k"
  note bb = block_size_bounds [OF assms, of "length payload", folded ss_def]
  have ss: "ss = int s" using bb by (simp add: s_def)
  have k: "k = int K" using assms by (simp add: K_def)
  have "(int (length payload) + k - 1) div k \<ge> 0" using assms by (simp add: pos_imp_zdiv_nonneg_iff)
  then have size: "(if (int (length payload) + k - 1) div k = 0 then 1 else (int (length payload) + k - 1) div k) = ss"
    by (auto simp: ss_def block_size_def)
  have le: "length payload \<le> K * s" using bb(2) by (simp add: ss k mult.commute flip: of_nat_mult)
  define padded where "padded = payload @ concat (replicate (nat (ss * k - int (length payload))) PAD_LITERAL)"
  define blocks where "blocks = map (\<lambda>i. take s (drop (i * s) padded)) [0..<K]"
  have "length (concat (replicate n PAD_LITERAL)) = 4 * n" for n by (induction n) (simp_all add: PAD_LITERAL_def)
  moreover have "nat (ss * k - int (length payload)) = K * s - length payload"
    by (simp add: ss k mult.commute nat_diff_distrib' flip: of_nat_mult)
  ultimately have plen: "K * s \<le> length padded" using le by (simp add: padded_def)
  have sl: "py_slice padded (int i * ss) ((int i + 1) * ss) = take s (drop (i * s) padded)" for i
    using py_slice_nat [of padded "i * s" "i * s + s"] by (simp add: ss algebra_simps)
  have eq: "split_primary_blocks payload (PyInt k) = Inr (blocks, ss)"
    using assms by (simp add: split_primary_blocks_def Let_def size py_range_def sl blocks_def padded_def K_def flip: padded_def)
  have "length b = s" if "b \<in> set blocks" for b
  proof -
    from that obtain i where i: "i < K" "b = take s (drop (i * s) padded)" by (auto simp: blocks_def)
    have "Suc i * s \<le> K * s" using i(1) by (intro mult_right_mono) simp_all
    then show ?thesis using i(2) plen by simp
  qed
  then have "\<forall>b \<in> set blocks. int (length b) = ss" by (simp add: ss)
  moreover have "take (length payload) (concat blocks) = payload"
    unfolding blocks_def concat_blocks using le by (simp add: min_absorb1 padded_def)
  ultimately show ?thesis using that eq by (auto simp: blocks_def K_def ss_def)
qed

section \<open>What the parameters promise\<close>

definition zfec_recovers :: "zfec \<Rightarrow> int \<Rightarrow> int \<Rightarrow> bool" where
  "zfec_recovers z k n \<longleftrightarrow>
     (\<forall>blocks size. length blocks = nat k \<and> (\<forall>b \<in> set blocks. length b = size) \<longrightarrow>
       (\<exists>raws. zfec_encode z k n blocks (py_range n) = Inr raws \<and> length raws = nat n
          \<and> (\<forall>r \<in> set raws. length r = size)
          \<and> (\<forall>idx. sorted idx \<and> distinct idx \<and> set idx \<subseteq> {0..<n} \<and> length idx = nat k \<longrightarrow>
               zfec_decode z k n (map (\<lambda>i. raws ! nat i) idx) idx = Inr blocks)))"

lemma zfec_recoversE:
  assumes "zfec_recovers z k n" "length blocks = nat k" "\<forall>b \<in> set blocks. length b = sz"
  obtains raws where "zfec_encode z k n blocks (py_range n) = Inr raws" "length raws = nat n"
    "\<forall>r \<in> set raws. length r = sz"
    "\<And>idx. sorted idx \<Longrightarrow> distinct idx \<Longrightarrow> set idx \<subseteq> {0..<n} \<Longrightarrow> length idx = nat k
       \<Longrightarrow> zfec_decode z k n (map (\<lambda>i. raws ! nat i) idx) idx = Inr blocks"
proof -
  have "\<exists>raws. zfec_encode z k n blocks (py_range n) = Inr raws \<and> length raws = nat n
          \<and> (\<forall>r \<in> set raws. length r = sz)
          \<and> (\<forall>idx. sorted idx \<and> distinct idx \<and> set idx \<subseteq> {0..<n} \<and> length idx = nat k \<longrightarrow>
               zfec_decode z k n (map (\<lambda>i. raws ! nat i) idx) idx = Inr blocks)"
    using assms(1) [unfolded zfec_recovers_def, rule_format, OF conjI, OF assms(2,3)] .
  then show ?thesis using that by (elim exE conjE) simp
qed

definition hex64_digest :: "(bytes \<Rightarrow> string) \<Rightarrow> bool" where
  "hex64_digest hexdigest \<longleftrightarrow> (\<forall>b. is_hex64 (hexdigest b))"

definition spec_wf :: "erasure_spec \<Rightarrow> bool" where
  "spec_wf spec \<longleftrightarrow> 0 < data_shards spec \<and> 0 \<le> parity_shards spec \<and> total_shards spec \<le> 256
     \<and> codec spec = ''zfec''"

declare require_hash64.simps [simp del]

lemma require_hash64_hex [simp]: "is_hex64 h \<Longrightarrow> require_hash64 (PyStr h) = Inr h"
  by (simp add: require_hash64.simps is_hex64_no_strip)

lemma require_hash64_Inr: "require_hash64 v = Inr h \<Longrightarrow> is_hex64 h \<and> (\<exists>s. v = PyStr s \<and> h = py_strip s)"
  by (cases v) (auto simp: require_hash64.simps Let_def split: if_splits)

lemmas int_checks = require_non_negative_int_def require_positive_int_def
  require_config_non_negative_int_def require_config_positive_int_def
  require_strict_non_negative_int_iff require_strict_positive_int_iff

lemma require_non_negative_int_PyInt [simp]:
  "require_non_negative_int (PyInt i) = (if i < 0 then Inl ErasureCodingError else Inr i)"
  by (simp add: require_non_negative_int_def require_strict_non_negative_int_def)

lemma require_positive_int_PyInt [simp]:
  "require_positive_int (PyInt i) = (if i < 1 then Inl ErasureCodingError else Inr i)"
  by (simp add: require_positive_int_def require_strict_positive_int_def require_strict_non_negative_int_def)

lemma mk_ErasureSpec_wf [wf_intros]: "mk_ErasureSpec d p c = Inr spec \<Longrightarrow> spec_wf spec"
  by (auto simp: mk_ErasureSpec_def spec_wf_def total_shards_def bindE_eq_Inr int_checks split: if_splits)

lemma mk_ErasureSpec_total:
  "0 < d \<Longrightarrow> 0 \<le> p \<Longrightarrow> d + p \<le> 256 \<Longrightarrow>
     mk_ErasureSpec (PyInt d) (PyInt p) ''zfec'' = Inr \<lparr>data_shards = d, parity_shards = p, codec = ''zfec''\<rparr>"
  by (simp add: mk_ErasureSpec_def require_config_positive_int_def require_config_non_negative_int_def
      require_strict_positive_int_def require_strict_non_negative_int_def)

section \<open>Encoding and decoding\<close>

definition shard_of :: "(bytes \<Rightarrow> string) \<Rightarrow> string \<Rightarrow> bytes list \<Rightarrow> int \<Rightarrow> data_pack_shard" where
  "shard_of hexdigest ph raws i =
     \<lparr>ds_pack_hash = ph, ds_shard_index = i, ds_data = raws ! nat i, ds_shard_hash = hexdigest (raws ! nat i)\<rparr>"

lemma shard_of_simps [simp]:
  "ds_pack_hash (shard_of hx ph raws i) = ph"
  "ds_shard_index (shard_of hx ph raws i) = i"
  "ds_data (shard_of hx ph raws i) = raws ! nat i"
  "ds_shard_hash (shard_of hx ph raws i) = hx (raws ! nat i)"
  by (simp_all add: shard_of_def)

lemma encode_shards_zip:
  assumes "hex64_digest hx" "is_hex64 ph" "length is = length raws"
    and "\<forall>r \<in> set raws. int (length r) = sz" "\<forall>i \<in> set is. 0 \<le> i"
  shows "encode_shards hx ph sz is raws = Inr (map (\<lambda>(i, d).
     \<lparr>ds_pack_hash = ph, ds_shard_index = i, ds_data = d, ds_shard_hash = hx d\<rparr>) (zip is raws))"
  using assms(3-5)
  by (induction "is" raws rule: list_induct2)
     (use assms(1,2) in \<open>auto simp: from_prehashed_def hex64_digest_def\<close>)

lemma zip_py_range: "length raws = nat n \<Longrightarrow> zip (py_range n) raws = map (\<lambda>i. (i, raws ! nat i)) (py_range n)"
  by (rule nth_equalityI) (simp_all add: py_range_def)

lemma codec_encode_ok:
  assumes hx: "hex64_digest hx" and ph: "is_hex64 ph" and spec: "spec_wf spec"
    and z: "zfec_recovers z (data_shards spec) (total_shards spec)"
  obtains raws blocks where
    "codec_encode hx (Some z) ph payload spec = Inr (map (shard_of hx ph raws) (py_range (total_shards spec)))"
    "length raws = nat (total_shards spec)"
    "\<forall>r \<in> set raws. int (length r) = block_size (length payload) (data_shards spec)"
    "take (length payload) (concat blocks) = payload"
    "\<And>idx. sorted idx \<Longrightarrow> distinct idx \<Longrightarrow> set idx \<subseteq> {0..<total_shards spec} \<Longrightarrow> length idx = nat (data_shards spec)
       \<Longrightarrow> zfec_decode z (data_shards spec) (total_shards spec) (map (\<lambda>i. raws ! nat i) idx) idx = Inr blocks"
proof -
  have k: "0 < data_shards spec" using spec by (simp add: spec_wf_def)
  obtain blocks where b: "split_primary_blocks payload (PyInt (data_shards spec)) =
        Inr (blocks, block_size (length payload) (data_shards spec))"
    "length blocks = nat (data_shards spec)"
    "\<forall>b \<in> set blocks. int (length b) = block_size (length payload) (data_shards spec)"
    "take (length payload) (concat blocks) = payload"
    by (rule split_primary_blocks_ok [OF k])
  have bl: "\<forall>b \<in> set blocks. length b = nat (block_size (length payload) (data_shards spec))"
    using b(3) by (metis nat_int)
  obtain raws where r: "zfec_encode z (data_shards spec) (total_shards spec) blocks (py_range (total_shards spec)) = Inr raws"
    "length raws = nat (total_shards spec)"
    "\<forall>r \<in> set raws. length r = nat (block_size (length payload) (data_shards spec))"
    "\<And>idx. sorted idx \<Longrightarrow> distinct idx \<Longrightarrow> set idx \<subseteq> {0..<total_shards spec} \<Longrightarrow> length idx = nat (data_shards spec)
       \<Longrightarrow> zfec_decode z (data_shards spec) (total_shards spec) (map (\<lambda>i. raws ! nat i) idx) idx = Inr blocks"
    using zfec_recoversE [OF z b(2) bl] by metis
  have sz: "\<forall>r \<in> set raws. int (length r) = block_size (length payload) (data_shards spec)"
    using r(3) block_size_bounds(1) [OF k, of "length payload"] by simp
  have "encode_shards hx ph (block_size (length payload) (data_shards spec)) (py_range (total_shards spec)) raws
      = Inr (map (shard_of hx ph raws) (py_range (total_shards spec)))"
    using encode_shards_zip [OF hx ph _ sz, of "py_range (total_shards spec)"] r(2)
    by (simp add: py_range_simps zip_py_range shard_of_def)
  then have "codec_encode hx (Some z) ph payload spec = Inr (map (shard_of hx ph raws) (py_range (total_shards spec)))"
    by (simp add: codec_encode_def import_zfec_def b(1) r(1))
  then show ?thesis using that r(2) sz b(4) r(4) by blast
qed

lemma collect_shards_ok:
  assumes "\<forall>s \<in> set ss. ds_pack_hash s = ph \<and> ds_shard_index s < n"
    and "distinct (map ds_shard_index ss)" "ds_shard_index ` set ss \<inter> set seen = {}"
  shows "collect_shards ph n seen ss = Inr (map ds_data ss, map ds_shard_index ss)"
  using assms by (induction ss arbitrary: seen) auto

lemma codec_decode_ok:
  assumes sub: "set ss \<subseteq> shard_of hx ph raws ` {0..<total_shards spec}" and dist: "distinct ss"
    and enough: "data_shards spec \<le> int (length ss)" and k: "0 < data_shards spec"
    and dec: "\<And>idx. sorted idx \<Longrightarrow> distinct idx \<Longrightarrow> set idx \<subseteq> {0..<total_shards spec} \<Longrightarrow> length idx = nat (data_shards spec)
       \<Longrightarrow> zfec_decode z (data_shards spec) (total_shards spec) (map (\<lambda>i. raws ! nat i) idx) idx = Inr blocks"
    and pre: "take (length payload) (concat blocks) = payload" and ph: "hx payload = ph"
  shows "codec_decode hx (Some z) ss spec (int (length payload)) ph = Inr payload"
proof -
  define sel where "sel = take (nat (data_shards spec)) (sort_key ds_shard_index ss)"
  have set_sel: "set sel \<subseteq> shard_of hx ph raws ` {0..<total_shards spec}"
    using sub set_take_subset [of "nat (data_shards spec)" "sort_key ds_shard_index ss"] by (auto simp: sel_def)
  have inj: "inj_on ds_shard_index (shard_of hx ph raws ` {0..<total_shards spec})" by (auto simp: inj_on_def)
  have d: "distinct (map ds_shard_index sel)"
    using dist set_sel inj by (auto simp: distinct_map sel_def intro: inj_on_subset)
  have srt: "sorted (map ds_shard_index sel)"
    unfolding sel_def by (simp add: take_map [symmetric] sorted_wrt_take)
  have len: "length sel = nat (data_shards spec)" using enough by (simp add: sel_def)
  have idx: "set (map ds_shard_index sel) \<subseteq> {0..<total_shards spec}" using set_sel by auto
  have data: "map ds_data sel = map (\<lambda>i. raws ! nat i) (map ds_shard_index sel)" using set_sel by auto
  have dd: "zfec_decode z (data_shards spec) (total_shards spec) (map ds_data sel) (map ds_shard_index sel) = Inr blocks"
    unfolding data by (rule dec [OF srt d idx]) (simp add: len)
  have "\<forall>s \<in> set sel. ds_pack_hash s = ph \<and> ds_shard_index s < total_shards spec" using set_sel by auto
  from collect_shards_ok [OF this d, of "[]"]
  have "collect_shards ph (total_shards spec) [] sel = Inr (map ds_data sel, map ds_shard_index sel)" by simp
  moreover have "py_slice (sort_key ds_shard_index ss) 0 (data_shards spec) = sel"
    using k by (simp add: sel_def py_slice_prefix)
  ultimately show ?thesis
    using dd pre ph len by (simp add: codec_decode_def Let_def import_zfec_def py_slice_prefix)
qed

section \<open>Entries of a pack\<close>

fun entries_of :: "int \<Rightarrow> int \<Rightarrow> (string \<times> bytes) list \<Rightarrow> data_pack_entry list" where
  "entries_of i off [] = []"
| "entries_of i off ((h, d) # cs) =
     \<lparr>de_chunk_hash = h, de_offset = off, de_length = int (length d), de_ordinal = i\<rparr>
       # entries_of (i + 1) (off + int (length d)) cs"

definition chunk_ok :: "(bytes \<Rightarrow> string) \<Rightarrow> string \<times> bytes \<Rightarrow> bool" where
  "chunk_ok hexdigest c \<longleftrightarrow> snd c \<noteq> [] \<and> fst c = hexdigest (snd c)"

lemma pack_entries_ok:
  assumes "hex64_digest hx" "list_all (chunk_ok hx) cs" "0 \<le> i" "0 \<le> off"
  shows "pack_entries i off cs = Inr (entries_of i off cs)"
  using assms(2-4)
proof (induction cs arbitrary: i off)
  case (Cons c cs)
  obtain h d where c: "c = (h, d)" by (cases c)
  have "is_hex64 h" "d \<noteq> []"
    using Cons.prems(1) assms(1) by (auto simp: c chunk_ok_def hex64_digest_def)
  then have "mk_DataPackEntry h off (int (length d)) i
      = Inr \<lparr>de_chunk_hash = h, de_offset = off, de_length = int (length d), de_ordinal = i\<rparr>"
    using Cons.prems by (simp add: mk_DataPackEntry_def)
  then show ?case using Cons by (simp add: c)
qed simp

lemma check_entries_of:
  "check_entries i off (entries_of i off cs) = Inr (off + int (length (concat (map snd cs))))"
  by (induction i off cs rule: entries_of.induct) auto

definition wanted_by :: "string set option \<Rightarrow> string \<times> bytes \<Rightarrow> bool" where
  "wanted_by w c \<longleftrightarrow> (case w of None \<Rightarrow> True | Some W \<Rightarrow> fst c \<in> W)"

lemma extract_loop_entries:
  assumes "list_all (chunk_ok hx) cs"
  shows "extract_loop hx (pre @ concat (map snd cs) @ post) w acc (entries_of i (int (length pre)) cs)
     = Inr (foldl (\<lambda>m (k, v). AList.update k v m) acc (filter (wanted_by w) cs))"
  using assms
proof (induction cs arbitrary: pre acc i)
  case (Cons c cs)
  obtain h d where c: "c = (h, d)" by (cases c)
  have h: "hx d = h" using Cons.prems by (simp add: c chunk_ok_def)
  have sl: "py_slice (pre @ d @ concat (map snd cs) @ post) (int (length pre)) (int (length pre) + int (length d)) = d"
    by (rule py_slice_middle)
  show ?case
    using Cons.IH [of "pre @ d" _ "i + 1"] Cons.prems
    by (cases "wanted_by w c") (auto simp: c sl h Let_def wanted_by_def split: option.splits)
qed simp

lemma extract_pack_chunks_ok:
  assumes "list_all (chunk_ok hx) cs" "mf_entries mf = entries_of 0 0 cs" "list_all is_hex64 ws"
  shows "extract_pack_chunks hx (concat (map snd cs)) mf ws
     = Inr (dict_of (filter (\<lambda>c. ws = [] \<or> fst c \<in> set ws) cs))"
proof -
  have m: "mapE (\<lambda>h. require_hash64 (PyStr h)) ws = Inr ws"
    using assms(3) mapE_total [of ws "\<lambda>h. require_hash64 (PyStr h)" "\<lambda>h. h"] by (simp add: list_all_iff)
  have "filter (wanted_by (if ws = [] then None else Some (set ws))) cs = filter (\<lambda>c. ws = [] \<or> fst c \<in> set ws) cs"
    by (auto simp: wanted_by_def intro: filter_cong)
  then show ?thesis
    using extract_loop_entries [OF assms(1), of "[]" "[]" "if ws = [] then None else Some (set ws)" "[]" 0]
    by (simp add: extract_pack_chunks_def m assms(2) dict_of_def split: if_splits)
qed

section \<open>Building a pack\<close>

lemma check_shards_ok:
  assumes "\<forall>s \<in> set ss. ds_pack_hash s = ph \<and> ds_shard_index s < n \<and> int (length (ds_data s)) = sz"
    and "distinct (map ds_shard_index ss)" "ds_shard_index ` set ss \<inter> set seen = {}"
  shows "check_shards ph n sz seen ss = Inr ()"
  using assms by (induction ss arbitrary: seen) auto

lemma nth_in_range: "length raws = nat n \<Longrightarrow> i \<in> {0..<n} \<Longrightarrow> raws ! nat i \<in> set raws"
  by (auto intro!: nth_mem)

text \<open>What a built pack is: its fields, the shards it carries, and the blocks they determine.\<close>

lemma build_validated_ok:
  assumes hx: "hex64_digest hx" and spec: "spec_wf spec"
    and z: "zfec_recovers z (data_shards spec) (total_shards spec)"
    and cs: "cs \<noteq> []" "list_all (chunk_ok hx) cs"
  obtains raws blocks where
    "build_data_pack_from_validated_chunks hx (Some z) cs spec = Inr
       \<lparr>ep_pack_hash = hx (concat (map snd cs)), ep_payload_size = int (length (concat (map snd cs))),
        ep_padded_size = block_size (length (concat (map snd cs))) (data_shards spec) * data_shards spec,
        ep_shard_size = block_size (length (concat (map snd cs))) (data_shards spec), ep_spec = spec,
        ep_entries = entries_of 0 0 cs,
        ep_shards = map (shard_of hx (hx (concat (map snd cs))) raws) (py_range (total_shards spec))\<rparr>"
    "take (length (concat (map snd cs))) (concat blocks) = concat (map snd cs)"
    "\<And>idx. sorted idx \<Longrightarrow> distinct idx \<Longrightarrow> set idx \<subseteq> {0..<total_shards spec} \<Longrightarrow> length idx = nat (data_shards spec)
       \<Longrightarrow> zfec_decode z (data_shards spec) (total_shards spec) (map (\<lambda>i. raws ! nat i) idx) idx = Inr blocks"
proof -
  define payload where "payload = concat (map snd cs)"
  define ph where "ph = hx payload"
  let ?sz = "block_size (length payload) (data_shards spec)"
  have k: "0 < data_shards spec" "0 \<le> parity_shards spec" using spec by (simp_all add: spec_wf_def)
  have hex: "is_hex64 ph" using hx by (simp add: ph_def hex64_digest_def)
  obtain raws blocks where e: "codec_encode hx (Some z) ph payload spec = Inr (map (shard_of hx ph raws) (py_range (total_shards spec)))"
    "length raws = nat (total_shards spec)" "\<forall>r \<in> set raws. int (length r) = ?sz"
    "take (length payload) (concat blocks) = payload"
    "\<And>idx. sorted idx \<Longrightarrow> distinct idx \<Longrightarrow> set idx \<subseteq> {0..<total_shards spec} \<Longrightarrow> length idx = nat (data_shards spec)
       \<Longrightarrow> zfec_decode z (data_shards spec) (total_shards spec) (map (\<lambda>i. raws ! nat i) idx) idx = Inr blocks"
    using codec_encode_ok [OF hx hex spec z, of payload] by metis
  let ?ss = "map (shard_of hx ph raws) (py_range (total_shards spec))"
  have idx: "map ds_shard_index ?ss = py_range (total_shards spec)" by (simp add: comp_def)
  have "check_shards ph (total_shards spec) ?sz [] ?ss = Inr ()"
    by (rule check_shards_ok, unfold idx)
       (use e(3) nth_in_range [OF e(2)] in \<open>auto simp: py_range_simps\<close>)
  moreover have "sort_key ds_shard_index ?ss = ?ss"
    by (rule sort_key_id_if_sorted) (simp only: idx py_range_simps)
  moreover have "int (length ?ss) = total_shards spec"
    using k by (simp add: py_range_simps total_shards_def)
  moreover note block_size_bounds(1,2) [OF k(1), of "length payload"]
  moreover have "check_entries 0 0 (entries_of 0 0 cs) = Inr (int (length payload))"
    by (simp add: check_entries_of payload_def)
  ultimately have "mk_EncodedDataPack ph (int (length payload)) (?sz * data_shards spec) ?sz spec (entries_of 0 0 cs) ?ss
    = Inr \<lparr>ep_pack_hash = ph, ep_payload_size = int (length payload), ep_padded_size = ?sz * data_shards spec,
        ep_shard_size = ?sz, ep_spec = spec, ep_entries = entries_of 0 0 cs, ep_shards = ?ss\<rparr>"
    using hex k by (simp add: mk_EncodedDataPack_def)
  then have "build_data_pack_from_validated_chunks hx (Some z) cs spec = Inr
      \<lparr>ep_pack_hash = ph, ep_payload_size = int (length payload), ep_padded_size = ?sz * data_shards spec,
        ep_shard_size = ?sz, ep_spec = spec, ep_entries = entries_of 0 0 cs, ep_shards = ?ss\<rparr>"
    using cs e(1) pack_entries_ok [OF hx cs(2), of 0 0]
    by (simp add: build_data_pack_from_validated_chunks_def Let_def block_size_def
        payload_def [symmetric] ph_def [symmetric])
  then show ?thesis using that e(4,5) unfolding payload_def ph_def by blast
qed

lemma build_data_pack_validated:
  assumes "hex64_digest hx" "list_all (chunk_ok hx) cs"
  shows "build_data_pack hx m cs spec = build_data_pack_from_validated_chunks hx m cs spec"
proof -
  have "mapE (\<lambda>(h, d). validated_chunk_payload hx h d) cs = Inr (map (\<lambda>c. c) cs)"
    by (rule mapE_total)
       (use assms in \<open>auto simp: list_all_iff chunk_ok_def validated_chunk_payload_def hex64_digest_def\<close>)
  then show ?thesis by (simp add: build_data_pack_def)
qed

section \<open>Round trip\<close>

text \<open>C10. Erasure coding restores every chunk: packing chunks whose digests match succeeds, yields
  data plus parity many shards, and from any set of distinct shards with at most
  \<open>recoverable_missing_shards\<close> missing, in any order, \<open>reconstruct_payload\<close> succeeds and
  \<open>extract_pack_chunks\<close> returns every chunk under its hash.\<close>

theorem any_k_shards_restore_chunks:
  assumes hx: "hex64_digest hx" and spec: "spec_wf spec"
    and z: "zfec_recovers z (data_shards spec) (total_shards spec)"
    and cs: "cs \<noteq> []" "list_all (chunk_ok hx) cs"
  shows "\<exists>pack mf. build_data_pack hx (Some z) cs spec = Inr pack
    \<and> mk_DataPackManifest (ep_pack_hash pack) (ep_payload_size pack) (ep_padded_size pack) (ep_shard_size pack)
         (ep_spec pack) (ep_entries pack) = Inr mf
    \<and> int (length (ep_shards pack)) = total_shards spec \<and> distinct (ep_shards pack)
    \<and> (\<forall>ss. distinct ss \<and> set ss \<subseteq> set (ep_shards pack)
          \<and> total_shards spec - recoverable_missing_shards spec \<le> int (length ss) \<longrightarrow>
         (\<exists>payload. reconstruct_payload hx (Some z) mf ss = Inr payload
            \<and> extract_pack_chunks hx payload mf [] = Inr (dict_of cs)))"
proof -
  define payload where "payload = concat (map snd cs)"
  define ph where "ph = hx payload"
  have k: "0 < data_shards spec" "0 \<le> parity_shards spec" using spec by (simp_all add: spec_wf_def)
  obtain raws blocks where b: "build_data_pack_from_validated_chunks hx (Some z) cs spec = Inr
       \<lparr>ep_pack_hash = ph, ep_payload_size = int (length payload),
        ep_padded_size = block_size (length payload) (data_shards spec) * data_shards spec,
        ep_shard_size = block_size (length payload) (data_shards spec), ep_spec = spec,
        ep_entries = entries_of 0 0 cs,
        ep_shards = map (shard_of hx ph raws) (py_range (total_shards spec))\<rparr>" (is "_ = Inr ?pack")
    "take (length payload) (concat blocks) = payload"
    "\<And>idx. sorted idx \<Longrightarrow> distinct idx \<Longrightarrow> set idx \<subseteq> {0..<total_shards spec} \<Longrightarrow> length idx = nat (data_shards spec)
       \<Longrightarrow> zfec_decode z (data_shards spec) (total_shards spec) (map (\<lambda>i. raws ! nat i) idx) idx = Inr blocks"
    using build_validated_ok [OF hx spec z cs] unfolding payload_def ph_def by metis
  define mf where "mf = \<lparr>mf_pack_hash = ph, mf_payload_size = int (length payload),
      mf_padded_size = block_size (length payload) (data_shards spec) * data_shards spec,
      mf_shard_size = block_size (length payload) (data_shards spec), mf_spec = spec, mf_entries = entries_of 0 0 cs\<rparr>"
  have hex: "is_hex64 ph" using hx by (simp add: ph_def hex64_digest_def)
  have m: "mk_DataPackManifest (ep_pack_hash ?pack) (ep_payload_size ?pack) (ep_padded_size ?pack) (ep_shard_size ?pack)
         (ep_spec ?pack) (ep_entries ?pack) = Inr mf"
    using hex k block_size_bounds(1) [OF k(1), of "length payload"]
    by (simp add: mk_DataPackManifest_def mf_def not_less)
  have inj: "inj (shard_of hx ph raws)" by (metis injI shard_of_simps(2))
  have "reconstruct_payload hx (Some z) mf ss = Inr payload \<and> extract_pack_chunks hx payload mf [] = Inr (dict_of cs)"
    if "distinct ss" "set ss \<subseteq> set (ep_shards ?pack)" "total_shards spec - recoverable_missing_shards spec \<le> int (length ss)" for ss
  proof
    have sub: "set ss \<subseteq> shard_of hx ph raws ` {0..<total_shards spec}"
      using that(2) by (auto simp: py_range_simps)
    have len: "data_shards spec \<le> int (length ss)"
      using that(3) by (simp add: total_shards_def recoverable_missing_shards_def)
    have "codec_decode hx (Some z) ss spec (int (length payload)) ph = Inr payload"
      by (rule codec_decode_ok [OF sub that(1) len k(1) b(3) b(2) ph_def [symmetric]])
    then show "reconstruct_payload hx (Some z) mf ss = Inr payload" by (simp add: reconstruct_payload_def mf_def)
    show "extract_pack_chunks hx payload mf [] = Inr (dict_of cs)"
      using extract_pack_chunks_ok [OF cs(2), of mf "[]"] by (simp add: mf_def payload_def)
  qed
  moreover have "int (length (ep_shards ?pack)) = total_shards spec"
    using k by (simp add: py_range_simps total_shards_def)
  moreover have "distinct (ep_shards ?pack)"
    using inj by (simp add: distinct_map py_range_simps inj_on_subset [OF inj])
  moreover have "build_data_pack hx (Some z) cs spec = Inr ?pack"
    by (simp only: build_data_pack_validated [OF hx cs(2)] b(1))
  ultimately show ?thesis using m by (intro exI [of _ ?pack] exI [of _ mf] conjI) auto
qed

text \<open>A concrete code for the witness: two primary blocks and their bitwise sum.\<close>

definition xor_bytes :: "bytes \<Rightarrow> bytes \<Rightarrow> bytes" where
  "xor_bytes a b = map2 xor a b"

definition xor_zfec :: zfec where
  "xor_zfec = \<lparr>zfec_encode = (\<lambda>k n blocks idx. Inr (map (\<lambda>i.
       if i = 0 then blocks ! 0 else if i = 1 then blocks ! 1 else xor_bytes (blocks ! 0) (blocks ! 1)) idx)),
     zfec_decode = (\<lambda>k n shards idx. Inr (
       if idx = [0, 1] then shards
       else if idx = [0, 2] then [shards ! 0, xor_bytes (shards ! 0) (shards ! 1)]
       else [xor_bytes (shards ! 1) (shards ! 0), shards ! 0]))\<rparr>"

definition demo_hexdigest :: "bytes \<Rightarrow> string" where
  "demo_hexdigest b = replicate 64 (char_of (48 + length b mod 10))"

lemma demo_hexdigest_hex64: "hex64_digest demo_hexdigest"
  by (simp add: hex64_digest_def demo_hexdigest_def is_hex64_def BLAKE3_HEX_LENGTH_def list_all_iff
      is_hex_lower_def is_dec_char_digit)

lemma xor_bytes_cancel: "length a = length b \<Longrightarrow> xor_bytes a (xor_bytes a b) = b"
  unfolding xor_bytes_def by (induction a b rule: list_induct2) (auto simp: xor.assoc [symmetric])

lemma xor_bytes_commute: "xor_bytes a b = xor_bytes b a"
  by (simp add: xor_bytes_def map2_map_map zip_commute [of a b] comp_def xor.commute split_def)

lemma pairs_below_3:
  assumes "sorted idx" "distinct idx" "set idx \<subseteq> {0..<3 :: int}" "length idx = 2"
  shows "idx \<in> {[0, 1], [0, 2], [1, 2]}"
proof -
  from assms(4) obtain a b where ab: "idx = [a, b]" by (auto simp: numeral_2_eq_2 length_Suc_conv)
  then show ?thesis using assms(1-3) by auto
qed

lemma xor_zfec_recovers: "zfec_recovers xor_zfec 2 3"
  unfolding zfec_recovers_def
proof (intro allI impI)
  fix blocks :: "bytes list" and sz
  assume "length blocks = nat 2 \<and> (\<forall>b \<in> set blocks. length b = sz)"
  then obtain a b where ab: "blocks = [a, b]" "length a = sz" "length b = sz"
    by (auto simp: numeral_2_eq_2 length_Suc_conv)
  have r: "py_range 3 = [0, 1, 2]" by (simp add: py_range_def numeral_3_eq_3)
  have c1: "xor_bytes a (xor_bytes a b) = b" using ab by (simp add: xor_bytes_cancel)
  have c2: "xor_bytes (xor_bytes a b) b = a"
    using ab xor_bytes_cancel [of b a] by (simp only: xor_bytes_commute [of _ b])
  have dec: "zfec_decode xor_zfec 2 3 (map (\<lambda>i. [a, b, xor_bytes a b] ! nat i) idx) idx = Inr blocks"
    if "sorted idx" "distinct idx" "set idx \<subseteq> {0..<3}" "length idx = nat 2" for idx
    using pairs_below_3 [of idx] that ab
    by (auto simp: xor_zfec_def c1 c2)
  have "length (xor_bytes a b) = sz" using ab by (simp add: xor_bytes_def)
  then show "\<exists>raws. zfec_encode xor_zfec 2 3 blocks (py_range 3) = Inr raws \<and> length raws = nat 3
      \<and> (\<forall>r \<in> set raws. length r = sz)
      \<and> (\<forall>idx. sorted idx \<and> distinct idx \<and> set idx \<subseteq> {0..<3} \<and> length idx = nat 2 \<longrightarrow>
            zfec_decode xor_zfec 2 3 (map (\<lambda>i. raws ! nat i) idx) idx = Inr blocks)"
    using dec ab by (intro exI [of _ "[a, b, xor_bytes a b]"]) (auto simp: xor_zfec_def r numeral_3_eq_3)
qed

definition demo_spec :: erasure_spec where
  "demo_spec = \<lparr>data_shards = 2, parity_shards = 1, codec = ''zfec''\<rparr>"

definition demo_chunks :: "(string \<times> bytes) list" where
  "demo_chunks = [(demo_hexdigest [1, 2, 3], [1, 2, 3]), (demo_hexdigest [4, 5], [4, 5])]"

lemma demo_inputs: "spec_wf demo_spec" "total_shards demo_spec = 3" "demo_chunks \<noteq> []"
    "list_all (chunk_ok demo_hexdigest) demo_chunks"
  by (simp_all add: spec_wf_def demo_spec_def total_shards_def demo_chunks_def chunk_ok_def)

theorem any_k_shards_restore_chunks_witness:
  "\<exists>pack mf payload. build_data_pack demo_hexdigest (Some xor_zfec) demo_chunks demo_spec = Inr pack
     \<and> reconstruct_payload demo_hexdigest (Some xor_zfec) mf (rev (tl (ep_shards pack))) = Inr payload
     \<and> extract_pack_chunks demo_hexdigest payload mf [] = Inr (dict_of demo_chunks)"
proof -
  have z: "zfec_recovers xor_zfec (data_shards demo_spec) (total_shards demo_spec)"
    using xor_zfec_recovers demo_inputs(2) by (simp add: demo_spec_def)
  obtain pack mf where p: "build_data_pack demo_hexdigest (Some xor_zfec) demo_chunks demo_spec = Inr pack"
    "int (length (ep_shards pack)) = total_shards demo_spec" "distinct (ep_shards pack)"
    "\<And>ss. distinct ss \<Longrightarrow> set ss \<subseteq> set (ep_shards pack) \<Longrightarrow>
        total_shards demo_spec - recoverable_missing_shards demo_spec \<le> int (length ss) \<Longrightarrow>
         (\<exists>payload. reconstruct_payload demo_hexdigest (Some xor_zfec) mf ss = Inr payload
            \<and> extract_pack_chunks demo_hexdigest payload mf [] = Inr (dict_of demo_chunks))"
    using any_k_shards_restore_chunks [OF demo_hexdigest_hex64 demo_inputs(1) z demo_inputs(3,4)] by blast
  have "distinct (rev (tl (ep_shards pack)))" using p(3) by (simp add: distinct_tl)
  moreover have "set (rev (tl (ep_shards pack))) \<subseteq> set (ep_shards pack)" by (cases "ep_shards pack") auto
  moreover have "total_shards demo_spec - recoverable_missing_shards demo_spec \<le> int (length (rev (tl (ep_shards pack))))"
    using p(2) demo_inputs(2) by (simp add: recoverable_missing_shards_def demo_spec_def)
  ultimately show ?thesis using p(1,4) by blast
qed

section \<open>Reconstruction never returns wrong bytes\<close>

lemma codec_decode_hash:
  "codec_decode hx m ss spec sz expected = Inr payload \<Longrightarrow>
     hx payload = expected \<and> data_shards spec \<le> int (length ss)"
  by (auto simp: codec_decode_def Let_def bindE_eq_Inr py_slice_def py_clamp_def split: if_splits prod.splits)

lemma extract_loop_hashes:
  "extract_loop hx payload w acc es = Inr d \<Longrightarrow> \<forall>(h, b) \<in> set acc. hx b = h \<Longrightarrow> \<forall>(h, b) \<in> set d. hx b = h"
proof (induction hx payload w acc es rule: extract_loop.induct)
  case (2 hx payload w acc e es)
  then show ?case
    by (auto simp: Let_def split: if_splits dest: subsetD [OF set_update_subset])
qed auto

lemma extract_pack_chunks_hashes:
  "extract_pack_chunks hx payload mf ws = Inr d \<Longrightarrow> (h, b) \<in> set d \<Longrightarrow> hx b = h"
  by (auto simp: extract_pack_chunks_def bindE_eq_Inr split: if_splits dest!: extract_loop_hashes)

text \<open>C11. Reconstruction is authenticated whatever the remote nodes or the decoder return: a payload
  that \<open>reconstruct_payload\<close> yields has the manifest's pack hash and needed at least
  \<open>data_shards\<close> shards, and every chunk extracted from any payload has the hash it is filed
  under.\<close>

theorem reconstruction_authenticated:
  assumes "reconstruct_payload hx m mf ss = Inr payload"
    and "extract_pack_chunks hx payload mf ws = Inr d" and "(h, b) \<in> set d"
  shows "hx payload = mf_pack_hash mf \<and> data_shards (mf_spec mf) \<le> int (length ss) \<and> hx b = h"
  using codec_decode_hash [OF assms(1) [unfolded reconstruct_payload_def]]
    extract_pack_chunks_hashes [OF assms(2,3)] by blast

definition demo_manifest :: data_pack_manifest where
  "demo_manifest = \<lparr>mf_pack_hash = demo_hexdigest [1, 2], mf_payload_size = 2, mf_padded_size = 2,
     mf_shard_size = 1, mf_spec = demo_spec, mf_entries = entries_of 0 0 [(demo_hexdigest [1, 2], [1, 2])]\<rparr>"

definition demo_shards :: "data_pack_shard list" where
  "demo_shards = map (shard_of demo_hexdigest (demo_hexdigest [1, 2]) [[1], [2]]) [1, 0]"

lemma demo_reconstruct:
  "reconstruct_payload demo_hexdigest (Some xor_zfec) demo_manifest demo_shards = Inr [1, 2]"
  by (simp add: reconstruct_payload_def codec_decode_def demo_manifest_def demo_shards_def demo_spec_def
      total_shards_def py_slice_prefix Let_def import_zfec_def xor_zfec_def numeral_2_eq_2)

theorem reconstruction_authenticated_witness:
  "reconstruct_payload demo_hexdigest (Some xor_zfec) demo_manifest demo_shards = Inr [1, 2]
   \<and> extract_pack_chunks demo_hexdigest [1, 2] demo_manifest [] = Inr [(demo_hexdigest [1, 2], [1, 2])]
   \<and> demo_hexdigest [1, 2] = mf_pack_hash demo_manifest"
proof -
  have x: "extract_pack_chunks demo_hexdigest [1, 2] demo_manifest [] = Inr [(demo_hexdigest [1, 2], [1, 2])]"
    by (simp add: extract_pack_chunks_def demo_manifest_def py_slice_prefix Let_def)
  from reconstruction_authenticated [OF demo_reconstruct x, of "demo_hexdigest [1, 2]" "[1, 2]"]
  show ?thesis using demo_reconstruct x by simp
qed

section \<open>The pack builder\<close>

text \<open>What callers do with a builder: append a chunk, checked or already validated, or flush.\<close>

inductive builder_step :: "data_pack_builder \<Rightarrow> data_pack_builder \<Rightarrow> bool" where
  add: "add_chunk hx b h d = Inr (b', full) \<Longrightarrow> builder_step b b'"
| prevalidated: "add_prevalidated_chunk b h d = Inr (b', full) \<Longrightarrow> builder_step b b'"
| flushed: "builder_flush hx m b = Inr (out, b') \<Longrightarrow> builder_step b b'"

inductive_cases builder_stepE: "builder_step b b'"

definition builder_inv :: "data_pack_builder \<Rightarrow> bool" where
  "builder_inv b \<longleftrightarrow> db_current_size b = int (length (concat (map snd (db_chunks b))))
     \<and> 0 < db_target_size_bytes b
     \<and> (db_current_size b \<le> db_target_size_bytes b \<or> length (db_chunks b) = 1)"

lemma append_inv: "append_validated_chunk b h d = Inr (b', full) \<Longrightarrow> builder_inv b \<Longrightarrow>
    builder_inv b' \<and> db_target_size_bytes b' = db_target_size_bytes b \<and> db_spec b' = db_spec b"
  by (auto simp: append_validated_chunk_def would_exceed_target_def builder_inv_def Let_def split: if_splits)

lemma builder_step_inv:
  assumes "builder_step b b'" "builder_inv b"
  shows "builder_inv b' \<and> db_target_size_bytes b' = db_target_size_bytes b \<and> db_spec b' = db_spec b"
  using assms(1)
proof (rule builder_stepE)
  fix hx h d full assume "add_chunk hx b h d = Inr (b', full)"
  then show ?thesis using append_inv assms(2) by (auto simp: add_chunk_def bindE_eq_Inr)
next
  fix h d full assume "add_prevalidated_chunk b h d = Inr (b', full)"
  then show ?thesis using append_inv assms(2) by (auto simp: add_prevalidated_chunk_def)
next
  fix hx m out assume "builder_flush hx m b = Inr (out, b')"
  then show ?thesis using assms(2) by (auto simp: builder_flush_def builder_inv_def bindE_eq_Inr split: if_splits)
qed

interpretation builder: inv_system
  "\<lambda>b. mk_DataPackBuilder spec t = Inr b" builder_step
  "\<lambda>b. builder_inv b \<and> db_target_size_bytes b = t \<and> db_spec b = spec" for spec t
proof
  fix b assume "mk_DataPackBuilder spec t = Inr b"
  then show "builder_inv b \<and> db_target_size_bytes b = t \<and> db_spec b = spec"
    by (auto simp: mk_DataPackBuilder_def builder_inv_def split: if_splits)
next
  fix b b' assume "builder_inv b \<and> db_target_size_bytes b = t \<and> db_spec b = spec" "builder_step b b'"
  then show "builder_inv b' \<and> db_target_size_bytes b' = t \<and> db_spec b' = spec"
    using builder_step_inv by metis
qed

lemma pack_entries_length: "pack_entries i off cs = Inr es \<Longrightarrow> length es = length cs"
  by (induction cs arbitrary: i off es) (auto simp: bindE_eq_Inr)

lemma build_sizes:
  assumes "build_data_pack_from_validated_chunks hx m cs spec = Inr p"
  shows "ep_payload_size p = int (length (concat (map snd cs))) \<and> length (ep_entries p) = length cs \<and> ep_spec p = spec"
  using assms
  by (auto simp: build_data_pack_from_validated_chunks_def mk_EncodedDataPack_def Let_def bindE_eq_Inr
      pack_entries_length split: if_splits)

text \<open>Pack sizes: whatever sequence of additions and flushes a builder has seen, the pack it
  flushes carries at most \<open>target_size_bytes\<close> payload bytes, unless it is a singleton whose only
  chunk is larger, and the builder is empty again after the flush.\<close>

theorem flushed_pack_within_target:
  assumes "mk_DataPackBuilder spec t = Inr b0" and "builder_step\<^sup>*\<^sup>* b0 b"
    and "builder_flush hx m b = Inr (Some p, b')"
  shows "(ep_payload_size p \<le> t \<or> length (ep_entries p) = 1) \<and> ep_spec p = spec
    \<and> builder_is_empty b' \<and> db_current_size b' = 0"
proof -
  have inv: "builder_inv b" "db_target_size_bytes b = t" "db_spec b = spec"
    using builder.inv_reachable [OF assms(1,2)] by blast+
  from assms(3) have "build_data_pack_from_validated_chunks hx m (db_chunks b) spec = Inr p"
    and b': "b' = b\<lparr>db_chunks := [], db_current_size := 0\<rparr>"
    using inv(3) by (auto simp: builder_flush_def bindE_eq_Inr split: if_splits)
  from build_sizes [OF this(1)] show ?thesis using inv by (auto simp: builder_inv_def builder_is_empty_def b')
qed

theorem flushed_pack_within_target_witness:
  "\<exists>b0 b p b'. mk_DataPackBuilder demo_spec 4 = Inr b0 \<and> builder_step\<^sup>*\<^sup>* b0 b
     \<and> builder_flush demo_hexdigest (Some xor_zfec) b = Inr (Some p, b') \<and> ep_payload_size p \<le> 4"
proof -
  define b0 where "b0 = \<lparr>db_spec = demo_spec, db_target_size_bytes = 4, db_chunks = [], db_current_size = 0\<rparr>"
  define cs where "cs = [(demo_hexdigest [1, 2, 3], [1, 2, 3 :: byte])]"
  define b where "b = b0\<lparr>db_chunks := cs, db_current_size := 3\<rparr>"
  have i: "mk_DataPackBuilder demo_spec 4 = Inr b0" by (simp add: mk_DataPackBuilder_def b0_def)
  have "add_prevalidated_chunk b0 (demo_hexdigest [1, 2, 3]) [1, 2, 3] = Inr (b, False)"
    by (simp add: add_prevalidated_chunk_def append_validated_chunk_def would_exceed_target_def b0_def b_def cs_def)
  then have s: "builder_step\<^sup>*\<^sup>* b0 b" by (blast intro: builder_step.prevalidated)
  have z: "zfec_recovers xor_zfec (data_shards demo_spec) (total_shards demo_spec)"
    using xor_zfec_recovers demo_inputs(2) by (simp add: demo_spec_def)
  obtain p where p: "build_data_pack_from_validated_chunks demo_hexdigest (Some xor_zfec) cs demo_spec = Inr p"
    by (rule build_validated_ok [OF demo_hexdigest_hex64 demo_inputs(1) z, of cs]) (simp_all add: cs_def chunk_ok_def)
  then have f: "builder_flush demo_hexdigest (Some xor_zfec) b = Inr (Some p, b\<lparr>db_chunks := [], db_current_size := 0\<rparr>)"
    by (simp add: builder_flush_def b_def b0_def) (simp add: cs_def)
  have "ep_payload_size p \<le> 4" using flushed_pack_within_target [OF i s f] build_sizes [OF p] by (simp add: cs_def)
  then show ?thesis using i s f by blast
qed

section \<open>Shards go to distinct remote nodes\<close>

lemma placements_from_fields:
  assumes "placements_from ph i ms = Inr ps"
  shows "map sp_shard_index ps = map (\<lambda>j. i + int j) [0..<length ms] \<and> map sp_node_id ps = map (\<lambda>m. py_strip (node_id m)) ms
    \<and> map sp_address ps = map (\<lambda>m. py_strip (address m)) ms"
  using assms
proof (induction ms arbitrary: i ps)
  case (Cons m ms)
  from Cons.prems obtain p qs where p: "mk_DataPackShardPlacement ph i (node_id m) (address m) = Inr p"
    "placements_from ph (i + 1) ms = Inr qs" "ps = p # qs" by (auto simp: bindE_eq_Inr)
  have "[0..<length (m # ms)] = 0 # map Suc [0..<length ms]" by (simp add: upt_conv_Cons map_Suc_upt del: upt_Suc)
  then show ?case using Cons.IH [OF p(2)] p(1,3)
    by (auto simp: mk_DataPackShardPlacement_def bindE_eq_Inr comp_def algebra_simps split: if_splits simp del: upt_Suc)
qed simp

definition canonical_ids :: "cluster_view \<Rightarrow> bool" where
  "canonical_ids c \<longleftrightarrow> list_all (\<lambda>m. py_strip (node_id m) = node_id m) (members c)"

text \<open>Placement of the shards of a pack: when planning succeeds, shard \<open>i\<close> of \<open>0..n-1\<close> has
  exactly one placement, the nodes are pairwise different members of the view and the origin is
  not among them, so losing one node loses at most one shard.\<close>

theorem shard_placement_sound:
  assumes wf: "view_wf c" "canonical_ids c" "spec_wf spec"
    and plan: "plan_data_pack_shard_placement digest ph spec c origin token = Inr ps"
  shows "map sp_shard_index ps = py_range (total_shards spec) \<and> distinct (map sp_node_id ps)
    \<and> set (map sp_node_id ps) \<subseteq> set (node_ids c) - {py_strip origin}"
proof -
  obtain h ms where h: "ms = hrw_targets_excluding digest c h (total_shards spec) token {py_strip origin}"
    "total_shards spec \<le> int (length ms)" "placements_from h 0 ms = Inr ps"
    using plan by (auto simp: plan_data_pack_shard_placement_def Let_def bindE_eq_Inr not_less split: if_splits)
  note t = hrw_targets_excluding_props [OF wf(1), of digest h "total_shards spec" token "{py_strip origin}", folded h(1)]
  have n: "length ms = nat (total_shards spec)"
    using t h(2) wf(3) by (auto simp: spec_wf_def total_shards_def min_def split: if_splits)
  have ids: "map (\<lambda>m. py_strip (node_id m)) ms = map node_id ms"
    using t wf(2) by (auto simp: canonical_ids_def list_all_iff)
  have "set (map node_id ms) \<subseteq> set (node_ids c) - {py_strip origin}"
    using t by (auto simp: node_ids_def) (metis imageI)
  then show ?thesis using placements_from_fields [OF h(3)] t unfolding ids n by (auto simp: py_range_def)
qed

definition demo_view :: cluster_view where
  "demo_view = view_of_response ''a'' [(''n1'', ''a''), (''n2'', ''b''), (''n3'', ''c''), (''n4'', ''d'')]"

lemma demo_view_facts: "view_wf demo_view" "canonical_ids demo_view"
  "map node_id (members demo_view) = [''n1'', ''n2'', ''n3'', ''n4'']"
  "map address (members demo_view) = [''a'', ''b'', ''c'', ''d'']"
proof -
  show "view_wf demo_view" unfolding demo_view_def by (rule view_of_response_wf)
qed (simp_all add: demo_view_def view_of_response_def canonical_ids_def dict_of_def py_strip_def py_isspace_def Let_def)

lemma placements_from_total:
  assumes "is_hex64 ph" "0 \<le> i" "\<forall>m \<in> set ms. py_strip (node_id m) \<noteq> [] \<and> py_strip (address m) \<noteq> []"
  shows "\<exists>ps. placements_from ph i ms = Inr ps"
  using assms(2,3)
proof (induction ms arbitrary: i)
  case (Cons m ms)
  obtain ps where "placements_from ph (i + 1) ms = Inr ps" using Cons.IH [of "i + 1"] Cons.prems by auto
  then show ?case using Cons.prems assms(1) by (auto simp: mk_DataPackShardPlacement_def)
qed simp

theorem shard_placement_sound_witness:
  "\<exists>ps. plan_data_pack_shard_placement (\<lambda>b. b) (demo_hexdigest []) demo_spec demo_view ''n1'' ''tok'' = Inr ps
     \<and> map sp_shard_index ps = [0, 1, 2] \<and> distinct (map sp_node_id ps)"
proof -
  let ?h = "demo_hexdigest []"
  have hex: "is_hex64 ?h" using demo_hexdigest_hex64 by (simp add: hex64_digest_def)
  define ms where "ms = hrw_targets_excluding (\<lambda>b. b) demo_view ?h 3 ''tok'' {''n1''}"
  note t = hrw_targets_excluding_props [OF demo_view_facts(1), of "\<lambda>b. b" ?h 3 "''tok''" "{''n1''}", folded ms_def]
  have mem: "members demo_view = [\<lparr>node_id = ''n1'', address = ''a''\<rparr>, \<lparr>node_id = ''n2'', address = ''b''\<rparr>,
      \<lparr>node_id = ''n3'', address = ''c''\<rparr>, \<lparr>node_id = ''n4'', address = ''d''\<rparr>]"
    by (simp add: demo_view_def view_of_response_def dict_of_def)
  have strips: "py_strip ''n1'' = ''n1''" by (simp add: py_strip_def py_isspace_def Let_def)
  have "\<forall>m \<in> set (members demo_view). py_strip (node_id m) \<noteq> [] \<and> py_strip (address m) \<noteq> []"
    unfolding mem by (simp add: py_strip_def py_isspace_def Let_def)
  then have "\<forall>m \<in> set ms. py_strip (node_id m) \<noteq> [] \<and> py_strip (address m) \<noteq> []" using t by blast
  then obtain ps where ps: "placements_from ?h 0 ms = Inr ps" using placements_from_total [OF hex] by force
  have len: "length ms = 3" using t by (simp add: candidate_node_ids_excluding_def candidate_members_excluding_def mem)
  have canon: "map (\<lambda>m. py_strip (node_id m)) ms = map node_id ms"
    using t demo_view_facts(2) by (auto simp: canonical_ids_def list_all_iff)
  have "distinct (map sp_node_id ps)" using placements_from_fields [OF ps] t canon by simp
  from distinct_card [OF this] have "require_distinct_nodes ps = Inr ()" by (simp add: require_distinct_nodes_def Let_def)
  then have plan: "plan_data_pack_shard_placement (\<lambda>b. b) ?h demo_spec demo_view ''n1'' ''tok'' = Inr ps"
    using hex ps len demo_inputs(2)
    by (simp add: plan_data_pack_shard_placement_def strips Let_def node_ids_def demo_view_facts(3) ms_def)
  from shard_placement_sound [OF demo_view_facts(1,2) demo_inputs(1) plan] show ?thesis
    using plan demo_inputs(2) by (auto simp: py_range_def numeral_3_eq_3)
qed

section \<open>The manifest as JSON\<close>

definition DATA_PACK_MANIFEST_FORMAT :: string where
  "DATA_PACK_MANIFEST_FORMAT = ''stopan.ec.data_pack_manifest''"

definition DATA_PACK_MANIFEST_VERSION :: int where
  "DATA_PACK_MANIFEST_VERSION = 1"

definition entry_to_dict :: "data_pack_entry \<Rightarrow> json" where
  "entry_to_dict e = JObj [(''chunk_hash'', JStr (de_chunk_hash e)), (''offset'', JInt (de_offset e)),
     (''length'', JInt (de_length e)), (''ordinal'', JInt (de_ordinal e))]"

definition manifest_to_dict :: "data_pack_manifest \<Rightarrow> json" where
  "manifest_to_dict mf = JObj [
     (''format'', JStr DATA_PACK_MANIFEST_FORMAT),
     (''version'', JInt DATA_PACK_MANIFEST_VERSION),
     (''pack_hash'', JStr (mf_pack_hash mf)),
     (''payload_size'', JInt (mf_payload_size mf)),
     (''padded_size'', JInt (mf_padded_size mf)),
     (''shard_size'', JInt (mf_shard_size mf)),
     (''codec'', JStr (codec (mf_spec mf))),
     (''data_shards'', JInt (data_shards (mf_spec mf))),
     (''parity_shards'', JInt (parity_shards (mf_spec mf))),
     (''entries'', JArr (map entry_to_dict (mf_entries mf)))]"

definition encode_manifest :: "data_pack_manifest \<Rightarrow> bytes" where
  "encode_manifest mf = utf8_encode (json_dumps True (manifest_to_dict mf))"

text \<open>\<open>decode_manifest\<close> after \<open>json.loads\<close>; a text that does not parse is the \<open>Inl\<close> case.\<close>

definition entry_of_json :: "(json \<Rightarrow> string) \<Rightarrow> json \<Rightarrow> data_pack_entry result" where
  "entry_of_json repr item =
     bindE (json_item item ''chunk_hash'') (\<lambda>h.
     bindE (bindE (json_item item ''offset'') json_int) (\<lambda>off.
     bindE (bindE (json_item item ''length'') json_int) (\<lambda>len.
     bindE (bindE (json_item item ''ordinal'') json_int) (\<lambda>ord.
       mk_DataPackEntry (json_str repr h) off len ord))))"

definition decode_manifest :: "(json \<Rightarrow> string) \<Rightarrow> json result \<Rightarrow> data_pack_manifest result" where
  "decode_manifest repr loaded =
     (case loaded of
        Inr (JObj kvs) \<Rightarrow>
          let raw = JObj kvs in
          if json_get kvs ''format'' \<noteq> JStr DATA_PACK_MANIFEST_FORMAT then Inl ErasureCodingError
          else if \<not> json_eq_int (json_get kvs ''version'') DATA_PACK_MANIFEST_VERSION then Inl ErasureCodingError
          else
            bindE (bindE (json_item raw ''data_shards'') json_int) (\<lambda>d.
            bindE (bindE (json_item raw ''parity_shards'') json_int) (\<lambda>p.
            bindE (json_item raw ''codec'') (\<lambda>cod.
            bindE (mk_ErasureSpec (PyInt d) (PyInt p) (json_str repr cod)) (\<lambda>spec.
              case json_get kvs ''entries'' of
                JArr items \<Rightarrow>
                  bindE (mapE (entry_of_json repr) items) (\<lambda>entries.
                  bindE (json_item raw ''pack_hash'') (\<lambda>ph.
                  bindE (bindE (json_item raw ''payload_size'') json_int) (\<lambda>ps.
                  bindE (bindE (json_item raw ''padded_size'') json_int) (\<lambda>pad.
                  bindE (bindE (json_item raw ''shard_size'') json_int) (\<lambda>ss.
                    mk_DataPackManifest (json_str repr ph) ps pad ss spec entries)))))
              | _ \<Rightarrow> Inl ErasureCodingError))))
      | _ \<Rightarrow> Inl ErasureCodingError)"

definition entry_wf :: "data_pack_entry \<Rightarrow> bool" where
  "entry_wf e \<longleftrightarrow> is_hex64 (de_chunk_hash e) \<and> 0 \<le> de_offset e \<and> 0 < de_length e \<and> 0 \<le> de_ordinal e"

definition manifest_wf :: "data_pack_manifest \<Rightarrow> bool" where
  "manifest_wf mf \<longleftrightarrow> is_hex64 (mf_pack_hash mf) \<and> 0 \<le> mf_payload_size mf \<and> 0 \<le> mf_padded_size mf
     \<and> 0 \<le> mf_shard_size mf \<and> mf_padded_size mf = mf_shard_size mf * data_shards (mf_spec mf)
     \<and> spec_wf (mf_spec mf) \<and> list_all entry_wf (mf_entries mf)"

lemma mk_DataPackEntry_wf: "mk_DataPackEntry h off l i = Inr e \<Longrightarrow> entry_wf e"
  by (auto simp: mk_DataPackEntry_def entry_wf_def bindE_eq_Inr dest: require_hash64_Inr split: if_splits)

lemma mk_DataPackEntry_id:
  "entry_wf e \<Longrightarrow> mk_DataPackEntry (de_chunk_hash e) (de_offset e) (de_length e) (de_ordinal e) = Inr e"
  by (simp add: mk_DataPackEntry_def entry_wf_def not_less)

lemma mk_DataPackManifest_id: "manifest_wf mf \<Longrightarrow>
  mk_DataPackManifest (mf_pack_hash mf) (mf_payload_size mf) (mf_padded_size mf) (mf_shard_size mf) (mf_spec mf) (mf_entries mf) = Inr mf"
  by (simp add: mk_DataPackManifest_def manifest_wf_def not_less)

lemma mk_ErasureSpec_id:
  "spec_wf s \<Longrightarrow> mk_ErasureSpec (PyInt (data_shards s)) (PyInt (parity_shards s)) (codec s) = Inr s"
  using mk_ErasureSpec_total [of "data_shards s" "parity_shards s"] by (simp add: spec_wf_def total_shards_def)

lemma entry_roundtrip:
  assumes "entry_wf e" shows "entry_of_json repr (json_sorted (entry_to_dict e)) = Inr e"
  using mk_DataPackEntry_id [OF assms]
  by (simp add: entry_of_json_def entry_to_dict_def map_of_sort_key del: sort_key_simps)

lemma manifest_decode_encode:
  assumes "manifest_wf mf"
  shows "decode_manifest repr (Inr (json_sorted (manifest_to_dict mf))) = Inr mf"
proof -
  have es: "mapE (entry_of_json repr) (map (json_sorted \<circ> entry_to_dict) (mf_entries mf)) = Inr (mf_entries mf)"
    using assms mapE_total [of _ "\<lambda>e. entry_of_json repr (json_sorted (entry_to_dict e))" "\<lambda>e. e"]
    by (simp add: mapE_map manifest_wf_def list_all_iff entry_roundtrip)
  show ?thesis
    using assms mk_ErasureSpec_id [of "mf_spec mf"] mk_DataPackManifest_id [OF assms] es
    by (simp add: decode_manifest_def manifest_to_dict_def map_of_sort_key json_get_def json_eq_int_def
        manifest_wf_def del: sort_key_simps)
qed

lemma manifest_json_dict: "json_dict (manifest_to_dict mf)"
  by (simp add: manifest_to_dict_def entry_to_dict_def list_all_iff)

text \<open>C17. A manifest survives serialisation: reading the parsed dict of an encoded well-formed
  manifest (its keys in sorted order, as written) gives the manifest itself, and different
  manifests have different encodings.\<close>

theorem manifest_roundtrip:
  assumes "manifest_wf mf" and "manifest_wf mf'"
  shows "decode_manifest repr (Inr (json_sorted (manifest_to_dict mf))) = Inr mf
    \<and> (encode_manifest mf = encode_manifest mf' \<longleftrightarrow> mf = mf')"
proof -
  have "mf = mf'" if "encode_manifest mf = encode_manifest mf'"
  proof -
    have "json_dumps True (manifest_to_dict mf) = json_dumps True (manifest_to_dict mf')"
      by (rule utf8_encode_inj) (use that in \<open>simp only: encode_manifest_def\<close>)
    then have "json_sorted (manifest_to_dict mf) = json_sorted (manifest_to_dict mf')"
      by (rule json_dumps_eq_sorted [OF manifest_json_dict manifest_json_dict])
    then show ?thesis
      using manifest_decode_encode [OF assms(1), of repr] manifest_decode_encode [OF assms(2), of repr]
      by (metis sum.inject(2))
  qed
  then show ?thesis using manifest_decode_encode [OF assms(1)] by metis
qed

theorem manifest_roundtrip_witness:
  "decode_manifest (\<lambda>_. []) (Inr (json_sorted (manifest_to_dict demo_manifest))) = Inr demo_manifest"
proof -
  have "is_hex64 (demo_hexdigest b)" for b using demo_hexdigest_hex64 by (simp add: hex64_digest_def)
  then have wf: "manifest_wf demo_manifest"
    by (simp add: manifest_wf_def demo_manifest_def spec_wf_def demo_spec_def total_shards_def entry_wf_def)
  from manifest_roundtrip [OF wf wf] show ?thesis by blast
qed

end
