(* ===== verification/EcDelivery.thy ===== *)
theory EcDelivery
  imports ErasureCoding
begin

text \<open>
  Delivery and verification of erasure-coded shards: the remote protection context
  (\<open>protection/remote_context.py\<close>), the adaptive batch call of
  \<open>rpc/p2p_storage_client.py\<close>, the shard client \<open>protection/ec/remote_client.py\<close>,
  \<open>push_execution.py\<close>, \<open>shard_targets.py\<close>, the per-pack part of \<open>pusher.py\<close>
  and \<open>verifier.py\<close>.

  The gRPC stubs are parameters (\<open>shard_pool\<close>): what a peer answers is arbitrary, including
  errors in the middle of a stream. Tasks run by \<open>iter_completed_keyed_tasks\<close> finish in any
  order: \<open>order\<close> is the completion order, a permutation of the submitted tasks. Error texts
  (\<open>detail\<close>, \<open>error\<close>) are not modelled beyond their presence.
\<close>

section \<open>The remote protection context\<close>

record remote_protection_context =
  rc_seed :: string
  rc_cluster :: cluster_view
  rc_origin_node_id :: string
  rc_self_addr :: string
  rc_cluster_token :: string
  rc_remote_candidate_node_ids :: "string list"

definition remote_candidate_count :: "remote_protection_context \<Rightarrow> nat" where
  "remote_candidate_count ctx = length (rc_remote_candidate_node_ids ctx)"

definition excluded_node_ids :: "remote_protection_context \<Rightarrow> string set" where
  "excluded_node_ids ctx = {rc_origin_node_id ctx}"

definition context_placement_epoch :: "(bytes \<Rightarrow> string) \<Rightarrow> remote_protection_context \<Rightarrow> int \<Rightarrow> string" where
  "context_placement_epoch hexdigest ctx remote_targets =
     placement_epoch_excluding hexdigest (rc_cluster ctx) remote_targets (rc_cluster_token ctx) (excluded_node_ids ctx)"

text \<open>The identity (node, address) of the daemon that admitted the current operation, if any.\<close>

definition current_local_operation_matches :: "(string \<times> string) option \<Rightarrow> string \<Rightarrow> bool" where
  "current_local_operation_matches identity self_addr =
     (case identity of None \<Rightarrow> False
      | Some (_, addr) \<Rightarrow> let a = py_strip self_addr in a \<noteq> [] \<and> a = addr)"

definition resolve_remote_protection_context ::
    "(string \<times> string) option \<Rightarrow> string option \<Rightarrow> string \<Rightarrow> string \<Rightarrow> (string \<Rightarrow> exn + (string \<times> string) list)
       \<Rightarrow> remote_protection_context result" where
  "resolve_remote_protection_context identity membership_seed self_addr0 cluster_token get_members =
     (let self_addr = py_strip self_addr0 in
      if self_addr = [] then Inl StopanConfigRuntimeError
      else let leased = current_local_operation_matches identity self_addr in
        bindE (require_cluster_view membership_seed self_addr get_members leased) (\<lambda>resolved.
          let cluster = res_cluster resolved;
              origin = py_strip (case self_node_id cluster of None \<Rightarrow> [] | Some s \<Rightarrow> s);
              leased_node_id = py_strip (case identity of None \<Rightarrow> [] | Some (n, _) \<Rightarrow> n)
          in bindE
               (if leased then
                  if leased_node_id = [] then Inl StopanConfigRuntimeError
                  else if origin \<noteq> [] \<and> origin \<noteq> leased_node_id then Inl StopanConfigRuntimeError
                  else Inr (leased_node_id,
                    if self_node_id cluster \<noteq> Some leased_node_id
                    then \<lparr>self_node_id = Some leased_node_id, members = members cluster\<rparr> else cluster)
                else Inr (origin, cluster))
               (\<lambda>(origin_node_id, view).
                  if origin_node_id = [] then Inl StopanConfigRuntimeError
                  else Inr \<lparr>rc_seed = res_seed resolved, rc_cluster = view, rc_origin_node_id = origin_node_id,
                            rc_self_addr = self_addr, rc_cluster_token = cluster_token,
                            rc_remote_candidate_node_ids = candidate_node_ids_excluding view {origin_node_id}\<rparr>)))"

section \<open>Adaptive batches\<close>

function run_adaptive_batch_call ::
    "('e \<Rightarrow> bool) \<Rightarrow> ('i list \<Rightarrow> 'e + ('k \<times> 'v) list) \<Rightarrow> 'i list \<Rightarrow> 'e + ('k \<times> 'v) list" where
  "run_adaptive_batch_call too_large call_once items =
     (case call_once items of
        Inr d \<Rightarrow> Inr d
      | Inl exc \<Rightarrow>
          if length items > 1 \<and> too_large exc then
            let mid = max 1 (length items div 2) in
            bindE (run_adaptive_batch_call too_large call_once (take mid items)) (\<lambda>left.
            bindE (run_adaptive_batch_call too_large call_once (drop mid items)) (\<lambda>right.
              Inr (dict_update left right)))
          else Inl exc)"
  by pat_completeness auto

termination
  by (relation "measure (\<lambda>(t, c, items). length items)") auto

declare run_adaptive_batch_call.simps [simp del]

section \<open>Shard references and payloads\<close>

record shard_ref =
  sr_pack_hash :: string
  sr_shard_index :: int
  sr_shard_hash :: string

definition mk_RemoteDataPackShardRef :: "string \<Rightarrow> int \<Rightarrow> string \<Rightarrow> shard_ref result" where
  "mk_RemoteDataPackShardRef pack_hash shard_index shard_hash =
     bindE (require_hash64 (PyStr pack_hash)) (\<lambda>p.
     bindE (require_hash64 (PyStr shard_hash)) (\<lambda>h.
     bindE (require_non_negative_int (PyInt shard_index)) (\<lambda>i.
       Inr \<lparr>sr_pack_hash = p, sr_shard_index = i, sr_shard_hash = h\<rparr>)))"

definition identity_key :: "shard_ref \<Rightarrow> string \<times> int \<times> string" where
  "identity_key r = (sr_pack_hash r, sr_shard_index r, sr_shard_hash r)"

record shard_payload =
  sy_ref :: shard_ref
  sy_data :: bytes

definition mk_RemoteDataPackShardPayload :: "shard_ref \<Rightarrow> bytes \<Rightarrow> shard_payload result" where
  "mk_RemoteDataPackShardPayload ref data =
     (if data = [] then Inl ErasureCodingError else Inr \<lparr>sy_ref = ref, sy_data = data\<rparr>)"

record store_result =
  st_ref :: shard_ref
  st_status :: int

definition is_success :: "store_result \<Rightarrow> bool" where
  "is_success r \<longleftrightarrow>
     st_status r \<in> {DATA_PACK_SHARD_STORE_STATUS_STORED, DATA_PACK_SHARD_STORE_STATUS_ALREADY_PRESENT}"

text \<open>The stubs of a client pool: what \<open>ProbeMissingDataPackShards\<close> answers, and the messages
  \<open>ReplicateDataPackShards\<close> streams back followed by the end of the stream or an error.\<close>

record shard_pool =
  sp_probe :: "string \<Rightarrow> shard_ref list \<Rightarrow> (string \<times> int \<times> string) list result"
  sp_replicate :: "string \<Rightarrow> shard_payload list \<Rightarrow> ((string \<times> int \<times> string) \<times> int) list \<times> exn option"
  sp_max_message_bytes :: int

definition dedupe_refs :: "shard_ref list \<Rightarrow> shard_ref list" where
  "dedupe_refs refs = ordered_unique_by refs identity_key"

fun dedupe_payloads_loop ::
    "((string \<times> int \<times> string) \<times> shard_payload) list \<Rightarrow> shard_payload list \<Rightarrow> shard_payload list result" where
  "dedupe_payloads_loop ordered [] = Inr (map snd ordered)"
| "dedupe_payloads_loop ordered (s # ss) =
     (let key = identity_key (sy_ref s) in
      case map_of ordered key of
        None \<Rightarrow> dedupe_payloads_loop (ordered @ [(key, s)]) ss
      | Some existing \<Rightarrow>
          if sy_data existing \<noteq> sy_data s then Inl ErasureCodingError
          else dedupe_payloads_loop ordered ss)"

definition dedupe_payloads :: "shard_payload list \<Rightarrow> shard_payload list result" where
  "dedupe_payloads shards = dedupe_payloads_loop [] shards"

section \<open>Message sizes\<close>

fun varint_loop :: "nat \<Rightarrow> nat \<Rightarrow> nat" where
  "varint_loop sz v = (if v \<ge> 128 then varint_loop (sz + 1) (v div 128) else sz)"

declare varint_loop.simps [simp del]

definition protobuf_varint_size :: "int \<Rightarrow> int result" where
  "protobuf_varint_size v = (if v < 0 then Inl ErasureCodingError else Inr (int (varint_loop 1 (nat v))))"

definition replicate_data_pack_shard_request_size_bytes :: "shard_payload \<Rightarrow> int result" where
  "replicate_data_pack_shard_request_size_bytes item =
     bindE (if sr_shard_index (sy_ref item) \<noteq> 0
            then bindE (protobuf_varint_size (sr_shard_index (sy_ref item))) (\<lambda>v. Inr (1 + v)) else Inr 0) (\<lambda>idx.
     bindE (protobuf_varint_size (int (length (sy_data item)))) (\<lambda>v.
       Inr ((1 + 1 + 64) + (1 + 1 + 64) + idx + (1 + v + int (length (sy_data item))))))"

definition ensure_replicate_data_pack_shard_fits_message :: "shard_payload \<Rightarrow> int \<Rightarrow> unit result" where
  "ensure_replicate_data_pack_shard_fits_message item max_message_bytes =
     (if max_message_bytes \<le> 0 then Inl ErasureCodingConfigError
      else bindE (replicate_data_pack_shard_request_size_bytes item) (\<lambda>request_size.
        raise_if (request_size > max_message_bytes) ErasureCodingConfigError))"

definition retrieve_data_pack_shard_response_size_bytes :: "shard_payload \<Rightarrow> int result" where
  "retrieve_data_pack_shard_response_size_bytes item =
     bindE (if sr_shard_index (sy_ref item) \<noteq> 0
            then bindE (protobuf_varint_size (sr_shard_index (sy_ref item))) (\<lambda>v. Inr (1 + v)) else Inr 0) (\<lambda>idx.
     bindE (protobuf_varint_size (int (length (sy_data item)))) (\<lambda>v.
       let inner_size = (1 + 1 + 64) + (1 + 1 + 64) + idx + (1 + 1)
             + (1 + v + int (length (sy_data item))) + (1 + 1 + 2)
       in bindE (protobuf_varint_size inner_size) (\<lambda>w. Inr (1 + w + inner_size))))"

definition ensure_data_pack_shard_fits_transport :: "shard_payload \<Rightarrow> int \<Rightarrow> unit result" where
  "ensure_data_pack_shard_fits_transport item max_message_bytes =
     bindE (ensure_replicate_data_pack_shard_fits_message item max_message_bytes) (\<lambda>_.
     bindE (retrieve_data_pack_shard_response_size_bytes item) (\<lambda>response_size.
       raise_if (response_size > max_message_bytes) ErasureCodingConfigError))"

section \<open>Client calls\<close>

definition probe_missing_shards :: "shard_pool \<Rightarrow> string \<Rightarrow> shard_ref list \<Rightarrow> shard_ref list result" where
  "probe_missing_shards pool addr refs =
     (let ordered_refs = dedupe_refs refs in
      if ordered_refs = [] then Inr []
      else bindE (sp_probe pool addr ordered_refs)
             (mapE (\<lambda>(p, i, h). mk_RemoteDataPackShardRef p i h)))"

text \<open>The response loop: the results read so far and whether it was cut by an exception, be it
  an RPC error or a malformed reference.\<close>

fun read_acks :: "((string \<times> int \<times> string) \<times> int) list \<Rightarrow> store_result list \<times> bool" where
  "read_acks [] = ([], False)"
| "read_acks (((p, i, h), status) # items) =
     (case mk_RemoteDataPackShardRef p i h of
        Inl _ \<Rightarrow> ([], True)
      | Inr ref \<Rightarrow> let (rs, failed) = read_acks items in (\<lparr>st_ref = ref, st_status = status\<rparr> # rs, failed))"

text \<open>Failures carry the results obtained before them, as
  \<open>RemoteDataPackShardReplicationError\<close> does; an exception raised before the stream carries
  none.\<close>

definition replicate_shards ::
    "shard_pool \<Rightarrow> string \<Rightarrow> shard_payload list \<Rightarrow> (exn \<times> store_result list) + store_result list" where
  "replicate_shards pool addr shards =
     (case dedupe_payloads shards of
        Inl e \<Rightarrow> Inl (e, [])
      | Inr ordered \<Rightarrow>
          if ordered = [] then Inr []
          else case mapE (\<lambda>item. ensure_data_pack_shard_fits_transport item (sp_max_message_bytes pool)) ordered of
            Inl e \<Rightarrow> Inl (e, [])
          | Inr _ \<Rightarrow>
              let (items, stream_error) = sp_replicate pool addr ordered;
                  (results, failed) = read_acks items
              in if failed \<or> stream_error \<noteq> None then Inl (RemoteDataPackShardReplicationError, results)
                 else Inr results)"

section \<open>Pushing the shards of a pack\<close>

record push_result =
  pu_successful_indexes :: "int set"
  pu_stored_shards :: int
  pu_already_present_shards :: int
  pu_failed_results :: "(string \<times> store_result) list"

definition failed_shards :: "push_result \<Rightarrow> nat" where
  "failed_shards r = length (pu_failed_results r)"

record shard_target_batch =
  tb_address :: string
  tb_payloads :: "shard_payload list"

definition failed_results_for_refs :: "string \<Rightarrow> shard_ref list \<Rightarrow> (string \<times> store_result) list" where
  "failed_results_for_refs addr refs =
     map (\<lambda>ref. (addr, \<lparr>st_ref = ref, st_status = DATA_PACK_SHARD_STORE_STATUS_ERROR\<rparr>)) refs"

definition missing_ack_results ::
    "string \<Rightarrow> shard_payload list \<Rightarrow> (string \<times> int \<times> string) set \<Rightarrow> (string \<times> store_result) list" where
  "missing_ack_results addr payloads acknowledged =
     map (\<lambda>item. (addr, \<lparr>st_ref = sy_ref item, st_status = DATA_PACK_SHARD_STORE_STATUS_ERROR\<rparr>))
       (filter (\<lambda>item. identity_key (sy_ref item) \<notin> acknowledged) payloads)"

record ack_state =
  ak_acknowledged :: "(string \<times> int \<times> string) set"
  ak_successful :: "int set"
  ak_stored :: int
  ak_already :: int
  ak_failed :: "(string \<times> store_result) list"

text \<open>The loop over \<open>store_results\<close>: only the first acknowledgement of an expected key counts.\<close>

definition count_ack :: "string \<Rightarrow> store_result \<Rightarrow> ack_state \<Rightarrow> ack_state" where
  "count_ack addr r st =
     (let st1 = st\<lparr>ak_acknowledged := insert (identity_key (st_ref r)) (ak_acknowledged st)\<rparr> in
      if is_success r then
        let st2 = st1\<lparr>ak_successful := insert (sr_shard_index (st_ref r)) (ak_successful st1)\<rparr> in
        if st_status r = DATA_PACK_SHARD_STORE_STATUS_STORED then st2\<lparr>ak_stored := ak_stored st2 + 1\<rparr>
        else st2\<lparr>ak_already := ak_already st2 + 1\<rparr>
      else st1\<lparr>ak_failed := ak_failed st1 @ [(addr, r)]\<rparr>)"

fun apply_acks :: "string \<Rightarrow> (string \<times> int \<times> string) set \<Rightarrow> ack_state \<Rightarrow> store_result list \<Rightarrow> ack_state" where
  "apply_acks addr expected st [] = st"
| "apply_acks addr expected st (r # rs) =
     (let key = identity_key (st_ref r) in
      if key \<notin> expected \<or> key \<in> ak_acknowledged st then apply_acks addr expected st rs
      else apply_acks addr expected (count_ack addr r st) rs)"

definition acks_of :: "(exn \<times> store_result list) + store_result list \<Rightarrow> store_result list" where
  "acks_of r = (case r of Inr rs \<Rightarrow> rs | Inl (_, rs) \<Rightarrow> rs)"

text \<open>The second half of \<open>_push_target_batch\<close>: transfer of the shards the probe reported
  missing.\<close>

definition send_missing_shards ::
    "shard_pool \<Rightarrow> shard_target_batch \<Rightarrow> (string \<times> int \<times> string) set \<Rightarrow> int set \<Rightarrow> int \<Rightarrow> push_result" where
  "send_missing_shards pool batch missing_keys successful already =
     (let payloads_to_send = filter (\<lambda>item. identity_key (sy_ref item) \<in> missing_keys) (tb_payloads batch);
          expected_ack_keys = set (map (\<lambda>item. identity_key (sy_ref item)) payloads_to_send);
          store_results = acks_of (replicate_shards pool (tb_address batch) payloads_to_send);
          st = apply_acks (tb_address batch) expected_ack_keys
                 \<lparr>ak_acknowledged = {}, ak_successful = successful, ak_stored = 0,
                  ak_already = already, ak_failed = []\<rparr> store_results
      in \<lparr>pu_successful_indexes = ak_successful st, pu_stored_shards = ak_stored st,
          pu_already_present_shards = ak_already st,
          pu_failed_results = ak_failed st
            @ missing_ack_results (tb_address batch) payloads_to_send (ak_acknowledged st)\<rparr>)"

definition push_target_batch :: "shard_pool \<Rightarrow> shard_target_batch \<Rightarrow> push_result" where
  "push_target_batch pool batch =
     (let refs = map sy_ref (tb_payloads batch) in
      case probe_missing_shards pool (tb_address batch) refs of
        Inl _ \<Rightarrow> \<lparr>pu_successful_indexes = {}, pu_stored_shards = 0, pu_already_present_shards = 0,
                   pu_failed_results = failed_results_for_refs (tb_address batch) refs\<rparr>
      | Inr missing_refs \<Rightarrow>
          let requested_keys = set (map identity_key refs);
              missing_keys = set (map identity_key missing_refs) \<inter> requested_keys;
              already = int (length refs) - int (card missing_keys);
              successful = set (map sr_shard_index (filter (\<lambda>ref. identity_key ref \<notin> missing_keys) refs))
          in if missing_keys = {}
             then \<lparr>pu_successful_indexes = successful, pu_stored_shards = 0,
                   pu_already_present_shards = already, pu_failed_results = []\<rparr>
             else send_missing_shards pool batch missing_keys successful already)"

text \<open>\<open>placement_by_index[shard.shard_index]\<close> raises \<open>KeyError\<close> for a shard with no
  placement.\<close>

fun payloads_by_address ::
    "string \<Rightarrow> shard_placement list \<Rightarrow> (string \<times> shard_payload list) list \<Rightarrow> data_pack_shard list
       \<Rightarrow> (string \<times> shard_payload list) list result" where
  "payloads_by_address pack_hash placements acc [] = Inr acc"
| "payloads_by_address pack_hash placements acc (s # ss) =
     (case map_of (dict_of (map (\<lambda>p. (sp_shard_index p, p)) placements)) (ds_shard_index s) of
        None \<Rightarrow> Inl KeyError
      | Some p \<Rightarrow>
          bindE (mk_RemoteDataPackShardRef pack_hash (ds_shard_index s) (ds_shard_hash s)) (\<lambda>ref.
          bindE (mk_RemoteDataPackShardPayload ref (ds_data s)) (\<lambda>payload.
            payloads_by_address pack_hash placements (dict_append (sp_address p) payload acc) ss)))"

definition target_batches :: "encoded_data_pack \<Rightarrow> shard_placement list \<Rightarrow> shard_target_batch list result" where
  "target_batches pack placements =
     bindE (payloads_by_address (ep_pack_hash pack) placements [] (ep_shards pack)) (\<lambda>d.
       Inr (map (\<lambda>(a, ps). \<lparr>tb_address = a, tb_payloads = ps\<rparr>) (sort_key fst d)))"

definition merge_push :: "push_result \<Rightarrow> push_result \<Rightarrow> push_result" where
  "merge_push acc r =
     \<lparr>pu_successful_indexes = pu_successful_indexes acc \<union> pu_successful_indexes r,
      pu_stored_shards = pu_stored_shards acc + pu_stored_shards r,
      pu_already_present_shards = pu_already_present_shards acc + pu_already_present_shards r,
      pu_failed_results = pu_failed_results acc @ pu_failed_results r\<rparr>"

definition failed_key :: "string \<times> store_result \<Rightarrow> string \<times> int \<times> string" where
  "failed_key item = (fst item, sr_shard_index (st_ref (snd item)), sr_shard_hash (st_ref (snd item)))"

definition completed_result :: "(shard_target_batch \<Rightarrow> push_result result) \<Rightarrow> shard_target_batch \<Rightarrow> push_result" where
  "completed_result task batch =
     (case task batch of
        Inr r \<Rightarrow> r
      | Inl _ \<Rightarrow> \<lparr>pu_successful_indexes = {}, pu_stored_shards = 0, pu_already_present_shards = 0,
          pu_failed_results = failed_results_for_refs (tb_address batch) (map sy_ref (tb_payloads batch))\<rparr>)"

definition push_data_pack_shards ::
    "(shard_target_batch list \<Rightarrow> shard_target_batch list) \<Rightarrow> (shard_target_batch \<Rightarrow> push_result result)
       \<Rightarrow> encoded_data_pack \<Rightarrow> shard_placement list \<Rightarrow> push_result result" where
  "push_data_pack_shards order task pack placements =
     bindE (target_batches pack placements) (\<lambda>batches.
       let r = foldl (\<lambda>acc b. merge_push acc (completed_result task b))
                 \<lparr>pu_successful_indexes = {}, pu_stored_shards = 0, pu_already_present_shards = 0,
                  pu_failed_results = []\<rparr> (order batches)
       in Inr (r\<lparr>pu_failed_results := sort_key failed_key (pu_failed_results r)\<rparr>))"

fun check_delivery_limits :: "int \<Rightarrow> int \<Rightarrow> string \<Rightarrow> data_pack_shard list \<Rightarrow> unit result" where
  "check_delivery_limits max_shard_size max_message_bytes pack_hash [] = Inr ()"
| "check_delivery_limits max_shard_size max_message_bytes pack_hash (s # ss) =
     (if int (length (ds_data s)) > max_shard_size then Inl ErasureCodingConfigError
      else bindE (mk_RemoteDataPackShardRef pack_hash (ds_shard_index s) (ds_shard_hash s)) (\<lambda>ref.
           bindE (mk_RemoteDataPackShardPayload ref (ds_data s)) (\<lambda>payload.
           bindE (ensure_data_pack_shard_fits_transport payload max_message_bytes) (\<lambda>_.
             check_delivery_limits max_shard_size max_message_bytes pack_hash ss))))"

definition validate_data_pack_delivery_limits :: "encoded_data_pack \<Rightarrow> int \<Rightarrow> int \<Rightarrow> unit result" where
  "validate_data_pack_delivery_limits pack max_shard_size max_message_bytes =
     (if max_shard_size \<le> 0 then Inl ErasureCodingConfigError
      else check_delivery_limits max_shard_size max_message_bytes (ep_pack_hash pack) (ep_shards pack))"

section \<open>Recording a pushed pack\<close>

record data_pack_rows =
  dr_chunks :: "(string \<times> int \<times> int \<times> int) list"
  dr_shards :: "(int \<times> string \<times> string \<times> int) list"

definition data_pack_metadata_rows :: "encoded_data_pack \<Rightarrow> shard_placement list \<Rightarrow> data_pack_rows result" where
  "data_pack_metadata_rows pack placements =
     bindE (mapE (\<lambda>s. case map_of (dict_of (map (\<lambda>p. (sp_shard_index p, p)) placements)) (ds_shard_index s) of
                     None \<Rightarrow> Inl KeyError
                   | Some p \<Rightarrow> Inr (ds_shard_index s, ds_shard_hash s, sp_node_id p, int (length (ds_data s))))
              (ep_shards pack)) (\<lambda>shards.
       Inr \<lparr>dr_chunks = map (\<lambda>e. (de_chunk_hash e, de_offset e, de_length e, de_ordinal e)) (ep_entries pack),
            dr_shards = shards\<rparr>)"

record data_pack_push_update =
  du_pack_hash :: string
  du_spec :: erasure_spec
  du_payload_size :: int
  du_padded_size :: int
  du_shard_size :: int
  du_rows :: data_pack_rows
  du_protection_state :: protection_state
  du_placement_epoch :: string
  du_pushed_at :: real

definition build_data_pack_push_update ::
    "encoded_data_pack \<Rightarrow> shard_placement list \<Rightarrow> protection_state \<Rightarrow> string \<Rightarrow> real \<Rightarrow> data_pack_push_update result" where
  "build_data_pack_push_update pack placements state epoch now =
     bindE (data_pack_metadata_rows pack placements) (\<lambda>rows.
       Inr \<lparr>du_pack_hash = ep_pack_hash pack, du_spec = ep_spec pack, du_payload_size = ep_payload_size pack,
            du_padded_size = ep_padded_size pack, du_shard_size = ep_shard_size pack, du_rows = rows,
            du_protection_state = state, du_placement_epoch = epoch, du_pushed_at = now\<rparr>)"

record erasure_push_stats =
  es_attempted_packs :: int
  es_placed_packs :: int
  es_placed_chunks :: int
  es_degraded_packs :: int
  es_degraded_chunks :: int
  es_failed_packs :: int
  es_failed_chunks :: int
  es_stored_shards :: int
  es_already_present_shards :: int
  es_failed_shards :: int

definition apply_pack_state_to_stats :: "int \<Rightarrow> protection_state \<Rightarrow> erasure_push_stats \<Rightarrow> erasure_push_stats" where
  "apply_pack_state_to_stats chunk_count state st =
     (if state = PLACED then st\<lparr>es_placed_packs := es_placed_packs st + 1, es_placed_chunks := es_placed_chunks st + chunk_count\<rparr>
      else if state = DEGRADED then st\<lparr>es_degraded_packs := es_degraded_packs st + 1, es_degraded_chunks := es_degraded_chunks st + chunk_count\<rparr>
      else st\<lparr>es_failed_packs := es_failed_packs st + 1, es_failed_chunks := es_failed_chunks st + chunk_count\<rparr>)"

text \<open>\<open>_push_pack\<close> threads the statistics and the metadata writes made on the way: the rows
  registered as PENDING before anything is sent (\<open>register_data_pack_metadata\<close>, not for a
  retry). An exception leaves both as they were when it was raised.\<close>

definition push_pack ::
    "(bytes \<Rightarrow> bytes) \<Rightarrow> (shard_target_batch list \<Rightarrow> shard_target_batch list) \<Rightarrow> shard_pool \<Rightarrow> encoded_data_pack
      \<Rightarrow> cluster_view \<Rightarrow> string \<Rightarrow> string \<Rightarrow> string \<Rightarrow> int \<Rightarrow> real \<Rightarrow> bool \<Rightarrow> erasure_push_stats
      \<Rightarrow> erasure_push_stats \<times> data_pack_push_update list \<times> data_pack_push_update result" where
  "push_pack digest order pool pack cluster origin token epoch max_shard_size now refresh_existing st =
     (case validate_data_pack_delivery_limits pack max_shard_size (sp_max_message_bytes pool) of
        Inl e \<Rightarrow> (st, [], Inl e)
      | Inr _ \<Rightarrow>
          let st1 = st\<lparr>es_attempted_packs := es_attempted_packs st + 1\<rparr> in
          case plan_data_pack_shard_placement digest (ep_pack_hash pack) (ep_spec pack) cluster origin token of
            Inl e \<Rightarrow> (st1, [], Inl e)
          | Inr placements \<Rightarrow>
              case (if refresh_existing then Inr []
                    else bindE (build_data_pack_push_update pack placements PENDING epoch now) (\<lambda>u. Inr [u])) of
                Inl e \<Rightarrow> (st1, [], Inl e)
              | Inr registered \<Rightarrow>
                  case push_data_pack_shards order (\<lambda>b. Inr (push_target_batch pool b)) pack placements of
                    Inl e \<Rightarrow> (st1, registered, Inl e)
                  | Inr r \<Rightarrow>
                      let st2 = st1\<lparr>es_stored_shards := es_stored_shards st1 + pu_stored_shards r,
                            es_already_present_shards := es_already_present_shards st1 + pu_already_present_shards r,
                            es_failed_shards := es_failed_shards st1 + int (failed_shards r)\<rparr>;
                          state = data_pack_state (int (card (pu_successful_indexes r)))
                            (data_shards (ep_spec pack)) (total_shards (ep_spec pack))
                      in case build_data_pack_push_update pack placements state epoch now of
                           Inl e \<Rightarrow> (st2, registered, Inl e)
                         | Inr u \<Rightarrow> (apply_pack_state_to_stats (int (length (ep_entries pack))) state st2, registered, Inr u))"

section \<open>Verification of stored packs\<close>

record erasure_shard_row =
  er_pack_hash :: string
  er_shard_index :: int
  er_shard_hash :: string
  er_node_id :: string

text \<open>\<open>group_erasure_shard_refs_by_address\<close>: the references per address and how many shards
  have no reachable node.\<close>

fun group_refs_loop ::
    "(string \<times> string) list \<Rightarrow> (string \<times> shard_ref list) list \<Rightarrow> nat \<Rightarrow> erasure_shard_row list
       \<Rightarrow> ((string \<times> shard_ref list) list \<times> nat) result" where
  "group_refs_loop addresses acc offline [] = Inr (acc, offline)"
| "group_refs_loop addresses acc offline (row # rows) =
     (case map_of addresses (er_node_id row) of
        None \<Rightarrow> group_refs_loop addresses acc (offline + 1) rows
      | Some target \<Rightarrow>
          bindE (mk_RemoteDataPackShardRef (er_pack_hash row) (er_shard_index row) (er_shard_hash row)) (\<lambda>ref.
            group_refs_loop addresses (dict_append target ref acc) offline rows))"

definition group_erasure_shard_refs_by_address ::
    "erasure_shard_row list \<Rightarrow> (string \<times> string) list \<Rightarrow> ((string \<times> shard_ref list) list \<times> nat) result" where
  "group_erasure_shard_refs_by_address rows addresses = group_refs_loop addresses [] 0 rows"

definition erasure_shard_metadata_error :: "erasure_shard_row list \<Rightarrow> int \<Rightarrow> bool" where
  "erasure_shard_metadata_error rows n_total =
     (let indexes = sort (map er_shard_index rows);
          ids = map er_node_id rows
      in indexes \<noteq> py_range n_total \<or> length ids \<noteq> card (set ids))"

record probe_outcome =
  po_completed_keys :: "(string \<times> int \<times> string) set"
  po_missing_keys :: "(string \<times> int \<times> string) set"
  po_error :: bool
  po_rpc_failed_calls :: nat

fun probe_batches :: "shard_pool \<Rightarrow> string \<Rightarrow> probe_outcome \<Rightarrow> shard_ref list list \<Rightarrow> probe_outcome" where
  "probe_batches pool addr oc [] = oc"
| "probe_batches pool addr oc (batch # bs) =
     (case probe_missing_shards pool addr batch of
        Inl _ \<Rightarrow> oc\<lparr>po_error := True, po_rpc_failed_calls := 1\<rparr>
      | Inr missing \<Rightarrow>
          probe_batches pool addr
            (oc\<lparr>po_completed_keys := po_completed_keys oc \<union> set (map identity_key batch),
                po_missing_keys := po_missing_keys oc \<union> set (map identity_key missing)\<rparr>) bs)"

definition probe_address :: "shard_pool \<Rightarrow> int \<Rightarrow> string \<Rightarrow> shard_ref list \<Rightarrow> probe_outcome" where
  "probe_address pool probe_batch_hashes addr refs =
     probe_batches pool addr
       \<lparr>po_completed_keys = {}, po_missing_keys = {}, po_error = False, po_rpc_failed_calls = 0\<rparr>
       (iter_batches refs (max 1 probe_batch_hashes))"

record pack_accumulator =
  pa_total_shards :: int
  pa_verified_shard_indexes :: "int set"
  pa_metadata_complete :: bool

record verify_state =
  vs_accumulators :: "(string \<times> pack_accumulator) list"
  vs_rpc_failed_calls :: nat
  vs_rpc_failed_targets :: nat
  vs_rpc_unverified_assignments :: nat

text \<open>\<open>accumulators[ref.pack_hash]\<close> raises \<open>KeyError\<close> for a pack that is not a candidate.\<close>

definition mark_verified ::
    "(string \<times> pack_accumulator) list \<Rightarrow> shard_ref \<Rightarrow> (string \<times> pack_accumulator) list result" where
  "mark_verified accs ref =
     (case map_of accs (sr_pack_hash ref) of
        None \<Rightarrow> Inl KeyError
      | Some a \<Rightarrow> Inr (AList.update (sr_pack_hash ref)
          (a\<lparr>pa_verified_shard_indexes := insert (sr_shard_index ref) (pa_verified_shard_indexes a)\<rparr>) accs))"

definition unknown_pack :: "(string \<times> pack_accumulator) list \<Rightarrow> shard_ref list \<Rightarrow> bool" where
  "unknown_pack accs refs \<longleftrightarrow> list_ex (\<lambda>r. map_of accs (sr_pack_hash r) = None) refs"

text \<open>One completed address: what \<open>_probe_global_targets\<close> does with its outcome.\<close>

definition apply_probe_outcome :: "shard_ref list \<Rightarrow> probe_outcome \<Rightarrow> verify_state \<Rightarrow> verify_state result" where
  "apply_probe_outcome planned oc vs =
     (let unprobed = filter (\<lambda>r. identity_key r \<notin> po_completed_keys oc) planned;
          probed = filter (\<lambda>r. identity_key r \<in> po_completed_keys oc) planned;
          ok = filter (\<lambda>r. identity_key r \<notin> po_missing_keys oc) probed;
          missing = filter (\<lambda>r. identity_key r \<in> po_missing_keys oc) probed
      in bindE (foldE mark_verified (vs_accumulators vs) ok) (\<lambda>accs.
           if unknown_pack accs missing then Inl KeyError
           else if \<not> po_error oc then Inr (vs\<lparr>vs_accumulators := accs\<rparr>)
           else if unknown_pack accs unprobed then Inl KeyError
           else Inr \<lparr>vs_accumulators = accs,
                  vs_rpc_failed_calls = vs_rpc_failed_calls vs + max 1 (po_rpc_failed_calls oc),
                  vs_rpc_failed_targets = vs_rpc_failed_targets vs + 1,
                  vs_rpc_unverified_assignments = vs_rpc_unverified_assignments vs + length unprobed\<rparr>))"

definition probe_global_targets ::
    "((string \<times> shard_ref list) list \<Rightarrow> (string \<times> shard_ref list) list) \<Rightarrow> shard_pool \<Rightarrow> int
       \<Rightarrow> (string \<times> shard_ref list) list \<Rightarrow> (string \<times> pack_accumulator) list \<Rightarrow> verify_state result" where
  "probe_global_targets order pool probe_batch_hashes refs_by_address accs =
     foldE (\<lambda>vs (addr, refs). apply_probe_outcome refs (probe_address pool probe_batch_hashes addr refs) vs)
       \<lparr>vs_accumulators = accs, vs_rpc_failed_calls = 0, vs_rpc_failed_targets = 0, vs_rpc_unverified_assignments = 0\<rparr>
       (order refs_by_address)"

record erasure_pack_record =
  pk_pack_hash :: string
  pk_data_shards :: int
  pk_parity_shards :: int

fun extend_refs :: "(string \<times> shard_ref list) list \<Rightarrow> (string \<times> shard_ref list) list \<Rightarrow> (string \<times> shard_ref list) list" where
  "extend_refs acc [] = acc"
| "extend_refs acc ((a, refs) # gs) =
     extend_refs (AList.update a ((case map_of acc a of None \<Rightarrow> [] | Some rs \<Rightarrow> rs) @ refs) acc) gs"

text \<open>The first loop of \<open>_verify_candidates\<close>: accumulators and references of all candidates.\<close>

fun plan_verification ::
    "(string \<Rightarrow> erasure_shard_row list) \<Rightarrow> (string \<times> string) list
       \<Rightarrow> (string \<times> pack_accumulator) list \<times> (string \<times> shard_ref list) list \<Rightarrow> erasure_pack_record list
       \<Rightarrow> ((string \<times> pack_accumulator) list \<times> (string \<times> shard_ref list) list) result" where
  "plan_verification rows_of addresses st [] = Inr st"
| "plan_verification rows_of addresses (accs, refs) (pack # packs) =
     (let rows = rows_of (pk_pack_hash pack);
          n_total = pk_data_shards pack + pk_parity_shards pack;
          bad = erasure_shard_metadata_error rows n_total;
          accs1 = AList.update (pk_pack_hash pack)
            \<lparr>pa_total_shards = n_total, pa_verified_shard_indexes = {}, pa_metadata_complete = (\<not> bad)\<rparr> accs
      in if bad then plan_verification rows_of addresses (accs1, refs) packs
         else bindE (group_erasure_shard_refs_by_address rows addresses) (\<lambda>(groups, offline).
                plan_verification rows_of addresses (accs1, extend_refs refs groups) packs))"

definition verification_state :: "pack_accumulator \<Rightarrow> erasure_pack_record \<Rightarrow> protection_state" where
  "verification_state a pack =
     (if \<not> pa_metadata_complete a then FAILED
      else if int (card (pa_verified_shard_indexes a)) \<ge> pa_total_shards a then VERIFIED
      else data_pack_state (int (card (pa_verified_shard_indexes a))) (pk_data_shards pack) (pa_total_shards a))"

record verification_update =
  vu_pack_hash :: string
  vu_protection_state :: protection_state
  vu_verified_shard_indexes :: "int set"

definition verify_candidates ::
    "((string \<times> shard_ref list) list \<Rightarrow> (string \<times> shard_ref list) list) \<Rightarrow> shard_pool \<Rightarrow> int
       \<Rightarrow> (string \<Rightarrow> erasure_shard_row list) \<Rightarrow> cluster_view \<Rightarrow> erasure_pack_record list \<Rightarrow> verification_update list result" where
  "verify_candidates order pool probe_batch_hashes rows_of cluster candidates =
     bindE (plan_verification rows_of (node_addresses cluster) ([], []) candidates) (\<lambda>(accs, refs_by_address).
       bindE (probe_global_targets order pool probe_batch_hashes refs_by_address accs) (\<lambda>vs.
         mapE (\<lambda>pack. case map_of (vs_accumulators vs) (pk_pack_hash pack) of
               None \<Rightarrow> Inl KeyError
             | Some a \<Rightarrow> Inr \<lparr>vu_pack_hash = pk_pack_hash pack, vu_protection_state = verification_state a pack,
                               vu_verified_shard_indexes = pa_verified_shard_indexes a\<rparr>)
            candidates))"

section \<open>Message sizes against the wire format\<close>

text \<open>The protobuf wire format of the two messages: a field is its tag (number and wire type),
  then a varint, or a length and the bytes; fields with the default value are omitted.\<close>

fun pb_varint :: "nat \<Rightarrow> bytes" where
  "pb_varint v = (if v < 128 then [of_nat v] else of_nat (128 + v mod 128) # pb_varint (v div 128))"

declare pb_varint.simps [simp del]

definition pb_len_field :: "nat \<Rightarrow> bytes \<Rightarrow> bytes" where
  "pb_len_field num bs = (if bs = [] then [] else of_nat (8 * num + 2) # pb_varint (length bs) @ bs)"

definition pb_varint_field :: "nat \<Rightarrow> nat \<Rightarrow> bytes" where
  "pb_varint_field num v = (if v = 0 then [] else of_nat (8 * num) # pb_varint v)"

definition replicate_request_bytes :: "shard_payload \<Rightarrow> bytes" where
  "replicate_request_bytes item =
     pb_len_field 1 (utf8_encode (sr_pack_hash (sy_ref item))) @ pb_varint_field 2 (nat (sr_shard_index (sy_ref item)))
     @ pb_len_field 3 (utf8_encode (sr_shard_hash (sy_ref item))) @ pb_len_field 4 (sy_data item)"

definition retrieve_response_bytes :: "shard_payload \<Rightarrow> bytes" where
  "retrieve_response_bytes item = pb_len_field 1
     (pb_len_field 1 (utf8_encode (sr_pack_hash (sy_ref item))) @ pb_varint_field 2 (nat (sr_shard_index (sy_ref item)))
      @ pb_len_field 3 (utf8_encode (sr_shard_hash (sy_ref item))) @ pb_varint_field 4 1
      @ pb_len_field 5 (sy_data item) @ pb_len_field 6 (utf8_encode ''ok''))"

lemma varint_loop_shift: "varint_loop (Suc sz) v = Suc (varint_loop sz v)"
proof (induction sz v rule: varint_loop.induct)
  case (1 sz v)
  then show ?case by (subst (1 2) varint_loop.simps) simp
qed

lemma length_pb_varint: "length (pb_varint v) = varint_loop 1 v"
proof (induction v rule: pb_varint.induct)
  case (1 v)
  then show ?case
    by (subst pb_varint.simps, subst varint_loop.simps) (auto simp: varint_loop_shift [of "Suc 0", simplified])
qed

lemma length_utf8_hex: "list_all is_hex_lower s \<Longrightarrow> length (utf8_encode s) = length s"
  by (induction s) (auto simp: utf8_encode_def utf8_char_def is_hex_lower_def is_dec_char_def Let_def)

lemma hex64_wire: "is_hex64 h \<Longrightarrow> length (pb_len_field n (utf8_encode h)) = 66"
proof -
  assume h: "is_hex64 h"
  then have len: "length (utf8_encode h) = 64" by (simp add: is_hex64_def length_utf8_hex BLAKE3_HEX_LENGTH_def)
  then have "utf8_encode h \<noteq> []" by auto
  then show ?thesis
    using len by (simp add: pb_len_field_def length_pb_varint varint_loop.simps [of _ 64])
qed

definition payload_wf :: "shard_payload \<Rightarrow> bool" where
  "payload_wf item \<longleftrightarrow> is_hex64 (sr_pack_hash (sy_ref item)) \<and> is_hex64 (sr_shard_hash (sy_ref item))
     \<and> 0 \<le> sr_shard_index (sy_ref item) \<and> sy_data item \<noteq> []"

lemma mk_ref_hex [simp]: "is_hex64 p \<Longrightarrow> is_hex64 h \<Longrightarrow> 0 \<le> i \<Longrightarrow>
    mk_RemoteDataPackShardRef p i h = Inr \<lparr>sr_pack_hash = p, sr_shard_index = i, sr_shard_hash = h\<rparr>"
  by (simp add: mk_RemoteDataPackShardRef_def)

lemma request_size_wire:
  "payload_wf item \<Longrightarrow> replicate_data_pack_shard_request_size_bytes item = Inr (int (length (replicate_request_bytes item)))"
  by (auto simp: replicate_data_pack_shard_request_size_bytes_def replicate_request_bytes_def payload_wf_def hex64_wire
      protobuf_varint_size_def length_pb_varint pb_varint_field_def pb_len_field_def [of 4])

lemma response_size_wire:
  assumes "payload_wf item"
  shows "retrieve_data_pack_shard_response_size_bytes item = Inr (int (length (retrieve_response_bytes item)))"
proof -
  have ok: "length (pb_len_field 6 (utf8_encode ''ok'')) = 4"
    by (simp add: utf8_encode_def utf8_char_def pb_len_field_def length_pb_varint varint_loop.simps)
  have st: "length (pb_varint_field 4 1) = 2"
    by (simp add: pb_varint_field_def length_pb_varint varint_loop.simps [of _ 1] varint_loop.simps [of _ "Suc 0"])
  define inner where "inner = pb_len_field 1 (utf8_encode (sr_pack_hash (sy_ref item)))
    @ pb_varint_field 2 (nat (sr_shard_index (sy_ref item))) @ pb_len_field 3 (utf8_encode (sr_shard_hash (sy_ref item)))
    @ pb_varint_field 4 1 @ pb_len_field 5 (sy_data item) @ pb_len_field 6 (utf8_encode ''ok'')"
  have ne: "inner \<noteq> []" by (simp add: inner_def pb_varint_field_def)
  define n where "n = (1 + 1 + 64) + (1 + 1 + 64)
      + (if sr_shard_index (sy_ref item) \<noteq> 0 then 1 + int (varint_loop 1 (nat (sr_shard_index (sy_ref item)))) else 0)
      + (1 + 1) + (1 + int (varint_loop 1 (length (sy_data item))) + int (length (sy_data item))) + (1 + 1 + 2)"
  have n: "int (length inner) = n"
    using assms
    by (simp add: n_def inner_def payload_wf_def hex64_wire ok st [simplified] pb_varint_field_def [of 2]
        pb_len_field_def [of 5] length_pb_varint)
  have "retrieve_data_pack_shard_response_size_bytes item = Inr (1 + int (varint_loop 1 (nat n)) + n)"
    using assms by (auto simp: retrieve_data_pack_shard_response_size_bytes_def protobuf_varint_size_def payload_wf_def
        Let_def n_def)
  moreover have "retrieve_response_bytes item = pb_len_field 1 inner" by (simp only: retrieve_response_bytes_def inner_def)
  ultimately show ?thesis using ne n [symmetric] by (simp add: pb_len_field_def length_pb_varint)
qed

text \<open>C18. The hand-computed transport check is exact: for a well-formed shard it passes precisely
  when the protobuf encodings of both the request that stores the shard and the response that
  returns it fit into \<open>max_message_bytes\<close>.\<close>

theorem transport_check_exact:
  assumes "payload_wf item"
  shows "ensure_data_pack_shard_fits_transport item mx = Inr () \<longleftrightarrow>
    0 < mx \<and> int (length (replicate_request_bytes item)) \<le> mx \<and> int (length (retrieve_response_bytes item)) \<le> mx"
  using assms
  by (auto simp: ensure_data_pack_shard_fits_transport_def ensure_replicate_data_pack_shard_fits_message_def
      request_size_wire response_size_wire bindE_eq_Inr)

theorem transport_check_exact_witness:
  "ensure_data_pack_shard_fits_transport
     \<lparr>sy_ref = \<lparr>sr_pack_hash = demo_hexdigest [], sr_shard_index = 300, sr_shard_hash = demo_hexdigest [7]\<rparr>, sy_data = [7]\<rparr> 148
     = Inr ()"
proof -
  let ?i = "\<lparr>sy_ref = \<lparr>sr_pack_hash = demo_hexdigest [], sr_shard_index = 300, sr_shard_hash = demo_hexdigest [7]\<rparr>, sy_data = [7]\<rparr>"
  have hex: "is_hex64 (demo_hexdigest b)" for b using demo_hexdigest_hex64 by (simp add: hex64_digest_def)
  then have wf: "payload_wf ?i" by (simp add: payload_wf_def)
  have v: "varint_loop 1 300 = 2" "varint_loop 1 1 = 1" "varint_loop 1 2 = 1" "varint_loop 1 144 = 2" "varint_loop (Suc 0) 300 = 2"
      "varint_loop (Suc 0) (Suc 0) = 1" "varint_loop (Suc 0) 2 = 1" "varint_loop (Suc 0) 144 = 2"
    by (simp_all add: varint_loop.simps)
  have r: "replicate_data_pack_shard_request_size_bytes ?i = Inr 138" "retrieve_data_pack_shard_response_size_bytes ?i = Inr 147"
    by (simp_all add: replicate_data_pack_shard_request_size_bytes_def retrieve_data_pack_shard_response_size_bytes_def
        protobuf_varint_size_def v Let_def)
  have "int (length (replicate_request_bytes ?i)) = 138" "int (length (retrieve_response_bytes ?i)) = 147"
    using r request_size_wire [OF wf] response_size_wire [OF wf] by simp_all
  then show ?thesis using transport_check_exact [OF wf, of 148] by simp
qed

section \<open>Accounting of a target batch\<close>

lemma count_ack_fields [simp]:
  "ak_acknowledged (count_ack addr r st) = insert (identity_key (st_ref r)) (ak_acknowledged st)"
  "ak_successful (count_ack addr r st) = (if is_success r then insert (sr_shard_index (st_ref r)) (ak_successful st) else ak_successful st)"
  "ak_failed (count_ack addr r st) = (if is_success r then ak_failed st else ak_failed st @ [(addr, r)])"
  "ak_stored (count_ack addr r st) + ak_already (count_ack addr r st) = ak_stored st + ak_already st + (if is_success r then 1 else 0)"
  by (simp_all add: count_ack_def Let_def)

lemma apply_acks_grows:
  assumes "ak_acknowledged st \<subseteq> E"
  shows "ak_acknowledged st \<subseteq> ak_acknowledged (apply_acks addr E st rs)
    \<and> ak_acknowledged (apply_acks addr E st rs) \<subseteq> E"
  using assms
proof (induction rs arbitrary: st)
  case (Cons r rs)
  show ?case using Cons.prems Cons.IH [of st] Cons.IH [of "count_ack addr r st"] by (simp add: Let_def)
qed simp

lemma apply_acks_count:
  assumes "finite (ak_acknowledged st)"
  shows "ak_stored (apply_acks addr E st rs) + ak_already (apply_acks addr E st rs)
      + int (length (ak_failed (apply_acks addr E st rs))) - int (card (ak_acknowledged (apply_acks addr E st rs)))
    = ak_stored st + ak_already st + int (length (ak_failed st)) - int (card (ak_acknowledged st))"
  using assms
proof (induction rs arbitrary: st)
  case (Cons r rs)
  then show ?case using Cons.IH [of "count_ack addr r st"] by (simp add: Let_def)
qed simp

lemma card_insert_int: "int (card (insert x A)) \<le> int (card A) + 1"
  by (cases "finite A") (auto simp: card_insert_if)

lemma apply_acks_card:
  "int (card (ak_successful (apply_acks addr E st rs))) - int (card (ak_successful st))
    \<le> ak_stored (apply_acks addr E st rs) + ak_already (apply_acks addr E st rs) - (ak_stored st + ak_already st)"
proof (induction rs arbitrary: st)
  case (Cons r rs)
  show ?case
    using Cons.IH [of st] Cons.IH [of "count_ack addr r st"] card_insert_int [of "sr_shard_index (st_ref r)" "ak_successful st"]
    by (cases "is_success r") (auto simp: Let_def)
qed simp

lemma apply_acks_sound:
  "i \<in> ak_successful (apply_acks addr E st rs) \<Longrightarrow>
     i \<in> ak_successful st \<or> (\<exists>r \<in> set rs. is_success r \<and> identity_key (st_ref r) \<in> E \<and> sr_shard_index (st_ref r) = i)"
proof (induction rs arbitrary: st)
  case (Cons r rs)
  show ?case using Cons.prems Cons.IH [of st] Cons.IH [of "count_ack addr r st"] by (auto simp: Let_def split: if_splits)
qed simp

lemma apply_acks_mono:
  "ak_successful st \<subseteq> ak_successful (apply_acks addr E st rs) \<and> set (ak_failed st) \<subseteq> set (ak_failed (apply_acks addr E st rs))"
proof (induction rs arbitrary: st)
  case (Cons r rs)
  show ?case using Cons.IH [of st] Cons.IH [of "count_ack addr r st"] by (auto simp: Let_def split: if_splits)
qed simp

lemma apply_acks_settles:
  "key \<in> ak_acknowledged (apply_acks addr E st rs) \<Longrightarrow> key \<notin> ak_acknowledged st \<Longrightarrow>
     fst (snd key) \<in> ak_successful (apply_acks addr E st rs)
     \<or> (\<exists>r. (addr, r) \<in> set (ak_failed (apply_acks addr E st rs)) \<and> identity_key (st_ref r) = key)"
proof (induction rs arbitrary: st)
  case (Cons r rs)
  let ?st = "count_ack addr r st"
  show ?case
  proof (cases "identity_key (st_ref r) \<notin> E \<or> identity_key (st_ref r) \<in> ak_acknowledged st")
    case True
    then show ?thesis using Cons by (simp add: Let_def)
  next
    case False
    then have step: "apply_acks addr E st (r # rs) = apply_acks addr E ?st rs" by (simp add: Let_def)
    show ?thesis
    proof (cases "key = identity_key (st_ref r)")
      case True
      then have "fst (snd key) \<in> ak_successful ?st \<or> (addr, r) \<in> set (ak_failed ?st)" by (simp add: identity_key_def)
      then show ?thesis unfolding step using apply_acks_mono [of ?st addr E rs] True by blast
    next
      case False
      then show ?thesis using Cons.IH [of ?st] Cons.prems unfolding step by simp
    qed
  qed
qed simp

text \<open>The evidence the code accepts for one shard at one address: a probe that was asked about
  it and did not list it as missing, or a success acknowledgement of its transfer.\<close>

definition shard_confirmed :: "shard_pool \<Rightarrow> string \<Rightarrow> shard_payload \<Rightarrow> bool" where
  "shard_confirmed pool addr p \<longleftrightarrow>
     (\<exists>refs missing. probe_missing_shards pool addr refs = Inr missing \<and> sy_ref p \<in> set refs
        \<and> identity_key (sy_ref p) \<notin> set (map identity_key missing))
     \<or> (\<exists>sent. p \<in> set sent \<and> (\<exists>r \<in> set (acks_of (replicate_shards pool addr sent)).
          is_success r \<and> identity_key (st_ref r) = identity_key (sy_ref p)))"

definition batch_wf :: "shard_target_batch \<Rightarrow> bool" where
  "batch_wf b \<longleftrightarrow> distinct (map (\<lambda>p. identity_key (sy_ref p)) (tb_payloads b))"

lemma ack_evidence:
  assumes "r \<in> set (acks_of (replicate_shards pool (tb_address b) send))" "set (map (\<lambda>p. identity_key (sy_ref p)) send) = M"
    "is_success r" "identity_key (st_ref r) \<in> M"
  shows "\<exists>p \<in> set send. sr_shard_index (sy_ref p) = sr_shard_index (st_ref r) \<and> shard_confirmed pool (tb_address b) p"
proof -
  obtain p where p: "p \<in> set send" "identity_key (sy_ref p) = identity_key (st_ref r)"
    using assms(2,4) by (metis (no_types, lifting) imageE list.set_map)
  then have "shard_confirmed pool (tb_address b) p" unfolding shard_confirmed_def using assms(1,3) by metis
  then show ?thesis using p by (auto simp: identity_key_def)
qed

lemma filter_distinct_card:
  "distinct (map f xs) \<Longrightarrow> K \<subseteq> f ` set xs \<Longrightarrow> length (filter (\<lambda>x. f x \<in> K) xs) = card K"
proof -
  assume d: "distinct (map f xs)" and K: "K \<subseteq> f ` set xs"
  have "f ` set (filter (\<lambda>x. f x \<in> K) xs) = K" using K by auto
  moreover have "distinct (map f (filter (\<lambda>x. f x \<in> K) xs))" using d by (rule distinct_map_filter_sub)
  ultimately show ?thesis by (metis distinct_card length_map list.set_map)
qed

text \<open>What one target contributes, whatever it answers.\<close>

definition batch_accounted :: "shard_pool \<Rightarrow> shard_target_batch \<Rightarrow> push_result \<Rightarrow> bool" where
  "batch_accounted pool b r \<longleftrightarrow>
     pu_stored_shards r + pu_already_present_shards r + int (length (pu_failed_results r)) = int (length (tb_payloads b))
     \<and> int (card (pu_successful_indexes r)) \<le> pu_stored_shards r + pu_already_present_shards r
     \<and> (\<forall>i \<in> pu_successful_indexes r. \<exists>p \<in> set (tb_payloads b).
          sr_shard_index (sy_ref p) = i \<and> shard_confirmed pool (tb_address b) p)
     \<and> (\<forall>p \<in> set (tb_payloads b). sr_shard_index (sy_ref p) \<in> pu_successful_indexes r
          \<or> (\<exists>x. (tb_address b, x) \<in> set (pu_failed_results r) \<and> identity_key (st_ref x) = identity_key (sy_ref p)))"

lemma send_missing_accounted:
  assumes wf: "batch_wf b" and M: "M \<subseteq> (\<lambda>p. identity_key (sy_ref p)) ` set (tb_payloads b)"
    and keep: "keep = {sr_shard_index (sy_ref p) | p. p \<in> set (tb_payloads b) \<and> identity_key (sy_ref p) \<notin> M}"
    and kept: "\<And>p. p \<in> set (tb_payloads b) \<Longrightarrow> identity_key (sy_ref p) \<notin> M \<Longrightarrow> shard_confirmed pool (tb_address b) p"
  shows "batch_accounted pool b (send_missing_shards pool b M keep (int (length (tb_payloads b)) - int (card M)))"
proof -
  let ?ps = "tb_payloads b" and ?key = "\<lambda>p. identity_key (sy_ref p)"
  define send where "send = filter (\<lambda>p. ?key p \<in> M) ?ps"
  have Mfin: "finite M" using M finite_subset by blast
  have E: "set (map ?key send) = M" using M by (auto simp: send_def)
  define st where "st = apply_acks (tb_address b) M \<lparr>ak_acknowledged = {}, ak_successful = keep, ak_stored = 0,
    ak_already = int (length ?ps) - int (card M), ak_failed = []\<rparr> (acks_of (replicate_shards pool (tb_address b) send))"
  define late where "late = missing_ack_results (tb_address b) send (ak_acknowledged st)"
  have r: "send_missing_shards pool b M keep (int (length ?ps) - int (card M)) =
      \<lparr>pu_successful_indexes = ak_successful st, pu_stored_shards = ak_stored st,
       pu_already_present_shards = ak_already st, pu_failed_results = ak_failed st @ late\<rparr>"
    by (simp only: send_missing_shards_def Let_def send_def [symmetric] E st_def [symmetric] late_def [symmetric])
  have ack: "ak_acknowledged st \<subseteq> M" using apply_acks_grows by (simp add: st_def)
  have "length late = length (filter (\<lambda>p. ?key p \<in> M - ak_acknowledged st) ?ps)"
    by (simp add: late_def missing_ack_results_def send_def conj_commute)
  also have "\<dots> = card (M - ak_acknowledged st)"
    using filter_distinct_card [of ?key ?ps "M - ak_acknowledged st"] wf M by (auto simp: batch_wf_def)
  also have "\<dots> = card M - card (ak_acknowledged st)" using ack Mfin by (simp add: card_Diff_subset finite_subset)
  finally have late: "int (length late) = int (card M) - int (card (ak_acknowledged st))"
    using card_mono [OF Mfin ack] by simp
  have cnt: "ak_stored st + ak_already st + int (length (ak_failed st)) - int (card (ak_acknowledged st)) = int (length ?ps) - int (card M)"
    unfolding st_def by (subst apply_acks_count) simp_all
  have "length (filter (\<lambda>p. ?key p \<in> M) ?ps) = card M"
    using filter_distinct_card [of ?key ?ps M] wf M by (simp add: batch_wf_def)
  then have "int (length (filter (\<lambda>p. ?key p \<notin> M) ?ps)) = int (length ?ps) - int (card M)"
    using sum_length_filter_compl [of "\<lambda>p. ?key p \<in> M" ?ps] by simp
  moreover have "keep = set (map (\<lambda>p. sr_shard_index (sy_ref p)) (filter (\<lambda>p. ?key p \<notin> M) ?ps))" using keep by auto
  ultimately have kcard: "int (card keep) \<le> int (length ?ps) - int (card M)"
    by (metis card_length length_map of_nat_le_iff)
  have ucard: "int (card (ak_successful st)) \<le> ak_stored st + ak_already st"
    using apply_acks_card [of "tb_address b" M "\<lparr>ak_acknowledged = {}, ak_successful = keep, ak_stored = 0,
      ak_already = int (length ?ps) - int (card M), ak_failed = []\<rparr>"
      "acks_of (replicate_shards pool (tb_address b) send)"] kcard unfolding st_def by simp
  have keep_sub: "keep \<subseteq> ak_successful st"
    using conjunct1 [OF apply_acks_mono [of "\<lparr>ak_acknowledged = {}, ak_successful = keep, ak_stored = 0,
      ak_already = int (length ?ps) - int (card M), ak_failed = []\<rparr>"]] by (simp add: st_def)
  have settle: "key \<in> ak_acknowledged st \<Longrightarrow> fst (snd key) \<in> ak_successful st
      \<or> (\<exists>r. (tb_address b, r) \<in> set (ak_failed st) \<and> identity_key (st_ref r) = key)" for key
    unfolding st_def by (erule apply_acks_settles) simp
  have sound: "\<exists>p \<in> set ?ps. sr_shard_index (sy_ref p) = i \<and> shard_confirmed pool (tb_address b) p"
    if i: "i \<in> ak_successful st" for i
    using apply_acks_sound [OF i [unfolded st_def]]
  proof
    assume "\<exists>r \<in> set (acks_of (replicate_shards pool (tb_address b) send)).
      is_success r \<and> identity_key (st_ref r) \<in> M \<and> sr_shard_index (st_ref r) = i"
    then show ?thesis using ack_evidence [OF _ E, of _ pool b] by (fastforce simp: send_def)
  qed (use kept keep in auto)
  have settled: "sr_shard_index (sy_ref p) \<in> ak_successful st
      \<or> (\<exists>x. (tb_address b, x) \<in> set (ak_failed st @ late) \<and> identity_key (st_ref x) = ?key p)" if p: "p \<in> set ?ps" for p
  proof (cases "?key p \<in> M")
    case False
    then have "sr_shard_index (sy_ref p) \<in> keep" using p keep by blast
    then show ?thesis using keep_sub by blast
  next
    case inM: True
    show ?thesis
    proof (cases "?key p \<in> ak_acknowledged st")
      case True
      from settle [OF True] show ?thesis by (auto simp: identity_key_def)
    next
      case False
      then have "(tb_address b, \<lparr>st_ref = sy_ref p, st_status = DATA_PACK_SHARD_STORE_STATUS_ERROR\<rparr>) \<in> set late"
        using p inM by (simp add: late_def missing_ack_results_def send_def)
      then show ?thesis by fastforce
    qed
  qed
  show ?thesis unfolding r batch_accounted_def using sound settled cnt late ucard by simp
qed

lemma push_target_batch_accounted:
  assumes wf: "batch_wf b"
  shows "batch_accounted pool b (push_target_batch pool b)"
proof (cases "probe_missing_shards pool (tb_address b) (map sy_ref (tb_payloads b))")
  case (Inl e)
  then show ?thesis
    by (auto simp: push_target_batch_def Let_def batch_accounted_def failed_results_for_refs_def image_iff)
next
  case (Inr ms)
  let ?ps = "tb_payloads b"
  define M where "M = set (map identity_key ms) \<inter> set (map identity_key (map sy_ref ?ps))"
  define keep where "keep = set (map sr_shard_index (filter (\<lambda>r. identity_key r \<notin> M) (map sy_ref ?ps)))"
  have kept: "shard_confirmed pool (tb_address b) p" if "p \<in> set ?ps" "identity_key (sy_ref p) \<notin> M" for p
  proof -
    have "identity_key (sy_ref p) \<notin> set (map identity_key ms)" using that by (auto simp: M_def)
    then show ?thesis using that Inr unfolding shard_confirmed_def by fastforce
  qed
  have k: "keep = {sr_shard_index (sy_ref p) | p. p \<in> set ?ps \<and> identity_key (sy_ref p) \<notin> M}"
    by (auto simp: keep_def)
  have r: "push_target_batch pool b = (if M = {}
      then \<lparr>pu_successful_indexes = keep, pu_stored_shards = 0, pu_already_present_shards = int (length ?ps) - int (card M), pu_failed_results = []\<rparr>
      else send_missing_shards pool b M keep (int (length ?ps) - int (card M)))"
    by (simp only: push_target_batch_def Let_def Inr sum.case M_def [symmetric] keep_def [symmetric] length_map)
  show ?thesis
  proof (cases "M = {}")
    case True
    moreover have "card (set (map sr_shard_index (map sy_ref ?ps))) \<le> length ?ps" by (metis card_length length_map)
    ultimately show ?thesis unfolding r using kept k by (auto simp: batch_accounted_def keep_def)
  next
    case False
    have "M \<subseteq> (\<lambda>p. identity_key (sy_ref p)) ` set ?ps" by (auto simp: M_def)
    from send_missing_accounted [OF wf this k kept] show ?thesis unfolding r using False by simp
  qed
qed

section \<open>Accounting of a pack\<close>

text \<open>A payload made for a shard.\<close>

definition payload_for :: "data_pack_shard \<Rightarrow> shard_payload \<Rightarrow> bool" where
  "payload_for s p \<longleftrightarrow> sr_shard_index (sy_ref p) = ds_shard_index s
     \<and> sr_shard_hash (sy_ref p) = py_strip (ds_shard_hash s) \<and> sy_data p = ds_data s"

definition placed_at :: "shard_placement list \<Rightarrow> data_pack_shard list \<Rightarrow> string \<times> shard_payload \<Rightarrow> bool" where
  "placed_at placements ss ap \<longleftrightarrow> (\<exists>s \<in> set ss. \<exists>pl \<in> set placements.
     payload_for s (snd ap) \<and> sp_shard_index pl = ds_shard_index s \<and> sp_address pl = fst ap)"

lemma payload_for_mk:
  assumes "mk_RemoteDataPackShardRef ph (ds_shard_index s) (ds_shard_hash s) = Inr ref"
    and "mk_RemoteDataPackShardPayload ref (ds_data s) = Inr p"
  shows "payload_for s p"
  using assms
  by (auto simp: mk_RemoteDataPackShardRef_def mk_RemoteDataPackShardPayload_def payload_for_def bindE_eq_Inr
      dest!: require_hash64_Inr split: if_splits)

lemma payloads_by_address_ok:
  assumes "payloads_by_address ph placements acc ss = Inr d" "distinct (map fst acc)"
  shows "distinct (map fst d)
    \<and> mset (map (\<lambda>p. sr_shard_index (sy_ref p)) (concat (map snd d)))
        = mset (map (\<lambda>p. sr_shard_index (sy_ref p)) (concat (map snd acc))) + mset (map ds_shard_index ss)
    \<and> (\<forall>(a, ps) \<in> set d. \<forall>p \<in> set ps. (\<exists>qs. (a, qs) \<in> set acc \<and> p \<in> set qs) \<or> placed_at placements ss (a, p))"
  using assms
proof (induction ss arbitrary: acc)
  case Nil
  then show ?case by auto
next
  case (Cons s ss)
  from Cons.prems(1) obtain pl ref p where
    pl: "map_of (dict_of (map (\<lambda>p. (sp_shard_index p, p)) placements)) (ds_shard_index s) = Some pl"
    and mk: "mk_RemoteDataPackShardRef ph (ds_shard_index s) (ds_shard_hash s) = Inr ref"
      "mk_RemoteDataPackShardPayload ref (ds_data s) = Inr p"
    and rec: "payloads_by_address ph placements (dict_append (sp_address pl) p acc) ss = Inr d"
    by (auto simp: bindE_eq_Inr split: option.splits)
  note pf = payload_for_mk [OF mk]
  have "pl \<in> set placements" "sp_shard_index pl = ds_shard_index s"
    using map_of_SomeD [OF pl [unfolded map_of_dict_of]] by auto
  then have here: "placed_at placements (s # ss) (sp_address pl, p)" using pf by (auto simp: placed_at_def)
  note IH = Cons.IH [OF rec dict_append_keys [OF Cons.prems(2)]]
  have "placed_at placements ss ap \<Longrightarrow> placed_at placements (s # ss) ap" for ap by (auto simp: placed_at_def)
  then have "\<forall>(a, ps) \<in> set d. \<forall>q \<in> set ps. (\<exists>qs. (a, qs) \<in> set acc \<and> q \<in> set qs) \<or> placed_at placements (s # ss) (a, q)"
    using IH here by (fastforce dest: dict_append_members)
  then show ?case using IH pf by (auto simp: mset_map mset_dict_append payload_for_def simp del: mset_concat)
qed

lemma foldl_merge:
  "foldl (\<lambda>acc b. merge_push acc (f b)) r0 bs =
     \<lparr>pu_successful_indexes = pu_successful_indexes r0 \<union> (\<Union>b \<in> set bs. pu_successful_indexes (f b)),
      pu_stored_shards = pu_stored_shards r0 + (\<Sum>b \<leftarrow> bs. pu_stored_shards (f b)),
      pu_already_present_shards = pu_already_present_shards r0 + (\<Sum>b \<leftarrow> bs. pu_already_present_shards (f b)),
      pu_failed_results = pu_failed_results r0 @ concat (map (\<lambda>b. pu_failed_results (f b)) bs)\<rparr>"
  by (induction bs arbitrary: r0) (auto simp: merge_push_def)

lemma batch_settles:
  assumes "batch_accounted pool b r" "p \<in> set (tb_payloads b)"
  shows "sr_shard_index (sy_ref p) \<in> pu_successful_indexes r
    \<or> (\<exists>x \<in> set (pu_failed_results r). sr_shard_index (sy_ref p) = sr_shard_index (st_ref (snd x)))"
  using assms by (force simp: batch_accounted_def identity_key_def)

lemma accounted_sum:
  assumes "\<forall>b \<in> set bs. batch_accounted pool b (f b)"
  shows "(\<Sum>b \<leftarrow> bs. pu_stored_shards (f b)) + (\<Sum>b \<leftarrow> bs. pu_already_present_shards (f b))
      + int (length (concat (map (\<lambda>b. pu_failed_results (f b)) bs))) = int (length (concat (map tb_payloads bs)))
    \<and> int (card (\<Union>b \<in> set bs. pu_successful_indexes (f b)))
      \<le> (\<Sum>b \<leftarrow> bs. pu_stored_shards (f b)) + (\<Sum>b \<leftarrow> bs. pu_already_present_shards (f b))"
  using assms
proof (induction bs)
  case (Cons b bs)
  have "int (card (pu_successful_indexes (f b) \<union> (\<Union>b \<in> set bs. pu_successful_indexes (f b))))
      \<le> int (card (pu_successful_indexes (f b))) + int (card (\<Union>b \<in> set bs. pu_successful_indexes (f b)))"
    by (metis card_Un_le of_nat_add of_nat_le_iff)
  then show ?case using Cons by (simp add: batch_accounted_def)
qed simp

lemma covered_card: "A \<subseteq> S \<union> f ` set xs \<Longrightarrow> finite S \<Longrightarrow> card A \<le> card S + length xs"
proof -
  assume a: "A \<subseteq> S \<union> f ` set xs" "finite S"
  then have "card A \<le> card (S \<union> f ` set xs)" by (intro card_mono) auto
  also have "\<dots> \<le> card S + card (f ` set xs)" by (rule card_Un_le)
  also have "card (f ` set xs) \<le> length xs" by (metis card_length length_map list.set_map)
  finally show ?thesis by simp
qed

lemma distinct_concat_member:
  "distinct (concat xss) \<Longrightarrow> xs \<in> set xss \<Longrightarrow> distinct xs"
  by (induction xss) auto

lemma target_batches_ok:
  assumes "target_batches pack placements = Inr bs" "distinct (map ds_shard_index (ep_shards pack))"
  shows "mset (map (\<lambda>p. sr_shard_index (sy_ref p)) (concat (map tb_payloads bs))) = mset (map ds_shard_index (ep_shards pack))
    \<and> (\<forall>b \<in> set bs. batch_wf b)
    \<and> (\<forall>b \<in> set bs. \<forall>p \<in> set (tb_payloads b). placed_at placements (ep_shards pack) (tb_address b, p))"
proof -
  let ?i = "\<lambda>p. sr_shard_index (sy_ref p)"
  from assms(1) obtain d where d: "payloads_by_address (ep_pack_hash pack) placements [] (ep_shards pack) = Inr d"
    and bs: "bs = map (\<lambda>(a, ps). \<lparr>tb_address = a, tb_payloads = ps\<rparr>) (sort_key fst d)"
    by (auto simp: target_batches_def bindE_eq_Inr)
  note ok = payloads_by_address_ok [OF d, simplified]
  have pl: "map tb_payloads bs = map snd (sort_key fst d)" by (simp add: bs split_def comp_def)
  have "mset (map ?i (concat (map snd (sort_key fst d)))) = mset (map ?i (concat (map snd d)))"
    by (simp add: mset_concat mset_map image_mset.compositionality sum_mset_sum_list [symmetric] del: sum_mset_sum_list)
  then have m: "mset (map ?i (concat (map tb_payloads bs))) = mset (map ds_shard_index (ep_shards pack))"
    using ok pl by simp
  have "distinct (map ?i (concat (map tb_payloads bs)))" using assms(2) m by (metis mset_eq_imp_distinct_iff)
  then have "distinct (concat (map (\<lambda>b. map ?i (tb_payloads b)) bs))" by (simp add: map_concat comp_def)
  then have "distinct (map ?i (tb_payloads b))" if "b \<in> set bs" for b
    using distinct_concat_member [of "map (\<lambda>b. map ?i (tb_payloads b)) bs"] that by simp
  then have "\<forall>b \<in> set bs. batch_wf b"
    unfolding batch_wf_def by (auto simp: distinct_map inj_on_def identity_key_def)
  moreover have "\<forall>b \<in> set bs. \<forall>p \<in> set (tb_payloads b). placed_at placements (ep_shards pack) (tb_address b, p)"
    using ok by (fastforce simp: bs)
  ultimately show ?thesis using m by blast
qed

text \<open>A completed push, decomposed into its targets in completion order.\<close>

lemma pack_push_targets:
  assumes push: "push_data_pack_shards order (\<lambda>b. Inr (push_target_batch pool b)) pack placements = Inr r"
    and perm: "\<And>bs. mset (order bs) = mset bs"
    and dist: "distinct (map ds_shard_index (ep_shards pack))"
  obtains obs where "\<forall>b \<in> set obs. batch_accounted pool b (push_target_batch pool b)"
    "\<forall>b \<in> set obs. \<forall>p \<in> set (tb_payloads b). placed_at placements (ep_shards pack) (tb_address b, p)"
    "mset (map (\<lambda>p. sr_shard_index (sy_ref p)) (concat (map tb_payloads obs))) = mset (map ds_shard_index (ep_shards pack))"
    "pu_successful_indexes r = (\<Union>b \<in> set obs. pu_successful_indexes (push_target_batch pool b))"
    "pu_stored_shards r = (\<Sum>b \<leftarrow> obs. pu_stored_shards (push_target_batch pool b))"
    "pu_already_present_shards r = (\<Sum>b \<leftarrow> obs. pu_already_present_shards (push_target_batch pool b))"
    "mset (pu_failed_results r) = mset (concat (map (\<lambda>b. pu_failed_results (push_target_batch pool b)) obs))"
proof -
  let ?f = "push_target_batch pool"
  from push obtain bs where bs: "target_batches pack placements = Inr bs"
    by (auto simp: push_data_pack_shards_def bindE_eq_Inr)
  note tb = target_batches_ok [OF bs dist]
  define obs where "obs = order bs"
  have obs: "mset obs = mset bs" "set obs = set bs" using perm mset_eq_setD by (auto simp: obs_def)
  have acc: "\<forall>b \<in> set obs. batch_accounted pool b (?f b)" using tb obs push_target_batch_accounted by blast
  have fields: "pu_successful_indexes r = (\<Union>b \<in> set obs. pu_successful_indexes (?f b))"
    "pu_stored_shards r = (\<Sum>b \<leftarrow> obs. pu_stored_shards (?f b))"
    "pu_already_present_shards r = (\<Sum>b \<leftarrow> obs. pu_already_present_shards (?f b))"
    "mset (pu_failed_results r) = mset (concat (map (\<lambda>b. pu_failed_results (?f b)) obs))"
    using push bs by (auto simp: push_data_pack_shards_def Let_def foldl_merge obs_def completed_result_def)
  have "mset (concat (map tb_payloads obs)) = mset (concat (map tb_payloads bs))"
    using obs(1) by (metis mset_concat mset_map sum_mset_sum_list)
  then have idx: "mset (map (\<lambda>p. sr_shard_index (sy_ref p)) (concat (map tb_payloads obs))) = mset (map ds_shard_index (ep_shards pack))"
    using tb by (metis mset_map)
  have pl: "\<forall>b \<in> set obs. \<forall>p \<in> set (tb_payloads b). placed_at placements (ep_shards pack) (tb_address b, p)"
    using tb unfolding obs(2) by (elim conjE)
  show thesis by (rule that [OF acc pl idx fields])
qed

text \<open>C12. Pushing a pack is accounted exactly, whatever the peers answer and in whichever order
  the targets complete: every shard is counted once as stored, already present or failed, the
  number of protected shards is the number of shards minus the failures, and a shard counts as
  protected only if the node it is placed on confirmed it, by not listing it as missing when
  asked or by acknowledging its transfer.\<close>

theorem pack_push_accounted:
  assumes push: "push_data_pack_shards order (\<lambda>b. Inr (push_target_batch pool b)) pack placements = Inr r"
    and perm: "\<And>bs. mset (order bs) = mset bs"
    and dist: "distinct (map ds_shard_index (ep_shards pack))"
  shows "pu_stored_shards r + pu_already_present_shards r + int (failed_shards r) = int (length (ep_shards pack))
    \<and> card (pu_successful_indexes r) + failed_shards r = length (ep_shards pack)
    \<and> (\<forall>i \<in> pu_successful_indexes r. \<exists>s \<in> set (ep_shards pack). \<exists>pl \<in> set placements. \<exists>p.
         ds_shard_index s = i \<and> sp_shard_index pl = i \<and> payload_for s p \<and> shard_confirmed pool (sp_address pl) p)"
proof -
  let ?i = "\<lambda>p. sr_shard_index (sy_ref p)" and ?f = "push_target_batch pool"
  obtain obs where acc: "\<forall>b \<in> set obs. batch_accounted pool b (?f b)"
    and pl: "\<forall>b \<in> set obs. \<forall>p \<in> set (tb_payloads b). placed_at placements (ep_shards pack) (tb_address b, p)"
    and idx: "mset (map ?i (concat (map tb_payloads obs))) = mset (map ds_shard_index (ep_shards pack))"
    and fields: "pu_successful_indexes r = (\<Union>b \<in> set obs. pu_successful_indexes (?f b))"
      "pu_stored_shards r = (\<Sum>b \<leftarrow> obs. pu_stored_shards (?f b))"
      "pu_already_present_shards r = (\<Sum>b \<leftarrow> obs. pu_already_present_shards (?f b))"
      "mset (pu_failed_results r) = mset (concat (map (\<lambda>b. pu_failed_results (?f b)) obs))"
    by (rule pack_push_targets [OF push perm dist])
  have len: "length (concat (map tb_payloads obs)) = length (ep_shards pack)" by (metis idx length_map size_mset)
  have failed: "failed_shards r = length (concat (map (\<lambda>b. pu_failed_results (?f b)) obs))"
    unfolding failed_shards_def by (metis fields(4) size_mset)
  note sums = accounted_sum [OF acc, folded fields(1-3) failed, unfolded len]
  have placed: "\<exists>s \<in> set (ep_shards pack). \<exists>pl \<in> set placements. \<exists>p.
         ds_shard_index s = i \<and> sp_shard_index pl = i \<and> payload_for s p \<and> shard_confirmed pool (sp_address pl) p"
    if i: "i \<in> pu_successful_indexes r" for i
  proof -
    from i obtain b p where b: "b \<in> set obs" "p \<in> set (tb_payloads b)" "?i p = i" "shard_confirmed pool (tb_address b) p"
      using acc unfolding fields(1) batch_accounted_def by blast
    from bspec [OF bspec [OF pl b(1)] b(2)] have "placed_at placements (ep_shards pack) (tb_address b, p)" .
    then obtain s pl where s: "s \<in> set (ep_shards pack)" "pl \<in> set placements" "payload_for s p"
      "sp_shard_index pl = ds_shard_index s" "sp_address pl = tb_address b" by (auto simp: placed_at_def)
    then have "ds_shard_index s = i" using b(3) by (simp add: payload_for_def)
    then show ?thesis using s b(4) by (intro bexI [of _ s] bexI [of _ pl] exI [of _ p]) simp_all
  qed
  have "pu_successful_indexes r \<subseteq> ds_shard_index ` set (ep_shards pack)"
  proof
    fix i assume "i \<in> pu_successful_indexes r"
    from placed [OF this] show "i \<in> ds_shard_index ` set (ep_shards pack)" by (elim bexE exE conjE) (rule image_eqI [OF sym])
  qed
  then have fin: "finite (pu_successful_indexes r)" by (rule finite_subset) simp
  have "set (map ds_shard_index (ep_shards pack)) \<subseteq> pu_successful_indexes r \<union> (\<lambda>x. sr_shard_index (st_ref (snd x))) ` set (pu_failed_results r)"
  proof
    fix i assume "i \<in> set (map ds_shard_index (ep_shards pack))"
    then have "i \<in> set (map ?i (concat (map tb_payloads obs)))" by (simp only: mset_eq_setD [OF idx])
    then obtain b p where b: "b \<in> set obs" "p \<in> set (tb_payloads b)" "?i p = i" by auto
    from batch_settles [OF bspec [OF acc b(1)] b(2)] b(1) show
      "i \<in> pu_successful_indexes r \<union> (\<lambda>x. sr_shard_index (st_ref (snd x))) ` set (pu_failed_results r)"
      using mset_eq_setD [OF fields(4)] unfolding fields(1) b(3) by fastforce
  qed
  from covered_card [OF this fin] have "card (set (map ds_shard_index (ep_shards pack))) \<le> card (pu_successful_indexes r) + failed_shards r"
    by (simp only: failed_shards_def)
  then have "card (pu_successful_indexes r) + failed_shards r = length (ep_shards pack)"
    using sums distinct_card [OF dist] by simp
  then show ?thesis using conjunct1 [OF sums] placed by (intro conjI ballI) auto
qed

definition demo_pack :: encoded_data_pack where
  "demo_pack = \<lparr>ep_pack_hash = demo_hexdigest [], ep_payload_size = 1, ep_padded_size = 1, ep_shard_size = 1,
     ep_spec = demo_spec, ep_entries = [],
     ep_shards = [\<lparr>ds_pack_hash = demo_hexdigest [], ds_shard_index = 0, ds_data = [7], ds_shard_hash = demo_hexdigest [7]\<rparr>]\<rparr>"

definition demo_placements :: "shard_placement list" where
  "demo_placements = [\<lparr>sp_pack_hash = demo_hexdigest [], sp_shard_index = 0, sp_node_id = ''n2'', sp_address = ''b''\<rparr>]"

definition demo_pool :: shard_pool where
  "demo_pool = \<lparr>sp_probe = (\<lambda>a refs. Inr (map identity_key refs)),
     sp_replicate = (\<lambda>a ps. (map (\<lambda>p. (identity_key (sy_ref p), 1)) ps, Some RpcError)), sp_max_message_bytes = 1000\<rparr>"

lemma demo_hex [simp]: "is_hex64 (demo_hexdigest b)"
  using demo_hexdigest_hex64 by (simp add: hex64_digest_def)

theorem pack_push_accounted_witness:
  "\<exists>r. push_data_pack_shards rev (\<lambda>b. Inr (push_target_batch demo_pool b)) demo_pack demo_placements = Inr r
     \<and> card (pu_successful_indexes r) + failed_shards r = 1"
proof -
  have ex: "\<exists>r. push_data_pack_shards rev (\<lambda>b. Inr (push_target_batch demo_pool b)) demo_pack demo_placements = Inr r"
    by (simp add: push_data_pack_shards_def target_batches_def demo_pack_def demo_placements_def dict_of_def
        mk_RemoteDataPackShardPayload_def Let_def)
  then obtain r where r: "push_data_pack_shards rev (\<lambda>b. Inr (push_target_batch demo_pool b)) demo_pack demo_placements = Inr r" ..
  have "distinct (map ds_shard_index (ep_shards demo_pack))" by (simp add: demo_pack_def)
  from pack_push_accounted [OF r _ this] have "card (pu_successful_indexes r) + failed_shards r = length (ep_shards demo_pack)"
    by simp
  then show ?thesis using r by (auto simp: demo_pack_def)
qed

section \<open>Verified packs are backed by evidence\<close>

text \<open>A shard of a stored pack as the metadata rows describe it, confirmed at the address its node
  has in the current view.\<close>

definition row_confirmed :: "shard_pool \<Rightarrow> (string \<times> string) list \<Rightarrow> erasure_shard_row \<Rightarrow> bool" where
  "row_confirmed pool addresses row \<longleftrightarrow> (\<exists>addr ref refs missing.
     map_of addresses (er_node_id row) = Some addr
     \<and> mk_RemoteDataPackShardRef (er_pack_hash row) (er_shard_index row) (er_shard_hash row) = Inr ref
     \<and> probe_missing_shards pool addr refs = Inr missing \<and> ref \<in> set refs
     \<and> identity_key ref \<notin> set (map identity_key missing))"

definition ref_planned ::
    "(string \<Rightarrow> erasure_shard_row list) \<Rightarrow> (string \<times> string) list \<Rightarrow> string \<Rightarrow> shard_ref \<Rightarrow> bool" where
  "ref_planned rows_of addresses a ref \<longleftrightarrow> (\<exists>h. \<exists>row \<in> set (rows_of h). map_of addresses (er_node_id row) = Some a
     \<and> mk_RemoteDataPackShardRef (er_pack_hash row) (er_shard_index row) (er_shard_hash row) = Inr ref)"

definition planned_refs :: "(string \<Rightarrow> shard_ref \<Rightarrow> bool) \<Rightarrow> (string \<times> shard_ref list) list \<Rightarrow> bool" where
  "planned_refs P groups \<longleftrightarrow> (\<forall>g \<in> set groups. \<forall>ref \<in> set (snd g). P (fst g) ref)"

lemma planned_refs_append: "planned_refs P acc \<Longrightarrow> P a ref \<Longrightarrow> planned_refs P (dict_append a ref acc)"
  unfolding planned_refs_def by (auto dest!: dict_append_members)

lemma group_refs_loop_planned:
  assumes "group_refs_loop addresses acc off rows = Inr (groups, off')" "set rows \<subseteq> set (rows_of h)"
    "planned_refs (ref_planned rows_of addresses) acc"
  shows "planned_refs (ref_planned rows_of addresses) groups"
  using assms
proof (induction rows arbitrary: acc off)
  case (Cons row rows)
  show ?case
  proof (cases "map_of addresses (er_node_id row)")
    case None
    then show ?thesis using Cons by simp
  next
    case (Some a)
    then obtain ref where ref: "mk_RemoteDataPackShardRef (er_pack_hash row) (er_shard_index row) (er_shard_hash row) = Inr ref"
      "group_refs_loop addresses (dict_append a ref acc) off rows = Inr (groups, off')"
      using Cons.prems(1) by (auto simp: bindE_eq_Inr)
    have "ref_planned rows_of addresses a ref" using Some ref Cons.prems(2) by (auto simp: ref_planned_def)
    then show ?thesis using Cons.IH [OF ref(2)] Cons.prems planned_refs_append by simp
  qed
qed simp

lemma planned_refs_update:
  "planned_refs P acc \<Longrightarrow> \<forall>ref \<in> set refs. P a ref \<Longrightarrow>
     planned_refs P (AList.update a ((case map_of acc a of None \<Rightarrow> [] | Some rs \<Rightarrow> rs) @ refs) acc)"
  unfolding planned_refs_def
  by (auto dest!: subsetD [OF set_update_subset] dest: map_of_SomeD split: option.splits) (use map_of_SomeD in fastforce)+

lemma extend_refs_planned: "planned_refs P acc \<Longrightarrow> planned_refs P gs \<Longrightarrow> planned_refs P (extend_refs acc gs)"
proof (induction acc gs rule: extend_refs.induct)
  case (2 acc a refs gs)
  have "\<forall>ref \<in> set refs. P a ref" "planned_refs P gs" using 2(3) by (simp_all add: planned_refs_def)
  then show ?case using 2(1) [OF planned_refs_update [OF 2(2)]] by simp
qed simp

definition ref_confirmed :: "shard_pool \<Rightarrow> string \<Rightarrow> shard_ref \<Rightarrow> bool" where
  "ref_confirmed pool addr r \<longleftrightarrow> (\<exists>refs missing. probe_missing_shards pool addr refs = Inr missing
     \<and> r \<in> set refs \<and> identity_key r \<notin> set (map identity_key missing))"

lemma identity_key_inj: "identity_key r = identity_key r' \<Longrightarrow> r = r'"
  by (cases r; cases r') (simp add: identity_key_def)

lemma probe_batches_confirmed:
  assumes "\<And>r. identity_key r \<in> po_completed_keys oc \<Longrightarrow> identity_key r \<notin> po_missing_keys oc \<Longrightarrow> ref_confirmed pool addr r"
    and "identity_key r \<in> po_completed_keys (probe_batches pool addr oc bs)"
    and "identity_key r \<notin> po_missing_keys (probe_batches pool addr oc bs)"
  shows "ref_confirmed pool addr r"
  using assms
proof (induction bs arbitrary: oc)
  case (Cons b bs)
  show ?case
  proof (cases "probe_missing_shards pool addr b")
    case (Inl e)
    then show ?thesis using Cons.prems by simp
  next
    case (Inr ms)
    let ?oc = "oc\<lparr>po_completed_keys := po_completed_keys oc \<union> set (map identity_key b),
                  po_missing_keys := po_missing_keys oc \<union> set (map identity_key ms)\<rparr>"
    have "ref_confirmed pool addr q"
      if q: "identity_key q \<in> po_completed_keys ?oc" "identity_key q \<notin> po_missing_keys ?oc" for q
    proof (cases "q \<in> set b")
      case True
      then show ?thesis using Inr q(2) unfolding ref_confirmed_def by fastforce
    next
      case False
      then have "identity_key q \<in> po_completed_keys oc" using q(1) by (auto dest: identity_key_inj)
      then show ?thesis using Cons.prems(1) q(2) by simp
    qed
    then show ?thesis using Cons.IH [of ?oc] Cons.prems(2,3) Inr by simp
  qed
qed simp

lemma probe_address_confirmed:
  assumes "identity_key r \<in> po_completed_keys (probe_address pool n addr refs)"
    "identity_key r \<notin> po_missing_keys (probe_address pool n addr refs)"
  shows "ref_confirmed pool addr r"
  using assms unfolding probe_address_def by (rule probe_batches_confirmed [rotated]) simp

text \<open>Accumulators only collect shards that were planned and confirmed.\<close>

definition evidence_for :: "shard_pool \<Rightarrow> (string \<Rightarrow> shard_ref \<Rightarrow> bool) \<Rightarrow> string \<Rightarrow> int \<Rightarrow> bool" where
  "evidence_for pool P h i \<longleftrightarrow> (\<exists>addr ref. P addr ref \<and> sr_pack_hash ref = h \<and> sr_shard_index ref = i \<and> ref_confirmed pool addr ref)"

definition accs_sound ::
    "shard_pool \<Rightarrow> (string \<Rightarrow> shard_ref \<Rightarrow> bool) \<Rightarrow> (string \<Rightarrow> int \<Rightarrow> bool \<Rightarrow> bool) \<Rightarrow> (string \<times> pack_accumulator) list \<Rightarrow> bool" where
  "accs_sound pool P Q accs \<longleftrightarrow> (\<forall>h a. map_of accs h = Some a \<longrightarrow>
     (\<forall>i \<in> pa_verified_shard_indexes a. evidence_for pool P h i) \<and> Q h (pa_total_shards a) (pa_metadata_complete a))"

lemma mark_verified_sound:
  assumes "accs_sound pool P Q accs" "mark_verified accs ref = Inr accs'" "P addr ref" "ref_confirmed pool addr ref"
  shows "accs_sound pool P Q accs'"
proof -
  have "evidence_for pool P (sr_pack_hash ref) (sr_shard_index ref)"
    using assms(3,4) by (auto simp: evidence_for_def)
  then show ?thesis
    using assms(1,2) by (auto simp: mark_verified_def accs_sound_def split: option.splits if_splits)
qed

lemma apply_probe_outcome_sound:
  assumes "accs_sound pool P Q (vs_accumulators vs)" "\<forall>ref \<in> set refs. P addr ref"
    and "apply_probe_outcome refs (probe_address pool n addr refs) vs = Inr vs'"
  shows "accs_sound pool P Q (vs_accumulators vs')"
proof -
  let ?oc = "probe_address pool n addr refs"
  let ?ok = "filter (\<lambda>r. identity_key r \<notin> po_missing_keys ?oc) (filter (\<lambda>r. identity_key r \<in> po_completed_keys ?oc) refs)"
  from assms(3) obtain accs where f: "foldE mark_verified (vs_accumulators vs) ?ok = Inr accs" "vs_accumulators vs' = accs"
    by (auto simp: apply_probe_outcome_def Let_def bindE_eq_Inr split: if_splits)
  have "accs_sound pool P Q accs"
  proof (rule foldE_inv [OF f(1), where P = "accs_sound pool P Q"])
    fix s t r assume r: "r \<in> set ?ok" "accs_sound pool P Q s" "mark_verified s r = Inr t"
    then have "P addr r" "ref_confirmed pool addr r" using assms(2) by (auto intro: probe_address_confirmed)
    then show "accs_sound pool P Q t" using mark_verified_sound r(2,3) by blast
  qed (rule assms(1))
  then show ?thesis by (simp add: f(2))
qed

lemma probe_global_targets_sound:
  assumes "probe_global_targets order pool n groups accs = Inr vs"
    and "set (order groups) = set groups" "planned_refs P groups" "accs_sound pool P Q accs"
  shows "accs_sound pool P Q (vs_accumulators vs)"
  using assms(1) unfolding probe_global_targets_def
proof (rule foldE_inv [where P = "\<lambda>vs. accs_sound pool P Q (vs_accumulators vs)"])
  fix s :: verify_state and x t
  assume x: "x \<in> set (order groups)" "accs_sound pool P Q (vs_accumulators s)"
    "(case x of (addr, refs) \<Rightarrow> apply_probe_outcome refs (probe_address pool n addr refs) s) = Inr t"
  then have "\<forall>ref \<in> set (snd x). P (fst x) ref" using assms(2,3) by (auto simp: planned_refs_def)
  then show "accs_sound pool P Q (vs_accumulators t)"
    using x(3) by (auto split: prod.splits intro: apply_probe_outcome_sound [OF x(2)])
qed (simp add: assms(4))

lemma plan_verification_sound:
  assumes "plan_verification rows_of addresses st packs = Inr (accs', refs')"
    and "planned_refs (ref_planned rows_of addresses) (snd st)" "accs_sound pool P Q (fst st)"
    and "\<forall>pack \<in> set packs. Q (pk_pack_hash pack) (pk_data_shards pack + pk_parity_shards pack)
           (\<not> erasure_shard_metadata_error (rows_of (pk_pack_hash pack)) (pk_data_shards pack + pk_parity_shards pack))"
  shows "planned_refs (ref_planned rows_of addresses) refs' \<and> accs_sound pool P Q accs'"
  using assms
proof (induction packs arbitrary: st)
  case (Cons pack packs)
  obtain accs refs where st: "st = (accs, refs)" by (cases st)
  let ?h = "pk_pack_hash pack" and ?n = "pk_data_shards pack + pk_parity_shards pack"
  let ?bad = "erasure_shard_metadata_error (rows_of ?h) ?n"
  let ?accs = "AList.update ?h \<lparr>pa_total_shards = ?n, pa_verified_shard_indexes = {}, pa_metadata_complete = (\<not> ?bad)\<rparr> accs"
  have sound: "accs_sound pool P Q ?accs" using Cons.prems(3,4) by (auto simp: st accs_sound_def)
  show ?case
  proof (cases ?bad)
    case True
    then show ?thesis using Cons.IH [of "(?accs, refs)"] Cons.prems sound by (simp add: st Let_def)
  next
    case False
    then obtain gs off where g: "group_refs_loop addresses [] 0 (rows_of ?h) = Inr (gs, off)"
      "plan_verification rows_of addresses (?accs, extend_refs refs gs) packs = Inr (accs', refs')"
      using Cons.prems(1) by (auto simp: st Let_def group_erasure_shard_refs_by_address_def bindE_eq_Inr)
    have "planned_refs (ref_planned rows_of addresses) gs"
      by (rule group_refs_loop_planned [OF g(1), where h = ?h]) (simp_all add: planned_refs_def)
    then show ?thesis
      using Cons.IH [OF g(2)] Cons.prems(2,4) sound extend_refs_planned by (simp add: st)
  qed
qed simp

definition rows_wf :: "(string \<Rightarrow> erasure_shard_row list) \<Rightarrow> bool" where
  "rows_wf rows_of \<longleftrightarrow> (\<forall>h. \<forall>row \<in> set (rows_of h). er_pack_hash row = h \<and> is_hex64 h)"

lemma evidence_row:
  assumes "rows_wf rows_of" "evidence_for pool (ref_planned rows_of addresses) h i"
  shows "\<exists>row \<in> set (rows_of h). er_shard_index row = i \<and> row_confirmed pool addresses row"
proof -
  from assms(2) obtain addr ref h' row where r: "row \<in> set (rows_of h')" "map_of addresses (er_node_id row) = Some addr"
    "mk_RemoteDataPackShardRef (er_pack_hash row) (er_shard_index row) (er_shard_hash row) = Inr ref"
    "sr_pack_hash ref = h" "sr_shard_index ref = i" "ref_confirmed pool addr ref"
    by (auto simp: evidence_for_def ref_planned_def)
  have hex: "er_pack_hash row = h'" "is_hex64 h'" using assms(1) r(1) by (auto simp: rows_wf_def)
  have "h' = h" "er_shard_index row = i"
    using r(3-5) hex by (auto simp: mk_RemoteDataPackShardRef_def bindE_eq_Inr split: if_splits)
  moreover have "row_confirmed pool addresses row"
    using r(2,3,6) unfolding row_confirmed_def ref_confirmed_def by blast
  ultimately show ?thesis using r(1) by blast
qed

lemma metadata_complete_rows:
  assumes "\<not> erasure_shard_metadata_error rows n"
  shows "mset (map er_shard_index rows) = mset (py_range n)" "distinct (map er_node_id rows)"
proof -
  have s: "sort (map er_shard_index rows) = py_range n" "length (map er_node_id rows) = card (set (map er_node_id rows))"
    using assms by (auto simp: erasure_shard_metadata_error_def Let_def)
  show "mset (map er_shard_index rows) = mset (py_range n)" by (metis s(1) mset_sort)
  show "distinct (map er_node_id rows)" by (rule card_distinct) (simp only: s(2))
qed

lemma all_rows_of_full_set:
  assumes "mset (map er_shard_index rows) = mset (py_range n)" "\<forall>i \<in> V. \<exists>row \<in> set rows. er_shard_index row = i \<and> C row"
    "n \<le> int (card V)" "row \<in> set rows"
  shows "C row"
proof -
  have idx: "set (map er_shard_index rows) = {0..<n}" "distinct (map er_shard_index rows)"
    using mset_eq_setD [OF assms(1)] py_range_simps [of n] mset_eq_imp_distinct_iff [OF assms(1)] by auto
  have "V \<subseteq> set (map er_shard_index rows)" using assms(2) by fastforce
  then have "V \<subseteq> {0..<n}" unfolding idx(1) .
  then have "V = {0..<n}" using assms(3) by (intro card_seteq) (auto simp: nat_le_iff)
  then have "er_shard_index row \<in> V" using assms(4) idx(1) by (metis imageI list.set_map)
  then obtain row' where "row' \<in> set rows" "er_shard_index row' = er_shard_index row" "C row'" using assms(2) by blast
  then show ?thesis using idx(2) assms(4) by (metis (mono_tags, lifting) distinct_map inj_onD)
qed

text \<open>C13. A pack is recorded as VERIFIED only on full evidence: its metadata assigns exactly the
  shards \<open>0..n-1\<close> to pairwise different nodes, and every one of them was asked for at the
  address its node has in the current view and not reported missing. This holds whatever the
  peers answer and in whichever order the addresses complete.\<close>

theorem verified_pack_has_all_shards:
  assumes run: "verify_candidates order pool n rows_of cluster candidates = Inr updates"
    and perm: "\<And>gs. mset (order gs) = mset gs" and rows: "rows_wf rows_of"
    and u: "u \<in> set updates" "vu_protection_state u = VERIFIED"
  shows "\<exists>pack \<in> set candidates. pk_pack_hash pack = vu_pack_hash u
    \<and> mset (map er_shard_index (rows_of (vu_pack_hash u))) = mset (py_range (pk_data_shards pack + pk_parity_shards pack))
    \<and> distinct (map er_node_id (rows_of (vu_pack_hash u)))
    \<and> (\<forall>row \<in> set (rows_of (vu_pack_hash u)). row_confirmed pool (node_addresses cluster) row)"
proof -
  let ?Q = "\<lambda>h m c. \<exists>pack \<in> set candidates. pk_pack_hash pack = h \<and> m = pk_data_shards pack + pk_parity_shards pack
    \<and> (c \<longrightarrow> \<not> erasure_shard_metadata_error (rows_of h) m)"
  let ?P = "ref_planned rows_of (node_addresses cluster)"
  from run obtain accs refs vs where plan: "plan_verification rows_of (node_addresses cluster) ([], []) candidates = Inr (accs, refs)"
    and probe: "probe_global_targets order pool n refs accs = Inr vs"
    and ups: "mapE (\<lambda>pack. case map_of (vs_accumulators vs) (pk_pack_hash pack) of
               None \<Rightarrow> Inl KeyError
             | Some a \<Rightarrow> Inr \<lparr>vu_pack_hash = pk_pack_hash pack, vu_protection_state = verification_state a pack,
                               vu_verified_shard_indexes = pa_verified_shard_indexes a\<rparr>) candidates = Inr updates"
    by (auto simp: verify_candidates_def bindE_eq_Inr)
  have "planned_refs ?P refs \<and> accs_sound pool ?P ?Q accs"
    by (rule plan_verification_sound [OF plan]) (auto simp: planned_refs_def accs_sound_def)
  then have sound: "accs_sound pool ?P ?Q (vs_accumulators vs)"
    using probe_global_targets_sound [OF probe] perm mset_eq_setD by blast
  from ups u(1) obtain pack a where a: "map_of (vs_accumulators vs) (pk_pack_hash pack) = Some a"
    "vu_pack_hash u = pk_pack_hash pack" "vu_protection_state u = verification_state a pack"
    by (auto simp: mapE_eq_Inr list_all2_conv_all_nth in_set_conv_nth split: option.splits)
      (metis (no_types, lifting) option.exhaust sum.distinct(1) option.simps(4,5) sum.inject(2) verification_update.select_convs(1,2))
  have full: "pa_metadata_complete a" "pa_total_shards a \<le> int (card (pa_verified_shard_indexes a))"
    using a(3) u(2) by (auto simp: verification_state_def state_defs split: if_splits)
  from sound a(1) obtain pack' where p: "pack' \<in> set candidates" "pk_pack_hash pack' = vu_pack_hash u"
    "pa_total_shards a = pk_data_shards pack' + pk_parity_shards pack'"
    "\<not> erasure_shard_metadata_error (rows_of (vu_pack_hash u)) (pa_total_shards a)"
    and ev: "\<forall>i \<in> pa_verified_shard_indexes a. evidence_for pool ?P (vu_pack_hash u) i"
    using full(1) a(2) unfolding accs_sound_def by metis
  have "\<forall>i \<in> pa_verified_shard_indexes a. \<exists>row \<in> set (rows_of (vu_pack_hash u)).
      er_shard_index row = i \<and> row_confirmed pool (node_addresses cluster) row"
    using ev evidence_row [OF rows] by blast
  from all_rows_of_full_set [OF metadata_complete_rows(1) [OF p(4)] this full(2)]
  show ?thesis using p metadata_complete_rows [OF p(4)] by (intro bexI [of _ pack']) auto
qed

definition demo_rows :: "string \<Rightarrow> erasure_shard_row list" where
  "demo_rows h = (if h = demo_hexdigest []
     then [\<lparr>er_pack_hash = h, er_shard_index = 0, er_shard_hash = demo_hexdigest [7], er_node_id = ''n2''\<rparr>] else [])"

definition full_pool :: shard_pool where
  "full_pool = \<lparr>sp_probe = (\<lambda>a refs. Inr []), sp_replicate = (\<lambda>a ps. ([], None)), sp_max_message_bytes = 1000\<rparr>"

theorem verified_pack_has_all_shards_witness:
  "\<exists>u. verify_candidates rev full_pool 10 demo_rows demo_view
       [\<lparr>pk_pack_hash = demo_hexdigest [], pk_data_shards = 1, pk_parity_shards = 0\<rparr>] = Inr [u]
     \<and> vu_protection_state u = VERIFIED
     \<and> list_all (row_confirmed full_pool (node_addresses demo_view)) (demo_rows (demo_hexdigest []))"
proof -
  let ?u = "\<lparr>vu_pack_hash = demo_hexdigest [], vu_protection_state = VERIFIED, vu_verified_shard_indexes = {0}\<rparr>"
  have addr: "map_of (node_addresses demo_view) ''n2'' = Some ''b''"
    by (simp add: demo_view_def view_of_response_def dict_of_def node_addresses_def)
  have run: "verify_candidates rev full_pool 10 demo_rows demo_view
       [\<lparr>pk_pack_hash = demo_hexdigest [], pk_data_shards = 1, pk_parity_shards = 0\<rparr>] = Inr [?u]"
    by (simp add: verify_candidates_def demo_rows_def Let_def erasure_shard_metadata_error_def py_range_def
        group_erasure_shard_refs_by_address_def addr dict_append_def probe_global_targets_def apply_probe_outcome_def
        probe_address_def iter_batches_def full_pool_def probe_missing_shards_def dedupe_refs_def ordered_unique_by_def
        mark_verified_def unknown_pack_def verification_state_def identity_key_def)
  have rows: "rows_wf demo_rows" by (simp add: rows_wf_def demo_rows_def)
  from verified_pack_has_all_shards [OF run _ rows, of ?u] run show ?thesis by (auto simp: list_all_iff)
qed

section \<open>Adaptive batches are complete\<close>

lemma dict_update_keys: "fst ` set (dict_update d e) = fst ` set d \<union> fst ` set e"
proof (induction e arbitrary: d)
  case (Cons p e)
  obtain k v where p: "p = (k, v)" by (cases p)
  have "dict_update d (p # e) = dict_update (AList.update k v d) e" by (simp add: dict_update_def p)
  then show ?case using Cons.IH [of "AList.update k v d"] by (simp only: dom_update) (simp add: p)
qed (simp add: dict_update_def)



end
