(* ===== verification/Replication.thy ===== *)
theory Replication
  imports EcDelivery
begin

text \<open>
  Classic replication of whole chunks (\<open>stopan.protection.replication\<close>): the target planner
  \<open>placement.py\<close>, the remote client \<open>remote_client.py\<close>, the execution and aggregation of a
  push \<open>push_execution.py\<close>, the update written per chunk by \<open>pusher.py\<close>, and the verifier
  \<open>verifier.py\<close> with \<open>verify_models.py\<close>.

  As in the erasure-coding part the gRPC stubs are parameters with arbitrary answers, and
  \<open>order\<close> is the order in which targets complete. One run of the bidirectional stream is
  described by what the code observes of it (\<open>stream_run\<close>).
\<close>

section \<open>Planning targets\<close>

record replication_target_plan =
  rp_chunk_targets :: "(string \<times> cluster_member list) list"
  rp_target_chunks :: "(string \<times> string list) list"
  rp_target_members :: "(string \<times> cluster_member) list"

definition excluded_origin :: "string \<Rightarrow> string set result" where
  "excluded_origin origin =
     (if py_strip origin = [] then Inl StopanConfigValueError else Inr {py_strip origin})"

definition select_remote_chunk_targets ::
    "(bytes \<Rightarrow> bytes) \<Rightarrow> cluster_view \<Rightarrow> string \<Rightarrow> int \<Rightarrow> string \<Rightarrow> string \<Rightarrow> cluster_member list result" where
  "select_remote_chunk_targets digest cluster chunk_hash required cluster_token origin =
     bindE (normalize_remote_rf required) (\<lambda>rf.
       if rf = 0 then Inr []
       else bindE (excluded_origin origin) (\<lambda>excluded.
              Inr (hrw_targets_excluding digest cluster chunk_hash rf cluster_token excluded)))"

definition add_target :: "string \<Rightarrow> replication_target_plan \<Rightarrow> cluster_member \<Rightarrow> replication_target_plan" where
  "add_target chunk_hash plan m =
     plan\<lparr>rp_target_chunks := dict_append (address m) chunk_hash (rp_target_chunks plan),
          rp_target_members := AList.update (address m) m (rp_target_members plan)\<rparr>"

definition plan_chunk ::
    "(bytes \<Rightarrow> bytes) \<Rightarrow> cluster_member list \<Rightarrow> int \<Rightarrow> string \<Rightarrow> replication_target_plan \<Rightarrow> string
       \<Rightarrow> replication_target_plan result" where
  "plan_chunk digest candidates k salt plan chunk_hash =
     (let member_by_id = map_of (dict_of (map (\<lambda>m. (node_id m, m)) candidates)) in
      bindE (if k \<le> 0 then Inr []
             else mapE (\<lambda>n. case member_by_id n of None \<Rightarrow> Inl KeyError | Some m \<Rightarrow> Inr m)
                    (hrw_top_k_node_ids digest chunk_hash (map node_id candidates) k salt))
        (\<lambda>remote_targets.
           Inr (foldl (add_target chunk_hash)
             (plan\<lparr>rp_chunk_targets := AList.update chunk_hash remote_targets (rp_chunk_targets plan)\<rparr>)
             remote_targets)))"

definition plan_chunk_replication_targets ::
    "(bytes \<Rightarrow> bytes) \<Rightarrow> cluster_view \<Rightarrow> string list \<Rightarrow> int \<Rightarrow> string \<Rightarrow> string \<Rightarrow> replication_target_plan result" where
  "plan_chunk_replication_targets digest cluster chunk_hashes required cluster_token origin =
     (let ordered_hashes = ordered_unique chunk_hashes in
      bindE (normalize_remote_rf required) (\<lambda>rf.
      bindE (excluded_origin origin) (\<lambda>excluded.
        let candidates = filter (\<lambda>m. node_id m \<noteq> [] \<and> node_id m \<notin> excluded) (members cluster);
            k = min rf (int (length candidates))
        in foldE (plan_chunk digest candidates k cluster_token)
             \<lparr>rp_chunk_targets = [], rp_target_chunks = [], rp_target_members = []\<rparr> ordered_hashes)))"

section \<open>The remote client\<close>

record stream_run =
  sn_responses :: "(string \<times> int) list"
  sn_stream_error :: bool
  sn_local_failures :: "string list"
  sn_sender_alive :: bool
  sn_sender_error :: bool

record chunk_pool =
  cp_probe :: "string \<Rightarrow> string list \<Rightarrow> string list result"
  cp_stream :: "string \<Rightarrow> string list \<Rightarrow> stream_run"
  cp_probe_batch_hashes :: int

record target_ack =
  ta_chunk_hash :: string
  ta_status :: int

definition ack_is_success :: "target_ack \<Rightarrow> bool" where
  "ack_is_success a \<longleftrightarrow> ta_status a = STORE_STATUS_STORED \<or> ta_status a = STORE_STATUS_ALREADY_PRESENT"

definition ack_is_already_present :: "target_ack \<Rightarrow> bool" where
  "ack_is_already_present a \<longleftrightarrow> ta_status a = STORE_STATUS_ALREADY_PRESENT"

definition ack_is_stored :: "target_ack \<Rightarrow> bool" where
  "ack_is_stored a \<longleftrightarrow> ta_status a = STORE_STATUS_STORED"

definition probe_missing_hashes :: "chunk_pool \<Rightarrow> string \<Rightarrow> string list \<Rightarrow> string set result" where
  "probe_missing_hashes pool addr chunk_hashes =
     (let ordered_hashes = ordered_unique chunk_hashes in
      if ordered_hashes = [] then Inr {}
      else foldE (\<lambda>missing batch. bindE (cp_probe pool addr batch) (\<lambda>resp.
                    Inr (missing \<union> set (filter (\<lambda>h. h \<noteq> []) resp))))
             {} (iter_batches ordered_hashes (max 1 (cp_probe_batch_hashes pool))))"

record probe_result =
  pb_requested_hashes :: "string list"
  pb_completed_hashes :: "string set"
  pb_present_hashes :: "string set"
  pb_transport_error :: bool
  pb_rpc_failed_calls :: nat

fun probe_target_loop ::
    "chunk_pool \<Rightarrow> string \<Rightarrow> string list \<Rightarrow> string set \<Rightarrow> string set \<Rightarrow> string list list \<Rightarrow> probe_result" where
  "probe_target_loop pool addr requested completed missing [] =
     \<lparr>pb_requested_hashes = requested, pb_completed_hashes = completed,
      pb_present_hashes = completed - missing, pb_transport_error = False, pb_rpc_failed_calls = 0\<rparr>"
| "probe_target_loop pool addr requested completed missing (batch # bs) =
     (case cp_probe pool addr batch of
        Inl _ \<Rightarrow> \<lparr>pb_requested_hashes = requested, pb_completed_hashes = completed,
                   pb_present_hashes = completed - missing, pb_transport_error = True, pb_rpc_failed_calls = 1\<rparr>
      | Inr resp \<Rightarrow> probe_target_loop pool addr requested (completed \<union> set batch)
                     (missing \<union> set (filter (\<lambda>h. h \<noteq> []) resp)) bs)"

definition probe_target :: "chunk_pool \<Rightarrow> string \<Rightarrow> string list \<Rightarrow> probe_result" where
  "probe_target pool addr chunk_hashes =
     (let ordered_hashes = ordered_unique chunk_hashes in
      if ordered_hashes = []
      then \<lparr>pb_requested_hashes = [], pb_completed_hashes = {}, pb_present_hashes = {},
            pb_transport_error = False, pb_rpc_failed_calls = 0\<rparr>
      else probe_target_loop pool addr ordered_hashes {} {}
             (iter_batches ordered_hashes (max 1 (cp_probe_batch_hashes pool))))"

text \<open>\<open>StreamingReplicationError\<close> carries the acknowledgements received before the failure.\<close>

definition replicate_missing_hashes ::
    "chunk_pool \<Rightarrow> string \<Rightarrow> string list \<Rightarrow> (string \<times> target_ack) list + (string \<times> target_ack) list" where
  "replicate_missing_hashes pool addr chunk_hashes =
     (let ordered_hashes = ordered_unique chunk_hashes in
      if ordered_hashes = [] then Inr []
      else
        let run = cp_stream pool addr ordered_hashes;
            mk = (\<lambda>(h, s). (h, \<lparr>ta_chunk_hash = h, ta_status = s\<rparr>));
            received = dict_of (map mk (filter (\<lambda>(h, s). h \<noteq> []) (sn_responses run)));
            acks = dict_update received (map (\<lambda>h. mk (h, STORE_STATUS_ERROR)) (sn_local_failures run))
        in if sn_sender_alive run \<or> sn_sender_error run \<or> sn_stream_error run then Inl acks
           else Inr (dict_update acks
                  (map (\<lambda>h. mk (h, STORE_STATUS_ERROR)) (filter (\<lambda>h. h \<notin> fst ` set acks) ordered_hashes))))"

section \<open>Executing a push\<close>

record target_execution_result =
  tx_acks :: "(string \<times> target_ack) list"
  tx_transport_error :: bool

definition execute_target_plan :: "chunk_pool \<Rightarrow> cluster_member \<Rightarrow> string list \<Rightarrow> target_execution_result" where
  "execute_target_plan pool m chunk_hashes =
     (let ordered_hashes = ordered_unique chunk_hashes in
      case probe_missing_hashes pool (address m) ordered_hashes of
        Inl _ \<Rightarrow> \<lparr>tx_acks = [], tx_transport_error = True\<rparr>
      | Inr missing \<Rightarrow>
          let to_send = filter (\<lambda>h. h \<in> missing) ordered_hashes;
              acks = dict_of (map (\<lambda>h. (h, \<lparr>ta_chunk_hash = h, ta_status = STORE_STATUS_ALREADY_PRESENT\<rparr>))
                        (filter (\<lambda>h. h \<notin> missing) ordered_hashes))
          in if to_send = [] then \<lparr>tx_acks = acks, tx_transport_error = False\<rparr>
             else case replicate_missing_hashes pool (address m) to_send of
                    Inr sent \<Rightarrow> \<lparr>tx_acks = dict_update acks sent, tx_transport_error = False\<rparr>
                  | Inl partial \<Rightarrow> \<lparr>tx_acks = dict_update acks partial, tx_transport_error = True\<rparr>)"

record chunk_accumulator =
  ca_required_remote_copies :: int
  ca_stored_remote_copies :: int
  ca_already_present_remote_copies :: int

definition ca_protected_remote_copies :: "chunk_accumulator \<Rightarrow> int" where
  "ca_protected_remote_copies a = ca_stored_remote_copies a + ca_already_present_remote_copies a"

text \<open>The loop over \<open>planned_hashes\<close>; error texts are not collected. A hash without accumulator
  raises \<open>KeyError\<close>.\<close>

definition apply_ack ::
    "target_execution_result \<Rightarrow> (string \<times> chunk_accumulator) list \<Rightarrow> string \<Rightarrow> (string \<times> chunk_accumulator) list result" where
  "apply_ack tr accs h =
     (case map_of accs h of
        None \<Rightarrow> Inl KeyError
      | Some a \<Rightarrow>
          (case map_of (tx_acks tr) h of
             None \<Rightarrow> Inr accs
           | Some ack \<Rightarrow>
               if ack_is_success ack then
                 if ack_is_already_present ack
                 then Inr (AList.update h (a\<lparr>ca_already_present_remote_copies := ca_already_present_remote_copies a + 1\<rparr>) accs)
                 else if ack_is_stored ack
                 then Inr (AList.update h (a\<lparr>ca_stored_remote_copies := ca_stored_remote_copies a + 1\<rparr>) accs)
                 else Inr accs
               else Inr accs))"

definition apply_target_result ::
    "(string \<times> chunk_accumulator) list \<Rightarrow> string list \<Rightarrow> target_execution_result \<Rightarrow> (string \<times> chunk_accumulator) list result" where
  "apply_target_result accs planned tr = foldE (apply_ack tr) accs planned"

record chunk_outcome =
  co_chunk_hash :: string
  co_required_remote_copies :: int
  co_protected_remote_copies :: int
  co_stored_remote_copies :: int
  co_already_present_remote_copies :: int

definition chunk_outcome_of ::
    "int \<Rightarrow> replication_target_plan \<Rightarrow> (string \<times> chunk_accumulator) list \<Rightarrow> string \<Rightarrow> chunk_outcome result" where
  "chunk_outcome_of required plan accs h =
     (case map_of accs h of
        None \<Rightarrow> Inl KeyError
      | Some a \<Rightarrow>
          Inr (if map_of (rp_chunk_targets plan) h = Some []
               then \<lparr>co_chunk_hash = h, co_required_remote_copies = required, co_protected_remote_copies = 0,
                     co_stored_remote_copies = 0, co_already_present_remote_copies = 0\<rparr>
               else \<lparr>co_chunk_hash = h, co_required_remote_copies = ca_required_remote_copies a,
                     co_protected_remote_copies = ca_protected_remote_copies a,
                     co_stored_remote_copies = ca_stored_remote_copies a,
                     co_already_present_remote_copies = ca_already_present_remote_copies a\<rparr>))"

text \<open>\<open>push_chunk_replicas\<close> as the list of outcomes it yields; \<open>task\<close> runs one target and may
  raise, which counts as a transport error with no acknowledgements.\<close>

definition push_chunk_replicas ::
    "((string \<times> string list) list \<Rightarrow> (string \<times> string list) list)
       \<Rightarrow> (cluster_member \<Rightarrow> string list \<Rightarrow> target_execution_result result)
       \<Rightarrow> (bytes \<Rightarrow> bytes) \<Rightarrow> cluster_view \<Rightarrow> string list \<Rightarrow> int \<Rightarrow> string \<Rightarrow> string \<Rightarrow> chunk_outcome list result" where
  "push_chunk_replicas order task digest cluster chunk_hashes required cluster_token origin =
     (let ordered_hashes = ordered_unique chunk_hashes in
      bindE (plan_chunk_replication_targets digest cluster ordered_hashes required cluster_token origin) (\<lambda>plan.
      bindE (mapE (\<lambda>h. case map_of (rp_chunk_targets plan) h of
                      None \<Rightarrow> Inl KeyError
                    | Some ts \<Rightarrow> Inr (h, \<lparr>ca_required_remote_copies = int (length ts), ca_stored_remote_copies = 0,
                                          ca_already_present_remote_copies = 0\<rparr>)) ordered_hashes) (\<lambda>accs0.
      bindE (foldE (\<lambda>accs (addr, hashes).
               case map_of (rp_target_members plan) addr of
                 None \<Rightarrow> Inl KeyError
               | Some m \<Rightarrow>
                   apply_target_result accs hashes
                     (case task m hashes of Inr r \<Rightarrow> r | Inl _ \<Rightarrow> \<lparr>tx_acks = [], tx_transport_error = True\<rparr>))
               accs0 (order (rp_target_chunks plan))) (\<lambda>accs.
        mapE (chunk_outcome_of required plan accs) ordered_hashes))))"

record chunk_push_update =
  cu_chunk_hash :: string
  cu_desired_rf :: int
  cu_protection_state :: protection_state
  cu_protected_remote_copies :: int
  cu_placement_epoch :: string

text \<open>What \<open>push_to_network\<close> records for one outcome.\<close>

definition push_update_of :: "int \<Rightarrow> string \<Rightarrow> chunk_outcome \<Rightarrow> chunk_push_update" where
  "push_update_of desired_rf current_epoch oc =
     \<lparr>cu_chunk_hash = co_chunk_hash oc, cu_desired_rf = desired_rf,
      cu_protection_state = replication_push_state (co_protected_remote_copies oc) desired_rf,
      cu_protected_remote_copies = co_protected_remote_copies oc,
      cu_placement_epoch = current_epoch\<rparr>"

section \<open>Verification\<close>

record verification_candidate =
  vc_chunk_hash :: string
  vc_desired_rf :: int

record verification_accumulator =
  va_desired_rf :: int
  va_placement_epoch :: string
  va_required_remote_copies :: int
  va_verified_remote_copies :: int

definition va_success :: "verification_accumulator \<Rightarrow> bool" where
  "va_success a \<longleftrightarrow> va_required_remote_copies a \<le> va_verified_remote_copies a"

record verify_plan =
  vp_accumulators :: "(string \<times> verification_accumulator) list"
  vp_target_chunks :: "(string \<times> string list) list"
  vp_target_members :: "(string \<times> cluster_member) list"

definition extend_hashes :: "(string \<times> string list) list \<Rightarrow> string \<times> string list \<Rightarrow> (string \<times> string list) list" where
  "extend_hashes d g = AList.update (fst g) ((case map_of d (fst g) of None \<Rightarrow> [] | Some hs \<Rightarrow> hs) @ snd g) d"

text \<open>One group of candidates with the same \<open>desired_rf\<close>.\<close>

definition plan_group ::
    "(bytes \<Rightarrow> bytes) \<Rightarrow> (bytes \<Rightarrow> string) \<Rightarrow> remote_protection_context \<Rightarrow> verify_plan
       \<Rightarrow> int \<times> verification_candidate list \<Rightarrow> verify_plan result" where
  "plan_group digest hexdigest ctx vp g =
     (let desired_rf = fst g;
          placement_epoch = (if desired_rf = 0 then [] else context_placement_epoch hexdigest ctx desired_rf)
      in bindE (plan_chunk_replication_targets digest (rc_cluster ctx) (map vc_chunk_hash (snd g)) desired_rf
                  (rc_cluster_token ctx) (rc_origin_node_id ctx)) (\<lambda>plan.
           Inr \<lparr>vp_accumulators = foldl (\<lambda>accs c. AList.update (vc_chunk_hash c)
                    \<lparr>va_desired_rf = desired_rf, va_placement_epoch = placement_epoch,
                     va_required_remote_copies = desired_rf, va_verified_remote_copies = 0\<rparr> accs)
                  (vp_accumulators vp) (snd g),
                vp_target_chunks = foldl extend_hashes (vp_target_chunks vp) (rp_target_chunks plan),
                vp_target_members = foldl (\<lambda>d (a, m). AList.update a m d) (vp_target_members vp) (rp_target_members plan)\<rparr>))"

definition plan_verify ::
    "(bytes \<Rightarrow> bytes) \<Rightarrow> (bytes \<Rightarrow> string) \<Rightarrow> remote_protection_context \<Rightarrow> verification_candidate list \<Rightarrow> verify_plan result" where
  "plan_verify digest hexdigest ctx candidates =
     bindE (mapE (\<lambda>c. bindE (normalize_remote_rf (vc_desired_rf c)) (\<lambda>rf. Inr (rf, c))) candidates) (\<lambda>rfs.
       let candidates_by_rf = foldl (\<lambda>d (rf, c). dict_append rf c d) [] rfs in
       foldE (plan_group digest hexdigest ctx)
         \<lparr>vp_accumulators = [], vp_target_chunks = [], vp_target_members = []\<rparr> candidates_by_rf)"

definition count_present ::
    "probe_result \<Rightarrow> (string \<times> verification_accumulator) list \<Rightarrow> string \<Rightarrow> (string \<times> verification_accumulator) list result" where
  "count_present r accs h =
     (case map_of accs h of
        None \<Rightarrow> Inl KeyError
      | Some a \<Rightarrow> Inr (AList.update h (a\<lparr>va_verified_remote_copies := va_verified_remote_copies a + 1\<rparr>) accs))"

text \<open>A completed probe adds one verified copy for every hash in \<open>completed_hashes\<close> that is in
  \<open>present_hashes\<close>; both are sets, so a hash counts once per address. The set is traversed in
  the order of \<open>requested_hashes\<close>, which does not show in the result.\<close>

definition apply_probe_result ::
    "(string \<times> verification_accumulator) list \<Rightarrow> probe_result \<Rightarrow> (string \<times> verification_accumulator) list result" where
  "apply_probe_result accs r =
     foldE (count_present r) accs
       (filter (\<lambda>h. h \<in> pb_completed_hashes r \<and> h \<in> pb_present_hashes r) (pb_requested_hashes r))"

record verification_outcome =
  vo_chunk_hash :: string
  vo_desired_rf :: int
  vo_placement_epoch :: string
  vo_required_remote_copies :: int
  vo_verified_remote_copies :: int

definition verify_chunk_candidates ::
    "((string \<times> string list) list \<Rightarrow> (string \<times> string list) list) \<Rightarrow> chunk_pool \<Rightarrow> (bytes \<Rightarrow> bytes) \<Rightarrow> (bytes \<Rightarrow> string)
       \<Rightarrow> remote_protection_context \<Rightarrow> verification_candidate list \<Rightarrow> verification_outcome list result" where
  "verify_chunk_candidates order pool digest hexdigest ctx candidates =
     bindE (plan_verify digest hexdigest ctx candidates) (\<lambda>vp.
     bindE (foldE (\<lambda>accs (addr, hashes).
              case map_of (vp_target_members vp) addr of
                None \<Rightarrow> Inl KeyError
              | Some m \<Rightarrow> apply_probe_result accs (probe_target pool (address m) hashes))
              (vp_accumulators vp) (order (vp_target_chunks vp))) (\<lambda>accs.
       mapE (\<lambda>c. case map_of accs (vc_chunk_hash c) of
                None \<Rightarrow> Inl KeyError
              | Some a \<Rightarrow> Inr \<lparr>vo_chunk_hash = vc_chunk_hash c, vo_desired_rf = va_desired_rf a,
                               vo_placement_epoch = va_placement_epoch a,
                               vo_required_remote_copies = va_required_remote_copies a,
                               vo_verified_remote_copies = va_verified_remote_copies a\<rparr>) candidates))"

definition verify_chunks ::
    "((string \<times> string list) list \<Rightarrow> (string \<times> string list) list) \<Rightarrow> chunk_pool \<Rightarrow> (bytes \<Rightarrow> bytes) \<Rightarrow> (bytes \<Rightarrow> string)
       \<Rightarrow> remote_protection_context \<Rightarrow> verification_candidate list \<Rightarrow> chunk_push_update list result" where
  "verify_chunks order pool digest hexdigest ctx candidates0 =
     bindE (mapE (\<lambda>c. bindE (normalize_remote_rf (vc_desired_rf c)) (\<lambda>rf. Inr (rf, c))) candidates0) (\<lambda>rfs.
       let candidates = map snd (filter (\<lambda>(rf, c). rf > 0) rfs) in
       if candidates = [] then Inr []
       else bindE (verify_chunk_candidates order pool digest hexdigest ctx candidates) (\<lambda>outcomes.
              Inr (map (\<lambda>oc. \<lparr>cu_chunk_hash = vo_chunk_hash oc, cu_desired_rf = vo_desired_rf oc,
                     cu_protection_state = replication_verify_state (vo_verified_remote_copies oc) (vo_required_remote_copies oc),
                     cu_protected_remote_copies = vo_verified_remote_copies oc,
                     cu_placement_epoch = vo_placement_epoch oc\<rparr>) outcomes)))"

section \<open>The plan is the per-chunk selection\<close>

lemma plan_candidates:
  "orig \<noteq> [] \<Longrightarrow> filter (\<lambda>m. node_id m \<noteq> [] \<and> node_id m \<notin> {orig}) (members c) = candidate_members_excluding c {orig}"
  by (auto simp: candidate_members_excluding_def intro!: filter_cong)

lemma member_by_id:
  assumes "view_wf c" "m \<in> set (candidate_members_excluding c X)"
  shows "map_of (dict_of (map (\<lambda>m. (node_id m, m)) (candidate_members_excluding c X))) (node_id m) = Some m"
proof -
  let ?ps = "map (\<lambda>m. (node_id m, m)) (candidate_members_excluding c X)"
  have "distinct (map fst ?ps)"
    using candidates_distinct [OF assms(1), of X] by (simp add: candidate_node_ids_excluding_def comp_def)
  then show ?thesis using assms(2) by (simp add: dict_of_distinct map_of_is_SomeI)
qed

lemma plan_chunk_targets:
  assumes wf: "view_wf c" and rf: "0 \<le> rf"
  shows "plan_chunk digest (candidate_members_excluding c X) (min rf (int (length (candidate_members_excluding c X)))) salt plan h
     = Inr (foldl (add_target h)
         (plan\<lparr>rp_chunk_targets := AList.update h (hrw_targets_excluding digest c h rf salt X) (rp_chunk_targets plan)\<rparr>)
         (hrw_targets_excluding digest c h rf salt X))"
proof -
  let ?C = "candidate_members_excluding c X" and ?T = "hrw_targets_excluding digest c h rf salt X"
  let ?k = "min rf (int (length ?C))"
  let ?lk = "\<lambda>n. case map_of (dict_of (map (\<lambda>m. (node_id m, m)) ?C)) n of None \<Rightarrow> Inl KeyError | Some m \<Rightarrow> Inr m"
  have ids: "hrw_top_k_node_ids digest h (map node_id ?C) ?k salt = map node_id ?T"
    using hrw_targets_map [OF wf, of digest h rf salt X] rf
    by (simp add: candidate_node_ids_excluding_def comp_def min_def nat_le_iff)
  have "?lk (node_id m) = Inr m" if "m \<in> set ?T" for m
    using member_by_id [OF wf hrw_targets_candidates [OF wf that]] by simp
  then have "mapE ?lk (map node_id ?T) = Inr ?T"
    using mapE_total [of ?T "\<lambda>m. ?lk (node_id m)" "\<lambda>m. m"] by (simp add: mapE_map)
  moreover have "?T = []" if "?k \<le> 0"
    using that hrw_targets_excluding_props [OF wf, of digest h rf salt X] rf
    by (auto simp: candidate_node_ids_excluding_def min_def split: if_splits)
  ultimately show ?thesis using ids by (auto simp: plan_chunk_def Let_def)
qed

definition plan_step :: "(string \<Rightarrow> cluster_member list) \<Rightarrow> replication_target_plan \<Rightarrow> string \<Rightarrow> replication_target_plan" where
  "plan_step T plan h = foldl (add_target h) (plan\<lparr>rp_chunk_targets := AList.update h (T h) (rp_chunk_targets plan)\<rparr>) (T h)"

definition empty_plan :: replication_target_plan where
  "empty_plan = \<lparr>rp_chunk_targets = [], rp_target_chunks = [], rp_target_members = []\<rparr>"

lemma foldE_total: "(\<And>s x. f s x = Inr (g s x)) \<Longrightarrow> foldE f s xs = Inr (foldl g s xs)"
  by (induction xs arbitrary: s) auto

lemma plan_targets_fold:
  assumes "view_wf c" "0 \<le> rf" "py_strip orig \<noteq> []"
  shows "plan_chunk_replication_targets digest c hs rf tok orig =
     Inr (foldl (plan_step (\<lambda>h. hrw_targets_excluding digest c h rf tok {py_strip orig})) empty_plan (ordered_unique hs))"
  using assms(2,3) plan_chunk_targets [OF assms(1,2)]
  by (simp add: plan_chunk_replication_targets_def normalize_remote_rf_def excluded_origin_def Let_def
      plan_candidates [OF assms(3), simplified] empty_plan_def foldE_total [where g = "plan_step _"] plan_step_def)

lemma add_targets_fields:
  "rp_chunk_targets (foldl (add_target h) plan ms) = rp_chunk_targets plan"
  by (induction ms arbitrary: plan) (simp_all add: add_target_def)

lemma plan_chunk_targets_field:
  "map_of (rp_chunk_targets (foldl (plan_step T) plan hs)) h = (if h \<in> set hs then Some (T h) else map_of (rp_chunk_targets plan) h)"
  by (induction hs arbitrary: plan) (auto simp: plan_step_def add_targets_fields)

text \<open>Every address with chunks has a member, and that member has this address.\<close>

definition plan_addresses_ok :: "replication_target_plan \<Rightarrow> bool" where
  "plan_addresses_ok plan \<longleftrightarrow> distinct (map fst (rp_target_chunks plan))
     \<and> (\<forall>a \<in> fst ` set (rp_target_chunks plan). \<exists>m. map_of (rp_target_members plan) a = Some m \<and> address m = a)"

lemma dict_append_dom: "fst ` set (dict_append k v d) = insert k (fst ` set d)"
  by (simp add: dict_append_def dom_update)

lemma add_target_ok: "plan_addresses_ok plan \<Longrightarrow> plan_addresses_ok (add_target h plan m)"
  by (auto simp: plan_addresses_ok_def add_target_def dict_append_keys dict_append_dom)

lemma plan_step_ok: "plan_addresses_ok plan \<Longrightarrow> plan_addresses_ok (plan_step T plan h)"
proof -
  have "plan_addresses_ok p \<Longrightarrow> plan_addresses_ok (foldl (add_target h) p ms)" for p ms
    by (induction ms arbitrary: p) (auto intro: add_target_ok)
  moreover assume "plan_addresses_ok plan"
  ultimately show ?thesis by (simp add: plan_step_def plan_addresses_ok_def)
qed

lemma plan_fold_ok: "plan_addresses_ok plan \<Longrightarrow> plan_addresses_ok (foldl (plan_step T) plan hs)"
  by (induction hs arbitrary: plan) (auto intro: plan_step_ok)

text \<open>How often a hash is listed at the addresses that satisfy \<open>S\<close>: once per planned member.\<close>

definition listed :: "(string \<Rightarrow> bool) \<Rightarrow> string \<Rightarrow> (string \<times> string list) list \<Rightarrow> nat" where
  "listed S h d = (\<Sum>(a, l) \<leftarrow> d. if S a then count_list l h else 0)"

lemma listed_append: "listed S h (dict_append a h' d) = listed S h d + (if S a \<and> h' = h then 1 else 0)"
  by (induction d) (auto simp: listed_def dict_append_Nil dict_append_Cons)

lemma listed_pos: "0 < listed S h d \<Longrightarrow> \<exists>a \<in> fst ` set d. S a"
  by (induction d) (auto simp: listed_def split: if_splits)

lemma listed_add_targets:
  "listed S h (rp_target_chunks (foldl (add_target h') plan ms))
     = listed S h (rp_target_chunks plan) + (if h' = h then length (filter (\<lambda>m. S (address m)) ms) else 0)"
  by (induction ms arbitrary: plan) (auto simp: add_target_def listed_append)

lemma listed_plan:
  "distinct hs \<Longrightarrow> listed S h (rp_target_chunks (foldl (plan_step T) plan hs))
     = listed S h (rp_target_chunks plan) + (if h \<in> set hs then length (filter (\<lambda>m. S (address m)) (T h)) else 0)"
  by (induction hs arbitrary: plan) (auto simp: plan_step_def listed_add_targets)

lemma added_hashes:
  "(a, l) \<in> set (rp_target_chunks (foldl (add_target h') p ms)) \<Longrightarrow> h \<in> set l \<Longrightarrow>
     h = h' \<or> (\<exists>l'. (a, l') \<in> set (rp_target_chunks p) \<and> h \<in> set l')"
proof (induction ms arbitrary: p)
  case (Cons m ms)
  from Cons.IH [of "add_target h' p m"] Cons.prems
  have "h = h' \<or> (\<exists>l'. (a, l') \<in> set (dict_append (address m) h' (rp_target_chunks p)) \<and> h \<in> set l')"
    by (simp add: add_target_def)
  then show ?case using dict_append_members by fastforce
qed auto

lemma planned_hashes:
  "(a, l) \<in> set (rp_target_chunks (foldl (plan_step T) plan hs)) \<Longrightarrow> h \<in> set l \<Longrightarrow>
     h \<in> set hs \<or> (\<exists>l'. (a, l') \<in> set (rp_target_chunks plan) \<and> h \<in> set l')"
proof (induction hs arbitrary: plan)
  case (Cons h' hs)
  from Cons.IH [of "plan_step T plan h'"] Cons.prems
  have "h \<in> set hs \<or> (\<exists>l'. (a, l') \<in> set (rp_target_chunks (plan_step T plan h')) \<and> h \<in> set l')" by simp
  then show ?case unfolding plan_step_def by (auto dest: added_hashes)
qed auto

section \<open>What a push counts\<close>

definition ack_ok :: "target_execution_result \<Rightarrow> string \<Rightarrow> bool" where
  "ack_ok tr h \<longleftrightarrow> (\<exists>ack. map_of (tx_acks tr) h = Some ack \<and> ack_is_success ack)"

definition copies :: "(string \<times> chunk_accumulator) list \<Rightarrow> string \<Rightarrow> int" where
  "copies accs h = (case map_of accs h of None \<Rightarrow> 0 | Some a \<Rightarrow> ca_protected_remote_copies a)"

lemma apply_ack_counts:
  assumes "h' \<in> dom (map_of accs)"
  shows "\<exists>accs'. apply_ack tr accs h' = Inr accs' \<and> dom (map_of accs') = dom (map_of accs)
    \<and> (\<forall>h. copies accs' h = copies accs h + (if ack_ok tr h' \<and> h = h' then 1 else 0))"
proof -
  obtain a where a: "map_of accs h' = Some a" using assms by blast
  show ?thesis
    using a
    by (auto simp: apply_ack_def ack_ok_def copies_def ca_protected_remote_copies_def ack_is_success_def
        ack_is_already_present_def ack_is_stored_def split: option.splits)
qed

lemma apply_target_result_counts:
  assumes "set l \<subseteq> dom (map_of accs)"
  shows "\<exists>accs'. apply_target_result accs l tr = Inr accs' \<and> dom (map_of accs') = dom (map_of accs)
    \<and> (\<forall>h. copies accs' h = copies accs h + (if ack_ok tr h then int (count_list l h) else 0))"
  using assms unfolding apply_target_result_def
proof (induction l arbitrary: accs)
  case (Cons h' l)
  from apply_ack_counts [of h' accs tr] Cons.prems obtain accs1 where
    1: "apply_ack tr accs h' = Inr accs1" "dom (map_of accs1) = dom (map_of accs)"
    "\<forall>h. copies accs1 h = copies accs h + (if ack_ok tr h' \<and> h = h' then 1 else 0)" by auto
  from Cons.IH [of accs1] Cons.prems 1(2) obtain accs2 where
    2: "foldE (apply_ack tr) accs1 l = Inr accs2" "dom (map_of accs2) = dom (map_of accs1)"
    "\<forall>h. copies accs2 h = copies accs1 h + (if ack_ok tr h then int (count_list l h) else 0)" by auto
  show ?case using 1 2 by (intro exI [of _ accs2]) auto
qed auto

lemma apply_targets_count:
  assumes "\<forall>(a, l) \<in> set groups. set l \<subseteq> dom (map_of accs) \<and> (\<exists>m. lk a = Some m)"
  shows "\<exists>accs'. foldE (\<lambda>accs (a, l). case lk a of None \<Rightarrow> Inl KeyError | Some m \<Rightarrow> apply_target_result accs l (run m l)) accs groups = Inr accs'
    \<and> dom (map_of accs') = dom (map_of accs)
    \<and> (\<forall>h. copies accs' h = copies accs h + (\<Sum>(a, l) \<leftarrow> groups. if ack_ok (run (the (lk a)) l) h then int (count_list l h) else 0))"
  using assms
proof (induction groups arbitrary: accs)
  case (Cons g groups)
  obtain a l where g: "g = (a, l)" by (cases g)
  with Cons.prems obtain m where m: "lk a = Some m" "set l \<subseteq> dom (map_of accs)" by auto
  from apply_target_result_counts [OF m(2), of "run m l"] obtain accs1 where
    1: "apply_target_result accs l (run m l) = Inr accs1" "dom (map_of accs1) = dom (map_of accs)"
    "\<forall>h. copies accs1 h = copies accs h + (if ack_ok (run m l) h then int (count_list l h) else 0)" by blast
  from Cons.IH [of accs1] Cons.prems 1(2) obtain accs2 where
    2: "foldE (\<lambda>accs (a, l). case lk a of None \<Rightarrow> Inl KeyError | Some m \<Rightarrow> apply_target_result accs l (run m l)) accs1 groups = Inr accs2"
    "dom (map_of accs2) = dom (map_of accs1)"
    "\<forall>h. copies accs2 h = copies accs1 h + (\<Sum>(a, l) \<leftarrow> groups. if ack_ok (run (the (lk a)) l) h then int (count_list l h) else 0)"
    by auto
  show ?case using 1 2 m by (intro exI [of _ accs2]) (simp add: g)
qed auto

text \<open>The target at a planned member's address acknowledged the chunk.\<close>

definition run_task ::
    "(cluster_member \<Rightarrow> string list \<Rightarrow> target_execution_result result) \<Rightarrow> cluster_member \<Rightarrow> string list \<Rightarrow> target_execution_result" where
  "run_task task m l = (case task m l of Inr r \<Rightarrow> r | Inl _ \<Rightarrow> \<lparr>tx_acks = [], tx_transport_error = True\<rparr>)"

definition target_acked ::
    "(cluster_member \<Rightarrow> string list \<Rightarrow> target_execution_result result) \<Rightarrow> replication_target_plan \<Rightarrow> string \<Rightarrow> string \<Rightarrow> bool" where
  "target_acked task plan h a \<longleftrightarrow>
     ack_ok (run_task task (the (map_of (rp_target_members plan) a)) (the (map_of (rp_target_chunks plan) a))) h"

lemma plan_of:
  assumes "view_wf c" "0 \<le> rf" "py_strip orig \<noteq> []"
  obtains plan where "plan_chunk_replication_targets digest c (ordered_unique hs) rf tok orig = Inr plan"
    "\<And>h. map_of (rp_chunk_targets plan) h = (if h \<in> set hs then Some (hrw_targets_excluding digest c h rf tok {py_strip orig}) else None)"
    "plan_addresses_ok plan" "\<And>a l. (a, l) \<in> set (rp_target_chunks plan) \<Longrightarrow> set l \<subseteq> set hs"
    "\<And>S h. h \<in> set hs \<Longrightarrow> listed S h (rp_target_chunks plan) = length (filter (\<lambda>m. S (address m)) (hrw_targets_excluding digest c h rf tok {py_strip orig}))"
proof -
  let ?T = "\<lambda>h. hrw_targets_excluding digest c h rf tok {py_strip orig}"
  let ?plan = "foldl (plan_step ?T) empty_plan (ordered_unique hs)"
  show thesis
  proof (rule that)
    show "plan_chunk_replication_targets digest c (ordered_unique hs) rf tok orig = Inr ?plan"
      using plan_targets_fold [OF assms, of digest "ordered_unique hs" tok] by simp
    show "map_of (rp_chunk_targets ?plan) h = (if h \<in> set hs then Some (?T h) else None)" for h
      by (simp add: plan_chunk_targets_field empty_plan_def)
    show "plan_addresses_ok ?plan" by (rule plan_fold_ok) (simp add: plan_addresses_ok_def empty_plan_def)
    show "set l \<subseteq> set hs" if "(a, l) \<in> set (rp_target_chunks ?plan)" for a l
      using planned_hashes [OF that] by (auto simp: empty_plan_def)
    show "listed S h (rp_target_chunks ?plan) = length (filter (\<lambda>m. S (address m)) (?T h))" if "h \<in> set hs" for S h
      using listed_plan [OF distinct_ordered_unique, of S h ?T empty_plan hs] that by (simp add: empty_plan_def listed_def)
  qed
qed

lemma plan_member_address:
  assumes "view_wf c" "0 \<le> rf" "py_strip orig \<noteq> []"
    and "plan_chunk_replication_targets digest c (ordered_unique hs) rf tok orig = Inr plan"
    and "m \<in> set (hrw_targets_excluding digest c h rf tok {py_strip orig})" "h \<in> set hs"
  shows "address (the (map_of (rp_target_members plan) (address m))) = address m"
proof -
  obtain plan' where p: "plan_chunk_replication_targets digest c (ordered_unique hs) rf tok orig = Inr plan'"
    "plan_addresses_ok plan'"
    "\<And>S h. h \<in> set hs \<Longrightarrow> listed S h (rp_target_chunks plan') = length (filter (\<lambda>m. S (address m)) (hrw_targets_excluding digest c h rf tok {py_strip orig}))"
    using plan_of [OF assms(1-3), where digest = digest and hs = hs and tok = tok] by metis
  have "m \<in> set (filter (\<lambda>m'. address m' = address m) (hrw_targets_excluding digest c h rf tok {py_strip orig}))" using assms(5) by simp
  then have "listed (\<lambda>a. a = address m) h (rp_target_chunks plan') > 0"
    unfolding p(3) [OF assms(6)] by (rule length_pos_if_in_set)
  then have "address m \<in> fst ` set (rp_target_chunks plan')"
    by (auto dest!: listed_pos)
  then show ?thesis using p(2) p(1) assms(4) by (auto simp: plan_addresses_ok_def)
qed

lemma sum_groups_listed:
  assumes "distinct (map fst d)" "mset gs = mset d"
  shows "(\<Sum>(a, l) \<leftarrow> gs. if ack_ok (run (the (lk a)) l) h then int (count_list l h) else 0)
     = int (listed (\<lambda>a. ack_ok (run (the (lk a)) (the (map_of d a))) h) h d)"
proof -
  have "(\<Sum>(a, l) \<leftarrow> gs. if ack_ok (run (the (lk a)) l) h then int (count_list l h) else 0)
      = (\<Sum>(a, l) \<leftarrow> d. if ack_ok (run (the (lk a)) l) h then int (count_list l h) else 0)"
    using assms(2) by (metis (no_types, lifting) mset_map sum_mset_sum_list)
  also have "\<dots> = (\<Sum>(a, l) \<leftarrow> d. int (if ack_ok (run (the (lk a)) (the (map_of d a))) h then count_list l h else 0))"
    using assms(1) by (intro arg_cong [where f = sum_list] map_cong) auto
  also have "\<dots> = int (listed (\<lambda>a. ack_ok (run (the (lk a)) (the (map_of d a))) h) h d)"
    by (simp add: listed_def int_sum_list split_def)
  finally show ?thesis .
qed

lemma push_accumulators:
  assumes wf: "view_wf c" "0 \<le> rf" "py_strip orig \<noteq> []" and perm: "\<And>d. mset (order d) = mset d"
  obtains plan accs where "plan_chunk_replication_targets digest c (ordered_unique hs) rf tok orig = Inr plan"
    "push_chunk_replicas order task digest c hs rf tok orig = mapE (chunk_outcome_of rf plan accs) (ordered_unique hs)"
    "\<And>h. map_of (rp_chunk_targets plan) h = (if h \<in> set hs then Some (hrw_targets_excluding digest c h rf tok {py_strip orig}) else None)"
    "dom (map_of accs) = set hs"
    "\<And>h. h \<in> set hs \<Longrightarrow> copies accs h = int (length (filter (\<lambda>m. target_acked task plan h (address m))
       (hrw_targets_excluding digest c h rf tok {py_strip orig})))"
proof -
  let ?T = "\<lambda>h. hrw_targets_excluding digest c h rf tok {py_strip orig}"
  let ?H = "ordered_unique hs"
  obtain plan where plan: "plan_chunk_replication_targets digest c ?H rf tok orig = Inr plan"
    and targets: "\<And>h. map_of (rp_chunk_targets plan) h = (if h \<in> set hs then Some (?T h) else None)"
    and ok: "plan_addresses_ok plan" and sub: "\<And>a l. (a, l) \<in> set (rp_target_chunks plan) \<Longrightarrow> set l \<subseteq> set hs"
    and cnt: "\<And>S h. h \<in> set hs \<Longrightarrow> listed S h (rp_target_chunks plan) = length (filter (\<lambda>m. S (address m)) (?T h))"
    using plan_of [OF wf, where digest = digest and hs = hs and tok = tok] by metis
  define accs0 where "accs0 = map (\<lambda>h. (h, \<lparr>ca_required_remote_copies = int (length (?T h)), ca_stored_remote_copies = 0,
     ca_already_present_remote_copies = 0\<rparr>)) ?H"
  have a0: "mapE (\<lambda>h. case map_of (rp_chunk_targets plan) h of None \<Rightarrow> Inl KeyError
     | Some ts \<Rightarrow> Inr (h, \<lparr>ca_required_remote_copies = int (length ts), ca_stored_remote_copies = 0,
                       ca_already_present_remote_copies = 0\<rparr>)) ?H = Inr accs0"
    unfolding accs0_def by (rule mapE_total) (simp add: targets)
  have dom0: "dom (map_of accs0) = set hs" by (simp add: accs0_def dom_map_of_conv_image_fst image_image)
  have c0: "copies accs0 h = 0" for h
    by (auto simp: copies_def accs0_def map_of_map_restrict restrict_map_def ca_protected_remote_copies_def split: option.splits)
  have groups: "\<forall>(a, l) \<in> set (order (rp_target_chunks plan)). set l \<subseteq> dom (map_of accs0) \<and> (\<exists>m. map_of (rp_target_members plan) a = Some m)"
  proof (intro ballI)
    fix g assume "g \<in> set (order (rp_target_chunks plan))"
    then have g: "g \<in> set (rp_target_chunks plan)" using mset_eq_setD [OF perm [of "rp_target_chunks plan"]] by simp
    then have "\<exists>m. map_of (rp_target_members plan) (fst g) = Some m" using ok unfolding plan_addresses_ok_def by blast
    then show "case g of (a, l) \<Rightarrow> set l \<subseteq> dom (map_of accs0) \<and> (\<exists>m. map_of (rp_target_members plan) a = Some m)"
      using g sub [of "fst g" "snd g"] by (simp add: dom0 split_def)
  qed
  from apply_targets_count [OF groups, of "run_task task"] obtain accs where
    f: "foldE (\<lambda>accs (a, l). case map_of (rp_target_members plan) a of None \<Rightarrow> Inl KeyError
        | Some m \<Rightarrow> apply_target_result accs l (run_task task m l)) accs0 (order (rp_target_chunks plan)) = Inr accs"
    "dom (map_of accs) = set hs"
    "\<forall>h. copies accs h = (\<Sum>(a, l) \<leftarrow> order (rp_target_chunks plan).
        if ack_ok (run_task task (the (map_of (rp_target_members plan) a)) l) h then int (count_list l h) else 0)"
    by (auto simp: c0 dom0)
  have cp: "copies accs h = int (length (filter (\<lambda>m. target_acked task plan h (address m)) (?T h)))" if "h \<in> set hs" for h
  proof -
    have dist: "distinct (map fst (rp_target_chunks plan))" using ok by (simp add: plan_addresses_ok_def)
    have "copies accs h = int (listed (target_acked task plan h) h (rp_target_chunks plan))"
      unfolding f(3) [rule_format] target_acked_def by (rule sum_groups_listed [OF dist perm])
    then show ?thesis by (simp only: cnt [OF that])
  qed
  have "push_chunk_replicas order task digest c hs rf tok orig = mapE (chunk_outcome_of rf plan accs) ?H"
    using plan a0 f(1) [unfolded run_task_def] by (simp add: push_chunk_replicas_def)
  then show thesis using that [OF plan _ targets f(2)] cp by blast
qed

lemma push_outcomes:
  assumes wf: "view_wf c" "0 \<le> rf" "py_strip orig \<noteq> []" and perm: "\<And>d. mset (order d) = mset d"
  obtains plan outcomes where "plan_chunk_replication_targets digest c (ordered_unique hs) rf tok orig = Inr plan"
    "push_chunk_replicas order task digest c hs rf tok orig = Inr outcomes"
    "map co_chunk_hash outcomes = ordered_unique hs"
    "\<And>oc. oc \<in> set outcomes \<Longrightarrow> co_protected_remote_copies oc =
       int (length (filter (\<lambda>m. target_acked task plan (co_chunk_hash oc) (address m))
         (hrw_targets_excluding digest c (co_chunk_hash oc) rf tok {py_strip orig})))"
proof -
  let ?T = "\<lambda>h. hrw_targets_excluding digest c h rf tok {py_strip orig}"
  let ?H = "ordered_unique hs"
  obtain plan accs where plan: "plan_chunk_replication_targets digest c ?H rf tok orig = Inr plan"
    and push: "push_chunk_replicas order task digest c hs rf tok orig = mapE (chunk_outcome_of rf plan accs) ?H"
    and targets: "\<And>h. map_of (rp_chunk_targets plan) h = (if h \<in> set hs then Some (?T h) else None)"
    and dom: "dom (map_of accs) = set hs"
    and cp: "\<And>h. h \<in> set hs \<Longrightarrow> copies accs h = int (length (filter (\<lambda>m. target_acked task plan h (address m)) (?T h)))"
    using push_accumulators [OF wf perm, where digest = digest and hs = hs and tok = tok and task = task] by metis
  define oc where "oc h = (if ?T h = [] then \<lparr>co_chunk_hash = h, co_required_remote_copies = rf, co_protected_remote_copies = 0,
      co_stored_remote_copies = 0, co_already_present_remote_copies = 0\<rparr>
    else let a = the (map_of accs h) in \<lparr>co_chunk_hash = h, co_required_remote_copies = ca_required_remote_copies a,
      co_protected_remote_copies = ca_protected_remote_copies a, co_stored_remote_copies = ca_stored_remote_copies a,
      co_already_present_remote_copies = ca_already_present_remote_copies a\<rparr>)" for h
  have "mapE (chunk_outcome_of rf plan accs) ?H = Inr (map oc ?H)"
  proof (rule mapE_total)
    fix h assume "h \<in> set ?H"
    then have "h \<in> set hs" by simp
    moreover then obtain a where "map_of accs h = Some a" using dom by blast
    ultimately show "chunk_outcome_of rf plan accs h = Inr (oc h)" by (simp add: chunk_outcome_of_def targets oc_def Let_def)
  qed
  then have run: "push_chunk_replicas order task digest c hs rf tok orig = Inr (map oc ?H)" by (simp only: push)
  have hash: "co_chunk_hash (oc h) = h" for h by (simp add: oc_def Let_def)
  have prot: "co_protected_remote_copies (oc h) = int (length (filter (\<lambda>m. target_acked task plan h (address m)) (?T h)))" if "h \<in> set hs" for h
    using cp [OF that] dom that by (auto simp: oc_def Let_def copies_def split: option.splits)
  show thesis
  proof (rule that [OF plan run])
    show "map co_chunk_hash (map oc ?H) = ?H" by (simp add: hash comp_def)
  qed (auto simp: hash prot)
qed

text \<open>C14. A push counts acknowledged targets and nothing else: for every view with unique
  identifiers, any answers of the targets and any completion order, it yields one outcome per
  distinct chunk, in input order, and the protected copies of a chunk are exactly its HRW targets
  (origin excluded) whose address acknowledged the chunk.\<close>

theorem push_counts_acknowledged_targets:
  assumes "view_wf c" "0 \<le> rf" "py_strip orig \<noteq> []" and "\<And>d. mset (order d) = mset d"
  shows "\<exists>plan outcomes. plan_chunk_replication_targets digest c (ordered_unique hs) rf tok orig = Inr plan
    \<and> push_chunk_replicas order task digest c hs rf tok orig = Inr outcomes
    \<and> map co_chunk_hash outcomes = ordered_unique hs
    \<and> (\<forall>oc \<in> set outcomes. co_protected_remote_copies oc =
         int (length (filter (\<lambda>m. target_acked task plan (co_chunk_hash oc) (address m))
           (hrw_targets_excluding digest c (co_chunk_hash oc) rf tok {py_strip orig}))))"
  using push_outcomes [OF assms, where digest = digest and hs = hs and tok = tok and task = task] by metis

theorem push_counts_acknowledged_targets_witness:
  "\<exists>outcomes. push_chunk_replicas rev (\<lambda>m l. Inl RpcError) (\<lambda>b. b) demo_view [''h1'', ''h2'', ''h1''] 2 ''tok'' ''n1'' = Inr outcomes
     \<and> map co_chunk_hash outcomes = [''h1'', ''h2'']"
proof -
  have "py_strip ''n1'' \<noteq> []" by (simp add: py_strip_def py_isspace_def Let_def)
  from push_counts_acknowledged_targets [OF demo_view_facts(1) _ this, of 2 rev "\<lambda>b. b" "[''h1'', ''h2'', ''h1'']" "''tok''" "\<lambda>m l. Inl RpcError"]
  have "\<exists>outcomes. push_chunk_replicas rev (\<lambda>m l. Inl RpcError) (\<lambda>b. b) demo_view [''h1'', ''h2'', ''h1''] 2 ''tok'' ''n1'' = Inr outcomes
     \<and> map co_chunk_hash outcomes = ordered_unique [''h1'', ''h2'', ''h1'']" by auto
  then show ?thesis by (simp add: ordered_unique_remdups)
qed

section \<open>Evidence behind a placed chunk\<close>

definition probe_confirmed :: "chunk_pool \<Rightarrow> string \<Rightarrow> string \<Rightarrow> bool" where
  "probe_confirmed pool addr h \<longleftrightarrow>
     (\<exists>batch resp. cp_probe pool addr batch = Inr resp \<and> h \<in> set batch \<and> h \<notin> set (filter (\<lambda>x. x \<noteq> []) resp))"

definition chunk_confirmed :: "chunk_pool \<Rightarrow> string \<Rightarrow> string \<Rightarrow> bool" where
  "chunk_confirmed pool addr h \<longleftrightarrow>
     probe_confirmed pool addr h
     \<or> (\<exists>hs s. (h, s) \<in> set (sn_responses (cp_stream pool addr hs)) \<and> s \<in> {STORE_STATUS_STORED, STORE_STATUS_ALREADY_PRESENT})"

abbreviation probe_batch_step :: "chunk_pool \<Rightarrow> string \<Rightarrow> string set \<Rightarrow> string list \<Rightarrow> string set result" where
  "probe_batch_step pool addr \<equiv> (\<lambda>missing batch. bindE (cp_probe pool addr batch) (\<lambda>resp.
     Inr (missing \<union> set (filter (\<lambda>h. h \<noteq> []) resp))))"

lemma probe_fold_grows: "foldE (probe_batch_step pool addr) M bs = Inr missing \<Longrightarrow> M \<subseteq> missing"
  by (induction bs arbitrary: M) (auto simp: bindE_eq_Inr)

lemma probe_fold_evidence:
  assumes "foldE (probe_batch_step pool addr) M bs = Inr missing" "h \<in> set (concat bs)" "h \<notin> missing"
  shows "chunk_confirmed pool addr h"
  using assms
proof (induction bs arbitrary: M)
  case (Cons b bs)
  from Cons.prems(1) obtain resp where r: "cp_probe pool addr b = Inr resp"
    "foldE (probe_batch_step pool addr) (M \<union> set (filter (\<lambda>h. h \<noteq> []) resp)) bs = Inr missing"
    by (auto simp: bindE_eq_Inr)
  have "h \<notin> set (filter (\<lambda>h. h \<noteq> []) resp)" using probe_fold_grows [OF r(2)] Cons.prems(3) by blast
  then show ?case using Cons.IH [OF r(2)] Cons.prems(2,3) r(1) unfolding chunk_confirmed_def probe_confirmed_def by auto
qed simp

lemma probe_missing_evidence:
  assumes "probe_missing_hashes pool addr hs = Inr missing" "h \<in> set hs" "h \<notin> missing"
  shows "chunk_confirmed pool addr h"
proof (rule probe_fold_evidence)
  have "ordered_unique hs \<noteq> []" using assms(2) set_ordered_unique [of hs] by force
  then show "foldE (probe_batch_step pool addr) {} (iter_batches (ordered_unique hs) (max 1 (cp_probe_batch_hashes pool))) = Inr missing"
    using assms(1) by (simp add: probe_missing_hashes_def)
qed (use assms(2,3) in simp_all)

lemma replicate_evidence:
  assumes "replicate_missing_hashes pool addr hs = r" "r = Inl acks \<or> r = Inr acks" "(h, ack) \<in> set acks" "ack_is_success ack"
  shows "chunk_confirmed pool addr h"
proof -
  have ne: "ordered_unique hs \<noteq> []" using assms by (auto simp: replicate_missing_hashes_def Let_def split: if_splits)
  let ?run = "cp_stream pool addr (ordered_unique hs)"
  let ?mk = "\<lambda>(h, s). (h, \<lparr>ta_chunk_hash = h, ta_status = s\<rparr>)"
  have "(h, ack) \<in> set (map ?mk (sn_responses ?run)) \<or> ta_status ack = STORE_STATUS_ERROR"
    using assms(1-3) ne
    by (auto simp: replicate_missing_hashes_def Let_def dest!: subsetD [OF set_dict_update] subsetD [OF set_dict_of] split: if_splits)
  then have "(h, ta_status ack) \<in> set (sn_responses ?run)"
    using assms(4) by (auto simp: ack_is_success_def STORE_STATUS_ERROR_def STORE_STATUS_STORED_def STORE_STATUS_ALREADY_PRESENT_def)
  then show ?thesis using assms(4) unfolding chunk_confirmed_def ack_is_success_def by blast
qed

lemma execute_target_evidence:
  assumes "ack_ok (execute_target_plan pool m l) h"
  shows "chunk_confirmed pool (address m) h"
proof (cases "probe_missing_hashes pool (address m) (ordered_unique l)")
  case (Inl e)
  then show ?thesis using assms by (simp add: ack_ok_def execute_target_plan_def)
next
  case (Inr missing)
  let ?acks = "map (\<lambda>h. (h, \<lparr>ta_chunk_hash = h, ta_status = STORE_STATUS_ALREADY_PRESENT\<rparr>)) (filter (\<lambda>h. h \<notin> missing) (ordered_unique l))"
  let ?r = "replicate_missing_hashes pool (address m) (filter (\<lambda>h. h \<in> missing) (ordered_unique l))"
  from assms obtain ack where a: "(h, ack) \<in> set (tx_acks (execute_target_plan pool m l))" "ack_is_success ack"
    by (auto simp: ack_ok_def dest: map_of_SomeD)
  then have "(h, ack) \<in> set ?acks \<or> (\<exists>acks. (?r = Inl acks \<or> ?r = Inr acks) \<and> (h, ack) \<in> set acks)"
    using Inr by (auto simp: execute_target_plan_def Let_def dest!: subsetD [OF set_dict_update] subsetD [OF set_dict_of]
        split: if_splits sum.splits)
  then show ?thesis
  proof
    assume "(h, ack) \<in> set ?acks"
    then show ?thesis using probe_missing_evidence [OF Inr] by auto
  next
    assume "\<exists>acks. (?r = Inl acks \<or> ?r = Inr acks) \<and> (h, ack) \<in> set acks"
    then show ?thesis by (elim exE conjE) (rule replicate_evidence [OF refl _ _ a(2)])
  qed
qed

text \<open>C15. A chunk is recorded as PLACED only with the required copies confirmed: the push of a
  well-formed view records PLACED for a chunk only if at least \<open>rf\<close> members of the view with
  pairwise different identifiers, the origin not among them, each sit at an address that
  confirmed the chunk, by not reporting it missing or by a success acknowledgement.\<close>

theorem placed_chunk_confirmed:
  assumes "view_wf c" "0 \<le> rf" "py_strip orig \<noteq> []" and perm: "\<And>d. mset (order d) = mset d"
    and push: "push_chunk_replicas order (\<lambda>m l. Inr (execute_target_plan pool m l)) digest c hs rf tok orig = Inr outcomes"
    and oc: "oc \<in> set outcomes" "cu_protection_state (push_update_of rf epoch oc) = PLACED"
  shows "\<exists>ms. set ms \<subseteq> set (members c) \<and> distinct (map node_id ms) \<and> py_strip orig \<notin> node_id ` set ms
    \<and> rf \<le> int (length ms) \<and> list_all (\<lambda>m. chunk_confirmed pool (address m) (co_chunk_hash oc)) ms"
proof -
  let ?task = "\<lambda>m l. Inr (execute_target_plan pool m l)"
  let ?T = "hrw_targets_excluding digest c (co_chunk_hash oc) rf tok {py_strip orig}"
  obtain plan where plan: "plan_chunk_replication_targets digest c (ordered_unique hs) rf tok orig = Inr plan"
    and p: "co_protected_remote_copies oc = int (length (filter (\<lambda>m. target_acked ?task plan (co_chunk_hash oc) (address m)) ?T))"
    and h: "co_chunk_hash oc \<in> set hs"
  proof (rule push_outcomes [OF assms(1-4), where digest = digest and hs = hs and tok = tok and task = ?task])
    fix plan outcomes'
    assume a: "plan_chunk_replication_targets digest c (ordered_unique hs) rf tok orig = Inr plan"
      "push_chunk_replicas order ?task digest c hs rf tok orig = Inr outcomes'" "map co_chunk_hash outcomes' = ordered_unique hs"
      "\<And>oc. oc \<in> set outcomes' \<Longrightarrow> co_protected_remote_copies oc =
       int (length (filter (\<lambda>m. target_acked ?task plan (co_chunk_hash oc) (address m))
         (hrw_targets_excluding digest c (co_chunk_hash oc) rf tok {py_strip orig})))"
    have o: "oc \<in> set outcomes'" using a(2) push oc(1) by simp
    then have "co_chunk_hash oc \<in> set (ordered_unique hs)" unfolding a(3) [symmetric] by simp
    then show thesis using that [OF a(1) a(4) [OF o]] by simp
  qed
  let ?ms = "filter (\<lambda>m. target_acked ?task plan (co_chunk_hash oc) (address m)) ?T"
  note t = hrw_targets_excluding_props [OF assms(1), of digest "co_chunk_hash oc" rf tok "{py_strip orig}"]
  have "chunk_confirmed pool (address m) (co_chunk_hash oc)" if m: "m \<in> set ?ms" for m
  proof -
    have "address (the (map_of (rp_target_members plan) (address m))) = address m"
      by (rule plan_member_address [OF assms(1-3) plan _ h]) (use m in simp)
    then show ?thesis
      using m execute_target_evidence by (fastforce simp: target_acked_def run_task_def)
  qed
  moreover have "rf \<le> int (length ?ms)" using oc(2) p by (simp add: push_update_of_def)
  ultimately show ?thesis using t
    by (intro exI [of _ ?ms]) (auto simp: list_all_iff intro: distinct_map_filter_sub)
qed

definition present_pool :: chunk_pool where
  "present_pool = \<lparr>cp_probe = (\<lambda>a hs. Inr []),
     cp_stream = (\<lambda>a hs. \<lparr>sn_responses = [], sn_stream_error = False, sn_local_failures = [], sn_sender_alive = False, sn_sender_error = False\<rparr>),
     cp_probe_batch_hashes = 10\<rparr>"

definition shared_view :: cluster_view where
  "shared_view = \<lparr>self_node_id = Some ''n1'', members = [\<lparr>node_id = ''n1'', address = ''a''\<rparr>,
     \<lparr>node_id = ''n2'', address = ''b''\<rparr>, \<lparr>node_id = ''n3'', address = ''b''\<rparr>]\<rparr>"

lemmas push_eval = push_chunk_replicas_def plan_chunk_replication_targets_def normalize_remote_rf_def excluded_origin_def
  plan_chunk_def add_target_def apply_target_result_def apply_ack_def chunk_outcome_of_def execute_target_plan_def
  probe_missing_hashes_def ordered_unique_def iter_batches_def hrw_top_k_node_ids_def hrw_score_def int_from_bytes_big_def
  heappush_def heapreplace_def dict_of_def dict_append_def dict_update_def py_strip_def py_isspace_def
  ack_is_success_def ack_is_already_present_def ack_is_stored_def ca_protected_remote_copies_def
  STORE_STATUS_STORED_def STORE_STATUS_ALREADY_PRESENT_def Let_def

lemma shared_push:
  "push_chunk_replicas rev (\<lambda>m l. Inr (execute_target_plan present_pool m l)) (\<lambda>b. []) shared_view [''h''] 2 ''tok'' ''n1''
     = Inr [\<lparr>co_chunk_hash = ''h'', co_required_remote_copies = 2, co_protected_remote_copies = 2,
             co_stored_remote_copies = 0, co_already_present_remote_copies = 2\<rparr>]"
  by (simp add: push_eval shared_view_def present_pool_def)

lemma shared_view_wf: "view_wf shared_view"
  by (simp add: view_wf_def shared_view_def node_ids_def)

theorem placed_chunk_confirmed_witness:
  "\<exists>ms :: cluster_member list. distinct (map node_id ms) \<and> 2 \<le> int (length ms) \<and> list_all (\<lambda>m. chunk_confirmed present_pool (address m) ''h'') ms"
proof -
  have "py_strip ''n1'' \<noteq> []" by (simp add: py_strip_def py_isspace_def Let_def)
  from placed_chunk_confirmed [OF shared_view_wf _ this _ shared_push, where oc = "\<lparr>co_chunk_hash = ''h'',
    co_required_remote_copies = 2, co_protected_remote_copies = 2, co_stored_remote_copies = 0,
    co_already_present_remote_copies = 2\<rparr>" and epoch = "''e''"]
  obtain ms :: "cluster_member list" where "distinct (map node_id ms)" "2 \<le> int (length ms)"
    "list_all (\<lambda>m. chunk_confirmed present_pool (address m) ''h'') ms"
    by (auto simp: push_update_of_def)
  then show ?thesis by (intro exI [of _ ms] conjI)
qed

text \<open>Two members announced at the same address are one store, yet they count as two copies: the
  chunk is recorded as PLACED with two copies although a single address was ever contacted.\<close>

theorem shared_address_counts_twice:
  "\<exists>oc. push_chunk_replicas rev (\<lambda>m l. Inr (execute_target_plan present_pool m l)) (\<lambda>b. []) shared_view [''h''] 2 ''tok'' ''n1'' = Inr [oc]
     \<and> cu_protection_state (push_update_of 2 ''epoch'' oc) = PLACED
     \<and> card (address ` (set (members shared_view) - {\<lparr>node_id = ''n1'', address = ''a''\<rparr>})) = 1"
proof -
  have "set (members shared_view) - {\<lparr>node_id = ''n1'', address = ''a''\<rparr>}
      = {\<lparr>node_id = ''n2'', address = ''b''\<rparr>, \<lparr>node_id = ''n3'', address = ''b''\<rparr>}"
    by (auto simp: shared_view_def)
  then show ?thesis unfolding shared_push by (simp add: push_update_of_def)
qed

section \<open>Evidence behind a verified chunk\<close>

lemma probe_target_loop_present:
  assumes "h \<in> pb_present_hashes (probe_target_loop pool addr req C M bs)"
    and "\<And>x. x \<in> C \<Longrightarrow> x \<notin> M \<Longrightarrow> probe_confirmed pool addr x"
  shows "probe_confirmed pool addr h"
  using assms
proof (induction bs arbitrary: C M)
  case (Cons b bs)
  show ?case
  proof (cases "cp_probe pool addr b")
    case (Inr resp)
    show ?thesis
    proof (rule Cons.IH)
      show "h \<in> pb_present_hashes (probe_target_loop pool addr req (C \<union> set b) (M \<union> set (filter (\<lambda>h. h \<noteq> []) resp)) bs)"
        using Cons.prems(1) Inr by simp
      fix x assume "x \<in> C \<union> set b" "x \<notin> M \<union> set (filter (\<lambda>h. h \<noteq> []) resp)"
      then show "probe_confirmed pool addr x"
        using Cons.prems(2) Inr by (cases "x \<in> set b") (auto simp: probe_confirmed_def)
    qed
  qed (use Cons.prems in auto)
qed auto

lemma probe_target_loop_requested: "pb_requested_hashes (probe_target_loop pool addr req C M bs) = req"
  by (induction bs arbitrary: C M) (auto split: sum.splits)

lemma probe_target_present:
  "h \<in> pb_present_hashes (probe_target pool addr hs) \<Longrightarrow> probe_confirmed pool addr h"
  by (auto simp: probe_target_def Let_def split: if_splits elim: probe_target_loop_present)

lemma probe_target_requested: "distinct (pb_requested_hashes (probe_target pool addr hs))"
  by (simp add: probe_target_def Let_def probe_target_loop_requested)

text \<open>What the accumulators hold after the addresses in \<open>A\<close>: the verified copies of a chunk are
  distinct addresses that confirmed it.\<close>

definition verified_by :: "chunk_pool \<Rightarrow> string set \<Rightarrow> (string \<times> verification_accumulator) list \<Rightarrow> bool" where
  "verified_by pool A accs \<longleftrightarrow> (\<forall>h acc. map_of accs h = Some acc \<longrightarrow>
     va_required_remote_copies acc = va_desired_rf acc \<and>
     (\<exists>S \<subseteq> A. finite S \<and> va_verified_remote_copies acc = int (card S) \<and> (\<forall>a \<in> S. probe_confirmed pool a h)))"

lemma count_present_fold:
  "foldE (count_present r) accs hs = Inr accs' \<Longrightarrow> distinct hs \<Longrightarrow>
     map_of accs' h = (if h \<in> set hs then map_option (\<lambda>a. a\<lparr>va_verified_remote_copies := va_verified_remote_copies a + 1\<rparr>) (map_of accs h)
                       else map_of accs h)"
proof (induction hs arbitrary: accs)
  case (Cons h' hs)
  from Cons.prems(1) obtain accs1 where a: "count_present r accs h' = Inr accs1" "foldE (count_present r) accs1 hs = Inr accs'"
    by (auto simp: bindE_eq_Inr)
  show ?case using Cons.IH [OF a(2)] Cons.prems(2) a(1) by (auto simp: count_present_def split: option.splits)
qed simp

lemma apply_probe_verified:
  assumes "verified_by pool A accs" "addr \<notin> A" "apply_probe_result accs (probe_target pool addr hs) = Inr accs'"
  shows "verified_by pool (insert addr A) accs'"
  unfolding verified_by_def
proof (intro allI impI)
  fix h acc assume acc: "map_of accs' h = Some acc"
  let ?r = "probe_target pool addr hs"
  let ?hs = "filter (\<lambda>h. h \<in> pb_completed_hashes ?r \<and> h \<in> pb_present_hashes ?r) (pb_requested_hashes ?r)"
  have "distinct ?hs" using probe_target_requested by simp
  note f = count_present_fold [OF assms(3) [unfolded apply_probe_result_def] this, of h]
  show "va_required_remote_copies acc = va_desired_rf acc \<and>
     (\<exists>S \<subseteq> insert addr A. finite S \<and> va_verified_remote_copies acc = int (card S) \<and> (\<forall>a \<in> S. probe_confirmed pool a h))"
  proof (cases "h \<in> set ?hs")
    case True
    then obtain a where a: "map_of accs h = Some a" "acc = a\<lparr>va_verified_remote_copies := va_verified_remote_copies a + 1\<rparr>"
      using f acc unfolding if_P [OF True] by (cases "map_of accs h") simp_all
    have "va_required_remote_copies a = va_desired_rf a \<and> (\<exists>S \<subseteq> A. finite S \<and>
        va_verified_remote_copies a = int (card S) \<and> (\<forall>a \<in> S. probe_confirmed pool a h))"
      by (rule assms(1) [unfolded verified_by_def, rule_format, OF a(1)])
    then obtain S where S: "S \<subseteq> A" "finite S" "va_verified_remote_copies a = int (card S)"
      "\<forall>a \<in> S. probe_confirmed pool a h" "va_required_remote_copies a = va_desired_rf a" by (elim conjE exE)
    have "addr \<notin> S" using S(1) assms(2) by (rule contra_subsetD)
    then have "int (card (insert addr S)) = va_verified_remote_copies acc" using S(2,3) a(2) by simp
    moreover have "probe_confirmed pool addr h" using True by (intro probe_target_present [of h pool addr hs]) simp
    moreover have "insert addr S \<subseteq> insert addr A" "finite (insert addr S)" using S(1,2) by auto
    ultimately show ?thesis using S(4,5) a(2) by (intro conjI exI [of _ "insert addr S"]) simp_all
  next
    case False
    have "map_of accs h = Some acc" using f acc unfolding if_not_P [OF False] by simp
    then have "va_required_remote_copies acc = va_desired_rf acc \<and> (\<exists>S \<subseteq> A. finite S \<and>
        va_verified_remote_copies acc = int (card S) \<and> (\<forall>a \<in> S. probe_confirmed pool a h))"
      by (rule assms(1) [unfolded verified_by_def, rule_format])
    then show ?thesis by (elim conjE exE) (intro conjI exI subset_insertI2, assumption+)
  qed
qed

lemma probe_groups_verified:
  assumes "foldE (\<lambda>accs (addr, hashes). case lk addr of None \<Rightarrow> Inl KeyError
             | Some m \<Rightarrow> apply_probe_result accs (probe_target pool (address m) hashes)) accs gs = Inr accs'"
    and "verified_by pool A accs" "distinct (map fst gs)" "A \<inter> fst ` set gs = {}"
    and "\<And>a m. lk a = Some m \<Longrightarrow> address m = a"
  shows "verified_by pool (A \<union> fst ` set gs) accs'"
  using assms(1-4)
proof (induction gs arbitrary: accs A)
  case (Cons g gs)
  obtain a l where g: "g = (a, l)" by (cases g)
  from Cons.prems(1) obtain m accs1 where m: "lk a = Some m" "apply_probe_result accs (probe_target pool (address m) l) = Inr accs1"
    "foldE (\<lambda>accs (addr, hashes). case lk addr of None \<Rightarrow> Inl KeyError
             | Some m \<Rightarrow> apply_probe_result accs (probe_target pool (address m) hashes)) accs1 gs = Inr accs'"
    by (auto simp: g bindE_eq_Inr split: option.splits)
  have "verified_by pool (insert a A) accs1"
    using apply_probe_verified [OF Cons.prems(2) _ m(2)] Cons.prems(4) assms(5) [OF m(1)] by (auto simp: g)
  from Cons.IH [OF m(3) this] Cons.prems(3,4) show ?case by (auto simp: g)
qed simp

definition member_addresses_ok :: "(string \<times> cluster_member) list \<Rightarrow> bool" where
  "member_addresses_ok d \<longleftrightarrow> (\<forall>p \<in> set d. address (snd p) = fst p)"

lemma member_addresses_update: "member_addresses_ok d \<Longrightarrow> member_addresses_ok (AList.update (address m) m d)"
  unfolding member_addresses_ok_def by (auto dest!: subsetD [OF set_update_subset])

lemma plan_members_ok:
  "foldE (plan_chunk digest cands k salt) plan hs = Inr plan' \<Longrightarrow> member_addresses_ok (rp_target_members plan) \<Longrightarrow>
     member_addresses_ok (rp_target_members plan')"
proof (erule foldE_inv [where P = "\<lambda>p. member_addresses_ok (rp_target_members p)"])
  fix s h t assume s: "member_addresses_ok (rp_target_members s)" "plan_chunk digest cands k salt s h = Inr t"
  have "member_addresses_ok (rp_target_members p) \<Longrightarrow> member_addresses_ok (rp_target_members (foldl (add_target h) p ms))" for p ms
    by (induction ms arbitrary: p) (auto simp: add_target_def member_addresses_update)
  then show "member_addresses_ok (rp_target_members t)" using s by (auto simp: plan_chunk_def Let_def bindE_eq_Inr)
qed

lemma plan_replication_members_ok:
  "plan_chunk_replication_targets digest c hs rf tok orig = Inr plan \<Longrightarrow> member_addresses_ok (rp_target_members plan)"
  by (auto simp: plan_chunk_replication_targets_def Let_def bindE_eq_Inr member_addresses_ok_def
      dest!: plan_members_ok [unfolded member_addresses_ok_def])

lemma dict_update_members_ok:
  "member_addresses_ok d \<Longrightarrow> member_addresses_ok e \<Longrightarrow> member_addresses_ok (foldl (\<lambda>d (a, m). AList.update a m d) d e)"
  using set_dict_update [of d e] unfolding member_addresses_ok_def dict_update_def by blast

definition verify_plan_ok :: "chunk_pool \<Rightarrow> verify_plan \<Rightarrow> bool" where
  "verify_plan_ok pool vp \<longleftrightarrow> verified_by pool {} (vp_accumulators vp) \<and> distinct (map fst (vp_target_chunks vp))
     \<and> member_addresses_ok (vp_target_members vp)"

lemma fresh_accumulators_verified:
  "verified_by pool {} accs \<Longrightarrow>
   verified_by pool {} (foldl (\<lambda>accs c. AList.update (vc_chunk_hash c) \<lparr>va_desired_rf = rf, va_placement_epoch = ep,
      va_required_remote_copies = rf, va_verified_remote_copies = 0\<rparr> accs) accs cs)"
proof (induction cs arbitrary: accs)
  case (Cons c cs)
  have "verified_by pool {} (AList.update (vc_chunk_hash c) \<lparr>va_desired_rf = rf, va_placement_epoch = ep,
      va_required_remote_copies = rf, va_verified_remote_copies = 0\<rparr> accs)"
    using Cons.prems by (auto simp: verified_by_def)
  then show ?case using Cons.IH by simp
qed simp

lemma extend_hashes_keys: "distinct (map fst d) \<Longrightarrow> distinct (map fst (foldl extend_hashes d gs))"
  by (induction gs arbitrary: d) (auto simp: extend_hashes_def distinct_keys_update)

lemma plan_verify_ok:
  assumes "plan_verify digest hexdigest ctx candidates = Inr vp"
  shows "verify_plan_ok pool vp"
proof -
  from assms obtain groups where "foldE (plan_group digest hexdigest ctx)
      \<lparr>vp_accumulators = [], vp_target_chunks = [], vp_target_members = []\<rparr> groups = Inr vp"
    by (auto simp: plan_verify_def Let_def bindE_eq_Inr)
  then show ?thesis
  proof (rule foldE_inv [where P = "verify_plan_ok pool"])
    fix s g t assume "verify_plan_ok pool s" "plan_group digest hexdigest ctx s g = Inr t"
    then show "verify_plan_ok pool t"
      by (auto simp: plan_group_def Let_def bindE_eq_Inr verify_plan_ok_def fresh_accumulators_verified
          extend_hashes_keys dict_update_members_ok plan_replication_members_ok)
  qed (simp add: verify_plan_ok_def verified_by_def member_addresses_ok_def)
qed

text \<open>C16. A chunk is recorded as VERIFIED only on current evidence: at least \<open>desired_rf\<close>
  pairwise different addresses were asked for it during this run and none of them reported it
  missing, whatever the peers answer and in whichever order they complete.\<close>

theorem verified_chunk_confirmed:
  assumes run: "verify_chunks order pool digest hexdigest ctx candidates = Inr updates"
    and perm: "\<And>d. mset (order d) = mset d"
    and u: "u \<in> set updates" "cu_protection_state u = VERIFIED"
  shows "\<exists>S. finite S \<and> cu_desired_rf u \<le> int (card S) \<and> (\<forall>a \<in> S. probe_confirmed pool a (cu_chunk_hash u))"
proof -
  from run u(1) obtain cs outs oc where vc: "verify_chunk_candidates order pool digest hexdigest ctx cs = Inr outs" "oc \<in> set outs"
    and uo: "cu_desired_rf u = vo_desired_rf oc" "cu_chunk_hash u = vo_chunk_hash oc"
    "cu_protection_state u = replication_verify_state (vo_verified_remote_copies oc) (vo_required_remote_copies oc)"
    by (auto simp: verify_chunks_def Let_def bindE_eq_Inr split: if_splits)
  from vc(1) obtain vp accs where p: "plan_verify digest hexdigest ctx cs = Inr vp"
    and f: "foldE (\<lambda>accs (addr, hashes). case map_of (vp_target_members vp) addr of None \<Rightarrow> Inl KeyError
              | Some m \<Rightarrow> apply_probe_result accs (probe_target pool (address m) hashes))
              (vp_accumulators vp) (order (vp_target_chunks vp)) = Inr accs"
    and o: "mapE (\<lambda>c. case map_of accs (vc_chunk_hash c) of None \<Rightarrow> Inl KeyError
              | Some a \<Rightarrow> Inr \<lparr>vo_chunk_hash = vc_chunk_hash c, vo_desired_rf = va_desired_rf a,
                               vo_placement_epoch = va_placement_epoch a,
                               vo_required_remote_copies = va_required_remote_copies a,
                               vo_verified_remote_copies = va_verified_remote_copies a\<rparr>) cs = Inr outs"
    by (auto simp: verify_chunk_candidates_def bindE_eq_Inr)
  note ok = plan_verify_ok [OF p, of pool, unfolded verify_plan_ok_def]
  have "mset (map fst (order (vp_target_chunks vp))) = mset (map fst (vp_target_chunks vp))" by (simp add: perm)
  then have "distinct (map fst (order (vp_target_chunks vp)))" using ok by (metis mset_eq_imp_distinct_iff)
  moreover have "map_of (vp_target_members vp) a = Some m \<Longrightarrow> address m = a" for a m
    using ok unfolding member_addresses_ok_def by (metis fst_conv map_of_SomeD snd_conv)
  ultimately have v: "verified_by pool (fst ` set (order (vp_target_chunks vp))) accs"
    using probe_groups_verified [OF f, of "{}"] ok by auto
  from mapE_member [OF o vc(2)] obtain c :: verification_candidate and a where a: "map_of accs (vc_chunk_hash c) = Some a"
    "oc = \<lparr>vo_chunk_hash = vc_chunk_hash c, vo_desired_rf = va_desired_rf a, vo_placement_epoch = va_placement_epoch a,
      vo_required_remote_copies = va_required_remote_copies a, vo_verified_remote_copies = va_verified_remote_copies a\<rparr>"
    by (auto split: option.splits)
  from v a(1) obtain S where S: "va_required_remote_copies a = va_desired_rf a" "finite S"
    "va_verified_remote_copies a = int (card S)" "\<forall>x \<in> S. probe_confirmed pool x (vc_chunk_hash c)"
    unfolding verified_by_def by blast
  show ?thesis using S u(2) uo a(2) by (intro exI [of _ S]) auto
qed

theorem verified_chunk_confirmed_witness:
  "\<exists>u S. verify_chunks rev present_pool (\<lambda>b. []) bytes_as_string
       \<lparr>rc_seed = ''s'', rc_cluster = shared_view, rc_origin_node_id = ''n1'', rc_self_addr = ''a'', rc_cluster_token = ''tok'',
        rc_remote_candidate_node_ids = [''n2'', ''n3'']\<rparr> [\<lparr>vc_chunk_hash = ''h'', vc_desired_rf = 1\<rparr>] = Inr [u]
     \<and> cu_protection_state u = VERIFIED \<and> 1 \<le> int (card S) \<and> S \<subseteq> {a. probe_confirmed present_pool a ''h''}"
proof -
  let ?ctx = "\<lparr>rc_seed = ''s'', rc_cluster = shared_view, rc_origin_node_id = ''n1'', rc_self_addr = ''a'', rc_cluster_token = ''tok'',
        rc_remote_candidate_node_ids = [''n2'', ''n3'']\<rparr>"
  let ?u = "\<lparr>cu_chunk_hash = ''h'', cu_desired_rf = 1, cu_protection_state = VERIFIED, cu_protected_remote_copies = 1,
    cu_placement_epoch = context_placement_epoch bytes_as_string ?ctx 1\<rparr>"
  have run: "verify_chunks rev present_pool (\<lambda>b. []) bytes_as_string ?ctx [\<lparr>vc_chunk_hash = ''h'', vc_desired_rf = 1\<rparr>] = Inr [?u]"
    by (simp add: verify_chunks_def verify_chunk_candidates_def plan_verify_def plan_group_def extend_hashes_def push_eval
        apply_probe_result_def count_present_def probe_target_def present_pool_def shared_view_def)
  from verified_chunk_confirmed [OF run, of ?u] obtain S :: "string set" where
    "1 \<le> int (card S)" "S \<subseteq> {a. probe_confirmed present_pool a ''h''}" by auto
  then show ?thesis using run by (intro exI [of _ ?u] exI [of _ S]) simp
qed

end
