(* ===== verification/Identity.thy ===== *)
theory Identity
  imports Json
begin

text \<open>
  \<open>stopan.node.identity\<close>: the persistent identity of a node, a file of two lines holding the
  node identifier and the incarnation, which grows on every start and whenever the node refutes a
  suspicion about itself.

  The file is \<open>Missing\<close>, \<open>Unreadable\<close> (\<open>open\<close> raises \<open>OSError\<close>) or holds a text;
  \<open>writable\<close> says whether \<open>atomic_write_bytes\<close> succeeds, which replaces the file as a whole or
  leaves it alone. \<open>uuid.uuid4().hex\<close> is the argument \<open>fresh_id\<close>.
\<close>

datatype id_file = Missing | Unreadable | Text string

record identity_store =
  id_file :: id_file
  writable :: bool

record node_identity =
  identity_node_id :: string
  identity_incarnation :: int

definition require_node_id :: "string \<Rightarrow> string result" where
  "require_node_id value =
     (let nid = py_strip value in
      if length nid \<noteq> 32 \<or> \<not> list_all is_hex_lower nid then Inl NodeIdentityError else Inr nid)"

definition require_incarnation :: "string \<Rightarrow> int result" where
  "require_incarnation value =
     (case py_int_of_str value of Inl _ \<Rightarrow> Inl NodeIdentityError
      | Inr incarnation \<Rightarrow> if incarnation < 1 then Inl NodeIdentityError else Inr incarnation)"

text \<open>\<open>handle.readlines()\<close> in text mode: universal newlines, each line with its terminator,
  which the caller strips.\<close>

fun universal_newlines :: "bool \<Rightarrow> string \<Rightarrow> string" where
  "universal_newlines after_cr [] = []"
| "universal_newlines after_cr (c # cs) =
     (if c = CHR 0x0A then (if after_cr then universal_newlines False cs else CHR 0x0A # universal_newlines False cs)
      else if c = CHR 0x0D then CHR 0x0A # universal_newlines True cs
      else c # universal_newlines False cs)"

fun text_lines_loop :: "string \<Rightarrow> string \<Rightarrow> string list" where
  "text_lines_loop cur [] = (if cur = [] then [] else [cur])"
| "text_lines_loop cur (c # cs) =
     (if c = CHR 0x0A then (cur @ [c]) # text_lines_loop [] cs else text_lines_loop (cur @ [c]) cs)"

definition text_lines :: "string \<Rightarrow> string list" where
  "text_lines text = text_lines_loop [] (universal_newlines False text)"

definition read_unlocked :: "identity_store \<Rightarrow> (string \<times> int) result" where
  "read_unlocked st =
     (case id_file st of
        Text text \<Rightarrow>
          (case map py_strip (text_lines text) of
             [l1, l2] \<Rightarrow> bindE (require_node_id l1) (\<lambda>nid. bindE (require_incarnation l2) (\<lambda>inc. Inr (nid, inc)))
           | _ \<Rightarrow> Inl NodeIdentityError)
      | _ \<Rightarrow> Inl NodeIdentityError)"

text \<open>\<open>_require_incarnation\<close> gets an \<open>int\<close> here.\<close>

definition write_unlocked :: "string \<Rightarrow> int \<Rightarrow> (identity_store, unit) op" where
  "write_unlocked nid incarnation st =
     (case require_node_id nid of
        Inl _ \<Rightarrow> (Inl NodeIdentityValueError, st)
      | Inr nid' \<Rightarrow>
          if incarnation < 1 then (Inl NodeIdentityValueError, st)
          else if \<not> writable st then (Inl OSError, st)
          else (Inr (), st\<lparr>id_file := Text (nid' @ [CHR 0x0A] @ dec_int incarnation @ [CHR 0x0A])\<rparr>))"

definition load_for_startup :: "string \<Rightarrow> (identity_store, node_identity) op" where
  "load_for_startup fresh_id =
     op_bind (op_read (\<lambda>st. op_lift (if id_file st \<noteq> Missing then read_unlocked st else Inr (fresh_id, 0))))
       (\<lambda>(nid, incarnation).
          op_bind (write_unlocked nid (incarnation + 1)) (\<lambda>_.
            op_return \<lparr>identity_node_id = nid, identity_incarnation = incarnation + 1\<rparr>))"

definition bump_above :: "string \<Rightarrow> int \<Rightarrow> (identity_store, int) op" where
  "bump_above node observed =
     (let nid = py_strip node in
      if nid = [] then op_raise NodeIdentityValueError
      else if observed < 0 then op_raise NodeIdentityValueError
      else op_bind (op_read (\<lambda>st. op_lift (read_unlocked st))) (\<lambda>(stored_id, stored_incarnation).
        if stored_id \<noteq> nid then op_raise NodeIdentityError
        else let next_incarnation = max stored_incarnation observed + 1 in
          op_bind (write_unlocked nid next_incarnation) (\<lambda>_. op_return next_incarnation)))"

section \<open>Reading back what was written\<close>

definition is_node_id :: "string \<Rightarrow> bool" where
  "is_node_id nid \<longleftrightarrow> length nid = 32 \<and> list_all is_hex_lower nid"

lemma node_id_strip: "is_node_id nid \<Longrightarrow> py_strip nid = nid"
  by (auto simp: is_node_id_def list_all_iff hex_not_space intro!: py_strip_no_space)

lemma require_node_id_iff: "require_node_id v = Inr nid \<longleftrightarrow> nid = py_strip v \<and> is_node_id nid"
  by (auto simp: require_node_id_def Let_def is_node_id_def)

lemma text_lines_loop_line:
  "CHR 0x0A \<notin> set l \<Longrightarrow> text_lines_loop cur (l @ [CHR 0x0A] @ rest) = (cur @ l @ [CHR 0x0A]) # text_lines_loop [] rest"
  by (induction l arbitrary: cur) auto

lemma universal_newlines_id: "CHR 0x0D \<notin> set s \<Longrightarrow> universal_newlines False s = s"
  by (induction s) auto

lemma hex_not_newline: "list_all is_hex_lower l \<Longrightarrow> CHR 0x0A \<notin> set l \<and> CHR 0x0D \<notin> set l"
  by (auto simp: list_all_iff is_hex_lower_def is_dec_char_def)

lemma strip_snoc_newline: "py_strip (s @ [CHR 0x0A]) = py_strip s"
proof -
  have sp: "py_isspace (CHR 0x0A)" by (simp add: py_isspace_def)
  show ?thesis
  proof (cases "\<exists>c \<in> set s. \<not> py_isspace c")
    case True
    then have "dropWhile py_isspace (s @ [CHR 0x0A]) = dropWhile py_isspace s @ [CHR 0x0A]"
      by (auto simp: dropWhile_append1)
    then show ?thesis using sp by (simp add: py_strip_def)
  next
    case False
    then have all: "\<forall>c \<in> set s. py_isspace c" by blast
    have "dropWhile py_isspace s = []" using all by (simp add: dropWhile_eq_Nil_conv)
    moreover have "dropWhile py_isspace (s @ [CHR 0x0A]) = []" using all sp by (simp add: dropWhile_append2)
    ultimately show ?thesis unfolding py_strip_def by (simp only:)
  qed
qed

lemma dec_int_hex: "0 \<le> n \<Longrightarrow> list_all is_hex_lower (dec_int n)"
  using dec_nat_dec by (auto simp: dec_int_def list_all_iff is_hex_lower_def)

lemma text_lines_two:
  assumes "list_all is_hex_lower a" "list_all is_hex_lower b"
  shows "map py_strip (text_lines (a @ [CHR 0x0A] @ b @ [CHR 0x0A])) = [a, b]"
proof -
  have strip: "py_strip a = a" "py_strip b = b"
    using assms by (auto simp: list_all_iff hex_not_space intro!: py_strip_no_space)
  have cr: "CHR 0x0D \<notin> set (a @ [CHR 0x0A] @ b @ [CHR 0x0A])"
    using hex_not_newline [OF assms(1)] hex_not_newline [OF assms(2)] by simp
  have "text_lines (a @ [CHR 0x0A] @ b @ [CHR 0x0A]) = text_lines_loop [] (a @ [CHR 0x0A] @ b @ [CHR 0x0A] @ [])"
    using universal_newlines_id [OF cr] by (simp add: text_lines_def)
  also have "\<dots> = [a @ [CHR 0x0A], b @ [CHR 0x0A]]"
    using hex_not_newline [OF assms(1)] hex_not_newline [OF assms(2)]
    by (subst text_lines_loop_line, simp, subst text_lines_loop_line) simp_all
  finally show ?thesis by (simp add: strip_snoc_newline strip)
qed

lemma int_digits_dec:
  "list_all is_dec_char s \<Longrightarrow> b \<or> s \<noteq> [] \<Longrightarrow> int_digits b acc s = Some (foldl (\<lambda>a c. 10 * a + (of_char c - 48)) acc s)"
  by (induction s arbitrary: b acc) auto

lemma py_int_of_dec_int: "0 \<le> n \<Longrightarrow> py_int_of_str (dec_int n) = Inr n"
proof -
  assume n: "0 \<le> n"
  let ?s = "dec_nat (nat n)"
  have d: "list_all is_dec_char ?s" by (rule dec_nat_dec)
  then have strip: "py_strip ?s = ?s"
    by (auto simp: list_all_iff is_hex_lower_def hex_not_space intro!: py_strip_no_space)
  obtain c r where cr: "?s = c # r" using dec_nat_nonempty by (cases ?s) auto
  have c: "c \<noteq> CHR ''-''" "c \<noteq> CHR ''+''" using d cr by (auto simp: is_dec_char_def)
  have "int_digits False 0 (c # r) = Some (dec_value (c # r))"
    using d unfolding cr dec_value_def by (intro int_digits_dec) simp_all
  moreover have "dec_value (c # r) = nat n" by (simp flip: cr)
  ultimately show ?thesis using n c by (simp add: py_int_of_str_def dec_int_def cr strip [unfolded cr] Let_def del: int_digits.simps)
qed

lemma read_written:
  assumes "is_node_id nid" "1 \<le> n"
  shows "read_unlocked (st\<lparr>id_file := Text (nid @ [CHR 0x0A] @ dec_int n @ [CHR 0x0A])\<rparr>) = Inr (nid, n)"
proof -
  have "map py_strip (text_lines (nid @ [CHR 0x0A] @ dec_int n @ [CHR 0x0A])) = [nid, dec_int n]"
    using assms by (intro text_lines_two dec_int_hex) (simp_all add: is_node_id_def)
  then show ?thesis
    using assms by (simp add: read_unlocked_def require_node_id_iff node_id_strip require_incarnation_def
        py_int_of_dec_int bindE_eq_Inr)
qed

lemma write_unlocked_Inr:
  assumes "write_unlocked nid n st = (Inr u, st')"
  shows "read_unlocked st' = Inr (py_strip nid, n) \<and> 1 \<le> n \<and> id_file st' \<noteq> Missing"
proof -
  from assms obtain nid' where v: "require_node_id nid = Inr nid'" "1 \<le> n"
    "st' = st\<lparr>id_file := Text (nid' @ [CHR 0x0A] @ dec_int n @ [CHR 0x0A])\<rparr>"
    by (auto simp: write_unlocked_def split: sum.splits if_splits)
  then show ?thesis using read_written [of nid' n st] by (auto simp: require_node_id_iff)
qed

lemma write_unlocked_Inl: "write_unlocked nid n st = (Inl e, st') \<Longrightarrow> st' = st"
  by (auto simp: write_unlocked_def split: sum.splits if_splits)

lemma read_unlocked_valid: "read_unlocked st = Inr (nid, n) \<Longrightarrow> is_node_id nid \<and> 1 \<le> n \<and> id_file st \<noteq> Missing"
  by (auto simp: read_unlocked_def bindE_eq_Inr require_node_id_iff require_incarnation_def
      split: id_file.splits list.splits sum.splits if_splits)

section \<open>Incarnations are never reused\<close>

text \<open>What a node does with its store over its lifetime: it starts (with the identifier
  \<open>uuid4\<close> would give), it refutes a suspicion, and the disk becomes writable or read-only.\<close>

datatype id_action = Startup string | Bump string int | Set_writable bool

fun act :: "id_action \<Rightarrow> (identity_store, int option) op" where
  "act (Startup fresh) = op_bind (load_for_startup fresh) (\<lambda>i. op_return (Some (identity_incarnation i)))"
| "act (Bump nid observed) = op_bind (bump_above nid observed) (\<lambda>n. op_return (Some n))"
| "act (Set_writable b) = op_bind (op_modify (\<lambda>st. st\<lparr>writable := b\<rparr>)) (\<lambda>_. op_return None)"

text \<open>The incarnations handed out by a sequence of actions; failing actions hand out none.\<close>

fun handed_out :: "id_action list \<Rightarrow> identity_store \<Rightarrow> int list" where
  "handed_out [] st = []"
| "handed_out (a # as) st =
     (case act a st of
        (Inr (Some n), st') \<Rightarrow> n # handed_out as st'
      | (_, st') \<Rightarrow> handed_out as st')"

definition stored_incarnation :: "identity_store \<Rightarrow> int" where
  "stored_incarnation st = (case read_unlocked st of Inr (_, n) \<Rightarrow> n | Inl _ \<Rightarrow> 0)"

lemma read_unlocked_writable [simp]: "read_unlocked (st\<lparr>writable := b\<rparr>) = read_unlocked st"
  by (simp add: read_unlocked_def)

lemma load_for_startup_Inr:
  assumes "load_for_startup fresh st = (Inr i, st')"
  shows "stored_incarnation st < identity_incarnation i \<and> stored_incarnation st' = identity_incarnation i"
proof -
  from assms obtain nid n u where r: "(if id_file st \<noteq> Missing then read_unlocked st else Inr (fresh, 0)) = Inr (nid, n)"
    "write_unlocked nid (n + 1) st = (Inr u, st')" "identity_incarnation i = n + 1"
    by (auto simp: load_for_startup_def op_bind_def op_read_def op_lift_def op_return_def split: prod.splits sum.splits)
  have "stored_incarnation st \<le> n"
    using r(1) by (auto simp: stored_incarnation_def read_unlocked_def split: if_splits)
  then show ?thesis using write_unlocked_Inr [OF r(2)] r(3) by (simp add: stored_incarnation_def)
qed

lemma load_for_startup_Inl: "load_for_startup fresh st = (Inl e, st') \<Longrightarrow> st' = st"
  by (auto simp: load_for_startup_def op_bind_def op_read_def op_lift_def op_return_def
      split: prod.splits sum.splits if_splits dest: write_unlocked_Inl)

lemma bump_above_Inr:
  assumes "bump_above node obs st = (Inr n, st')"
  shows "stored_incarnation st < n \<and> obs < n \<and> read_unlocked st' = Inr (py_strip node, n) \<and> stored_incarnation st' = n"
proof -
  from assms obtain m u where r: "read_unlocked st = Inr (py_strip node, m)"
    "write_unlocked (py_strip node) n st = (Inr u, st')" "n = max m obs + 1"
    by (auto simp: bump_above_def Let_def op_bind_def op_read_def op_lift_def op_return_def op_raise_def
        split: prod.splits sum.splits if_splits)
  then show ?thesis using write_unlocked_Inr [OF r(2)] by (simp add: stored_incarnation_def)
qed

lemma bump_above_Inl: "bump_above node obs st = (Inl e, st') \<Longrightarrow> st' = st"
  by (auto simp: bump_above_def Let_def op_bind_def op_read_def op_lift_def op_return_def op_raise_def
      split: prod.splits sum.splits if_splits dest: write_unlocked_Inl)

lemma act_grows:
  assumes "act a st = (r, st')"
  shows "case r of Inr (Some n) \<Rightarrow> stored_incarnation st < n \<and> stored_incarnation st' = n
                 | _ \<Rightarrow> stored_incarnation st' = stored_incarnation st"
proof (cases a)
  case (Startup fresh)
  then show ?thesis using assms
    by (auto simp: op_bind_def op_return_def split: prod.splits sum.splits
        dest: load_for_startup_Inl load_for_startup_Inr)
next
  case (Bump nid obs)
  then show ?thesis using assms
    by (auto simp: op_bind_def op_return_def split: prod.splits sum.splits
        dest: bump_above_Inl bump_above_Inr)
next
  case (Set_writable b)
  then show ?thesis using assms by (auto simp: op_bind_def op_return_def op_modify_def stored_incarnation_def)
qed

lemma handed_out_above: "sorted_wrt (<) (handed_out as st) \<and> (\<forall>n \<in> set (handed_out as st). stored_incarnation st < n)"
proof (induction as arbitrary: st)
  case (Cons a as)
  obtain r st' where a: "act a st = (r, st')" by fastforce
  show ?case
  proof (cases "\<exists>n. r = Inr (Some n)")
    case True
    then obtain n where r: "r = Inr (Some n)" by blast
    then have "stored_incarnation st < n" "stored_incarnation st' = n" using act_grows [OF a] by simp_all
    then show ?thesis using Cons.IH [of st'] a r by auto
  next
    case False
    then have "stored_incarnation st' = stored_incarnation st" "handed_out (a # as) st = handed_out as st'"
      using act_grows [OF a] a by (auto split: sum.splits option.splits)
    then show ?thesis using Cons.IH [of st'] by simp
  qed
qed simp



end
