(* ===== verification/Membership.thy ===== *)
theory Membership
  imports Identity Common
begin

text \<open>
  \<open>stopan.node.membership\<close> and \<open>stopan.node.services.membership_rpc\<close>: the SWIM-like
  protocol that maintains each node's view of the cluster.

  The state of a \<open>MembershipManager\<close> is the record \<open>manager\<close>. Its clock is the sequence of
  readings \<open>time.monotonic\<close> gives (\<open>mg_clock\<close>), consumed one by one, and so is the wall clock
  \<open>now_ms\<close>. The RPCs to other nodes are the argument \<open>net\<close>, the choices of \<open>random\<close> the
  argument \<open>rnd\<close>. Messages carry the incarnation as a 64-bit unsigned integer; building a
  message from a larger Python integer raises \<open>ValueError\<close>, as protobuf does. Log output is not
  modelled, and neither is the dictionary that only keeps the same failure from being printed
  twice.
\<close>

section \<open>States, settings and records (models.py)\<close>

abbreviation (input) UNKNOWN :: int where "UNKNOWN \<equiv> 0"
abbreviation (input) ALIVE :: int where "ALIVE \<equiv> 1"
abbreviation (input) SUSPECT :: int where "SUSPECT \<equiv> 2"
abbreviation (input) DEAD :: int where "DEAD \<equiv> 3"
abbreviation (input) LEFT :: int where "LEFT \<equiv> 4"

definition STATE_ORDER :: "(int \<times> int) list" where
  "STATE_ORDER = [(UNKNOWN, 0), (ALIVE, 1), (SUSPECT, 2), (DEAD, 3), (LEFT, 4)]"

definition state_order :: "int \<Rightarrow> int" where
  "state_order st = (case map_of STATE_ORDER st of None \<Rightarrow> 0 | Some n \<Rightarrow> n)"

definition ELIGIBLE_STATES :: "int list" where
  "ELIGIBLE_STATES = [ALIVE]"

definition VALID_EVENT_STATES :: "int list" where
  "VALID_EVENT_STATES = [ALIVE, SUSPECT, DEAD, LEFT]"

definition MEMBERSHIP_BOOTSTRAP_RETRY_MAX_INTERVAL_S :: real where
  "MEMBERSHIP_BOOTSTRAP_RETRY_MAX_INTERVAL_S = 30"

record membership_settings =
  cluster_token :: string
  protocol_period_s :: real
  bootstrap_retry_interval_s :: real
  ping_timeout_s :: real
  rpc_timeout_s :: real
  suspect_timeout_s :: real
  indirect_ping_fanout :: int
  max_gossip_events :: int
  gossip_ttl_s :: real
  grpc_max_message_bytes :: int
  grpc_keepalive_time_ms :: int
  grpc_keepalive_timeout_ms :: int
  grpc_keepalive_permit_without_calls :: pyval

definition check_MembershipSettings :: "membership_settings \<Rightarrow> membership_settings result" where
  "check_MembershipSettings s =
     (if protocol_period_s s \<le> 0 \<or> bootstrap_retry_interval_s s \<le> 0
         \<or> MEMBERSHIP_BOOTSTRAP_RETRY_MAX_INTERVAL_S < bootstrap_retry_interval_s s
         \<or> ping_timeout_s s \<le> 0 \<or> rpc_timeout_s s \<le> 0 \<or> suspect_timeout_s s \<le> 0
         \<or> indirect_ping_fanout s < 0 \<or> max_gossip_events s < 0 \<or> gossip_ttl_s s \<le> 0
         \<or> grpc_max_message_bytes s \<le> 0 \<or> grpc_keepalive_time_ms s \<le> 0 \<or> grpc_keepalive_timeout_ms s \<le> 0
         \<or> (case grpc_keepalive_permit_without_calls s of PyBool _ \<Rightarrow> False | _ \<Rightarrow> True)
      then Inl MembershipConfigError else Inr s)"

record member_record =
  mr_node_id :: string
  mr_address :: string
  mr_incarnation :: int
  mr_state :: int
  mr_last_seen :: real
  mr_suspect_since :: "real option"

text \<open>The protobuf messages.\<close>

record node_info =
  ni_node_id :: string
  ni_address :: string
  ni_incarnation :: "64 word"

record member_event =
  ev_node_id :: string
  ev_address :: string
  ev_incarnation :: "64 word"
  ev_state :: int
  ev_ts_ms :: int

definition to_uint64 :: "int \<Rightarrow> 64 word result" where
  "to_uint64 n = (if 0 \<le> n \<and> n < 2 ^ 64 then Inr (word_of_int n) else Inl ValueError)"

definition mk_NodeInfo :: "string \<Rightarrow> string \<Rightarrow> int \<Rightarrow> node_info result" where
  "mk_NodeInfo nid addr inc =
     bindE (to_uint64 inc) (\<lambda>w. Inr \<lparr>ni_node_id = nid, ni_address = addr, ni_incarnation = w\<rparr>)"

section \<open>Validation (validation.py)\<close>

definition is_valid_node_id :: "string \<Rightarrow> bool" where
  "is_valid_node_id nid \<longleftrightarrow> is_node_id (py_strip nid)"

definition MAX_ADDRESS_LENGTH :: nat where
  "MAX_ADDRESS_LENGTH = 255"

text \<open>Host and port text of a stripped address: \<open>[host]:port\<close>, or split at the last colon.\<close>

definition split_address :: "string \<Rightarrow> (string \<times> string) option" where
  "split_address text =
     (if take 1 text = ''['' then
        let closing = length (takeWhile (\<lambda>c. c \<noteq> CHR '']'') text) in
        if CHR '']'' \<notin> set text \<or> closing \<le> 1 \<or> length text < closing + 2 \<or> text ! (closing + 1) \<noteq> CHR '':'' then None
        else Some (take (closing - 1) (drop 1 text), drop (closing + 2) text)
      else if CHR '':'' \<notin> set text then None
      else let port_text = rev (takeWhile (\<lambda>c. c \<noteq> CHR '':'') (rev text))
           in Some (take (length text - length port_text - 1) text, port_text))"

definition is_valid_address :: "string \<Rightarrow> bool" where
  "is_valid_address addr =
     (let text = py_strip addr in
      if text = [] \<or> MAX_ADDRESS_LENGTH < length text then False
      else if list_ex (\<lambda>c. py_isspace c \<or> of_char c < (32 :: nat)) text then False
      else case split_address text of
             None \<Rightarrow> False
           | Some (host, port_text) \<Rightarrow>
               if host = [] \<or> \<not> py_isdecimal port_text then False
               else 0 < dec_value port_text \<and> dec_value port_text \<le> 65535)"

definition is_valid_incarnation :: "64 word \<Rightarrow> bool" where
  "is_valid_incarnation w \<longleftrightarrow> 1 \<le> uint w"

definition is_valid_state :: "int \<Rightarrow> bool" where
  "is_valid_state st \<longleftrightarrow> st \<in> set VALID_EVENT_STATES"

definition is_valid_nodeinfo :: "node_info \<Rightarrow> bool" where
  "is_valid_nodeinfo n \<longleftrightarrow> is_valid_node_id (ni_node_id n) \<and> is_valid_address (ni_address n) \<and> is_valid_incarnation (ni_incarnation n)"

definition is_valid_member_event :: "member_event \<Rightarrow> bool" where
  "is_valid_member_event e \<longleftrightarrow> is_valid_node_id (ev_node_id e) \<and> is_valid_address (ev_address e)
     \<and> is_valid_incarnation (ev_incarnation e) \<and> is_valid_state (ev_state e)"

definition limited_gossip :: "member_event list \<Rightarrow> int \<Rightarrow> member_event list" where
  "limited_gossip events limit = take (nat (max 0 limit)) events"

definition is_authorized_cluster_token :: "string \<Rightarrow> string \<Rightarrow> bool" where
  "is_authorized_cluster_token expected provided = (if py_strip expected = [] then False else provided = expected)"

definition require_authorized_cluster_token :: "string \<Rightarrow> string \<Rightarrow> ('s, unit) op" where
  "require_authorized_cluster_token expected provided =
     (if \<not> is_authorized_cluster_token expected provided then op_raise (Abort UNAUTHENTICATED) else op_return ())"

section \<open>The gossip buffer (gossip.py)\<close>

record gossip_buffer =
  gb_ttl_s :: real
  gb_events :: "(real \<times> member_event) list"

definition gossip_gc :: "real \<Rightarrow> gossip_buffer \<Rightarrow> gossip_buffer" where
  "gossip_gc now b = b\<lparr>gb_events := filter (\<lambda>(ts, _). now - gb_ttl_s b \<le> ts) (gb_events b)\<rparr>"

text \<open>\<open>add\<close> and \<open>sample\<close> get the clock readings they make.\<close>

definition gossip_add :: "member_event \<Rightarrow> real \<Rightarrow> real \<Rightarrow> gossip_buffer \<Rightarrow> gossip_buffer" where
  "gossip_add e added_at gc_at b = gossip_gc gc_at (b\<lparr>gb_events := gb_events b @ [(added_at, e)]\<rparr>)"

definition gossip_sample :: "int \<Rightarrow> gossip_buffer \<Rightarrow> member_event list" where
  "gossip_sample limit b =
     (let n = nat (max 0 limit) in
      if n = 0 then [] else map snd (drop (length (gb_events b) - n) (gb_events b)))"

section \<open>The manager (manager.py)\<close>

record manager =
  mg_settings :: membership_settings
  mg_store :: identity_store
  mg_node_id :: string
  mg_address :: string
  mg_incarnation :: int
  mg_members :: "(string \<times> member_record) list"
  mg_gossip :: gossip_buffer
  mg_stop :: bool
  mg_leaving :: bool
  mg_leave_complete :: bool
  mg_thread :: bool
  mg_seq :: int
  mg_bootstrap_seeds :: "string list"
  mg_bootstrap_retry_index :: nat
  mg_bootstrap_complete :: bool
  mg_next_bootstrap_retry_at :: "real option"
  mg_bootstrap_retry_nominal_s :: real
  mg_clock :: "nat \<Rightarrow> real"
  mg_wall_ms :: "nat \<Rightarrow> int"
  mg_reads :: nat

text \<open>One reading of a clock.\<close>

definition monotonic :: "(manager, real) op" where
  "monotonic m = (Inr (mg_clock m (mg_reads m)), m\<lparr>mg_reads := Suc (mg_reads m)\<rparr>)"

definition now_ms :: "(manager, int) op" where
  "now_ms m = (Inr (mg_wall_ms m (mg_reads m)), m\<lparr>mg_reads := Suc (mg_reads m)\<rparr>)"

text \<open>\<open>__init__\<close>: the first clock reading dates the node's own record.\<close>

definition mk_MembershipManager ::
    "identity_store \<Rightarrow> string \<Rightarrow> string \<Rightarrow> int \<Rightarrow> membership_settings \<Rightarrow> (nat \<Rightarrow> real) \<Rightarrow> (nat \<Rightarrow> int) \<Rightarrow> manager result" where
  "mk_MembershipManager store node addr incarnation settings clock wall =
     (let nid = py_strip node; address = py_strip addr; inc = max incarnation 1 in
      if \<not> is_valid_node_id nid then Inl MembershipConfigError
      else if \<not> is_valid_address address then Inl MembershipConfigError
      else Inr \<lparr>mg_settings = settings, mg_store = store, mg_node_id = nid, mg_address = address, mg_incarnation = inc,
             mg_members = [(nid, \<lparr>mr_node_id = nid, mr_address = address, mr_incarnation = inc, mr_state = ALIVE,
                                  mr_last_seen = clock 0, mr_suspect_since = None\<rparr>)],
             mg_gossip = \<lparr>gb_ttl_s = gossip_ttl_s settings, gb_events = []\<rparr>,
             mg_stop = False, mg_leaving = False, mg_leave_complete = False, mg_thread = False, mg_seq = 0,
             mg_bootstrap_seeds = [], mg_bootstrap_retry_index = 0, mg_bootstrap_complete = False,
             mg_next_bootstrap_retry_at = None,
             mg_bootstrap_retry_nominal_s = bootstrap_retry_interval_s settings,
             mg_clock = clock, mg_wall_ms = wall, mg_reads = 1\<rparr>)"

definition mk_member_event :: "string \<Rightarrow> string \<Rightarrow> int \<Rightarrow> int \<Rightarrow> (manager, member_event) op" where
  "mk_member_event nid addr inc st =
     op_bind now_ms (\<lambda>ts. op_bind (op_lift (to_uint64 inc)) (\<lambda>w.
       op_return \<lparr>ev_node_id = nid, ev_address = addr, ev_incarnation = w, ev_state = st, ev_ts_ms = ts\<rparr>))"

definition new_record_from_event :: "member_event \<Rightarrow> real \<Rightarrow> member_record" where
  "new_record_from_event e observed_at =
     \<lparr>mr_node_id = ev_node_id e, mr_address = ev_address e, mr_incarnation = uint (ev_incarnation e),
      mr_state = ev_state e, mr_last_seen = observed_at,
      mr_suspect_since = (if ev_state e = SUSPECT then Some observed_at else None)\<rparr>"

definition apply_event_to_record :: "member_event \<Rightarrow> real \<Rightarrow> bool \<Rightarrow> member_record \<Rightarrow> member_record" where
  "apply_event_to_record e observed_at replace_incarnation r0 =
     (let r1 = (if replace_incarnation
                then r0\<lparr>mr_incarnation := uint (ev_incarnation e), mr_address := ev_address e\<rparr> else r0);
          r2 = r1\<lparr>mr_state := ev_state e\<rparr>
      in if ev_state e = ALIVE then r2\<lparr>mr_last_seen := observed_at, mr_suspect_since := None\<rparr>
         else if ev_state e = SUSPECT then r2\<lparr>mr_suspect_since := Some observed_at\<rparr>
         else r2)"

definition put_member :: "string \<Rightarrow> member_record \<Rightarrow> (manager, unit) op" where
  "put_member nid r = op_modify (\<lambda>m. m\<lparr>mg_members := AList.update nid r (mg_members m)\<rparr>)"

definition gossip_add_event :: "member_event \<Rightarrow> (manager, unit) op" where
  "gossip_add_event e =
     (if \<not> is_valid_member_event e then op_return ()
      else op_bind monotonic (\<lambda>t1. op_bind monotonic (\<lambda>t2.
        op_modify (\<lambda>m. m\<lparr>mg_gossip := gossip_add e t1 t2 (mg_gossip m)\<rparr>))))"

definition sample_gossip :: "int \<Rightarrow> (manager, member_event list) op" where
  "sample_gossip limit =
     op_bind monotonic (\<lambda>now. op_bind (op_modify (\<lambda>m. m\<lparr>mg_gossip := gossip_gc now (mg_gossip m)\<rparr>)) (\<lambda>_.
       op_read (\<lambda>m. op_return (gossip_sample limit (mg_gossip m)))))"

definition complete_bootstrap :: "(manager, unit) op" where
  "complete_bootstrap = op_modify (\<lambda>m. m\<lparr>mg_bootstrap_complete := True, mg_next_bootstrap_retry_at := None\<rparr>)"

text \<open>\<open>_announce_alive\<close> and \<open>_announce_left\<close> update the node's own record the same way.\<close>

definition announce :: "int \<Rightarrow> (manager, unit) op" where
  "announce st = op_read (\<lambda>m.
     op_bind (mk_member_event (mg_node_id m) (mg_address m) (mg_incarnation m) st) (\<lambda>e.
       op_read (\<lambda>m. case map_of (mg_members m) (mg_node_id m) of
           None \<Rightarrow> op_raise KeyError
         | Some me \<Rightarrow> op_bind monotonic (\<lambda>now.
             op_bind (put_member (mg_node_id m) (me\<lparr>mr_incarnation := mg_incarnation m, mr_state := st,
                 mr_address := mg_address m, mr_last_seen := now, mr_suspect_since := None\<rparr>)) (\<lambda>_.
               gossip_add_event e)))))"

definition announce_alive :: "(manager, unit) op" where
  "announce_alive = op_read (\<lambda>m. if mg_leaving m then op_return () else announce ALIVE)"

definition announce_left :: "(manager, unit) op" where
  "announce_left = announce LEFT"

text \<open>The identity store is an object of its own: its operations act on one field.\<close>

definition in_store :: "(identity_store, 'a) op \<Rightarrow> (manager, 'a) op" where
  "in_store f m = (case f (mg_store m) of (r, st) \<Rightarrow> (r, m\<lparr>mg_store := st\<rparr>))"

definition handle_self_event :: "member_event \<Rightarrow> (manager, unit) op" where
  "handle_self_event e = op_read (\<lambda>m.
     if mg_leaving m then op_return ()
     else if ev_address e \<noteq> [] \<and> ev_address e \<noteq> mg_address m then op_return ()
     else if ev_state e \<in> {SUSPECT, DEAD} \<and> mg_incarnation m \<le> uint (ev_incarnation e)
     then op_bind (in_store (bump_above (mg_node_id m) (uint (ev_incarnation e)))) (\<lambda>n.
            op_bind (op_modify (\<lambda>m. m\<lparr>mg_incarnation := n\<rparr>)) (\<lambda>_. announce_alive))
     else op_return ())"

definition absorb :: "member_event \<Rightarrow> member_record \<Rightarrow> (manager, unit) op" where
  "absorb e r = op_bind (put_member (ev_node_id e) r) (\<lambda>_. op_bind (gossip_add_event e) (\<lambda>_.
     if ev_state e = ALIVE then complete_bootstrap else op_return ()))"

definition apply_event :: "member_event \<Rightarrow> (manager, unit) op" where
  "apply_event e = op_read (\<lambda>m.
     if \<not> is_valid_member_event e then op_return ()
     else if ev_node_id e = mg_node_id m then handle_self_event e
     else op_bind monotonic (\<lambda>observed_at.
       case map_of (mg_members m) (ev_node_id e) of
         None \<Rightarrow> absorb e (new_record_from_event e observed_at)
       | Some current \<Rightarrow>
           if mr_incarnation current < uint (ev_incarnation e)
           then absorb e (apply_event_to_record e observed_at True current)
           else if uint (ev_incarnation e) < mr_incarnation current then op_return ()
           else if state_order (mr_state current) < state_order (ev_state e)
           then absorb e (apply_event_to_record e observed_at False current)
           else op_return ()))"

definition apply_gossip :: "member_event list \<Rightarrow> (manager, unit) op" where
  "apply_gossip events = op_read (\<lambda>m. op_iter apply_event (limited_gossip events (max_gossip_events (mg_settings m))))"

definition apply_nodeinfo :: "node_info \<Rightarrow> int \<Rightarrow> (manager, unit) op" where
  "apply_nodeinfo n st =
     (if \<not> is_valid_nodeinfo n then op_return ()
      else op_bind (mk_member_event (ni_node_id n) (ni_address n) (uint (ni_incarnation n)) st) apply_event)"

definition get_alive_peers :: "manager \<Rightarrow> member_record list" where
  "get_alive_peers m = filter (\<lambda>r. mr_node_id r \<noteq> mg_node_id m \<and> mr_state r = ALIVE) (map snd (mg_members m))"

definition get_members_snapshot :: "bool \<Rightarrow> manager \<Rightarrow> node_info list result" where
  "get_members_snapshot eligible_only m =
     mapE (\<lambda>r. mk_NodeInfo (mr_node_id r) (mr_address r) (mr_incarnation r))
       (filter (\<lambda>r. \<not> (eligible_only \<and> mr_state r \<notin> set ELIGIBLE_STATES)
                    \<and> \<not> (eligible_only \<and> mr_node_id r = mg_node_id m \<and> mg_leaving m))
          (map snd (mg_members m)))"

section \<open>Failure detection\<close>

record ping_response =
  pg_ok :: bool
  pg_gossip :: "member_event list"

record join_response =
  jn_members :: "node_info list"
  jn_gossip :: "member_event list"

text \<open>The membership stubs at an address. A call fails with \<open>RpcError\<close>.\<close>

record membership_net =
  net_join :: "string \<Rightarrow> node_info \<Rightarrow> string \<Rightarrow> join_response result"
  net_ping :: "string \<Rightarrow> node_info \<Rightarrow> int \<Rightarrow> member_event list \<Rightarrow> string \<Rightarrow> ping_response result"
  net_ping_req :: "string \<Rightarrow> node_info \<Rightarrow> node_info \<Rightarrow> int \<Rightarrow> member_event list \<Rightarrow> string \<Rightarrow> ping_response result"

text \<open>\<open>random.choice\<close>, \<open>random.shuffle\<close> (both over references to records) and \<open>random.uniform\<close>.\<close>

record membership_random =
  rnd_choice :: "string list \<Rightarrow> string"
  rnd_shuffle :: "string list \<Rightarrow> string list"
  rnd_uniform :: "real \<Rightarrow> real \<Rightarrow> real"

text \<open>\<open>channels.get\<close> refuses an invalid address; the handlers around a call catch
  \<open>grpc.RpcError\<close> and \<open>ValueError\<close>.\<close>

definition at_stub :: "string \<Rightarrow> 'a result \<Rightarrow> 'a result" where
  "at_stub addr call = (if is_valid_address addr then call else Inl MembershipConfigError)"

definition is_rpc_or_value_error :: "exn \<Rightarrow> bool" where
  "is_rpc_or_value_error e \<longleftrightarrow> e = RpcError \<or> is_ValueError e"

definition self_info :: "(manager, node_info) op" where
  "self_info = op_read (\<lambda>m. op_lift (mk_NodeInfo (mg_node_id m) (mg_address m) (mg_incarnation m)))"

definition sample_max :: "(manager, member_event list) op" where
  "sample_max = op_read (\<lambda>m. sample_gossip (max_gossip_events (mg_settings m)))"

definition touch_last_seen :: "string \<Rightarrow> (manager, unit) op" where
  "touch_last_seen nid = op_read (\<lambda>m. case map_of (mg_members m) nid of
       Some r \<Rightarrow> if mr_state r = ALIVE
                 then op_bind monotonic (\<lambda>now. put_member nid (r\<lparr>mr_last_seen := now\<rparr>)) else op_return ()
     | None \<Rightarrow> op_return ())"

text \<open>The lists of peers hold references to the records of \<open>_members\<close>, whose fields change while
  responses are absorbed: a reference is the key of the record, read when a field is used. Records
  are never removed, so the lookup succeeds.\<close>

definition with_record :: "string \<Rightarrow> (member_record \<Rightarrow> (manager, 'a) op) \<Rightarrow> (manager, 'a) op" where
  "with_record nid f = op_read (\<lambda>m. case map_of (mg_members m) nid of None \<Rightarrow> op_raise KeyError | Some r \<Rightarrow> f r)"

definition ping :: "membership_net \<Rightarrow> string \<Rightarrow> int \<Rightarrow> (manager, bool) op" where
  "ping net target sq =
     op_bind self_info (\<lambda>me. op_bind sample_max (\<lambda>gossip. with_record target (\<lambda>t.
       op_catch
         (op_bind (op_read (\<lambda>m. op_lift (at_stub (mr_address t) (bindE (to_uint64 sq) (\<lambda>_.
                     net_ping net (mr_address t) me sq gossip (cluster_token (mg_settings m))))))) (\<lambda>response.
          op_bind (apply_gossip (pg_gossip response)) (\<lambda>_.
          op_bind (touch_last_seen (mr_node_id t)) (\<lambda>_. op_return (pg_ok response)))))
         is_rpc_or_value_error (op_return False))))"

definition ping_req :: "membership_net \<Rightarrow> string \<Rightarrow> string \<Rightarrow> int \<Rightarrow> (manager, bool) op" where
  "ping_req net helper target sq =
     op_bind self_info (\<lambda>me. op_bind sample_max (\<lambda>gossip. with_record helper (\<lambda>h. with_record target (\<lambda>t.
       op_catch
         (op_bind (op_read (\<lambda>m. op_lift (at_stub (mr_address h)
                     (bindE (mk_NodeInfo (mr_node_id t) (mr_address t) (mr_incarnation t)) (\<lambda>info.
                      bindE (to_uint64 sq) (\<lambda>_.
                        net_ping_req net (mr_address h) me info sq gossip (cluster_token (mg_settings m)))))))) (\<lambda>response.
          op_bind (apply_gossip (pg_gossip response)) (\<lambda>_. op_return (pg_ok response))))
         is_rpc_or_value_error (op_return False)))))"

definition mark_suspect :: "member_record \<Rightarrow> (manager, unit) op" where
  "mark_suspect r = op_bind (mk_member_event (mr_node_id r) (mr_address r) (mr_incarnation r) SUSPECT) apply_event"

definition mark_dead :: "member_record \<Rightarrow> (manager, unit) op" where
  "mark_dead r = op_bind (mk_member_event (mr_node_id r) (mr_address r) (mr_incarnation r) DEAD) apply_event"

definition is_expired :: "real \<Rightarrow> manager \<Rightarrow> member_record \<Rightarrow> bool" where
  "is_expired now m r \<longleftrightarrow> mr_state r = SUSPECT \<and>
     (case mr_suspect_since r of None \<Rightarrow> False | Some t \<Rightarrow> suspect_timeout_s (mg_settings m) \<le> now - t)"

definition expire_suspects :: "(manager, unit) op" where
  "expire_suspects = op_bind monotonic (\<lambda>now. op_read (\<lambda>m.
     op_iter mark_dead (filter (is_expired now m) (map snd (mg_members m)))))"

text \<open>The loop over the helpers: whether one of them reached the target.\<close>

fun ask_helpers :: "membership_net \<Rightarrow> string \<Rightarrow> int \<Rightarrow> string list \<Rightarrow> (manager, bool) op" where
  "ask_helpers net target sq [] = op_return False"
| "ask_helpers net target sq (h # hs) =
     op_bind (ping_req net h target sq) (\<lambda>ok. if ok then op_return True else ask_helpers net target sq hs)"

definition run_swim_round :: "membership_net \<Rightarrow> membership_random \<Rightarrow> (manager, unit) op" where
  "run_swim_round net rnd =
     op_bind expire_suspects (\<lambda>_. op_read (\<lambda>m.
       let peers = map mr_node_id (get_alive_peers m) in
       if peers = [] then op_return ()
       else let target = rnd_choice rnd peers; sq = mg_seq m + 1 in
         op_bind (op_modify (\<lambda>m. m\<lparr>mg_seq := sq\<rparr>)) (\<lambda>_.
         op_bind (ping net target sq) (\<lambda>ok.
           if ok then expire_suspects
           else let helpers = take (nat (indirect_ping_fanout (mg_settings m)))
                                (rnd_shuffle rnd (filter (\<lambda>p. p \<noteq> target) peers)) in
             op_bind (ask_helpers net target sq helpers) (\<lambda>reached.
               if reached then expire_suspects
               else op_bind (with_record target mark_suspect) (\<lambda>_. expire_suspects))))))"

section \<open>Bootstrap\<close>

fun normalize_seeds_loop :: "string \<Rightarrow> string set \<Rightarrow> string list \<Rightarrow> string list" where
  "normalize_seeds_loop self_address seen [] = []"
| "normalize_seeds_loop self_address seen (raw # seeds) =
     (let seed = py_strip raw in
      if seed = [] \<or> seed = self_address \<or> seed \<in> seen then normalize_seeds_loop self_address seen seeds
      else if \<not> is_valid_address seed then normalize_seeds_loop self_address (insert seed seen) seeds
      else seed # normalize_seeds_loop self_address (insert seed seen) seeds)"

definition normalize_bootstrap_seeds :: "string list \<Rightarrow> manager \<Rightarrow> string list" where
  "normalize_bootstrap_seeds seeds m = normalize_seeds_loop (mg_address m) {} seeds"

definition join_seed :: "membership_net \<Rightarrow> string \<Rightarrow> (manager, unit) op" where
  "join_seed net seed =
     op_bind self_info (\<lambda>me.
       op_catch
         (op_bind (op_read (\<lambda>m. op_lift (at_stub seed (net_join net seed me (cluster_token (mg_settings m)))))) (\<lambda>response.
          op_bind (op_iter (\<lambda>n. apply_nodeinfo n ALIVE) (jn_members response)) (\<lambda>_.
          apply_gossip (jn_gossip response))))
         is_rpc_or_value_error (op_return ()))"

definition refresh_bootstrap_completion :: "(manager, bool) op" where
  "refresh_bootstrap_completion = op_read (\<lambda>m.
     if mg_bootstrap_complete m then op_return True
     else if get_alive_peers m = [] then op_return False
     else op_bind complete_bootstrap (\<lambda>_. op_return True))"

definition schedule_next_bootstrap_retry :: "membership_random \<Rightarrow> (manager, unit) op" where
  "schedule_next_bootstrap_retry rnd = op_read (\<lambda>m.
     let max_interval_s = MEMBERSHIP_BOOTSTRAP_RETRY_MAX_INTERVAL_S;
         nominal_s = min (mg_bootstrap_retry_nominal_s m) max_interval_s;
         jitter_s = nominal_s * (1 / 5);
         min_delay_s = max 0 (nominal_s - jitter_s);
         max_delay_s = min max_interval_s (nominal_s + jitter_s);
         delay_s = rnd_uniform rnd min_delay_s max_delay_s
     in op_bind monotonic (\<lambda>now.
          op_modify (\<lambda>m. m\<lparr>mg_next_bootstrap_retry_at := Some (now + delay_s),
                            mg_bootstrap_retry_nominal_s := min max_interval_s (nominal_s * 2)\<rparr>)))"

text \<open>The synchronous loop over the seeds; \<open>cancelled\<close> is what \<open>cancel_event.is_set()\<close> answers
  at each test. It returns whether it was interrupted.\<close>

fun bootstrap_seeds_loop :: "membership_net \<Rightarrow> (nat \<Rightarrow> bool) \<Rightarrow> nat \<Rightarrow> string list \<Rightarrow> (manager, bool) op" where
  "bootstrap_seeds_loop net cancelled i [] = op_return False"
| "bootstrap_seeds_loop net cancelled i (seed # seeds) = op_read (\<lambda>m.
     if mg_stop m \<or> cancelled i then op_return True
     else op_bind refresh_bootstrap_completion (\<lambda>done.
       if done then op_return False
       else op_bind (join_seed net seed) (\<lambda>_. bootstrap_seeds_loop net cancelled (Suc i) seeds)))"

definition bootstrap_join ::
    "membership_net \<Rightarrow> membership_random \<Rightarrow> (nat \<Rightarrow> bool) \<Rightarrow> string list \<Rightarrow> (manager, unit) op" where
  "bootstrap_join net rnd cancelled seeds = op_read (\<lambda>m.
     let normalized = normalize_bootstrap_seeds seeds m in
     op_bind (op_modify (\<lambda>m. m\<lparr>mg_bootstrap_seeds := normalized, mg_bootstrap_retry_index := 0,
                mg_bootstrap_retry_nominal_s := bootstrap_retry_interval_s (mg_settings m)\<rparr>)) (\<lambda>_.
     if normalized = [] then op_modify (\<lambda>m. m\<lparr>mg_bootstrap_complete := True, mg_next_bootstrap_retry_at := None\<rparr>)
     else op_bind (op_modify (\<lambda>m. m\<lparr>mg_bootstrap_complete := False\<rparr>)) (\<lambda>_.
       op_bind (bootstrap_seeds_loop net cancelled 0 normalized) (\<lambda>interrupted.
       if interrupted then op_return ()
       else op_read (\<lambda>m. if mg_stop m \<or> cancelled (length normalized) then op_return ()
         else op_bind refresh_bootstrap_completion (\<lambda>done.
           if done then op_return () else schedule_next_bootstrap_retry rnd))))))"

definition retry_bootstrap_if_due :: "membership_net \<Rightarrow> membership_random \<Rightarrow> (manager, unit) op" where
  "retry_bootstrap_if_due net rnd = op_read (\<lambda>m.
     if mg_bootstrap_complete m \<or> mg_bootstrap_seeds m = [] then op_return ()
     else op_bind refresh_bootstrap_completion (\<lambda>done.
       if done then op_return ()
       else op_bind monotonic (\<lambda>now. op_read (\<lambda>m.
         if (case mg_next_bootstrap_retry_at m of None \<Rightarrow> False | Some t \<Rightarrow> now < t) then op_return ()
         else let seeds = mg_bootstrap_seeds m; i = mg_bootstrap_retry_index m in
           if length seeds \<le> i then op_raise IndexError
           else op_bind (op_modify (\<lambda>m. m\<lparr>mg_bootstrap_retry_index := (i + 1) mod length seeds\<rparr>)) (\<lambda>_.
           op_bind (join_seed net (seeds ! i)) (\<lambda>_.
           op_bind refresh_bootstrap_completion (\<lambda>done.
             if done then op_return () else schedule_next_bootstrap_retry rnd)))))))"

section \<open>The protocol loop and the life of a manager\<close>

text \<open>One turn of \<open>_swim_loop\<close> after \<open>_stop.wait\<close> returned \<open>stopped\<close>: \<open>None\<close> leaves the loop.\<close>

definition swim_wake_at :: "real \<Rightarrow> manager \<Rightarrow> real" where
  "swim_wake_at next_protocol_at m =
     (if \<not> mg_bootstrap_complete m \<and> mg_bootstrap_seeds m \<noteq> []
      then (case mg_next_bootstrap_retry_at m of None \<Rightarrow> next_protocol_at | Some t \<Rightarrow> min next_protocol_at t)
      else next_protocol_at)"

definition swim_turn ::
    "membership_net \<Rightarrow> membership_random \<Rightarrow> bool \<Rightarrow> real \<Rightarrow> (manager, real option) op" where
  "swim_turn net rnd stopped next_protocol_at =
     (if stopped then op_return None
      else op_bind (retry_bootstrap_if_due net rnd) (\<lambda>_. op_bind monotonic (\<lambda>now.
        if now < next_protocol_at then op_return (Some next_protocol_at)
        else op_bind (run_swim_round net rnd) (\<lambda>_. op_read (\<lambda>m.
          op_return (Some (now + protocol_period_s (mg_settings m))))))))"

definition start :: "(manager, unit) op" where
  "start = op_read (\<lambda>m. if mg_leaving m then op_raise RuntimeError
     else if mg_thread m then op_return ()
     else op_modify (\<lambda>m. m\<lparr>mg_stop := False, mg_thread := True\<rparr>))"

definition stop_protocol_loop :: "(manager, unit) op" where
  "stop_protocol_loop = op_modify (\<lambda>m. m\<lparr>mg_stop := True, mg_thread := False\<rparr>)"

text \<open>\<open>leave\<close> returns the addresses that \<open>LEFT\<close> is announced to; the calls are best effort and
  change nothing locally. A second \<open>leave\<close> only waits for the first.\<close>

definition leave :: "(manager, string list) op" where
  "leave = op_read (\<lambda>m.
     if mg_leaving m then op_return []
     else op_bind (op_modify (\<lambda>m. m\<lparr>mg_leaving := True, mg_stop := True\<rparr>)) (\<lambda>_.
       \<lambda>m1. case op_bind announce_left (\<lambda>_. op_read (\<lambda>m.
                  op_return (filter (\<lambda>a. a \<noteq> mg_address m)
                    (ordered_unique (map mr_address (get_alive_peers m) @ mg_bootstrap_seeds m))))) m1 of
              (r, m2) \<Rightarrow> (r, m2\<lparr>mg_stop := True, mg_thread := False, mg_leave_complete := True\<rparr>)))"

section \<open>The RPC service (membership_rpc.py)\<close>

definition rpc_Join :: "node_info \<Rightarrow> string \<Rightarrow> (manager, join_response) op" where
  "rpc_Join self_node token = op_read (\<lambda>m.
     op_bind (require_authorized_cluster_token (cluster_token (mg_settings m)) token) (\<lambda>_.
       if \<not> is_valid_nodeinfo self_node then op_raise (Abort INVALID_ARGUMENT)
       else if mg_leaving m then op_raise (Abort UNAVAILABLE)
       else op_bind (apply_nodeinfo self_node ALIVE) (\<lambda>_.
         op_bind (op_read (\<lambda>m. op_lift (get_members_snapshot True m))) (\<lambda>ns.
         op_bind sample_max (\<lambda>g. op_return \<lparr>jn_members = ns, jn_gossip = g\<rparr>)))))"

definition rpc_Ping :: "node_info \<Rightarrow> member_event list \<Rightarrow> string \<Rightarrow> (manager, ping_response) op" where
  "rpc_Ping from_node gossip token = op_read (\<lambda>m.
     op_bind (require_authorized_cluster_token (cluster_token (mg_settings m)) token) (\<lambda>_.
       if \<not> is_valid_nodeinfo from_node then op_raise (Abort INVALID_ARGUMENT)
       else op_bind (apply_nodeinfo from_node ALIVE) (\<lambda>_. op_bind (apply_gossip gossip) (\<lambda>_.
         op_read (\<lambda>m. op_bind sample_max (\<lambda>g. op_return \<lparr>pg_ok = (\<not> mg_leaving m), pg_gossip = g\<rparr>))))))"

definition helper_ping :: "membership_net \<Rightarrow> node_info \<Rightarrow> int \<Rightarrow> (manager, bool) op" where
  "helper_ping net target sq = op_read (\<lambda>m.
     op_catch
       (op_bind (op_lift (at_stub (ni_address target) (Inr ()))) (\<lambda>_. op_bind self_info (\<lambda>me. op_bind sample_max (\<lambda>gossip.
        op_bind (op_lift (net_ping net (ni_address target) me sq gossip (cluster_token (mg_settings m)))) (\<lambda>response.
        op_bind (apply_gossip (pg_gossip response)) (\<lambda>_. op_return (pg_ok response)))))))
       is_rpc_or_value_error (op_return False))"

definition rpc_PingReq ::
    "membership_net \<Rightarrow> node_info \<Rightarrow> node_info \<Rightarrow> int \<Rightarrow> member_event list \<Rightarrow> string \<Rightarrow> (manager, ping_response) op" where
  "rpc_PingReq net requester target sq gossip token = op_read (\<lambda>m.
     op_bind (require_authorized_cluster_token (cluster_token (mg_settings m)) token) (\<lambda>_.
       if \<not> is_valid_nodeinfo requester then op_raise (Abort INVALID_ARGUMENT)
       else if \<not> is_valid_nodeinfo target then op_raise (Abort INVALID_ARGUMENT)
       else op_bind (apply_nodeinfo requester ALIVE) (\<lambda>_. op_bind (apply_gossip gossip) (\<lambda>_. op_read (\<lambda>m.
         op_bind (if mg_leaving m then op_return False else helper_ping net target sq) (\<lambda>ok.
         op_bind sample_max (\<lambda>g. op_return \<lparr>pg_ok = ok, pg_gossip = g\<rparr>)))))))"

definition rpc_Leave :: "node_info \<Rightarrow> string \<Rightarrow> (manager, bool) op" where
  "rpc_Leave self_node token = op_read (\<lambda>m.
     op_bind (require_authorized_cluster_token (cluster_token (mg_settings m)) token) (\<lambda>_.
       if \<not> is_valid_nodeinfo self_node then op_raise (Abort INVALID_ARGUMENT)
       else if ni_node_id self_node = mg_node_id m then op_raise (Abort INVALID_ARGUMENT)
       else op_bind (apply_nodeinfo self_node LEFT) (\<lambda>_. op_return True)))"

definition rpc_GetMembers :: "string \<Rightarrow> (manager, node_info list) op" where
  "rpc_GetMembers token = op_read (\<lambda>m.
     op_bind (require_authorized_cluster_token (cluster_token (mg_settings m)) token) (\<lambda>_.
       op_read (\<lambda>m. op_lift (get_members_snapshot True m))))"

section \<open>What an event does\<close>

lemmas op_defs = op_bind_def op_return_def op_raise_def op_lift_def op_modify_def op_read_def op_catch_def

lemma state_order_valid [simp]: "is_valid_state st \<Longrightarrow> state_order st = st"
  by (auto simp: is_valid_state_def VALID_EVENT_STATES_def state_order_def STATE_ORDER_def)

text \<open>The members after an event about another node, which is all that \<open>apply_event\<close> changes
  besides the clock, the gossip buffer and the bootstrap flags.\<close>

definition merged :: "member_event \<Rightarrow> real \<Rightarrow> (string \<times> member_record) list \<Rightarrow> (string \<times> member_record) list" where
  "merged e t ms =
     (case map_of ms (ev_node_id e) of
        None \<Rightarrow> AList.update (ev_node_id e) (new_record_from_event e t) ms
      | Some r \<Rightarrow>
          if mr_incarnation r < uint (ev_incarnation e) then AList.update (ev_node_id e) (apply_event_to_record e t True r) ms
          else if mr_incarnation r = uint (ev_incarnation e) \<and> state_order (mr_state r) < state_order (ev_state e)
          then AList.update (ev_node_id e) (apply_event_to_record e t False r) ms
          else ms)"

text \<open>The buffer only gains valid events.\<close>

definition gossip_grows :: "gossip_buffer \<Rightarrow> gossip_buffer \<Rightarrow> bool" where
  "gossip_grows b b' \<longleftrightarrow> gb_ttl_s b' = gb_ttl_s b \<and>
     (\<forall>x \<in> set (gb_events b'). x \<in> set (gb_events b) \<or> is_valid_member_event (snd x))"

lemma gossip_grows_refl [simp]: "gossip_grows b b"
  by (simp add: gossip_grows_def)

lemma gossip_grows_gc [simp]: "gossip_grows b (gossip_gc t b)"
  by (auto simp: gossip_grows_def gossip_gc_def)

lemma gossip_grows_add: "is_valid_member_event e \<Longrightarrow> gossip_grows b (gossip_add e t1 t2 b)"
  by (auto simp: gossip_grows_def gossip_add_def gossip_gc_def)

lemma monotonic_run: "monotonic m = (Inr (mg_clock m (mg_reads m)), m\<lparr>mg_reads := Suc (mg_reads m)\<rparr>)"
  by (simp add: monotonic_def)

lemma gossip_add_event_run:
  "\<exists>n g. gossip_add_event e m = (Inr (), m\<lparr>mg_reads := n, mg_gossip := g\<rparr>) \<and> gossip_grows (mg_gossip m) g"
proof (cases "is_valid_member_event e")
  case True
  then show ?thesis
    by (intro exI [of _ "Suc (Suc (mg_reads m))"]
        exI [of _ "gossip_add e (mg_clock m (mg_reads m)) (mg_clock m (Suc (mg_reads m))) (mg_gossip m)"])
      (simp add: gossip_add_event_def op_defs monotonic_run gossip_grows_add)
next
  case False
  then show ?thesis
    by (intro exI [of _ "mg_reads m"] exI [of _ "mg_gossip m"]) (simp add: gossip_add_event_def op_defs)
qed

lemma absorb_run:
  "\<exists>n g b d. absorb e r m = (Inr (), m\<lparr>mg_members := AList.update (ev_node_id e) r (mg_members m), mg_reads := n,
       mg_gossip := g, mg_bootstrap_complete := b, mg_next_bootstrap_retry_at := d\<rparr>) \<and> gossip_grows (mg_gossip m) g"
proof -
  let ?m = "m\<lparr>mg_members := AList.update (ev_node_id e) r (mg_members m)\<rparr>"
  obtain n g where g: "gossip_add_event e ?m = (Inr (), ?m\<lparr>mg_reads := n, mg_gossip := g\<rparr>)" "gossip_grows (mg_gossip m) g"
    using gossip_add_event_run [of e ?m] by auto
  then have "absorb e r m = (if ev_state e = ALIVE then complete_bootstrap else op_return ()) (?m\<lparr>mg_reads := n, mg_gossip := g\<rparr>)"
    by (simp add: absorb_def put_member_def op_defs)
  also have "\<dots> = (Inr (), m\<lparr>mg_members := AList.update (ev_node_id e) r (mg_members m), mg_reads := n, mg_gossip := g,
     mg_bootstrap_complete := (if ev_state e = ALIVE then True else mg_bootstrap_complete m),
     mg_next_bootstrap_retry_at := (if ev_state e = ALIVE then None else mg_next_bootstrap_retry_at m)\<rparr>)"
    by (simp add: complete_bootstrap_def op_defs)
  finally show ?thesis using g(2) by blast
qed

lemma apply_event_other:
  assumes "is_valid_member_event e" "ev_node_id e \<noteq> mg_node_id m"
  shows "\<exists>n g b d. apply_event e m = (Inr (), m\<lparr>mg_members := merged e (mg_clock m (mg_reads m)) (mg_members m), mg_reads := n,
       mg_gossip := g, mg_bootstrap_complete := b, mg_next_bootstrap_retry_at := d\<rparr>) \<and> gossip_grows (mg_gossip m) g"
proof -
  let ?t = "mg_clock m (mg_reads m)" and ?m = "m\<lparr>mg_reads := Suc (mg_reads m)\<rparr>"
  have ab: "\<exists>n g b d. absorb e r ?m = (Inr (), m\<lparr>mg_members := AList.update (ev_node_id e) r (mg_members m), mg_reads := n,
       mg_gossip := g, mg_bootstrap_complete := b, mg_next_bootstrap_retry_at := d\<rparr>) \<and> gossip_grows (mg_gossip m) g" for r
    using absorb_run [of e r ?m] by simp
  have skip: "\<exists>n g b d. (Inr (), ?m) = (Inr (), m\<lparr>mg_members := mg_members m, mg_reads := n,
       mg_gossip := g, mg_bootstrap_complete := b, mg_next_bootstrap_retry_at := d\<rparr>) \<and> gossip_grows (mg_gossip m) g"
    by (intro exI [of _ "Suc (mg_reads m)"] exI [of _ "mg_gossip m"] exI [of _ "mg_bootstrap_complete m"]
        exI [of _ "mg_next_bootstrap_retry_at m"]) simp
  have run: "apply_event e m = (case map_of (mg_members m) (ev_node_id e) of
         None \<Rightarrow> absorb e (new_record_from_event e ?t) ?m
       | Some r \<Rightarrow> if mr_incarnation r < uint (ev_incarnation e) then absorb e (apply_event_to_record e ?t True r) ?m
           else if uint (ev_incarnation e) < mr_incarnation r then (Inr (), ?m)
           else if state_order (mr_state r) < state_order (ev_state e) then absorb e (apply_event_to_record e ?t False r) ?m
           else (Inr (), ?m))"
    using assms by (auto simp: apply_event_def op_defs monotonic_run split: option.splits)
  show ?thesis
  proof (cases "map_of (mg_members m) (ev_node_id e)")
    case None
    then show ?thesis using ab [of "new_record_from_event e ?t"] unfolding run merged_def by simp
  next
    case (Some r)
    consider "mr_incarnation r < uint (ev_incarnation e)" | "uint (ev_incarnation e) < mr_incarnation r"
      | "mr_incarnation r = uint (ev_incarnation e)" "state_order (mr_state r) < state_order (ev_state e)"
      | "mr_incarnation r = uint (ev_incarnation e)" "\<not> state_order (mr_state r) < state_order (ev_state e)" by linarith
    then show ?thesis
    proof cases
      case 1
      then show ?thesis using ab [of "apply_event_to_record e ?t True r"] Some unfolding run merged_def by simp
    next
      case 2
      then show ?thesis using skip Some unfolding run merged_def by simp
    next
      case 3
      then show ?thesis using ab [of "apply_event_to_record e ?t False r"] Some unfolding run merged_def by simp
    next
      case 4
      then show ?thesis using skip Some unfolding run merged_def by simp
    qed
  qed
qed

section \<open>The invariant of a manager\<close>

definition record_ok :: "string \<times> member_record \<Rightarrow> bool" where
  "record_ok p \<longleftrightarrow> (case p of (k, r) \<Rightarrow> mr_node_id r = k \<and> is_valid_node_id k \<and> is_valid_address (mr_address r)
     \<and> 1 \<le> mr_incarnation r \<and> mr_incarnation r < 2 ^ 64 \<and> is_valid_state (mr_state r)
     \<and> (mr_state r = SUSPECT \<longrightarrow> mr_suspect_since r \<noteq> None))"

fun self_record_ok :: "string \<Rightarrow> int \<Rightarrow> bool \<Rightarrow> member_record option \<Rightarrow> bool" where
  "self_record_ok addr inc leaving None = False"
| "self_record_ok addr inc leaving (Some me) =
     (mr_address me = addr \<and> mr_incarnation me \<le> inc \<and> (mr_state me = ALIVE \<or> (mr_state me = LEFT \<and> leaving)))"

fun holds_identity :: "string \<Rightarrow> int \<Rightarrow> (string \<times> int) result \<Rightarrow> bool" where
  "holds_identity nid inc (Inr (stored, n)) = (stored = nid \<and> inc \<le> n)"
| "holds_identity nid inc (Inl _) = False"

definition self_ok :: "manager \<Rightarrow> bool" where
  "self_ok m \<longleftrightarrow> is_valid_node_id (mg_node_id m) \<and> is_valid_address (mg_address m) \<and>
     self_record_ok (mg_address m) (mg_incarnation m) (mg_leaving m) (map_of (mg_members m) (mg_node_id m))"

definition store_ok :: "manager \<Rightarrow> bool" where
  "store_ok m \<longleftrightarrow> holds_identity (mg_node_id m) (mg_incarnation m) (read_unlocked (mg_store m))"

definition mgr_inv :: "manager \<Rightarrow> bool" where
  "mgr_inv m \<longleftrightarrow> distinct (map fst (mg_members m)) \<and> list_all record_ok (mg_members m) \<and> self_ok m \<and> store_ok m
     \<and> list_all is_valid_member_event (map snd (gb_events (mg_gossip m)))
     \<and> (mg_bootstrap_seeds m = [] \<or> mg_bootstrap_retry_index m < length (mg_bootstrap_seeds m))"

lemma gossip_grows_valid:
  "gossip_grows b b' \<Longrightarrow> list_all is_valid_member_event (map snd (gb_events b)) \<Longrightarrow>
     list_all is_valid_member_event (map snd (gb_events b'))"
  by (auto simp: gossip_grows_def list_all_iff)

lemma record_ok_new: "is_valid_member_event e \<Longrightarrow> record_ok (ev_node_id e, new_record_from_event e t)"
  using uint_lt2p [of "ev_incarnation e"]
  by (auto simp: record_ok_def new_record_from_event_def is_valid_member_event_def is_valid_incarnation_def)

lemma record_ok_apply:
  "is_valid_member_event e \<Longrightarrow> record_ok (ev_node_id e, r) \<Longrightarrow> record_ok (ev_node_id e, apply_event_to_record e t b r)"
  using uint_lt2p [of "ev_incarnation e"]
  by (auto simp: record_ok_def apply_event_to_record_def Let_def is_valid_member_event_def is_valid_incarnation_def)

lemma list_all_update:
  "list_all P d \<Longrightarrow> P (k, v) \<Longrightarrow> list_all P (AList.update k v d)"
  using set_update_subset [of k v d] by (auto simp: list_all_iff)

lemma merged_ok:
  assumes "is_valid_member_event e" "list_all record_ok ms" "distinct (map fst ms)"
  shows "list_all record_ok (merged e t ms) \<and> distinct (map fst (merged e t ms))"
proof (cases "map_of ms (ev_node_id e)")
  case None
  then show ?thesis using assms by (simp add: merged_def record_ok_new list_all_update distinct_keys_update)
next
  case (Some r)
  then have "record_ok (ev_node_id e, r)" using assms(2) by (auto simp: list_all_iff dest: map_of_SomeD)
  then show ?thesis using assms Some by (simp add: merged_def record_ok_apply list_all_update distinct_keys_update)
qed

lemma merged_others: "k \<noteq> ev_node_id e \<Longrightarrow> map_of (merged e t ms) k = map_of ms k"
  by (auto simp: merged_def split: option.splits)

lemma mgr_inv_event_other:
  assumes "mgr_inv m" "ev_node_id e \<noteq> mg_node_id m"
  shows "mgr_inv (snd (apply_event e m))"
proof (cases "is_valid_member_event e")
  case True
  obtain n g b d where run: "apply_event e m = (Inr (), m\<lparr>mg_members := merged e (mg_clock m (mg_reads m)) (mg_members m),
      mg_reads := n, mg_gossip := g, mg_bootstrap_complete := b, mg_next_bootstrap_retry_at := d\<rparr>)" "gossip_grows (mg_gossip m) g"
    using apply_event_other [OF True assms(2)] by blast
  then show ?thesis using assms merged_ok [OF True] merged_others [of "mg_node_id m" e]
    by (auto simp: mgr_inv_def self_ok_def store_ok_def gossip_grows_valid)
next
  case False
  then show ?thesis using assms by (simp add: apply_event_def op_defs)
qed

lemma announce_run:
  assumes "map_of (mg_members m) (mg_node_id m) = Some me" "0 \<le> mg_incarnation m" "mg_incarnation m < 2 ^ 64"
  shows "\<exists>n g t. announce st m = (Inr (), m\<lparr>mg_members := AList.update (mg_node_id m)
      (me\<lparr>mr_incarnation := mg_incarnation m, mr_state := st, mr_address := mg_address m, mr_last_seen := t,
          mr_suspect_since := None\<rparr>) (mg_members m), mg_reads := n, mg_gossip := g\<rparr>) \<and> gossip_grows (mg_gossip m) g"
proof -
  let ?e = "\<lparr>ev_node_id = mg_node_id m, ev_address = mg_address m, ev_incarnation = word_of_int (mg_incarnation m),
    ev_state = st, ev_ts_ms = mg_wall_ms m (mg_reads m)\<rparr>"
  let ?t = "mg_clock m (Suc (mg_reads m))"
  let ?me = "me\<lparr>mr_incarnation := mg_incarnation m, mr_state := st, mr_address := mg_address m, mr_last_seen := ?t,
          mr_suspect_since := None\<rparr>"
  let ?m = "m\<lparr>mg_reads := Suc (Suc (mg_reads m)), mg_members := AList.update (mg_node_id m) ?me (mg_members m)\<rparr>"
  have "announce st m = gossip_add_event ?e ?m"
    using assms by (simp add: announce_def mk_member_event_def op_defs now_ms_def to_uint64_def monotonic_run put_member_def)
  moreover obtain n g where "gossip_add_event ?e ?m = (Inr (), ?m\<lparr>mg_reads := n, mg_gossip := g\<rparr>)" "gossip_grows (mg_gossip m) g"
    using gossip_add_event_run [of ?e ?m] by auto
  ultimately show ?thesis by (intro exI [of _ n] exI [of _ g] exI [of _ ?t]) simp
qed

lemma announce_overflow:
  "\<not> (0 \<le> mg_incarnation m \<and> mg_incarnation m < 2 ^ 64) \<Longrightarrow> announce st m = (Inl ValueError, m\<lparr>mg_reads := Suc (mg_reads m)\<rparr>)"
  by (auto simp: announce_def mk_member_event_def op_defs now_ms_def to_uint64_def)

lemma mgr_inv_self: "mgr_inv m \<Longrightarrow> \<exists>me. map_of (mg_members m) (mg_node_id m) = Some me \<and> record_ok (mg_node_id m, me)
    \<and> mr_incarnation me \<le> mg_incarnation m"
  by (cases "map_of (mg_members m) (mg_node_id m)")
    (auto simp: mgr_inv_def self_ok_def list_all_iff dest: map_of_SomeD)

lemma mgr_inv_announce:
  assumes "mgr_inv m" "st = ALIVE \<or> (st = LEFT \<and> mg_leaving m)"
  shows "mgr_inv (snd (announce st m))"
proof -
  obtain me where me: "map_of (mg_members m) (mg_node_id m) = Some me" "record_ok (mg_node_id m, me)"
    "mr_incarnation me \<le> mg_incarnation m" using mgr_inv_self [OF assms(1)] by blast
  then have ge: "1 \<le> mg_incarnation m" by (simp add: record_ok_def)
  show ?thesis
  proof (cases "mg_incarnation m < 2 ^ 64")
    case True
    obtain n g t where run: "announce st m = (Inr (), m\<lparr>mg_members := AList.update (mg_node_id m)
      (me\<lparr>mr_incarnation := mg_incarnation m, mr_state := st, mr_address := mg_address m, mr_last_seen := t,
          mr_suspect_since := None\<rparr>) (mg_members m), mg_reads := n, mg_gossip := g\<rparr>)" "gossip_grows (mg_gossip m) g"
      using announce_run [OF me(1) _ True] ge by fastforce
    have "record_ok (mg_node_id m, me\<lparr>mr_incarnation := mg_incarnation m, mr_state := st, mr_address := mg_address m,
        mr_last_seen := t, mr_suspect_since := None\<rparr>)"
      using me(2) ge True assms by (auto simp: record_ok_def mgr_inv_def self_ok_def is_valid_state_def VALID_EVENT_STATES_def)
    then show ?thesis using run assms
      by (auto simp: mgr_inv_def self_ok_def store_ok_def gossip_grows_valid list_all_update distinct_keys_update)
  next
    case False
    then show ?thesis using assms(1) announce_overflow [of m st]
      by (simp add: mgr_inv_def self_ok_def store_ok_def)
  qed
qed

lemma mgr_inv_reads [simp]: "mgr_inv (m\<lparr>mg_reads := n\<rparr>) = mgr_inv m"
  by (simp add: mgr_inv_def self_ok_def store_ok_def)

lemma mgr_inv_announce_alive: "mgr_inv m \<Longrightarrow> mgr_inv (snd (announce_alive m))"
  by (simp add: announce_alive_def op_read_def op_return_def mgr_inv_announce)

lemma self_record_raise: "self_record_ok a i l r \<Longrightarrow> i \<le> j \<Longrightarrow> self_record_ok a j l r"
  by (cases r) auto

text \<open>An event about the node itself: it is ignored, it fails without effect, or the node
  refutes it with a new incarnation.\<close>

definition refutes :: "manager \<Rightarrow> member_event \<Rightarrow> bool" where
  "refutes m e \<longleftrightarrow> \<not> mg_leaving m \<and> \<not> (ev_address e \<noteq> [] \<and> ev_address e \<noteq> mg_address m)
     \<and> ev_state e \<in> {SUSPECT, DEAD} \<and> mg_incarnation m \<le> uint (ev_incarnation e)"

lemma self_event_ignored: "\<not> refutes m e \<Longrightarrow> handle_self_event e m = (Inr (), m)"
  by (auto simp: handle_self_event_def op_defs refutes_def)

lemma self_event_failed:
  assumes "bump_above (mg_node_id m) (uint (ev_incarnation e)) (mg_store m) = (Inl x, st)"
  shows "snd (handle_self_event e m) = m"
  using assms bump_above_Inl [OF assms]
  by (cases "refutes m e") (auto simp: self_event_ignored handle_self_event_def op_defs in_store_def refutes_def)

lemma self_event_bumped:
  assumes "mgr_inv m" "refutes m e" "bump_above (mg_node_id m) (uint (ev_incarnation e)) (mg_store m) = (Inr n, st)"
  shows "handle_self_event e m = announce ALIVE (m\<lparr>mg_store := st, mg_incarnation := n\<rparr>)
    \<and> mgr_inv (m\<lparr>mg_store := st, mg_incarnation := n\<rparr>) \<and> mg_incarnation m \<le> n \<and> uint (ev_incarnation e) < n"
proof -
  have n: "stored_incarnation (mg_store m) < n" "read_unlocked st = Inr (py_strip (mg_node_id m), n)" "uint (ev_incarnation e) < n"
    using bump_above_Inr [OF assms(3)] by auto
  obtain k where k: "read_unlocked (mg_store m) = Inr (mg_node_id m, k)" "mg_incarnation m \<le> k"
    using assms(1) by (cases "read_unlocked (mg_store m)") (auto simp: mgr_inv_def store_ok_def)
  have "py_strip (mg_node_id m) = mg_node_id m" using read_unlocked_valid [OF k(1)] node_id_strip by blast
  moreover have "mg_incarnation m \<le> n" using n(1) k by (simp add: stored_incarnation_def)
  ultimately have "mgr_inv (m\<lparr>mg_store := st, mg_incarnation := n\<rparr>)" using assms(1) n(2)
    by (auto simp: mgr_inv_def self_ok_def store_ok_def intro: self_record_raise)
  then show ?thesis using assms \<open>mg_incarnation m \<le> n\<close> n(3)
    by (auto simp: handle_self_event_def op_defs in_store_def announce_alive_def refutes_def)
qed

lemma mgr_inv_self_event:
  assumes "mgr_inv m"
  shows "mgr_inv (snd (handle_self_event e m))"
proof (cases "bump_above (mg_node_id m) (uint (ev_incarnation e)) (mg_store m)")
  case (Pair r st)
  then show ?thesis
    using assms self_event_failed [of m e] self_event_bumped [OF assms] mgr_inv_announce [of _ ALIVE]
    by (cases r; cases "refutes m e") (auto simp: self_event_ignored)
qed

lemma mgr_inv_event: "mgr_inv m \<Longrightarrow> mgr_inv (snd (apply_event e m))"
  using mgr_inv_event_other [of m e] mgr_inv_self_event [of m e]
  by (cases "ev_node_id e = mg_node_id m") (auto simp: apply_event_def op_defs)

section \<open>Atomic steps\<close>

text \<open>The updates other threads can observe: an event applied to the view (under \<open>_lock\<close>), the
  bookkeeping of the buffer, the clocks and the bootstrap phase, and the node's own departure. The
  RPC handlers and the protocol loop are sequences of these steps, so what holds of every step
  holds for every interleaving of handlers at this granularity. (An event about the node itself
  counts as one step here.)\<close>

inductive mstep :: "manager \<Rightarrow> manager \<Rightarrow> bool" where
  ms_event: "mstep m (snd (apply_event e m))"
| ms_clock: "mstep m (m\<lparr>mg_reads := n\<rparr>)"
| ms_sample: "mstep m (m\<lparr>mg_gossip := gossip_gc t (mg_gossip m)\<rparr>)"
| ms_touch: "map_of (mg_members m) nid = Some r \<Longrightarrow>
    mstep m (m\<lparr>mg_members := AList.update nid (r\<lparr>mr_last_seen := t\<rparr>) (mg_members m)\<rparr>)"
| ms_seq: "mstep m (m\<lparr>mg_seq := n\<rparr>)"
| ms_boot: "mstep m (m\<lparr>mg_bootstrap_complete := b, mg_next_bootstrap_retry_at := d, mg_bootstrap_retry_nominal_s := s\<rparr>)"
| ms_boot_index: "i < length (mg_bootstrap_seeds m) \<Longrightarrow> mstep m (m\<lparr>mg_bootstrap_retry_index := i\<rparr>)"
| ms_boot_seeds: "mstep m (m\<lparr>mg_bootstrap_seeds := ss, mg_bootstrap_retry_index := 0, mg_bootstrap_retry_nominal_s := s\<rparr>)"
| ms_thread: "mstep m (m\<lparr>mg_stop := b, mg_thread := c\<rparr>)"
| ms_leaving: "mstep m (m\<lparr>mg_leaving := True, mg_stop := True\<rparr>)"
| ms_left: "mg_leaving m \<Longrightarrow> mstep m (snd (announce LEFT m))"
| ms_left_done: "mstep m (m\<lparr>mg_stop := True, mg_thread := False, mg_leave_complete := True\<rparr>)"

lemma mgr_inv_step:
  assumes "mgr_inv m" "mstep m m'"
  shows "mgr_inv m'"
  using assms(2)
proof cases
  case (ms_event e)
  then show ?thesis using assms(1) by (simp add: mgr_inv_event)
next
  case ms_left
  then show ?thesis using assms(1) by (simp add: mgr_inv_announce)
next
  case (ms_sample t)
  then show ?thesis using assms(1) gossip_grows_valid [OF gossip_grows_gc [of "mg_gossip m" t]]
    by (simp add: mgr_inv_def self_ok_def store_ok_def)
next
  case (ms_touch nid r t)
  have "record_ok (nid, r)" using assms(1) ms_touch by (auto simp: mgr_inv_def list_all_iff dest: map_of_SomeD)
  then have "record_ok (nid, r\<lparr>mr_last_seen := t\<rparr>)" by (simp add: record_ok_def)
  then show ?thesis using assms(1) ms_touch
    by (auto simp: mgr_inv_def self_ok_def store_ok_def list_all_update distinct_keys_update)
next
  case ms_leaving
  have "self_record_ok a i l r \<Longrightarrow> self_record_ok a i True r" for a i l r by (cases r) auto
  then show ?thesis using assms(1) ms_leaving by (auto simp: mgr_inv_def self_ok_def store_ok_def)
qed (use assms(1) in \<open>auto simp: mgr_inv_def self_ok_def store_ok_def\<close>)

interpretation ms: op_relation "mstep\<^sup>*\<^sup>*"
  by unfold_locales auto

lemma ms_step: "(\<And>m. mstep m (snd (f m))) \<Longrightarrow> ms.stays f"
  by (simp add: ms.staysI r_into_rtranclp)

lemma ms_apply_event: "ms.stays (apply_event e)"
  by (rule ms_step) (rule ms_event)

lemma ms_monotonic: "ms.stays monotonic" and ms_now_ms: "ms.stays now_ms"
  by (rule ms_step; simp add: monotonic_def now_ms_def ms_clock)+

lemma ms_modify: "(\<And>m. mstep m (f m)) \<Longrightarrow> ms.stays (op_modify f)"
  by (rule ms_step) (simp add: op_modify_def)

lemmas ms_basic = ms_apply_event ms_monotonic ms_now_ms

lemma ms_mk_member_event: "ms.stays (mk_member_event nid a i st)"
  unfolding mk_member_event_def by (intro ms.stays_intros ms_basic)

lemma ms_apply_gossip: "ms.stays (apply_gossip es)"
  unfolding apply_gossip_def by (intro ms.stays_intros ms_basic)

lemma ms_apply_nodeinfo: "ms.stays (apply_nodeinfo n st)"
  unfolding apply_nodeinfo_def by (intro ms.stays_intros ms_basic ms_mk_member_event)

lemma ms_sample_max: "ms.stays sample_max"
  unfolding sample_max_def sample_gossip_def by (intro ms.stays_intros ms_basic ms_modify ms_sample)

lemma ms_self_info: "ms.stays self_info"
  unfolding self_info_def by (intro ms.stays_intros)

lemma ms_touch_last_seen: "ms.stays (touch_last_seen nid)"
proof (rule ms.staysI)
  fix m
  show "mstep\<^sup>*\<^sup>* m (snd (touch_last_seen nid m))"
  proof (cases "map_of (mg_members m) nid")
    case (Some r)
    have "mstep (m\<lparr>mg_reads := Suc (mg_reads m)\<rparr>) ((m\<lparr>mg_reads := Suc (mg_reads m)\<rparr>)\<lparr>mg_members :=
        AList.update nid (r\<lparr>mr_last_seen := mg_clock m (mg_reads m)\<rparr>) (mg_members (m\<lparr>mg_reads := Suc (mg_reads m)\<rparr>))\<rparr>)"
      by (rule ms_touch) (simp add: Some)
    then have "mstep\<^sup>*\<^sup>* m (m\<lparr>mg_reads := Suc (mg_reads m), mg_members :=
        AList.update nid (r\<lparr>mr_last_seen := mg_clock m (mg_reads m)\<rparr>) (mg_members m)\<rparr>)"
      using ms_clock [of m "Suc (mg_reads m)"] by (auto intro: converse_rtranclp_into_rtranclp)
    then show ?thesis using Some by (simp add: touch_last_seen_def op_defs monotonic_run put_member_def)
  qed (simp add: touch_last_seen_def op_defs)
qed

lemma ms_with_record: "(\<And>r. ms.stays (f r)) \<Longrightarrow> ms.stays (with_record nid f)"
  unfolding with_record_def by (intro ms.stays_read) (auto split: option.split intro: ms.stays_pure)

lemmas ms_ops = ms_apply_event ms_monotonic ms_now_ms ms_mk_member_event ms_apply_gossip ms_apply_nodeinfo ms_sample_max
  ms_self_info ms_touch_last_seen ms_with_record ms.stays_intros

lemma ms_ping: "ms.stays (ping net target sq)" and ms_ping_req: "ms.stays (ping_req net helper target sq)"
  unfolding ping_def ping_req_def by (intro ms_ops)+

lemma ms_mark: "ms.stays (mark_suspect r)" "ms.stays (mark_dead r)"
  unfolding mark_suspect_def mark_dead_def by (intro ms_ops)+

lemma ms_expire: "ms.stays expire_suspects"
  unfolding expire_suspects_def by (intro ms_ops ms_mark)

lemma ms_ask_helpers: "ms.stays (ask_helpers net target sq hs)"
  by (induction hs) (auto intro!: ms_ops ms_ping_req)

lemma ms_swim_round: "ms.stays (run_swim_round net rnd)"
  unfolding run_swim_round_def Let_def by (intro ms_ops ms_expire ms_ping ms_ask_helpers ms_mark ms_modify ms_seq)

lemma ms_boot_modify:
  "ms.stays (op_modify (\<lambda>m. m\<lparr>mg_bootstrap_complete := True, mg_next_bootstrap_retry_at := None\<rparr>))"
  "ms.stays (op_modify (\<lambda>m. m\<lparr>mg_bootstrap_complete := False\<rparr>))"
  "ms.stays (op_modify (\<lambda>m. m\<lparr>mg_next_bootstrap_retry_at := d, mg_bootstrap_retry_nominal_s := s\<rparr>))"
proof -
  have "mstep m (m\<lparr>mg_bootstrap_complete := True, mg_next_bootstrap_retry_at := None\<rparr>)"
    and "mstep m (m\<lparr>mg_bootstrap_complete := False\<rparr>)"
    and "mstep m (m\<lparr>mg_next_bootstrap_retry_at := d, mg_bootstrap_retry_nominal_s := s\<rparr>)" for m
    using ms_boot [of m "mg_bootstrap_retry_nominal_s m" None True]
      ms_boot [of m "mg_bootstrap_retry_nominal_s m" "mg_next_bootstrap_retry_at m" False]
      ms_boot [of m s d "mg_bootstrap_complete m"] by simp_all
  then show "ms.stays (op_modify (\<lambda>m. m\<lparr>mg_bootstrap_complete := True, mg_next_bootstrap_retry_at := None\<rparr>))"
    "ms.stays (op_modify (\<lambda>m. m\<lparr>mg_bootstrap_complete := False\<rparr>))"
    "ms.stays (op_modify (\<lambda>m. m\<lparr>mg_next_bootstrap_retry_at := d, mg_bootstrap_retry_nominal_s := s\<rparr>))"
    by (auto intro: ms_modify)
qed

lemma ms_join_seed: "ms.stays (join_seed net seed)"
  unfolding join_seed_def by (intro ms_ops)

lemma ms_refresh: "ms.stays refresh_bootstrap_completion"
  unfolding refresh_bootstrap_completion_def complete_bootstrap_def by (intro ms_ops ms_boot_modify)

lemma ms_schedule: "ms.stays (schedule_next_bootstrap_retry rnd)"
  unfolding schedule_next_bootstrap_retry_def Let_def by (intro ms_ops ms_boot_modify)

lemma ms_seeds_loop: "ms.stays (bootstrap_seeds_loop net cancelled i seeds)"
  by (induction seeds arbitrary: i) (auto intro!: ms_ops ms_refresh ms_join_seed)

lemma ms_bootstrap_join: "ms.stays (bootstrap_join net rnd cancelled seeds)"
proof -
  have "ms.stays (op_modify (\<lambda>m. m\<lparr>mg_bootstrap_seeds := ss, mg_bootstrap_retry_index := 0,
      mg_bootstrap_retry_nominal_s := bootstrap_retry_interval_s (mg_settings m)\<rparr>))" for ss
    by (intro ms_modify ms_boot_seeds)
  then show ?thesis
    unfolding bootstrap_join_def Let_def by (intro ms_ops ms_seeds_loop ms_refresh ms_schedule ms_boot_modify)
qed

lemma ms_retry: "ms.stays (retry_bootstrap_if_due net rnd)"
proof -
  have step: "mstep\<^sup>*\<^sup>* m (m\<lparr>mg_bootstrap_retry_index := Suc i mod length (mg_bootstrap_seeds m)\<rparr>)"
    if "i < length (mg_bootstrap_seeds m)" for m i
    using that by (intro r_into_rtranclp ms_boot_index mod_less_divisor) auto
  have inner: "ms.stays (op_read (\<lambda>m.
         if (case mg_next_bootstrap_retry_at m of None \<Rightarrow> False | Some t \<Rightarrow> now < t) then op_return ()
         else if length (mg_bootstrap_seeds m) \<le> mg_bootstrap_retry_index m then op_raise IndexError
         else op_bind (op_modify (\<lambda>m'. m'\<lparr>mg_bootstrap_retry_index :=
                    (mg_bootstrap_retry_index m + 1) mod length (mg_bootstrap_seeds m)\<rparr>)) (\<lambda>_.
           op_bind (join_seed net (mg_bootstrap_seeds m ! mg_bootstrap_retry_index m)) (\<lambda>_.
           op_bind refresh_bootstrap_completion (\<lambda>done.
             if done then op_return () else schedule_next_bootstrap_retry rnd)))))" for now
    by (rule ms.stays_readI)
      (auto simp: op_return_def op_raise_def intro!: ms.modify_then step ms_ops ms_join_seed ms_refresh ms_schedule)
  show ?thesis
    unfolding retry_bootstrap_if_due_def Let_def
    by (rule ms.stays_read, rule ms.stays_if, rule ms.stays_pure, rule ms.stays_bind, rule ms_refresh,
        rule ms.stays_if, rule ms.stays_pure, rule ms.stays_bind, rule ms_monotonic, rule inner)
qed

lemma ms_swim_turn: "ms.stays (swim_turn net rnd stopped t)"
  unfolding swim_turn_def by (intro ms_ops ms_retry ms_swim_round)

lemma ms_start: "ms.stays start" and ms_stop: "ms.stays stop_protocol_loop"
  unfolding start_def stop_protocol_loop_def by (intro ms_ops ms_modify ms_thread)+

lemma ms_leave: "ms.stays leave"
proof (rule ms.staysI)
  fix m :: manager
  let ?m1 = "m\<lparr>mg_leaving := True, mg_stop := True\<rparr>"
  let ?m2 = "snd (announce LEFT ?m1)"
  let ?m3 = "?m2\<lparr>mg_stop := True, mg_thread := False, mg_leave_complete := True\<rparr>"
  have "snd (leave m) = (if mg_leaving m then m else ?m3)"
    by (auto simp: leave_def announce_left_def op_read_def op_return_def op_bind_def op_modify_def split: prod.splits sum.splits)
  moreover have "mstep\<^sup>*\<^sup>* m ?m1" "mstep\<^sup>*\<^sup>* ?m1 ?m2" "mstep\<^sup>*\<^sup>* ?m2 ?m3"
    by (intro r_into_rtranclp ms_leaving ms_left ms_left_done; simp)+
  ultimately show "mstep\<^sup>*\<^sup>* m (snd (leave m))" by (auto intro: rtranclp_trans)
qed

lemma ms_auth: "ms.stays (require_authorized_cluster_token a b)"
  unfolding require_authorized_cluster_token_def by (intro ms_ops)

lemma ms_helper_ping: "ms.stays (helper_ping net target sq)"
  unfolding helper_ping_def by (intro ms_ops)

lemma ms_rpc:
  "ms.stays (rpc_Join n tok)" "ms.stays (rpc_Ping n es tok)" "ms.stays (rpc_PingReq net n n' sq es tok)"
  "ms.stays (rpc_Leave n tok)" "ms.stays (rpc_GetMembers tok)"
  unfolding rpc_Join_def rpc_Ping_def rpc_PingReq_def rpc_Leave_def rpc_GetMembers_def
  by (intro ms_ops ms_auth ms_helper_ping)+

section \<open>Reachable managers\<close>

definition manager_init :: "manager \<Rightarrow> bool" where
  "manager_init m \<longleftrightarrow> (\<exists>store nid addr inc settings clock wall.
     mk_MembershipManager store nid addr inc settings clock wall = Inr m
     \<and> read_unlocked store = Inr (py_strip nid, inc) \<and> inc < 2 ^ 64)"

lemma manager_init_inv: "manager_init m \<Longrightarrow> mgr_inv m"
proof -
  assume "manager_init m"
  then obtain store nid addr inc settings clock wall where m: "mk_MembershipManager store nid addr inc settings clock wall = Inr m"
    and r: "read_unlocked store = Inr (py_strip nid, inc)" "inc < 2 ^ 64" by (auto simp: manager_init_def)
  have "1 \<le> inc" using read_unlocked_valid [OF r(1)] by simp
  then show ?thesis using m r
    by (auto simp: mk_MembershipManager_def Let_def mgr_inv_def self_ok_def store_ok_def record_ok_def is_valid_state_def
        VALID_EVENT_STATES_def split: if_splits)
qed

interpretation membership: inv_system manager_init mstep mgr_inv
  by unfold_locales (auto intro: manager_init_inv mgr_inv_step)

text \<open>The rank that events compete by, and the view they build.\<close>

definition rank :: "member_record \<Rightarrow> int \<times> int" where
  "rank r = (mr_incarnation r, mr_state r)"

definition view :: "manager \<Rightarrow> string \<Rightarrow> (int \<times> int) option" where
  "view m nid = map_option rank (map_of (mg_members m) nid)"

definition rank_le :: "(int \<times> int) option \<Rightarrow> (int \<times> int) option \<Rightarrow> bool" where
  "rank_le a b \<longleftrightarrow> (case a of None \<Rightarrow> True | Some x \<Rightarrow> (case b of None \<Rightarrow> False | Some y \<Rightarrow> x \<le> y))"

lemma rank_le_simps [simp]: "rank_le None b" "rank_le (Some x) (Some y) = (x \<le> y)" "\<not> rank_le (Some x) None" "rank_le a a"
  by (simp_all add: rank_le_def split: option.split)

lemma rank_le_trans: "rank_le a b \<Longrightarrow> rank_le b c \<Longrightarrow> rank_le a c"
  by (auto simp: rank_le_def split: option.splits)

lemma rank_apply [simp]:
  "rank (apply_event_to_record e t True r) = (uint (ev_incarnation e), ev_state e)"
  "rank (apply_event_to_record e t False r) = (mr_incarnation r, ev_state e)"
  "rank (new_record_from_event e t) = (uint (ev_incarnation e), ev_state e)"
  by (simp_all add: rank_def apply_event_to_record_def new_record_from_event_def Let_def)

definition ev_rank :: "member_event \<Rightarrow> int \<times> int" where
  "ev_rank e = (uint (ev_incarnation e), ev_state e)"

text \<open>The abstract view: an event about another node raises that node's entry to the maximum of
  both ranks.\<close>

definition join_rank :: "(int \<times> int) option \<Rightarrow> int \<times> int \<Rightarrow> (int \<times> int) option" where
  "join_rank a x = Some (case a of None \<Rightarrow> x | Some y \<Rightarrow> max y x)"

lemma merged_view:
  assumes "is_valid_member_event e" "list_all record_ok ms"
  shows "map_option rank (map_of (merged e t ms) (ev_node_id e)) = join_rank (map_option rank (map_of ms (ev_node_id e))) (ev_rank e)"
proof (cases "map_of ms (ev_node_id e)")
  case None
  then show ?thesis by (simp add: merged_def join_rank_def ev_rank_def)
next
  case (Some r)
  then have "is_valid_state (mr_state r)" using assms(2) by (auto simp: list_all_iff record_ok_def dest: map_of_SomeD)
  moreover have "is_valid_state (ev_state e)" using assms(1) by (simp add: is_valid_member_event_def)
  ultimately show ?thesis using Some
    by (auto simp: merged_def join_rank_def ev_rank_def max_def rank_def less_eq_prod_def apply_event_to_record_def Let_def)
qed

lemma apply_event_view:
  assumes "mgr_inv m" "is_valid_member_event e" "ev_node_id e \<noteq> mg_node_id m"
  shows "fst (apply_event e m) = Inr () \<and> mg_node_id (snd (apply_event e m)) = mg_node_id m
    \<and> view (snd (apply_event e m)) = (view m)(ev_node_id e := join_rank (view m (ev_node_id e)) (ev_rank e))"
proof -
  obtain n g b d where run: "apply_event e m = (Inr (), m\<lparr>mg_members := merged e (mg_clock m (mg_reads m)) (mg_members m),
      mg_reads := n, mg_gossip := g, mg_bootstrap_complete := b, mg_next_bootstrap_retry_at := d\<rparr>)"
    using apply_event_other [OF assms(2,3)] by blast
  have "view (snd (apply_event e m)) k = ((view m)(ev_node_id e := join_rank (view m (ev_node_id e)) (ev_rank e))) k" for k
    using merged_view [OF assms(2)] assms(1) merged_others [of k e]
    by (cases "k = ev_node_id e") (auto simp: view_def run mgr_inv_def)
  then show ?thesis using run by auto
qed

section \<open>Views only move forward\<close>

lemma join_rank_le [simp]: "rank_le a (join_rank a x)"
  by (simp add: rank_le_def join_rank_def split: option.split)

lemma announce_view:
  assumes "mgr_inv m" "st = ALIVE \<and> \<not> mg_leaving m \<or> st = LEFT"
  shows "rank_le (view m k) (view (snd (announce st m)) k)"
proof -
  obtain me where me: "map_of (mg_members m) (mg_node_id m) = Some me" "record_ok (mg_node_id m, me)"
    "mr_incarnation me \<le> mg_incarnation m" using mgr_inv_self [OF assms(1)] by blast
  have ge: "0 \<le> mg_incarnation m" using me by (simp add: record_ok_def)
  show ?thesis
  proof (cases "mg_incarnation m < 2 ^ 64")
    case True
    have "mr_state me \<le> st"
      using assms me(1) by (auto simp: mgr_inv_def self_ok_def)
    then show ?thesis using announce_run [OF me(1) ge True, of st] me(1,3)
      by (cases "k = mg_node_id m") (auto simp: view_def rank_def less_eq_prod_def)
  qed (use announce_overflow [of m st] in \<open>simp add: view_def\<close>)
qed

lemma self_event_view:
  assumes "mgr_inv m"
  shows "rank_le (view m k) (view (snd (handle_self_event e m)) k)"
proof (cases "bump_above (mg_node_id m) (uint (ev_incarnation e)) (mg_store m)")
  case (Pair r st)
  show ?thesis
  proof (cases "\<exists>n. r = Inr n \<and> refutes m e")
    case True
    then obtain n where n: "r = Inr n" "refutes m e" by blast
    let ?m = "m\<lparr>mg_store := st, mg_incarnation := n\<rparr>"
    have run: "handle_self_event e m = announce ALIVE ?m" "mgr_inv ?m"
      using self_event_bumped [OF assms n(2)] Pair n(1) by auto
    have "rank_le (view ?m k) (view (snd (announce ALIVE ?m)) k)"
      using n(2) by (intro announce_view run(2)) (simp add: refutes_def)
    then show ?thesis unfolding run(1) by (simp add: view_def)
  next
    case False
    then have "snd (handle_self_event e m) = m"
      using Pair self_event_failed [of m e] by (cases r) (auto simp: self_event_ignored)
    then show ?thesis by simp
  qed
qed

lemma event_view: "mgr_inv m \<Longrightarrow> rank_le (view m k) (view (snd (apply_event e m)) k)"
proof (cases "is_valid_member_event e \<and> ev_node_id e \<noteq> mg_node_id m")
  case True
  then show "mgr_inv m \<Longrightarrow> ?thesis" using apply_event_view [of m e] by auto
next
  case False
  then show "mgr_inv m \<Longrightarrow> ?thesis" using self_event_view [of m k e] by (auto simp: apply_event_def op_defs)
qed

lemma mstep_view:
  assumes "mgr_inv m" "mstep m m'"
  shows "rank_le (view m k) (view m' k)"
  using assms(2)
proof cases
  case (ms_event e)
  then show ?thesis using assms(1) by (simp add: event_view)
next
  case ms_left
  then show ?thesis using assms(1) by (simp add: announce_view)
next
  case (ms_touch nid r t)
  then show ?thesis by (cases "k = nid") (simp_all add: view_def rank_def)
qed (simp_all add: view_def)

lemma msteps_view: "mstep\<^sup>*\<^sup>* m m' \<Longrightarrow> mgr_inv m \<Longrightarrow> rank_le (view m k) (view m' k)"
proof (induction rule: rtranclp_induct)
  case (step y z)
  then have "rank_le (view m k) (view y k)" "rank_le (view y k) (view z k)"
    using mstep_view membership.inv_steps by blast+
  then show ?case by (rule rank_le_trans)
qed simp

section \<open>Properties of the protocol\<close>

lemma snapshot_run:
  assumes "mgr_inv m"
  shows "get_members_snapshot b m = Inr (map (\<lambda>r. \<lparr>ni_node_id = mr_node_id r, ni_address = mr_address r,
      ni_incarnation = word_of_int (mr_incarnation r)\<rparr>)
    (filter (\<lambda>r. \<not> (b \<and> mr_state r \<noteq> ALIVE) \<and> \<not> (b \<and> mr_node_id r = mg_node_id m \<and> mg_leaving m)) (map snd (mg_members m))))"
  unfolding get_members_snapshot_def
proof -
  have "mk_NodeInfo (mr_node_id r) (mr_address r) (mr_incarnation r) = Inr \<lparr>ni_node_id = mr_node_id r, ni_address = mr_address r,
      ni_incarnation = word_of_int (mr_incarnation r)\<rparr>" if "r \<in> snd ` set (mg_members m)" for r
    using that assms by (auto simp: mk_NodeInfo_def to_uint64_def mgr_inv_def list_all_iff record_ok_def)
  then show "mapE (\<lambda>r. mk_NodeInfo (mr_node_id r) (mr_address r) (mr_incarnation r))
      (filter (\<lambda>r. \<not> (b \<and> mr_state r \<notin> set ELIGIBLE_STATES) \<and> \<not> (b \<and> mr_node_id r = mg_node_id m \<and> mg_leaving m))
        (map snd (mg_members m))) = Inr (map (\<lambda>r. \<lparr>ni_node_id = mr_node_id r, ni_address = mr_address r,
      ni_incarnation = word_of_int (mr_incarnation r)\<rparr>)
    (filter (\<lambda>r. \<not> (b \<and> mr_state r \<noteq> ALIVE) \<and> \<not> (b \<and> mr_node_id r = mg_node_id m \<and> mg_leaving m)) (map snd (mg_members m))))"
    by (subst mapE_total) (auto simp: ELIGIBLE_STATES_def)
qed

lemma inv_member_ids: "mgr_inv m \<Longrightarrow> map mr_node_id (map snd (mg_members m)) = map fst (mg_members m)"
  by (auto simp: mgr_inv_def list_all_iff record_ok_def)

lemma snapshot_ok:
  assumes "mgr_inv m"
  shows "\<exists>ns. get_members_snapshot True m = Inr ns \<and> distinct (map ni_node_id ns) \<and> list_all is_valid_nodeinfo ns
    \<and> (\<forall>k. k \<in> ni_node_id ` set ns \<longleftrightarrow> (\<exists>i. view m k = Some (i, ALIVE)) \<and> \<not> (k = mg_node_id m \<and> mg_leaving m))"
proof -
  let ?P = "\<lambda>r. mr_state r = ALIVE \<and> \<not> (mr_node_id r = mg_node_id m \<and> mg_leaving m)"
  let ?rs = "filter ?P (map snd (mg_members m))"
  let ?ns = "map (\<lambda>r. \<lparr>ni_node_id = mr_node_id r, ni_address = mr_address r, ni_incarnation = word_of_int (mr_incarnation r)\<rparr>) ?rs"
  have run: "get_members_snapshot True m = Inr ?ns"
    using snapshot_run [OF assms, of True] by (simp add: conj_commute)
  have "distinct (map mr_node_id (map snd (mg_members m)))"
    using assms unfolding inv_member_ids [OF assms] by (simp add: mgr_inv_def)
  then have "distinct (map mr_node_id ?rs)" by (rule distinct_map_filter_sub)
  then have d: "distinct (map ni_node_id ?ns)" by (simp add: comp_def)
  have rec: "record_ok p" if "p \<in> set (mg_members m)" for p using assms that by (auto simp: mgr_inv_def list_all_iff)
  have v: "list_all is_valid_nodeinfo ?ns"
    using rec by (fastforce simp: list_all_iff record_ok_def is_valid_nodeinfo_def is_valid_incarnation_def uint_word_of_int)
  have "k \<in> ni_node_id ` set ?ns \<longleftrightarrow> (\<exists>i. view m k = Some (i, ALIVE)) \<and> \<not> (k = mg_node_id m \<and> mg_leaving m)" for k
  proof -
    have "k \<in> ni_node_id ` set ?ns \<longleftrightarrow> (\<exists>r. (k, r) \<in> set (mg_members m) \<and> ?P r)"
      using rec by (fastforce simp: record_ok_def image_iff)
    also have "\<dots> \<longleftrightarrow> (\<exists>r. map_of (mg_members m) k = Some r \<and> ?P r)"
      using assms by (metis map_of_eq_Some_iff mgr_inv_def)
    also have "\<dots> \<longleftrightarrow> (\<exists>i. view m k = Some (i, ALIVE)) \<and> \<not> (k = mg_node_id m \<and> mg_leaving m)"
      using rec by (fastforce simp: view_def rank_def record_ok_def dest: map_of_SomeD)
    finally show ?thesis .
  qed
  then show ?thesis using run d v by blast
qed




subsection \<open>Convergence\<close>

fun join_all :: "(int \<times> int) option \<Rightarrow> (int \<times> int) list \<Rightarrow> (int \<times> int) option" where
  "join_all a [] = a"
| "join_all a (x # xs) = join_all (join_rank a x) xs"

lemma join_all_Some: "join_all (Some y) xs = Some (Max (insert y (set xs)))"
proof (induction xs arbitrary: y)
  case (Cons x xs)
  have "Max (insert y (insert x (set xs))) = Max (insert (max y x) (set xs))"
    by (cases "xs = []") (auto simp: max.assoc)
  then show ?case using Cons.IH by (simp add: join_rank_def)
qed simp

lemma join_all_set: "join_all a xs = (if xs = [] then a else Some (Max (set_option a \<union> set xs)))"
proof (cases a)
  case None
  then show ?thesis by (cases xs) (simp_all add: join_rank_def join_all_Some)
next
  case (Some y)
  then show ?thesis by (cases "xs = []") (simp_all add: join_all_Some)
qed

lemma events_view:
  assumes "mgr_inv m" "list_all (\<lambda>e. is_valid_member_event e \<and> ev_node_id e \<noteq> mg_node_id m) es"
  shows "fst (op_iter apply_event es m) = Inr ()
    \<and> view (snd (op_iter apply_event es m)) k = join_all (view m k) (map ev_rank (filter (\<lambda>e. ev_node_id e = k) es))"
  using assms
proof (induction es arbitrary: m)
  case (Cons e es)
  let ?m = "snd (apply_event e m)"
  have e: "fst (apply_event e m) = Inr ()" "mg_node_id ?m = mg_node_id m"
    "view ?m = (view m)(ev_node_id e := join_rank (view m (ev_node_id e)) (ev_rank e))"
    using apply_event_view [OF Cons.prems(1)] Cons.prems(2) by auto
  have "op_iter apply_event (e # es) m = op_iter apply_event es ?m"
    using e(1) by (cases "apply_event e m") (simp add: op_bind_def)
  then show ?case using Cons.IH [OF mgr_inv_event [OF Cons.prems(1)], of e] Cons.prems(2) e(2,3) by auto
qed (simp add: op_return_def)

text \<open>C23. Views converge: two nodes that start from the same entry for a third one and have applied
  the same set of valid events, in any order and with any repetition, agree on its incarnation and
  state, namely the maximum of what they knew and what the events say.\<close>

theorem views_converge:
  assumes "mgr_inv m1" "mgr_inv m2"
    and "list_all (\<lambda>e. is_valid_member_event e \<and> ev_node_id e \<notin> {mg_node_id m1, mg_node_id m2}) (es1 @ es2)"
    and "set es1 = set es2" "view m1 k = view m2 k"
  shows "view (snd (op_iter apply_event es1 m1)) k = view (snd (op_iter apply_event es2 m2)) k
    \<and> view (snd (op_iter apply_event es1 m1)) k =
        (let rs = set_option (view m1 k) \<union> ev_rank ` {e \<in> set es1. ev_node_id e = k} in if rs = {} then None else Some (Max rs))"
proof -
  let ?rs = "\<lambda>es. map ev_rank (filter (\<lambda>e. ev_node_id e = k) es)"
  have v: "view (snd (op_iter apply_event es1 m1)) k = join_all (view m1 k) (?rs es1)"
    "view (snd (op_iter apply_event es2 m2)) k = join_all (view m2 k) (?rs es2)"
    using events_view [OF assms(1), of es1 k] events_view [OF assms(2), of es2 k] assms(3) by (auto simp: list_all_iff)
  have s: "set (?rs es1) = ev_rank ` {e \<in> set es1. ev_node_id e = k}" "set (?rs es2) = ev_rank ` {e \<in> set es1. ev_node_id e = k}"
    using assms(4) by auto
  have eq: "join_all a xs = join_all a ys" if "set xs = set ys" for a and xs ys :: "(int \<times> int) list"
    using that by (cases "xs = []") (auto simp: join_all_set)
  have J: "join_all a xs = (if set_option a \<union> set xs = {} then None else Some (Max (set_option a \<union> set xs)))" for a and xs :: "(int \<times> int) list"
    by (cases a) (auto simp: join_all_set)
  have "join_all (view m1 k) (?rs es1) = join_all (view m2 k) (?rs es2)"
    unfolding assms(5) by (rule eq) (simp only: s)
  then show ?thesis unfolding v J [of "view m1 k" "?rs es1"] s(1) Let_def by simp
qed

subsection \<open>Departure\<close>

definition has_left :: "manager \<Rightarrow> bool" where
  "has_left m \<longleftrightarrow> mgr_inv m \<and> mg_leaving m \<and> (\<exists>i. view m (mg_node_id m) = Some (i, LEFT))"

lemma has_left_step:
  assumes "has_left m" "mstep m m'"
  shows "has_left m' \<and> mg_node_id m' = mg_node_id m"
proof -
  have inv: "mgr_inv m'" using assms mgr_inv_step by (auto simp: has_left_def)
  have "mg_node_id m' = mg_node_id m \<and> mg_leaving m' \<and> (\<exists>i. view m' (mg_node_id m) = Some (i, LEFT))"
    using assms(2)
  proof cases
    case (ms_event e)
    show ?thesis
    proof (cases "is_valid_member_event e \<and> ev_node_id e \<noteq> mg_node_id m")
      case True
      then show ?thesis using assms(1) apply_event_other [of e m] apply_event_view [of m e] ms_event
        by (auto simp: has_left_def)
    next
      case False
      then have "m' = m" using ms_event assms(1) self_event_ignored [of m e]
        by (auto simp: apply_event_def op_defs has_left_def refutes_def)
      then show ?thesis using assms(1) by (simp add: has_left_def)
    qed
  next
    case ms_left
    obtain me where me: "map_of (mg_members m) (mg_node_id m) = Some me" "record_ok (mg_node_id m, me)"
      "mr_incarnation me \<le> mg_incarnation m" using mgr_inv_self assms(1) by (auto simp: has_left_def)
    then have ge: "0 \<le> mg_incarnation m" by (simp add: record_ok_def)
    show ?thesis
    proof (cases "mg_incarnation m < 2 ^ 64")
      case True
      then show ?thesis using announce_run [OF me(1) ge True, of LEFT] assms(1) ms_left
        by (auto simp: has_left_def view_def rank_def)
    next
      case False
      then show ?thesis using announce_overflow [of m LEFT] assms(1) ms_left by (auto simp: has_left_def view_def)
    qed
  next
    case (ms_touch nid r t)
    then show ?thesis using assms(1) by (cases "nid = mg_node_id m") (auto simp: has_left_def view_def rank_def)
  qed (use assms(1) in \<open>auto simp: has_left_def view_def\<close>)
  then show ?thesis using inv by (auto simp: has_left_def)
qed

lemma has_left_steps: "mstep\<^sup>*\<^sup>* m m' \<Longrightarrow> has_left m \<Longrightarrow> has_left m' \<and> mg_node_id m' = mg_node_id m"
  by (induction rule: rtranclp_induct) (auto dest: has_left_step)

lemma leave_has_left:
  assumes "mgr_inv m" "\<not> mg_leaving m" "mg_incarnation m < 2 ^ 64"
  shows "\<exists>as. fst (leave m) = Inr as \<and> has_left (snd (leave m)) \<and> mg_node_id (snd (leave m)) = mg_node_id m"
proof -
  let ?m1 = "m\<lparr>mg_leaving := True, mg_stop := True\<rparr>"
  have inv1: "mgr_inv ?m1" using assms(1) ms_leaving mgr_inv_step by blast
  obtain me where me: "map_of (mg_members ?m1) (mg_node_id ?m1) = Some me" "record_ok (mg_node_id ?m1, me)"
    "mr_incarnation me \<le> mg_incarnation ?m1" using mgr_inv_self [OF inv1] by blast
  then have ge: "0 \<le> mg_incarnation ?m1" by (simp add: record_ok_def)
  obtain n g t where run: "announce LEFT ?m1 = (Inr (), ?m1\<lparr>mg_members := AList.update (mg_node_id m)
      (me\<lparr>mr_incarnation := mg_incarnation m, mr_state := LEFT, mr_address := mg_address m, mr_last_seen := t,
          mr_suspect_since := None\<rparr>) (mg_members m), mg_reads := n, mg_gossip := g\<rparr>)"
    using announce_run [OF me(1) ge] assms(3) by fastforce
  have "mstep\<^sup>*\<^sup>* m (snd (leave m))" by (rule ms.stays_state [OF ms_leave])
  then have "mgr_inv (snd (leave m))" using membership.inv_steps assms(1) by blast
  then show ?thesis using assms(2)
    by (auto simp: leave_def announce_left_def op_read_def op_return_def op_bind_def op_modify_def run has_left_def view_def rank_def)
qed


subsection \<open>Refuting a suspicion\<close>

lemma refutation:
  assumes "mgr_inv m" "refutes m e" "bump_above (mg_node_id m) (uint (ev_incarnation e)) (mg_store m) = (Inr n, st)"
    and "n < 2 ^ 64" "is_valid_member_event e" "ev_node_id e = mg_node_id m"
  shows "fst (apply_event e m) = Inr () \<and> view (snd (apply_event e m)) (mg_node_id m) = Some (n, ALIVE)
    \<and> mg_store (snd (apply_event e m)) = st \<and> mg_incarnation (snd (apply_event e m)) = n \<and> uint (ev_incarnation e) < n"
proof -
  let ?m = "m\<lparr>mg_store := st, mg_incarnation := n\<rparr>"
  have b: "handle_self_event e m = announce ALIVE ?m" "mgr_inv ?m" "uint (ev_incarnation e) < n"
    using self_event_bumped [OF assms(1-3)] by auto
  have run: "apply_event e m = announce ALIVE ?m" using assms(5,6) b(1) by (simp add: apply_event_def op_read_def)
  obtain me where me: "map_of (mg_members ?m) (mg_node_id ?m) = Some me" "record_ok (mg_node_id ?m, me)"
    "mr_incarnation me \<le> mg_incarnation ?m" using mgr_inv_self [OF b(2)] by blast
  then have ge: "0 \<le> mg_incarnation ?m" by (simp add: record_ok_def)
  show ?thesis using announce_run [OF me(1) ge, of ALIVE] assms(4) b(3) unfolding run by (auto simp: view_def rank_def)
qed

text \<open>Whether \<open>bump_above\<close> succeeds: the stored identity is the node's and the disk is writable.\<close>

lemma bump_succeeds:
  assumes "mgr_inv m" "writable (mg_store m)"
  shows "\<exists>st. bump_above (mg_node_id m) (uint w) (mg_store m)
    = (Inr (max (stored_incarnation (mg_store m)) (uint w) + 1), st) \<and> read_unlocked st =
       Inr (mg_node_id m, max (stored_incarnation (mg_store m)) (uint w) + 1)"
proof -
  obtain k where k: "read_unlocked (mg_store m) = Inr (mg_node_id m, k)"
    using assms(1) by (cases "read_unlocked (mg_store m)") (auto simp: mgr_inv_def store_ok_def)
  have v: "is_node_id (mg_node_id m)" "1 \<le> k" using read_unlocked_valid [OF k] by auto
  then have id: "py_strip (mg_node_id m) = mg_node_id m" "mg_node_id m \<noteq> []"
    using node_id_strip by (auto simp: is_node_id_def)
  have w: "require_node_id (mg_node_id m) = Inr (mg_node_id m)" using v(1) id(1) by (simp add: require_node_id_iff)
  have "bump_above (mg_node_id m) (uint w) (mg_store m) = (Inr (max k (uint w) + 1),
      (mg_store m)\<lparr>id_file := Text (mg_node_id m @ [CHR 0x0A] @ dec_int (max k (uint w) + 1) @ [CHR 0x0A])\<rparr>)"
    using v(2) id w k assms(2) by (simp add: bump_above_def Let_def op_defs write_unlocked_def)
  moreover have "stored_incarnation (mg_store m) = k" by (simp add: stored_incarnation_def k)
  moreover have "read_unlocked ((mg_store m)\<lparr>id_file := Text (mg_node_id m @ [CHR 0x0A] @ dec_int (max k (uint w) + 1) @ [CHR 0x0A])\<rparr>)
      = Inr (mg_node_id m, max k (uint w) + 1)"
    using v by (intro read_written) auto
  ultimately show ?thesis by simp
qed

text \<open>A live node refutes suspicions: when a reachable node hears that it is suspected or dead
  at its own address with an incarnation it has not yet outgrown, and its identity file is
  writable and not at the end of the 64-bit range, it becomes ALIVE with a larger incarnation,
  which is persisted before it is announced; a peer that had believed the suspicion believes the
  announcement instead.\<close>

theorem suspicion_is_refuted:
  assumes "manager_init m0" "mstep\<^sup>*\<^sup>* m0 m" "is_valid_member_event e" "ev_node_id e = mg_node_id m" "refutes m e"
    and "writable (mg_store m)" "max (stored_incarnation (mg_store m)) (uint (ev_incarnation e)) + 1 < 2 ^ 64"
    and "mgr_inv peer" "mg_node_id peer \<noteq> mg_node_id m" "view peer (mg_node_id m) = Some (ev_rank e)"
    and "is_valid_member_event a" "ev_node_id a = mg_node_id m" "ev_state a = ALIVE"
    and "uint (ev_incarnation a) = mg_incarnation (snd (apply_event e m))"
  shows "\<exists>n > uint (ev_incarnation e). fst (apply_event e m) = Inr ()
      \<and> view (snd (apply_event e m)) (mg_node_id m) = Some (n, ALIVE)
      \<and> read_unlocked (mg_store (snd (apply_event e m))) = Inr (mg_node_id m, n)
      \<and> view (snd (apply_event a peer)) (mg_node_id m) = Some (n, ALIVE)"
proof -
  have inv: "mgr_inv m" using membership.inv_reachable [OF assms(1,2)] .
  let ?n = "max (stored_incarnation (mg_store m)) (uint (ev_incarnation e)) + 1"
  obtain st where b: "bump_above (mg_node_id m) (uint (ev_incarnation e)) (mg_store m) = (Inr ?n, st)"
    "read_unlocked st = Inr (mg_node_id m, ?n)" using bump_succeeds [OF inv assms(6)] by blast
  note r = refutation [OF inv assms(5) b(1) assms(7,3,4)]
  have "view (snd (apply_event a peer)) (mg_node_id m) = join_rank (Some (ev_rank e)) (ev_rank a)"
    using apply_event_view [OF assms(8,11)] assms(9,10,12) by simp
  also have "\<dots> = Some (?n, ALIVE)"
    using r assms(13,14) by (auto simp: join_rank_def ev_rank_def max_def less_eq_prod_def)
  finally show ?thesis using r b(2) by (intro exI [of _ ?n]) auto
qed

text \<open>The end of the 64-bit range: a suspicion with the largest incarnation a message can carry
  makes the node persist an incarnation no message can carry. The handler fails with
  \<open>ValueError\<close>, and from then on every direct ping of the protocol loop raises \<open>ValueError\<close>
  before anything is sent.\<close>

theorem incarnation_range_exhausted:
  assumes "manager_init m0" "mstep\<^sup>*\<^sup>* m0 m" "is_valid_member_event e" "ev_node_id e = mg_node_id m" "refutes m e"
    and "writable (mg_store m)" "uint (ev_incarnation e) = 2 ^ 64 - 1"
  shows "fst (apply_event e m) = Inl ValueError \<and> 2 ^ 64 \<le> mg_incarnation (snd (apply_event e m))
    \<and> fst (ping net target sq (snd (apply_event e m))) = Inl ValueError"
proof -
  have inv: "mgr_inv m" using membership.inv_reachable [OF assms(1,2)] .
  let ?n = "max (stored_incarnation (mg_store m)) (uint (ev_incarnation e)) + 1"
  obtain st where b: "bump_above (mg_node_id m) (uint (ev_incarnation e)) (mg_store m) = (Inr ?n, st)"
    using bump_succeeds [OF inv assms(6)] by blast
  let ?m = "m\<lparr>mg_store := st, mg_incarnation := ?n\<rparr>"
  have n: "2 ^ 64 \<le> ?n" using assms(7) by simp
  have "apply_event e m = announce ALIVE ?m"
    using self_event_bumped [OF inv assms(5) b] assms(3,4) by (simp add: apply_event_def op_read_def)
  also have "\<dots> = (Inl ValueError, ?m\<lparr>mg_reads := Suc (mg_reads ?m)\<rparr>)" using n by (intro announce_overflow) (auto simp: max_def split: if_splits)
  finally show ?thesis using n by (auto simp: ping_def self_info_def mk_NodeInfo_def to_uint64_def op_defs)
qed

subsection \<open>Failure detection\<close>

lemma mk_member_event_run:
  assumes "0 \<le> inc" "inc < 2 ^ 64"
  shows "\<exists>ts n. mk_member_event nid addr inc st m = (Inr \<lparr>ev_node_id = nid, ev_address = addr, ev_incarnation = word_of_int inc,
      ev_state = st, ev_ts_ms = ts\<rparr>, m\<lparr>mg_reads := n\<rparr>)"
  using assms by (intro exI [of _ "mg_wall_ms m (mg_reads m)"] exI [of _ "Suc (mg_reads m)"])
    (simp add: mk_member_event_def op_defs now_ms_def to_uint64_def)

text \<open>Marking a known member raises its entry to at least the mark.\<close>

lemma mark_member:
  assumes "mgr_inv m" "record_ok (k, r)" "k \<noteq> mg_node_id m" "is_valid_state st"
  shows "fst (op_bind (mk_member_event (mr_node_id r) (mr_address r) (mr_incarnation r) st) apply_event m) = Inr ()
    \<and> rank_le (Some (mr_incarnation r, st))
        (view (snd (op_bind (mk_member_event (mr_node_id r) (mr_address r) (mr_incarnation r) st) apply_event m)) k)"
proof -
  have r: "0 \<le> mr_incarnation r" "mr_incarnation r < 2 ^ 64" "mr_node_id r = k" using assms(2) by (auto simp: record_ok_def)
  obtain ts n where e: "mk_member_event (mr_node_id r) (mr_address r) (mr_incarnation r) st m
      = (Inr \<lparr>ev_node_id = mr_node_id r, ev_address = mr_address r, ev_incarnation = word_of_int (mr_incarnation r),
          ev_state = st, ev_ts_ms = ts\<rparr>, m\<lparr>mg_reads := n\<rparr>)"
    using mk_member_event_run [OF r(1,2)] by blast
  let ?e = "\<lparr>ev_node_id = mr_node_id r, ev_address = mr_address r, ev_incarnation = word_of_int (mr_incarnation r),
          ev_state = st, ev_ts_ms = ts\<rparr>"
  have u: "uint (word_of_int (mr_incarnation r) :: 64 word) = mr_incarnation r"
    using r(1,2) by (simp add: uint_word_of_int)
  have "is_valid_member_event ?e" using assms(2,4) r(3) u by (auto simp: is_valid_member_event_def record_ok_def is_valid_incarnation_def)
  then show ?thesis using apply_event_view [of "m\<lparr>mg_reads := n\<rparr>" ?e] assms(1,3) r(3) u
    by (auto simp: op_bind_def e ev_rank_def join_rank_def split: option.split)
qed

lemma mark_dead_view:
  assumes "mgr_inv m" "record_ok (k, r)" "k \<noteq> mg_node_id m"
  shows "fst (mark_dead r m) = Inr () \<and> rank_le (Some (mr_incarnation r, DEAD)) (view (snd (mark_dead r m)) k)"
  unfolding mark_dead_def by (rule mark_member [OF assms]) (simp add: is_valid_state_def VALID_EVENT_STATES_def)

lemma mark_suspect_view:
  assumes "mgr_inv m" "record_ok (k, r)" "k \<noteq> mg_node_id m"
  shows "fst (mark_suspect r m) = Inr () \<and> rank_le (Some (mr_incarnation r, SUSPECT)) (view (snd (mark_suspect r m)) k)"
  unfolding mark_suspect_def by (rule mark_member [OF assms]) (simp add: is_valid_state_def VALID_EVENT_STATES_def)

lemma mstep_node_id:
  assumes "mstep m m'"
  shows "mg_node_id m' = mg_node_id m"
  using assms
proof cases
  case (ms_event e)
  show ?thesis
  proof (cases "is_valid_member_event e \<and> ev_node_id e \<noteq> mg_node_id m")
    case True
    then show ?thesis using apply_event_other [of e m] ms_event by auto
  next
    case False
    then show ?thesis unfolding ms_event apply_event_def handle_self_event_def op_read_def
      by (auto simp: op_defs in_store_def announce_alive_def announce_def mk_member_event_def now_ms_def monotonic_def
          put_member_def gossip_add_event_def split: prod.splits sum.splits option.splits if_splits)
  qed
next
  case ms_left
  then show ?thesis
    by (auto simp: op_defs announce_def mk_member_event_def now_ms_def monotonic_def
          put_member_def gossip_add_event_def split: prod.splits sum.splits option.splits if_splits)
qed auto

lemma msteps_node_id: "mstep\<^sup>*\<^sup>* m m' \<Longrightarrow> mg_node_id m' = mg_node_id m"
  by (induction rule: rtranclp_induct) (auto dest: mstep_node_id)

lemma mark_dead_all:
  assumes "mgr_inv m" "list_all (\<lambda>r. record_ok (mr_node_id r, r) \<and> mr_node_id r \<noteq> mg_node_id m) rs"
  shows "fst (op_iter mark_dead rs m) = Inr ()
    \<and> (\<forall>r \<in> set rs. rank_le (Some (mr_incarnation r, DEAD)) (view (snd (op_iter mark_dead rs m)) (mr_node_id r)))"
  using assms
proof (induction rs arbitrary: m)
  case (Cons x rs)
  let ?m = "snd (mark_dead x m)"
  have steps: "mstep\<^sup>*\<^sup>* m ?m" by (rule ms.stays_state [OF ms_mark(2)])
  then have inv: "mgr_inv ?m" and nid: "mg_node_id ?m = mg_node_id m"
    using membership.inv_steps Cons.prems(1) msteps_node_id by auto
  have x: "fst (mark_dead x m) = Inr ()" "rank_le (Some (mr_incarnation x, DEAD)) (view ?m (mr_node_id x))"
    using mark_dead_view [OF Cons.prems(1), of "mr_node_id x" x] Cons.prems(2) by auto
  have run: "op_iter mark_dead (x # rs) m = op_iter mark_dead rs ?m"
    using x(1) by (cases "mark_dead x m") (simp add: op_bind_def)
  have later: "mstep\<^sup>*\<^sup>* ?m (snd (op_iter mark_dead rs ?m))"
    by (rule ms.stays_state) (intro ms.stays_iter ms_mark)
  have "rank_le (Some (mr_incarnation x, DEAD)) (view (snd (op_iter mark_dead rs ?m)) (mr_node_id x))"
    using x(2) msteps_view [OF later inv] by (rule rank_le_trans)
  then show ?case using Cons.IH [OF inv] Cons.prems(2) nid unfolding run by simp
qed (simp add: op_return_def)

lemma is_expired_reads [simp]: "is_expired now (m\<lparr>mg_reads := n\<rparr>) r = is_expired now m r"
  by (simp add: is_expired_def split: option.splits)

lemma expire_run:
  assumes inv: "mgr_inv m"
  shows "fst (expire_suspects m) = Inr () \<and> (\<forall>(k, r) \<in> set (mg_members m). is_expired (mg_clock m (mg_reads m)) m r \<longrightarrow>
     rank_le (Some (mr_incarnation r, DEAD)) (view (snd (expire_suspects m)) k))"
proof -
  let ?now = "mg_clock m (mg_reads m)" and ?m = "m\<lparr>mg_reads := Suc (mg_reads m)\<rparr>"
  let ?rs = "filter (is_expired ?now ?m) (map snd (mg_members m))"
  have run: "expire_suspects m = op_iter mark_dead ?rs ?m" by (simp add: expire_suspects_def op_defs monotonic_run)
  have rec: "record_ok p" if "p \<in> set (mg_members m)" for p using inv that by (auto simp: mgr_inv_def list_all_iff)
  have self: "x \<notin> set ?rs" if "map_of (mg_members m) (mg_node_id m) = Some x" for x
    using inv that by (auto simp: mgr_inv_def self_ok_def is_expired_def)
  have "record_ok (mr_node_id x, x) \<and> mr_node_id x \<noteq> mg_node_id ?m" if x: "x \<in> set ?rs" for x
  proof -
    obtain k' where k': "(k', x) \<in> set (mg_members m)" using x by auto
    have "record_ok (k', x)" using rec [OF k'] .
    then have k'': "k' = mr_node_id x" by (simp add: record_ok_def)
    have "map_of (mg_members m) k' = Some x" using inv k' by (simp add: mgr_inv_def)
    then show ?thesis using self x \<open>record_ok (k', x)\<close> k'' by (cases "k' = mg_node_id m") auto
  qed
  then have all: "list_all (\<lambda>r. record_ok (mr_node_id r, r) \<and> mr_node_id r \<noteq> mg_node_id ?m) ?rs" by (auto simp: list_all_iff)
  have "mgr_inv ?m" using inv by simp
  note dead = mark_dead_all [OF this all]
  have "rank_le (Some (mr_incarnation r, DEAD)) (view (snd (expire_suspects m)) k)"
    if "(k, r) \<in> set (mg_members m)" "is_expired ?now m r" for k r
  proof -
    have "mr_node_id r = k" using rec [OF that(1)] by (simp add: record_ok_def)
    moreover have "r \<in> set ?rs" using that by force
    ultimately show ?thesis using dead unfolding run by blast
  qed
  then show ?thesis using dead unfolding run by blast
qed

text \<open>A suspicion that is not refuted in time becomes a death: when \<open>expire_suspects\<close> runs and
  the clock says that a suspected member has been suspected for at least \<open>suspect_timeout_s\<close>, it
  finishes without an exception and the member is at least DEAD in that incarnation, so it is no
  longer eligible.\<close>

theorem expired_suspects_die:
  assumes "manager_init m0" "mstep\<^sup>*\<^sup>* m0 m" "map_of (mg_members m) k = Some r" "mr_state r = SUSPECT"
    and "mr_suspect_since r = Some t" "suspect_timeout_s (mg_settings m) \<le> mg_clock m (mg_reads m) - t"
  shows "fst (expire_suspects m) = Inr () \<and> rank_le (Some (mr_incarnation r, DEAD)) (view (snd (expire_suspects m)) k)"
  using expire_run [OF membership.inv_reachable [OF assms(1,2)]] map_of_SomeD [OF assms(3)] assms(4-6)
  by (auto simp: is_expired_def)

lemma sample_max_run: "\<exists>l n g. sample_max m = (Inr l, m\<lparr>mg_reads := n, mg_gossip := g\<rparr>)"
  by (auto simp: sample_max_def sample_gossip_def op_defs monotonic_run)

definition unreachable :: "membership_net \<Rightarrow> bool" where
  "unreachable net \<longleftrightarrow> (\<forall>a me sq g tok. net_ping net a me sq g tok = Inl RpcError)
     \<and> (\<forall>a me t sq g tok. net_ping_req net a me t sq g tok = Inl RpcError)"

lemma ping_unreachable:
  assumes "unreachable net" "mgr_inv m" "mg_incarnation m < 2 ^ 64" "map_of (mg_members m) target = Some r"
  shows "\<exists>n g. ping net target sq m = (Inr False, m\<lparr>mg_reads := n, mg_gossip := g\<rparr>)"
proof -
  obtain me where me: "record_ok (mg_node_id m, me)" "mr_incarnation me \<le> mg_incarnation m" using mgr_inv_self [OF assms(2)] by blast
  then have ge: "0 \<le> mg_incarnation m" by (simp add: record_ok_def)
  obtain l n g where s: "sample_max m = (Inr l, m\<lparr>mg_reads := n, mg_gossip := g\<rparr>)" using sample_max_run by blast
  obtain e where e: "at_stub (mr_address r) (bindE (to_uint64 sq) (\<lambda>_. Inl RpcError)) = (Inl e :: ping_response result)" "is_rpc_or_value_error e"
    by (cases "is_valid_address (mr_address r)"; cases "0 \<le> sq \<and> sq < 2 ^ 64")
      (auto simp: at_stub_def to_uint64_def is_rpc_or_value_error_def)
  show ?thesis using assms e
    by (intro exI [of _ n] exI [of _ g])
      (simp add: ping_def self_info_def mk_NodeInfo_def to_uint64_def [of "mg_incarnation m"] ge with_record_def op_defs s unreachable_def)
qed

lemma ping_req_unreachable:
  assumes "unreachable net" "mgr_inv m" "mg_incarnation m < 2 ^ 64"
    "map_of (mg_members m) target = Some r" "map_of (mg_members m) helper = Some h"
  shows "\<exists>n g. ping_req net helper target sq m = (Inr False, m\<lparr>mg_reads := n, mg_gossip := g\<rparr>)"
proof -
  obtain me where me: "record_ok (mg_node_id m, me)" "mr_incarnation me \<le> mg_incarnation m" using mgr_inv_self [OF assms(2)] by blast
  then have ge: "0 \<le> mg_incarnation m" by (simp add: record_ok_def)
  obtain l n g where s: "sample_max m = (Inr l, m\<lparr>mg_reads := n, mg_gossip := g\<rparr>)" using sample_max_run by blast
  obtain e where e: "at_stub (mr_address h) (bindE (mk_NodeInfo (mr_node_id r) (mr_address r) (mr_incarnation r)) (\<lambda>info.
       bindE (to_uint64 sq) (\<lambda>_. Inl RpcError))) = (Inl e :: ping_response result)" "is_rpc_or_value_error e"
    by (cases "is_valid_address (mr_address h)"; cases "0 \<le> sq \<and> sq < 2 ^ 64"; cases "0 \<le> mr_incarnation r \<and> mr_incarnation r < 2 ^ 64")
      (auto simp: at_stub_def mk_NodeInfo_def to_uint64_def is_rpc_or_value_error_def)
  show ?thesis using assms e
    by (intro exI [of _ n] exI [of _ g])
      (simp add: ping_req_def self_info_def mk_NodeInfo_def [of "mg_node_id m"] to_uint64_def [of "mg_incarnation m"] ge with_record_def op_defs s unreachable_def)
qed

lemma core_unchanged [simp]:
  "mgr_inv (m\<lparr>mg_seq := s\<rparr>) = mgr_inv m" "view (m\<lparr>mg_seq := s\<rparr>) = view m" "view (m\<lparr>mg_reads := n, mg_gossip := g\<rparr>) = view m"
  by (auto simp: mgr_inv_def self_ok_def store_ok_def view_def)

lemma ask_helpers_unreachable:
  assumes "unreachable net" "mgr_inv m" "mg_incarnation m < 2 ^ 64" "map_of (mg_members m) target = Some r"
    "\<And>h. h \<in> set hs \<Longrightarrow> map_of (mg_members m) h \<noteq> None"
  shows "\<exists>m'. ask_helpers net target sq hs m = (Inr False, m') \<and> mg_members m' = mg_members m"
  using assms(2-5)
proof (induction hs arbitrary: m)
  case (Cons h hs)
  obtain hr where "map_of (mg_members m) h = Some hr" using Cons.prems(4) by fastforce
  then obtain n g where run: "ping_req net h target sq m = (Inr False, m\<lparr>mg_reads := n, mg_gossip := g\<rparr>)"
    using ping_req_unreachable [OF assms(1) Cons.prems(1-3)] by blast
  then have "mstep\<^sup>*\<^sup>* m (m\<lparr>mg_reads := n, mg_gossip := g\<rparr>)" using ms.stays_state [OF ms_ping_req, of m net h target sq] by simp
  then have "mgr_inv (m\<lparr>mg_reads := n, mg_gossip := g\<rparr>)" using membership.inv_steps Cons.prems(1) by blast
  from Cons.IH [OF this] Cons.prems show ?case by (simp add: op_bind_def run)
qed (simp add: op_return_def)


subsection \<open>Bootstrap retries\<close>

text \<open>What \<open>random.uniform\<close> promises, and the retries made while no peer is known.\<close>

definition uniform_in_range :: "membership_random \<Rightarrow> bool" where
  "uniform_in_range rnd \<longleftrightarrow> (\<forall>a b. a \<le> b \<longrightarrow> a \<le> rnd_uniform rnd a b \<and> rnd_uniform rnd a b \<le> b)"

fun schedules :: "membership_random \<Rightarrow> nat \<Rightarrow> manager \<Rightarrow> manager" where
  "schedules rnd 0 m = m"
| "schedules rnd (Suc n) m = schedules rnd n (snd (schedule_next_bootstrap_retry rnd m))"

lemma schedule_run:
  assumes "uniform_in_range rnd" "0 < mg_bootstrap_retry_nominal_s m" "mg_bootstrap_retry_nominal_s m \<le> 30"
  shows "fst (schedule_next_bootstrap_retry rnd m) = Inr ()
    \<and> mg_bootstrap_retry_nominal_s (snd (schedule_next_bootstrap_retry rnd m)) = min 30 (2 * mg_bootstrap_retry_nominal_s m)
    \<and> (\<exists>d. mg_next_bootstrap_retry_at (snd (schedule_next_bootstrap_retry rnd m)) = Some (mg_clock m (mg_reads m) + d)
         \<and> 4 / 5 * mg_bootstrap_retry_nominal_s m \<le> d \<and> d \<le> min 30 (6 / 5 * mg_bootstrap_retry_nominal_s m))"
proof -
  let ?s = "mg_bootstrap_retry_nominal_s m"
  let ?a = "max 0 (?s - ?s * (1 / 5))" and ?b = "min 30 (?s + ?s * (1 / 5))"
  define U where "U = rnd_uniform rnd ?a ?b"
  have ab: "?a \<le> ?b" using assms(2,3) by (auto simp: min_def max_def)
  have u: "?a \<le> U \<and> U \<le> ?b"
    unfolding U_def by (rule assms(1) [unfolded uniform_in_range_def, rule_format, OF ab])
  have "min ?s 30 = ?s" using assms(3) by simp
  then have run: "schedule_next_bootstrap_retry rnd m = (Inr (), m\<lparr>mg_reads := Suc (mg_reads m),
      mg_next_bootstrap_retry_at := Some (mg_clock m (mg_reads m) + U),
      mg_bootstrap_retry_nominal_s := min 30 (?s * 2)\<rparr>)"
    by (simp add: schedule_next_bootstrap_retry_def op_defs monotonic_run MEMBERSHIP_BOOTSTRAP_RETRY_MAX_INTERVAL_S_def Let_def U_def)
  show ?thesis unfolding run using u assms(2) by (auto simp: mult.commute intro!: exI [of _ U])
qed

lemma schedules_nominal:
  assumes "uniform_in_range rnd" "0 < mg_bootstrap_retry_nominal_s m" "mg_bootstrap_retry_nominal_s m \<le> 30"
  shows "mg_bootstrap_retry_nominal_s (schedules rnd n m) = min 30 (2 ^ n * mg_bootstrap_retry_nominal_s m)"
  using assms(2,3)
proof (induction n arbitrary: m)
  case (Suc n)
  let ?m = "snd (schedule_next_bootstrap_retry rnd m)"
  have s: "mg_bootstrap_retry_nominal_s ?m = min 30 (2 * mg_bootstrap_retry_nominal_s m)"
    using schedule_run [OF assms(1) Suc.prems] by simp
  have "min 30 (2 ^ n * min 30 x) = min 30 (2 ^ n * x)" if "0 < x" for x :: real
  proof (cases "x \<le> 30")
    case False
    have "1 * x \<le> 2 ^ n * x" using that by (intro mult_right_mono) simp_all
    then have "30 \<le> 2 ^ n * x" using False by linarith
    then have "min 30 (2 ^ n * x) = 30" by (rule min_absorb1)
    moreover have "min 30 (2 ^ n * min 30 x) = 30" using False by (simp add: min_absorb1)
    ultimately show ?thesis by (simp only:)
  qed simp
  then show ?case using Suc.IH [of ?m] Suc.prems s by (simp add: mult.commute mult.left_commute)
qed simp

text \<open>Retries back off and stay bounded: from an interval in (0, 30], the n-th retry of the
  bootstrap is scheduled between 80% and 120% of \<open>min(30, 2^n * interval)\<close> after its clock
  reading and never more than 30 seconds ahead.\<close>

theorem bootstrap_backoff_bounded:
  assumes "uniform_in_range rnd" "0 < mg_bootstrap_retry_nominal_s m" "mg_bootstrap_retry_nominal_s m \<le> 30"
  shows "\<exists>d. mg_next_bootstrap_retry_at (schedules rnd (Suc n) m)
        = Some (mg_clock (schedules rnd n m) (mg_reads (schedules rnd n m)) + d)
    \<and> 4 / 5 * min 30 (2 ^ n * mg_bootstrap_retry_nominal_s m) \<le> d
    \<and> d \<le> 6 / 5 * min 30 (2 ^ n * mg_bootstrap_retry_nominal_s m) \<and> d \<le> 30"
proof -
  have last: "schedules rnd (Suc n) m = snd (schedule_next_bootstrap_retry rnd (schedules rnd n m))" for n m
    by (induction n arbitrary: m) simp_all
  have nom: "mg_bootstrap_retry_nominal_s (schedules rnd n m) = min 30 (2 ^ n * mg_bootstrap_retry_nominal_s m)"
    by (rule schedules_nominal [OF assms])
  then have "0 < mg_bootstrap_retry_nominal_s (schedules rnd n m)" "mg_bootstrap_retry_nominal_s (schedules rnd n m) \<le> 30"
    using assms(2) by auto
  from schedule_run [OF assms(1) this] show ?thesis unfolding last nom by auto
qed

subsection \<open>Authorisation\<close>

text \<open>C40. A request without the cluster token changes nothing: every RPC of the membership service
  fails with \<open>UNAUTHENTICATED\<close> and leaves the manager as it was, and a node whose own token is
  blank refuses everybody.\<close>

theorem unauthenticated_requests_rejected:
  assumes "tok \<noteq> cluster_token (mg_settings m) \<or> py_strip (cluster_token (mg_settings m)) = []"
  shows "rpc_Join n tok m = (Inl (Abort UNAUTHENTICATED), m) \<and> rpc_Ping n es tok m = (Inl (Abort UNAUTHENTICATED), m)
    \<and> rpc_PingReq net n n' sq es tok m = (Inl (Abort UNAUTHENTICATED), m)
    \<and> rpc_Leave n tok m = (Inl (Abort UNAUTHENTICATED), m) \<and> rpc_GetMembers tok m = (Inl (Abort UNAUTHENTICATED), m)"
  using assms by (auto simp: rpc_Join_def rpc_Ping_def rpc_PingReq_def rpc_Leave_def rpc_GetMembers_def
      require_authorized_cluster_token_def is_authorized_cluster_token_def op_read_def op_bind_def op_raise_def)

section \<open>A concrete cluster\<close>

definition demo_id :: "char \<Rightarrow> string" where
  "demo_id c = replicate 32 c"

definition demo_settings :: membership_settings where
  "demo_settings = \<lparr>cluster_token = ''tok'', protocol_period_s = 1, bootstrap_retry_interval_s = 5, ping_timeout_s = 1,
     rpc_timeout_s = 2, suspect_timeout_s = 6, indirect_ping_fanout = 3, max_gossip_events = 20, gossip_ttl_s = 60,
     grpc_max_message_bytes = 1, grpc_keepalive_time_ms = 1, grpc_keepalive_timeout_ms = 1,
     grpc_keepalive_permit_without_calls = PyBool True\<rparr>"

definition demo_manager :: "char \<Rightarrow> manager" where
  "demo_manager c = projr (mk_MembershipManager \<lparr>id_file = Text (demo_id c @ [CHR 0x0A] @ dec_int 1 @ [CHR 0x0A]), writable = True\<rparr>
     (demo_id c) (c # '':1'') 1 demo_settings (\<lambda>n. 10 * real n) (\<lambda>_. 0))"

definition demo_event :: "char \<Rightarrow> 64 word \<Rightarrow> int \<Rightarrow> member_event" where
  "demo_event c w st = \<lparr>ev_node_id = demo_id c, ev_address = c # '':1'', ev_incarnation = w, ev_state = st, ev_ts_ms = 0\<rparr>"

lemma demo_id_eq [simp]: "demo_id c = demo_id d \<longleftrightarrow> c = d"
  by (simp add: demo_id_def)

lemma demo_addresses:
  "is_valid_address ''a:1''" "is_valid_address ''b:1''" "is_valid_address ''c:1''"
  "py_strip ''a:1'' = ''a:1''" "py_strip ''b:1'' = ''b:1''"
  by (simp_all add: is_valid_address_def py_strip_def py_isspace_def split_address_def MAX_ADDRESS_LENGTH_def
      py_isdecimal_def is_dec_char_def dec_value_def Let_def)

lemma demo_ids: "is_node_id (demo_id CHR ''a'')" "is_node_id (demo_id CHR ''b'')" "is_node_id (demo_id CHR ''c'')"
  by (simp_all add: is_node_id_def demo_id_def is_hex_lower_def list_all_iff)

lemmas demo_strip = demo_ids [THEN node_id_strip]

lemma demo_node_ids: "is_valid_node_id (demo_id CHR ''a'')" "is_valid_node_id (demo_id CHR ''b'')" "is_valid_node_id (demo_id CHR ''c'')"
  by (simp_all add: is_valid_node_id_def demo_strip demo_ids)

lemma demo_manager_run:
  "mk_MembershipManager \<lparr>id_file = Text (demo_id CHR ''a'' @ [CHR 0x0A] @ dec_int 1 @ [CHR 0x0A]), writable = True\<rparr>
     (demo_id CHR ''a'') (CHR ''a'' # '':1'') 1 demo_settings (\<lambda>n. 10 * real n) (\<lambda>_. 0) = Inr (demo_manager CHR ''a'')"
  "mk_MembershipManager \<lparr>id_file = Text (demo_id CHR ''b'' @ [CHR 0x0A] @ dec_int 1 @ [CHR 0x0A]), writable = True\<rparr>
     (demo_id CHR ''b'') (CHR ''b'' # '':1'') 1 demo_settings (\<lambda>n. 10 * real n) (\<lambda>_. 0) = Inr (demo_manager CHR ''b'')"
  by (simp_all add: demo_manager_def mk_MembershipManager_def Let_def demo_addresses demo_node_ids demo_strip)

lemma demo_init: "manager_init (demo_manager CHR ''a'')" "manager_init (demo_manager CHR ''b'')"
proof -
  note r = read_written [OF demo_ids(1), of 1 "\<lparr>id_file = Missing, writable = True\<rparr>", simplified]
    read_written [OF demo_ids(2), of 1 "\<lparr>id_file = Missing, writable = True\<rparr>", simplified]
  show "manager_init (demo_manager CHR ''a'')" "manager_init (demo_manager CHR ''b'')"
    unfolding manager_init_def using demo_manager_run r demo_strip by fastforce+
qed

lemma demo_inv: "mgr_inv (demo_manager CHR ''a'')" "mgr_inv (demo_manager CHR ''b'')"
  by (rule manager_init_inv [OF demo_init(1)], rule manager_init_inv [OF demo_init(2)])

lemma demo_events_valid:
  "is_valid_member_event (demo_event CHR ''c'' 1 ALIVE)" "is_valid_member_event (demo_event CHR ''c'' 1 SUSPECT)"
  "is_valid_member_event (demo_event CHR ''a'' 4 SUSPECT)" "is_valid_member_event (demo_event CHR ''a'' 5 ALIVE)"
  "is_valid_member_event (demo_event CHR ''a'' 18446744073709551615 DEAD)"
  by (simp_all add: is_valid_member_event_def demo_event_def demo_node_ids demo_addresses is_valid_incarnation_def
      is_valid_state_def VALID_EVENT_STATES_def)

lemma demo_fields [simp]:
  "mg_node_id (demo_manager CHR ''a'') = demo_id CHR ''a''" "mg_node_id (demo_manager CHR ''b'') = demo_id CHR ''b''"
  "mg_leaving (demo_manager CHR ''a'') = False" "mg_incarnation (demo_manager CHR ''a'') = 1"
  "mg_address (demo_manager CHR ''a'') = ''a:1''" "mg_settings (demo_manager CHR ''a'') = demo_settings"
  "writable (mg_store (demo_manager CHR ''a'')) = True" "mg_bootstrap_retry_nominal_s (demo_manager CHR ''a'') = 5"
  "view (demo_manager CHR ''a'') (demo_id CHR ''c'') = None" "view (demo_manager CHR ''b'') (demo_id CHR ''c'') = None"
  "view (demo_manager CHR ''b'') (demo_id CHR ''a'') = None"
  by (simp_all add: demo_manager_def mk_MembershipManager_def Let_def demo_addresses demo_node_ids demo_strip
      demo_settings_def view_def)

lemma demo_stored: "stored_incarnation (mg_store (demo_manager CHR ''a'')) = 1"
proof -
  have "read_unlocked (mg_store (demo_manager CHR ''a'')) = Inr (demo_id CHR ''a'', 1)"
    using read_written [OF demo_ids(1), of 1 "\<lparr>id_file = Missing, writable = True\<rparr>"]
    by (simp add: demo_manager_def mk_MembershipManager_def Let_def demo_addresses demo_node_ids demo_strip)
  then show ?thesis by (simp add: stored_incarnation_def)
qed

lemma demo_event_fields [simp]:
  "ev_node_id (demo_event c w st) = demo_id c" "ev_address (demo_event c w st) = c # '':1''"
  "ev_incarnation (demo_event c w st) = w" "ev_state (demo_event c w st) = st"
  by (simp_all add: demo_event_def)

lemma demo_suspect_view:
  "view (snd (apply_event (demo_event CHR ''c'' 1 SUSPECT) (demo_manager CHR ''a''))) (demo_id CHR ''c'') = Some (1, SUSPECT)"
  using apply_event_view [OF demo_inv(1) demo_events_valid(2)] by (simp add: join_rank_def ev_rank_def)



theorem views_converge_witness:
  "view (snd (op_iter apply_event [demo_event CHR ''c'' 1 ALIVE, demo_event CHR ''c'' 1 SUSPECT] (demo_manager CHR ''a''))) (demo_id CHR ''c'')
     = view (snd (op_iter apply_event [demo_event CHR ''c'' 1 SUSPECT, demo_event CHR ''c'' 1 ALIVE, demo_event CHR ''c'' 1 SUSPECT]
         (demo_manager CHR ''b''))) (demo_id CHR ''c'')"
  using views_converge [OF demo_inv, of "[demo_event CHR ''c'' 1 ALIVE, demo_event CHR ''c'' 1 SUSPECT]"
      "[demo_event CHR ''c'' 1 SUSPECT, demo_event CHR ''c'' 1 ALIVE, demo_event CHR ''c'' 1 SUSPECT]" "demo_id CHR ''c''"] demo_events_valid
  by (auto simp del: op_iter.simps)


theorem incarnation_range_exhausted_witness:
  "fst (apply_event (demo_event CHR ''a'' 18446744073709551615 DEAD) (demo_manager CHR ''a'')) = Inl ValueError"
  using incarnation_range_exhausted [OF demo_init(1) rtranclp.rtrancl_refl demo_events_valid(5)] by (simp add: refutes_def)

theorem unauthenticated_requests_rejected_witness:
  "rpc_GetMembers ''x'' (demo_manager CHR ''a'') = (Inl (Abort UNAUTHENTICATED), demo_manager CHR ''a'')"
  using unauthenticated_requests_rejected [of "''x''" "demo_manager CHR ''a''"] by (simp add: demo_settings_def)

definition demo_random :: membership_random where
  "demo_random = \<lparr>rnd_choice = hd, rnd_shuffle = id, rnd_uniform = (\<lambda>a b. a)\<rparr>"

theorem bootstrap_backoff_bounded_witness:
  "\<exists>d. mg_next_bootstrap_retry_at (schedules demo_random (Suc 2) (demo_manager CHR ''a''))
       = Some (mg_clock (schedules demo_random 2 (demo_manager CHR ''a'')) (mg_reads (schedules demo_random 2 (demo_manager CHR ''a''))) + d)
     \<and> 16 \<le> d \<and> d \<le> 24 \<and> d \<le> 30"
proof -
  have "uniform_in_range demo_random" by (simp add: uniform_in_range_def demo_random_def)
  from bootstrap_backoff_bounded [OF this, of "demo_manager CHR ''a''" 2] show ?thesis
    by (simp del: schedules.simps)
qed

text \<open>A suspected node and its peer.\<close>

lemma demo_refutation:
  "mg_incarnation (snd (apply_event (demo_event CHR ''a'' 4 SUSPECT) (demo_manager CHR ''a''))) = 5"
proof -
  obtain st where b: "bump_above (demo_id CHR ''a'') 4 (mg_store (demo_manager CHR ''a'')) = (Inr 5, st)"
    using bump_succeeds [OF demo_inv(1), where w = "4 :: 64 word"] by (auto simp: demo_stored)
  show ?thesis
    using refutation [OF demo_inv(1) _ _ _ demo_events_valid(3), of 5 st] b by (simp add: refutes_def)
qed

theorem suspicion_is_refuted_witness:
  "\<exists>n > 4. view (snd (apply_event (demo_event CHR ''a'' 4 SUSPECT) (demo_manager CHR ''a''))) (demo_id CHR ''a'') = Some (n, ALIVE)
     \<and> view (snd (apply_event (demo_event CHR ''a'' 5 ALIVE) (snd (apply_event (demo_event CHR ''a'' 4 SUSPECT) (demo_manager CHR ''b'')))))
         (demo_id CHR ''a'') = Some (n, ALIVE)"
proof -
  let ?peer = "snd (apply_event (demo_event CHR ''a'' 4 SUSPECT) (demo_manager CHR ''b''))"
  have p: "mgr_inv ?peer" "mg_node_id ?peer = demo_id CHR ''b''" "view ?peer (demo_id CHR ''a'') = Some (ev_rank (demo_event CHR ''a'' 4 SUSPECT))"
    using mgr_inv_event [OF demo_inv(2)] apply_event_view [OF demo_inv(2) demo_events_valid(3)] by (auto simp: join_rank_def)
  have r: "refutes (demo_manager CHR ''a'') (demo_event CHR ''a'' 4 SUSPECT)" by (simp add: refutes_def)
  have "\<exists>n > uint (ev_incarnation (demo_event CHR ''a'' 4 SUSPECT)). fst (apply_event (demo_event CHR ''a'' 4 SUSPECT) (demo_manager CHR ''a'')) = Inr ()
      \<and> view (snd (apply_event (demo_event CHR ''a'' 4 SUSPECT) (demo_manager CHR ''a''))) (mg_node_id (demo_manager CHR ''a'')) = Some (n, ALIVE)
      \<and> read_unlocked (mg_store (snd (apply_event (demo_event CHR ''a'' 4 SUSPECT) (demo_manager CHR ''a'')))) = Inr (mg_node_id (demo_manager CHR ''a''), n)
      \<and> view (snd (apply_event (demo_event CHR ''a'' 5 ALIVE) ?peer)) (mg_node_id (demo_manager CHR ''a'')) = Some (n, ALIVE)"
    by (rule suspicion_is_refuted [OF demo_init(1) rtranclp.rtrancl_refl demo_events_valid(3) _ r _ _ p(1) _ _ demo_events_valid(4)])
      (use p(2,3) in \<open>simp_all add: demo_stored demo_refutation\<close>)
  then obtain n where n: "4 < n" "view (snd (apply_event (demo_event CHR ''a'' 4 SUSPECT) (demo_manager CHR ''a''))) (demo_id CHR ''a'') = Some (n, ALIVE)"
    "view (snd (apply_event (demo_event CHR ''a'' 5 ALIVE) ?peer)) (demo_id CHR ''a'') = Some (n, ALIVE)" by auto
  then show ?thesis by (intro exI [of _ n] conjI)
qed

lemma demo_state:
  "mg_reads (demo_manager CHR ''a'') = Suc 0" "mg_clock (demo_manager CHR ''a'') = (\<lambda>n. 10 * real n)"
  "mg_members (demo_manager CHR ''a'') =
      [(demo_id CHR ''a'', \<lparr>mr_node_id = demo_id CHR ''a'', mr_address = ''a:1'', mr_incarnation = 1, mr_state = ALIVE, mr_last_seen = 0, mr_suspect_since = None\<rparr>)]"
  by (simp_all add: demo_manager_def mk_MembershipManager_def Let_def demo_addresses demo_node_ids demo_strip)

lemma demo_absorbed:
  assumes "st = ALIVE \<or> st = SUSPECT"
  shows "\<exists>g b d. apply_event (demo_event CHR ''c'' 1 st) (demo_manager CHR ''a'') = (Inr (), (demo_manager CHR ''a'')\<lparr>mg_reads := Suc (Suc (Suc (Suc 0))),
      mg_members := mg_members (demo_manager CHR ''a'') @ [(demo_id CHR ''c'', new_record_from_event (demo_event CHR ''c'' 1 st) 10)],
      mg_gossip := g, mg_bootstrap_complete := b, mg_next_bootstrap_retry_at := d\<rparr>)"
proof -
  let ?m = "demo_manager CHR ''a''" and ?e = "demo_event CHR ''c'' 1 st"
  have v: "is_valid_member_event ?e" using assms demo_events_valid by auto
  have "apply_event ?e ?m = absorb ?e (new_record_from_event ?e 10) (?m\<lparr>mg_reads := Suc (Suc 0)\<rparr>)"
    using v by (simp add: apply_event_def op_defs monotonic_run demo_state)
  also have "\<dots> = (Inr (), ?m\<lparr>mg_reads := Suc (Suc (Suc (Suc 0))),
      mg_members := mg_members ?m @ [(demo_id CHR ''c'', new_record_from_event ?e 10)], mg_gossip := gossip_add ?e 20 30 (mg_gossip ?m),
      mg_bootstrap_complete := (if st = ALIVE then True else mg_bootstrap_complete ?m),
      mg_next_bootstrap_retry_at := (if st = ALIVE then None else mg_next_bootstrap_retry_at ?m)\<rparr>)"
    using v by (simp add: absorb_def put_member_def gossip_add_event_def complete_bootstrap_def op_defs monotonic_run demo_state)
  finally show ?thesis by blast
qed

theorem expired_suspects_die_witness:
  "fst (expire_suspects (snd (apply_event (demo_event CHR ''c'' 1 SUSPECT) (demo_manager CHR ''a'')))) = Inr ()
   \<and> rank_le (Some (1, DEAD)) (view (snd (expire_suspects (snd (apply_event (demo_event CHR ''c'' 1 SUSPECT) (demo_manager CHR ''a''))))) (demo_id CHR ''c''))"
proof -
  let ?m = "demo_manager CHR ''a''" and ?e = "demo_event CHR ''c'' 1 SUSPECT"
  have steps: "mstep\<^sup>*\<^sup>* ?m (snd (apply_event ?e ?m))" by (rule r_into_rtranclp [of mstep, OF ms_event])
  obtain g b d where run: "apply_event ?e ?m = (Inr (), ?m\<lparr>mg_reads := Suc (Suc (Suc (Suc 0))),
      mg_members := mg_members ?m @ [(demo_id CHR ''c'', new_record_from_event ?e 10)],
      mg_gossip := g, mg_bootstrap_complete := b, mg_next_bootstrap_retry_at := d\<rparr>)"
    using demo_absorbed [of SUSPECT] by auto
  from expired_suspects_die [OF demo_init(1) steps, of "demo_id CHR ''c''" "new_record_from_event ?e 10" 10]
  show ?thesis unfolding run by (simp add: demo_state new_record_from_event_def demo_settings_def)
qed


end
