(* ===== verification/Disk.thy ===== *)
theory Disk
  imports Common
begin

text \<open>
  The part of a file system the stores use, and \<open>atomic_write_bytes\<close> of
  \<open>stopan.common.fs\<close>.

  A path is the list of its components. Every system call that can fail consumes the next entry of
  \<open>outcomes\<close>: it succeeds, fails with \<open>FileNotFoundError\<close>, or fails with another
  \<open>OSError\<close>; a write that fails has written some prefix of its data. Directories, permissions and
  \<open>fsync\<close> are not represented: creating a directory, \<open>chmod\<close> and \<open>replace\<close> fail exactly
  when their outcome says so. Random file names come from \<open>names\<close>.
\<close>

type_synonym path = "string list"

datatype io_outcome = IO_ok | IO_enoent | IO_fail nat

record disk =
  files :: "path \<Rightarrow> bytes option"
  outcomes :: "nat \<Rightarrow> io_outcome"
  names :: "nat \<Rightarrow> string"
  calls :: nat

definition next_outcome :: "(disk, io_outcome) op" where
  "next_outcome d = (Inr (outcomes d (calls d)), d\<lparr>calls := Suc (calls d)\<rparr>)"

definition random_name :: "(disk, string) op" where
  "random_name d = (Inr (names d (calls d)), d\<lparr>calls := Suc (calls d)\<rparr>)"

definition fails_with :: "io_outcome \<Rightarrow> exn option" where
  "fails_with r = (case r of IO_ok \<Rightarrow> None | IO_enoent \<Rightarrow> Some FileNotFoundError | IO_fail _ \<Rightarrow> Some OSError)"

definition sys_call :: "(disk \<Rightarrow> disk) \<Rightarrow> (disk, unit) op" where
  "sys_call f = op_bind next_outcome (\<lambda>r. case fails_with r of None \<Rightarrow> op_modify f | Some e \<Rightarrow> op_raise e)"

definition sys_exists :: "path \<Rightarrow> disk \<Rightarrow> bool" where
  "sys_exists p d \<longleftrightarrow> files d p \<noteq> None"

text \<open>\<open>open(p, "wb")\<close> followed by \<open>write(data)\<close>.\<close>

definition sys_write :: "path \<Rightarrow> bytes \<Rightarrow> (disk, unit) op" where
  "sys_write p data = op_bind next_outcome (\<lambda>r. case r of
       IO_ok \<Rightarrow> op_modify (\<lambda>d. d\<lparr>files := (files d)(p \<mapsto> data)\<rparr>)
     | IO_enoent \<Rightarrow> op_raise FileNotFoundError
     | IO_fail n \<Rightarrow> op_bind (op_modify (\<lambda>d. d\<lparr>files := (files d)(p \<mapsto> take n data)\<rparr>)) (\<lambda>_. op_raise OSError))"

definition sys_read :: "path \<Rightarrow> (disk, bytes) op" where
  "sys_read p = op_bind next_outcome (\<lambda>r. case fails_with r of
       Some e \<Rightarrow> op_raise e
     | None \<Rightarrow> op_read (\<lambda>d. case files d p of None \<Rightarrow> op_raise FileNotFoundError | Some data \<Rightarrow> op_return data))"

definition sys_replace :: "path \<Rightarrow> path \<Rightarrow> (disk, unit) op" where
  "sys_replace src dst = op_bind next_outcome (\<lambda>r. case fails_with r of
       Some e \<Rightarrow> op_raise e
     | None \<Rightarrow> op_read (\<lambda>d. case files d src of None \<Rightarrow> op_raise FileNotFoundError
         | Some data \<Rightarrow> op_modify (\<lambda>d. d\<lparr>files := ((files d)(src := None))(dst \<mapsto> data)\<rparr>)))"

definition sys_remove :: "path \<Rightarrow> (disk, unit) op" where
  "sys_remove p = sys_call (\<lambda>d. d\<lparr>files := (files d)(p := None)\<rparr>)"

definition is_OSError :: "exn \<Rightarrow> bool" where
  "is_OSError e \<longleftrightarrow> e = OSError \<or> e = FileNotFoundError \<or> e = StopanStorageOSError"

text \<open>\<open>try: m except OSError: raise e\<close>, and \<open>try: m finally: h\<close> where \<open>h\<close> runs unless \<open>m\<close>
  completed and swallows its own errors.\<close>

definition op_wrap :: "(exn \<Rightarrow> bool) \<Rightarrow> exn \<Rightarrow> ('s, 'a) op \<Rightarrow> ('s, 'a) op" where
  "op_wrap caught e m = op_catch m caught (op_raise e)"

definition cleanup_unless :: "('a \<Rightarrow> bool) \<Rightarrow> ('s, unit) op \<Rightarrow> ('s, 'a) op \<Rightarrow> ('s, 'a) op" where
  "cleanup_unless completed h m s =
     (case m s of (r, t) \<Rightarrow> if (case r of Inr x \<Rightarrow> completed x | Inl _ \<Rightarrow> False) then (r, t) else (r, snd (h t)))"

definition hidden_name :: "string \<Rightarrow> string \<Rightarrow> string" where
  "hidden_name base rnd = ''.'' @ base @ ''.'' @ rnd @ ''.tmp''"

text \<open>\<open>path.with_name(...)\<close>. The random part stands for process id and random bytes.\<close>

definition with_name :: "path \<Rightarrow> string \<Rightarrow> path" where
  "with_name p n = butlast p @ [n]"

definition atomic_write_bytes :: "path \<Rightarrow> bytes \<Rightarrow> (disk, unit) op" where
  "atomic_write_bytes p data =
     op_bind (op_wrap is_OSError StopanStorageOSError (sys_call id)) (\<lambda>_.
     op_bind random_name (\<lambda>rnd.
       let temp = with_name p (hidden_name (last p) rnd) in
       cleanup_unless (\<lambda>_. True) (op_catch (sys_remove temp) (\<lambda>_. True) (op_return ()))
         (op_bind (op_wrap is_OSError StopanStorageOSError (sys_call id)) (\<lambda>_.
          op_bind (op_wrap is_OSError StopanStorageOSError (sys_write temp data)) (\<lambda>_.
          op_bind (op_wrap is_OSError StopanStorageOSError (sys_replace temp p)) (\<lambda>_.
          op_wrap is_OSError StopanStorageOSError (sys_call id)))))))"

section \<open>What a call changes\<close>

text \<open>\<open>may_set P p data\<close>: afterwards every path outside \<open>P\<close> has its old content, except that \<open>p\<close>
  may now hold \<open>data\<close> instead. \<open>P\<close> are the temporary paths.\<close>

definition may_set :: "path set \<Rightarrow> path \<Rightarrow> bytes \<Rightarrow> disk \<Rightarrow> disk \<Rightarrow> bool" where
  "may_set P p data d d' \<longleftrightarrow> names d' = names d \<and> outcomes d' = outcomes d \<and>
     (\<forall>q. q \<notin> P \<longrightarrow> files d' q = files d q \<or> (q = p \<and> files d' q = Some data))"

lemma may_set_trans: "may_set P p data s t \<Longrightarrow> may_set P p data t u \<Longrightarrow> may_set P p data s u"
  unfolding may_set_def by metis

interpretation mset_rel: op_relation "may_set P p data" for P p data
  by unfold_locales (simp add: may_set_def, rule may_set_trans)

lemma may_set_calls: "may_set P p data d (d\<lparr>calls := n\<rparr>)"
  by (simp add: may_set_def)

lemma stays_next: "mset_rel.stays P p data next_outcome" "mset_rel.stays P p data random_name"
  by (rule mset_rel.staysI; simp add: next_outcome_def random_name_def may_set_calls)+

lemma stays_modify: "(\<And>d. may_set P p data d (f d)) \<Longrightarrow> mset_rel.stays P p data (op_modify f)"
  by (rule mset_rel.staysI) (simp add: op_modify_def)

lemma stays_sys_call: "(\<And>d. may_set P p data d (f d)) \<Longrightarrow> mset_rel.stays P p data (sys_call f)"
  unfolding sys_call_def
  by (intro mset_rel.stays_bind stays_next) (auto split: option.split intro: stays_modify mset_rel.stays_pure)

lemma stays_write_temp: "t \<in> P \<Longrightarrow> mset_rel.stays P p data (sys_write t x)"
  unfolding sys_write_def
  by (intro mset_rel.stays_bind stays_next)
    (auto split: io_outcome.split intro!: mset_rel.stays_bind stays_modify mset_rel.stays_pure simp: may_set_def)

lemma stays_remove_temp: "t \<in> P \<Longrightarrow> mset_rel.stays P p data (sys_remove t)"
  unfolding sys_remove_def by (rule stays_sys_call) (auto simp: may_set_def)

lemma stays_wrap: "mset_rel.stays P p data m \<Longrightarrow> mset_rel.stays P p data (op_wrap c e m)"
  unfolding op_wrap_def by (intro mset_rel.stays_catch mset_rel.stays_pure)

lemma stays_cleanup:
  assumes "mset_rel.stays P p data m" "mset_rel.stays P p data h"
  shows "mset_rel.stays P p data (cleanup_unless c h m)"
proof (rule mset_rel.staysI)
  fix s
  have "may_set P p data s (snd (m s))" "may_set P p data (snd (m s)) (snd (h (snd (m s))))"
    using assms by (auto intro: mset_rel.stays_state)
  then show "may_set P p data s (snd (cleanup_unless c h m s))"
    by (cases "m s") (auto simp: cleanup_unless_def intro: mset_rel.R_trans)
qed

lemma stays_read_file: "mset_rel.stays P p data (sys_read q)"
  unfolding sys_read_def
  by (intro mset_rel.stays_bind stays_next)
    (auto split: option.split intro!: mset_rel.stays_read mset_rel.stays_pure)

text \<open>Temporary names end in \<open>.tmp\<close>.\<close>

definition temp_path :: "path \<Rightarrow> bool" where
  "temp_path p \<longleftrightarrow> suffix ''.tmp'' (last p)"

abbreviation temps :: "path set" where
  "temps \<equiv> {p. temp_path p}"

lemma temp_hidden [simp]: "temp_path (with_name p (hidden_name b r))"
  by (auto simp: temp_path_def with_name_def hidden_name_def suffix_def)

lemma sys_write_run: "sys_write t x d = (Inr u, d') \<Longrightarrow> files d' t = Some x"
  by (auto simp: sys_write_def next_outcome_def op_bind_def op_modify_def op_raise_def split: io_outcome.splits)

lemma op_wrap_Inr: "op_wrap c e m s = (Inr x, t) \<longleftrightarrow> m s = (Inr x, t)"
  by (auto simp: op_wrap_def op_catch_def op_raise_def split: prod.splits sum.splits if_splits)

lemma op_wrap_Inl: "op_wrap c e m s = (Inl x, t) \<Longrightarrow> x = e \<or> \<not> c x"
  by (auto simp: op_wrap_def op_catch_def op_raise_def split: prod.splits sum.splits if_splits)

lemma sys_replace_may_set:
  assumes "files d t = Some x" "t \<in> P"
  shows "may_set P p x d (snd (sys_replace t p d))"
  using assms
  by (auto simp: sys_replace_def next_outcome_def fails_with_def op_bind_def op_read_def op_modify_def op_raise_def may_set_def
      split: io_outcome.splits)

lemma sys_replace_Inr: "sys_replace t p d = (Inr u, d') \<Longrightarrow> files d t = Some x \<Longrightarrow> files d' p = Some x"
  by (auto simp: sys_replace_def next_outcome_def fails_with_def op_bind_def op_read_def op_modify_def op_raise_def
      split: io_outcome.splits option.splits)

lemma wrap_state: "may_set P p x d (snd (m d)) \<Longrightarrow> may_set P p x d (snd (op_wrap c e m d))"
  by (auto simp: op_wrap_def op_catch_def op_raise_def split: prod.splits sum.splits)

lemma sys_call_id_files: "files (snd (sys_call id d)) = files d"
  by (auto simp: sys_call_def next_outcome_def fails_with_def op_bind_def op_modify_def op_raise_def split: io_outcome.splits)

lemma wrap_snd: "snd (op_wrap c e m d) = snd (m d)"
  by (auto simp: op_wrap_def op_catch_def op_raise_def split: prod.splits sum.splits)

text \<open>Whatever fails, \<open>atomic_write_bytes\<close> leaves the target untouched or completely written,
  and completely written when it returns.\<close>

lemma atomic_write_files:
  assumes "\<not> temp_path p"
  shows "may_set temps p data d (snd (atomic_write_bytes p data d))"
    and "atomic_write_bytes p data d = (Inr (), d') \<Longrightarrow> files d' p = Some data"
proof -
  let ?mk = "op_wrap is_OSError StopanStorageOSError (sys_call id)"
  let ?body = "\<lambda>temp. op_bind ?mk (\<lambda>_. op_bind (op_wrap is_OSError StopanStorageOSError (sys_write temp data)) (\<lambda>_.
      op_bind (op_wrap is_OSError StopanStorageOSError (sys_replace temp p)) (\<lambda>_. ?mk)))"
  have mk: "mset_rel.stays temps p data ?mk"
    by (intro stays_wrap stays_sys_call) (simp add: may_set_def)
  have body: "mset_rel.stays temps p data (?body (with_name p (hidden_name b r)))" for b r
  proof (rule mset_rel.stays_bind [OF mk], rule mset_rel.staysI, rule mset_rel.bind_state)
    fix s
    show "may_set temps p data s (snd (op_wrap is_OSError StopanStorageOSError (sys_write (with_name p (hidden_name b r)) data) s))"
      by (rule mset_rel.stays_state) (intro stays_wrap stays_write_temp, simp)
    fix x t assume "op_wrap is_OSError StopanStorageOSError (sys_write (with_name p (hidden_name b r)) data) s = (Inr x, t)"
    then have "files t (with_name p (hidden_name b r)) = Some data" by (simp add: op_wrap_Inr sys_write_run)
    then show "may_set temps p data t (snd (op_bind (op_wrap is_OSError StopanStorageOSError
        (sys_replace (with_name p (hidden_name b r)) p)) (\<lambda>_. ?mk) t))"
      by (intro mset_rel.bind_state wrap_state sys_replace_may_set mset_rel.stays_state [OF mk]) simp_all
  qed
  have clean: "mset_rel.stays temps p data (op_catch (sys_remove (with_name p (hidden_name b r))) (\<lambda>_. True) (op_return ()))" for b r
    by (intro mset_rel.stays_catch stays_remove_temp mset_rel.stays_pure) simp
  show "may_set temps p data d (snd (atomic_write_bytes p data d))"
    unfolding atomic_write_bytes_def Let_def
    by (intro mset_rel.stays_state mset_rel.stays_bind mk stays_next stays_cleanup body clean)
  assume ok: "atomic_write_bytes p data d = (Inr (), d')"
  then obtain rnd d2 u d3 v d4 where "sys_write (with_name p (hidden_name (last p) rnd)) data d2 = (Inr u, d3)"
      "sys_replace (with_name p (hidden_name (last p) rnd)) p d3 = (Inr v, d4)"
    and last: "op_wrap is_OSError StopanStorageOSError (sys_call id) d4 = (Inr (), d')"
    by (auto simp: atomic_write_bytes_def op_bind_def cleanup_unless_def random_name_def Let_def op_wrap_Inr
        split: prod.splits sum.splits if_splits)
  then have "files d4 p = Some data" using sys_write_run sys_replace_Inr by blast
  moreover have "files d' = files d4" using last by (metis op_wrap_Inr snd_conv sys_call_id_files)
  ultimately show "files d' p = Some data" by simp
qed

section \<open>Stores that acknowledge\<close>

text \<open>
  The contract the chunk store and the shard store share. \<open>commit\<close> answers every item and never
  fails; it keeps the store sound and everything the store holds; and what an answer acknowledges is
  held. \<open>commits\<close> is the handler's loop over a stream.
\<close>

locale acknowledging_store =
  fixes sound :: "'s \<Rightarrow> bool" and held :: "'s \<Rightarrow> 'k \<Rightarrow> bool"
    and commit :: "'i \<Rightarrow> ('s, 'a) op" and commits :: "'i list \<Rightarrow> ('s, 'a list) op"
    and answers :: "'i \<Rightarrow> 'a \<Rightarrow> bool" and acked :: "'a \<Rightarrow> 'k \<Rightarrow> bool"
  assumes commits_Nil: "commits [] = op_return []"
    and commits_Cons: "commits (i # is) = op_bind (commit i) (\<lambda>a. op_bind (commits is) (\<lambda>as. op_return (a # as)))"
    and commit_answers: "sound s \<Longrightarrow> \<exists>a t. commit i s = (Inr a, t) \<and> answers i a \<and> sound t
      \<and> (\<forall>k. held s k \<longrightarrow> held t k) \<and> (\<forall>k. acked a k \<longrightarrow> held t k)"
begin

lemma commits_answer:
  assumes "sound s"
  shows "\<exists>as t. commits is s = (Inr as, t) \<and> list_all2 answers is as \<and> sound t
    \<and> (\<forall>k. held s k \<longrightarrow> held t k) \<and> (\<forall>a \<in> set as. \<forall>k. acked a k \<longrightarrow> held t k)"
  using assms
proof (induction "is" arbitrary: s)
  case (Cons i "is")
  obtain a t where a: "commit i s = (Inr a, t)" "answers i a" "sound t"
    "\<forall>k. held s k \<longrightarrow> held t k" "\<forall>k. acked a k \<longrightarrow> held t k"
    using commit_answers [OF Cons.prems] by blast
  obtain as u where as: "commits is t = (Inr as, u)" "list_all2 answers is as" "sound u"
    "\<forall>k. held t k \<longrightarrow> held u k" "\<forall>a \<in> set as. \<forall>k. acked a k \<longrightarrow> held u k"
    using Cons.IH [OF a(3)] by blast
  have "commits (i # is) s = (Inr (a # as), u)"
    by (simp add: commits_Cons op_bind_def a(1) as(1) op_return_def)
  then show ?case using a as by auto
qed (simp add: commits_Nil op_return_def)

end

end
