(* ===== verification/Cas.thy ===== *)
theory Cas
  imports Disk
begin

text \<open>
  The content-addressed store of chunks: \<open>stopan.cas.repository\<close>, the commit engine of a storage
  node (\<open>stopan.node.storage.commit_engine\<close>), the authorisation of \<open>stopan.rpc.auth\<close> and the
  chunk RPCs of \<open>stopan.node.services.storage_rpc\<close>.

  Zstandard and BLAKE3 are third-party packages: \<open>codec\<close> carries what the code calls of them.
  The handlers run the commits of a stream in some order given by the caller; the worker threads
  and queues that produce this order are not modelled. The admission check of the drain controller
  is the argument \<open>admit\<close>.
\<close>

record codec =
  compress :: "bytes \<Rightarrow> bytes"
  decompress :: "bytes \<Rightarrow> bytes result"
  decompress_max :: "int \<Rightarrow> bytes \<Rightarrow> bytes result"
  blake3_hex :: "bytes \<Rightarrow> string"

record cas_repository =
  data_folder :: path
  ensured_dirs :: "path set"
  cas_disk :: disk

definition on_disk :: "(disk, 'a) op \<Rightarrow> (cas_repository, 'a) op" where
  "on_disk f r = (case f (cas_disk r) of (x, d) \<Rightarrow> (x, r\<lparr>cas_disk := d\<rparr>))"

section \<open>The repository (repository.py)\<close>

definition chunk_path :: "path \<Rightarrow> string \<Rightarrow> path" where
  "chunk_path folder h = folder @ [take 2 h, take 2 (drop 2 h), h]"

definition exists_local :: "string \<Rightarrow> cas_repository \<Rightarrow> bool" where
  "exists_local h r = sys_exists (chunk_path (data_folder r) h) (cas_disk r)"

definition ensure_parent_dir :: "path \<Rightarrow> (cas_repository, unit) op" where
  "ensure_parent_dir p = op_read (\<lambda>r.
     if butlast p \<in> ensured_dirs r then op_return ()
     else op_bind (op_wrap is_OSError CASRepositoryError (on_disk (sys_call id))) (\<lambda>_.
       op_modify (\<lambda>r. r\<lparr>ensured_dirs := insert (butlast p) (ensured_dirs r)\<rparr>)))"

definition forget_parent_dir :: "path \<Rightarrow> (cas_repository, unit) op" where
  "forget_parent_dir p = op_modify (\<lambda>r. r\<lparr>ensured_dirs := ensured_dirs r - {butlast p}\<rparr>)"

text \<open>\<open>os.replace\<close> and its handlers: \<open>Some b\<close> returns \<open>b\<close>, \<open>None\<close> continues with the next
  attempt.\<close>

definition publish :: "nat \<Rightarrow> path \<Rightarrow> path \<Rightarrow> (cas_repository, bool option) op" where
  "publish attempt temp p r =
     (case on_disk (sys_replace temp p) r of
        (Inr _, r') \<Rightarrow> (Inr (Some True), r')
      | (Inl e, r') \<Rightarrow>
          if e = FileNotFoundError then
            (if attempt = 0 then op_bind (forget_parent_dir p) (\<lambda>_. op_return None) r' else (Inl CASRepositoryError, r'))
          else if is_OSError e then
            (if sys_exists p (cas_disk r') then (Inr (Some False), r') else (Inl CASRepositoryError, r'))
          else (Inl e, r'))"

text \<open>One turn of the loop of \<open>_write_once\<close>. A failure to write the temporary file is turned into
  \<open>CASRepositoryError\<close> inside, so the outer \<open>except FileNotFoundError\<close> never applies; the
  \<open>finally\<close> removes the temporary file unless it was published.\<close>

definition write_attempt :: "nat \<Rightarrow> path \<Rightarrow> bytes \<Rightarrow> (cas_repository, bool option) op" where
  "write_attempt attempt p data =
     op_bind (ensure_parent_dir p) (\<lambda>_.
     op_bind (on_disk random_name) (\<lambda>rnd.
       let temp = with_name p (last p @ ''.'' @ rnd @ ''.tmp'') in
       cleanup_unless (\<lambda>x. x = Some True) (op_catch (on_disk (sys_remove temp)) (\<lambda>_. True) (op_return ()))
         (op_bind (op_wrap is_OSError CASRepositoryError (on_disk (sys_write temp data))) (\<lambda>_.
          publish attempt temp p))))"

definition write_once :: "path \<Rightarrow> bytes \<Rightarrow> (cas_repository, bool) op" where
  "write_once p data = op_read (\<lambda>r.
     if sys_exists p (cas_disk r) then op_return False
     else op_bind (write_attempt 0 p data) (\<lambda>x. case x of
         Some b \<Rightarrow> op_return b
       | None \<Rightarrow> op_bind (write_attempt 1 p data) (\<lambda>y. case y of
           Some b \<Rightarrow> op_return b
         | None \<Rightarrow> op_raise CASRepositoryError)))"

definition put :: "codec \<Rightarrow> string \<Rightarrow> bytes \<Rightarrow> (cas_repository, bool) op" where
  "put z h raw = op_read (\<lambda>r. write_once (chunk_path (data_folder r) h) (compress z raw))"

definition put_compressed :: "string \<Rightarrow> bytes \<Rightarrow> (cas_repository, bool) op" where
  "put_compressed h data = op_read (\<lambda>r. write_once (chunk_path (data_folder r) h) data)"

definition get_compressed :: "string \<Rightarrow> (cas_repository, bytes) op" where
  "get_compressed h = op_read (\<lambda>r.
     op_wrap (\<lambda>e. is_OSError e) CASRepositoryError
       (op_wrap (\<lambda>e. e = FileNotFoundError) CASMissingChunkError (on_disk (sys_read (chunk_path (data_folder r) h)))))"

definition decompress_and_validate :: "codec \<Rightarrow> string \<Rightarrow> bytes \<Rightarrow> bytes result" where
  "decompress_and_validate z h data =
     (case decompress z data of
        Inl e \<Rightarrow> if e = ZstdError then Inl CASCorruptionError else Inl e
      | Inr raw \<Rightarrow> if blake3_hex z raw \<noteq> h then Inl CASCorruptionError else Inr raw)"

definition get :: "codec \<Rightarrow> string \<Rightarrow> (cas_repository, bytes) op" where
  "get z h = op_bind (get_compressed h) (\<lambda>data. op_lift (decompress_and_validate z h data))"

definition get_validated_compressed :: "codec \<Rightarrow> string \<Rightarrow> (cas_repository, bytes) op" where
  "get_validated_compressed z h = op_bind (get_compressed h) (\<lambda>data.
     op_bind (op_lift (decompress_and_validate z h data)) (\<lambda>_. op_return data))"

section \<open>The commit engine (commit_engine.py)\<close>

record storage_commit_result =
  cr_chunk_hash :: string
  cr_status :: int

definition commit_is_success :: "storage_commit_result \<Rightarrow> bool" where
  "commit_is_success c \<longleftrightarrow> cr_status c \<in> {STORE_STATUS_STORED, STORE_STATUS_ALREADY_PRESENT}"

definition process_one :: "codec \<Rightarrow> int \<Rightarrow> string \<Rightarrow> bytes \<Rightarrow> (cas_repository, storage_commit_result) op" where
  "process_one z max_chunk_size h data = op_read (\<lambda>r.
     let result = (\<lambda>st. op_return \<lparr>cr_chunk_hash = h, cr_status = st\<rparr>) in
     if \<not> is_hex64 h then result STORE_STATUS_REJECTED_HASH_MISMATCH
     else if exists_local h r then result STORE_STATUS_ALREADY_PRESENT
     else case decompress_max z (max 1 max_chunk_size) data of
            Inl _ \<Rightarrow> result STORE_STATUS_REJECTED_CORRUPT
          | Inr raw \<Rightarrow>
              if blake3_hex z raw \<noteq> h then result STORE_STATUS_REJECTED_HASH_MISMATCH
              else op_catch (op_bind (put_compressed h data) (\<lambda>written.
                       if written then result STORE_STATUS_STORED else result STORE_STATUS_ALREADY_PRESENT))
                     (\<lambda>_. True) (result STORE_STATUS_ERROR))"

section \<open>Authorisation (auth.py)\<close>

text \<open>The values the request carries under the metadata key: exactly one must be there.\<close>

definition metadata_value :: "bytes list \<Rightarrow> bytes option" where
  "metadata_value values = (if length values \<noteq> 1 then None else Some (hd values))"

definition require_cluster_token_metadata :: "(string \<Rightarrow> bytes) \<Rightarrow> string \<Rightarrow> bytes list \<Rightarrow> ('s, unit) op" where
  "require_cluster_token_metadata utf8 expected values =
     (if py_strip expected = [] then op_raise (Abort UNAUTHENTICATED)
      else case metadata_value values of
             None \<Rightarrow> op_raise (Abort UNAUTHENTICATED)
           | Some received \<Rightarrow> if received \<noteq> utf8 expected then op_raise (Abort UNAUTHENTICATED) else op_return ())"

section \<open>The chunk RPCs (storage_rpc.py)\<close>

record storage_node =
  sn_utf8 :: "string \<Rightarrow> bytes"
  sn_codec :: codec
  sn_cluster_token :: string
  sn_max_chunk_size :: int

definition guarded :: "storage_node \<Rightarrow> bytes list \<Rightarrow> unit result \<Rightarrow> ('s, 'a) op \<Rightarrow> ('s, 'a) op" where
  "guarded node token admit handler =
     op_bind (require_cluster_token_metadata (sn_utf8 node) (sn_cluster_token node) token) (\<lambda>_.
     op_bind (op_lift admit) (\<lambda>_. handler))"

definition ProbeMissingChunks ::
    "storage_node \<Rightarrow> bytes list \<Rightarrow> unit result \<Rightarrow> string list \<Rightarrow> (cas_repository, string list) op" where
  "ProbeMissingChunks node token admit hashes = guarded node token admit (op_read (\<lambda>r.
     if filter (\<lambda>h. h \<noteq> [] \<and> \<not> is_hex64 h) hashes \<noteq> [] then op_raise (Abort INVALID_ARGUMENT)
     else op_return (filter (\<lambda>h. h \<noteq> [] \<and> \<not> exists_local h r) hashes)))"

text \<open>The commits of a stream in the order the workers run them.\<close>

fun commit_all :: "codec \<Rightarrow> int \<Rightarrow> (string \<times> bytes) list \<Rightarrow> (cas_repository, storage_commit_result list) op" where
  "commit_all z n [] = op_return []"
| "commit_all z n ((h, data) # items) =
     op_bind (process_one z n h data) (\<lambda>c. op_bind (commit_all z n items) (\<lambda>cs. op_return (c # cs)))"

definition ReplicateChunks ::
    "storage_node \<Rightarrow> bytes list \<Rightarrow> unit result \<Rightarrow> (string \<times> bytes) list \<Rightarrow> (cas_repository, storage_commit_result list) op" where
  "ReplicateChunks node token admit items = guarded node token admit
     (commit_all (sn_codec node) (sn_max_chunk_size node) (filter (\<lambda>(h, _). h \<noteq> []) items))"

record retrieved_chunk =
  rv_chunk_hash :: string
  rv_status :: int
  rv_chunk_data :: bytes

text \<open>\<open>CASMissingChunkError\<close> is a \<open>FileNotFoundError\<close>.\<close>

definition retrieve_one :: "codec \<Rightarrow> string \<Rightarrow> (cas_repository, retrieved_chunk) op" where
  "retrieve_one z h r =
     (if \<not> is_hex64 h then (Inr \<lparr>rv_chunk_hash = h, rv_status = RETRIEVE_STATUS_ERROR, rv_chunk_data = []\<rparr>, r)
      else case get_validated_compressed z h r of
        (Inr data, r') \<Rightarrow> (Inr \<lparr>rv_chunk_hash = h, rv_status = RETRIEVE_STATUS_FOUND, rv_chunk_data = data\<rparr>, r')
      | (Inl e, r') \<Rightarrow>
          (Inr \<lparr>rv_chunk_hash = h,
                rv_status = (if e = CASMissingChunkError then RETRIEVE_STATUS_NOT_FOUND else RETRIEVE_STATUS_ERROR),
                rv_chunk_data = []\<rparr>, r'))"

fun retrieve_all :: "codec \<Rightarrow> string list \<Rightarrow> (cas_repository, retrieved_chunk list) op" where
  "retrieve_all z [] = op_return []"
| "retrieve_all z (h # hs) = op_bind (retrieve_one z h) (\<lambda>c. op_bind (retrieve_all z hs) (\<lambda>cs. op_return (c # cs)))"

definition RetrieveChunkBatch ::
    "storage_node \<Rightarrow> bytes list \<Rightarrow> unit result \<Rightarrow> string list \<Rightarrow> (cas_repository, retrieved_chunk list) op" where
  "RetrieveChunkBatch node token admit hashes =
     guarded node token admit (retrieve_all (sn_codec node) (filter (\<lambda>h. h \<noteq> []) hashes))"

section \<open>Writing once\<close>

definition cas_may :: "path set \<Rightarrow> path \<Rightarrow> bytes \<Rightarrow> cas_repository \<Rightarrow> cas_repository \<Rightarrow> bool" where
  "cas_may P p data r r' \<longleftrightarrow> data_folder r' = data_folder r \<and> may_set P p data (cas_disk r) (cas_disk r')"

interpretation cas: op_relation "cas_may P p data" for P p data
  by unfold_locales (auto simp: cas_may_def intro: mset_rel.R_refl mset_rel.R_trans)

lemma cas_on_disk: "mset_rel.stays P p data f \<Longrightarrow> cas.stays P p data (on_disk f)"
proof (rule cas.staysI)
  fix s :: cas_repository
  assume "mset_rel.stays P p data f"
  then have "may_set P p data (cas_disk s) (snd (f (cas_disk s)))" by (rule mset_rel.stays_state)
  then show "cas_may P p data s (snd (on_disk f s))"
    by (cases "f (cas_disk s)") (simp add: on_disk_def cas_may_def)
qed

lemma cas_wrap: "cas.stays P p data m \<Longrightarrow> cas.stays P p data (op_wrap c e m)"
  unfolding op_wrap_def by (intro cas.stays_catch cas.stays_pure)

lemma cas_dirs: "cas.stays P p data (op_modify (\<lambda>r. r\<lparr>ensured_dirs := f r\<rparr>))"
  by (rule cas.staysI) (simp add: op_modify_def cas_may_def mset_rel.R_refl)

lemma cas_ensure: "cas.stays P p data (ensure_parent_dir q)"
  unfolding ensure_parent_dir_def
  by (intro cas.stays_read cas.stays_if cas.stays_pure cas.stays_bind cas_wrap cas_on_disk stays_sys_call cas_dirs)
    (simp add: may_set_def)

lemma cas_publish:
  assumes "files (cas_disk r) t = Some data" "t \<in> P"
  shows "cas_may P p data r (snd (publish k t p r))"
proof -
  let ?r = "snd (on_disk (sys_replace t p) r)"
  have "cas_may P p data r ?r"
    using sys_replace_may_set [OF assms, of p] by (cases "sys_replace t p (cas_disk r)") (simp add: on_disk_def cas_may_def)
  moreover have "cas_may P p data ?r (snd (op_bind (forget_parent_dir p) (\<lambda>_. op_return x) ?r))" for x :: "bool option"
    unfolding forget_parent_dir_def by (intro cas.stays_state cas.stays_bind cas_dirs cas.stays_pure)
  ultimately show ?thesis
    by (auto simp: publish_def split: prod.splits sum.splits intro: cas.R_trans)
qed

lemma cas_cleanup:
  assumes "cas.stays P p data m" "cas.stays P p data h"
  shows "cas.stays P p data (cleanup_unless c h m)"
proof (rule cas.staysI)
  fix s
  have "cas_may P p data s (snd (m s))" "cas_may P p data (snd (m s)) (snd (h (snd (m s))))"
    using assms by (auto intro: cas.stays_state)
  then show "cas_may P p data s (snd (cleanup_unless c h m s))"
    by (cases "m s") (auto simp: cleanup_unless_def intro: cas.R_trans)
qed

lemma temp_chunk [simp]: "temp_path (with_name p (l @ CHR ''.'' # r @ ''.tmp''))"
proof -
  have "l @ CHR ''.'' # r @ ''.tmp'' = (l @ CHR ''.'' # r) @ ''.tmp''" by simp
  then show ?thesis unfolding temp_path_def with_name_def suffix_def last_snoc by blast
qed

lemma on_disk_write: "on_disk (sys_write t data) r = (Inr u, r') \<Longrightarrow> files (cas_disk r') t = Some data"
  by (auto simp: on_disk_def dest: sys_write_run split: prod.splits)

lemma cas_write_publish:
  assumes "t \<in> P"
  shows "cas.stays P p data (op_bind (op_wrap is_OSError CASRepositoryError (on_disk (sys_write t data))) (\<lambda>_. publish k t p))"
proof (rule cas.staysI, rule cas.bind_state)
  fix s
  show "cas_may P p data s (snd (op_wrap is_OSError CASRepositoryError (on_disk (sys_write t data)) s))"
    by (rule cas.stays_state) (intro cas_wrap cas_on_disk stays_write_temp assms)
  fix x r assume "op_wrap is_OSError CASRepositoryError (on_disk (sys_write t data)) s = (Inr x, r)"
  then show "cas_may P p data r (snd (publish k t p r))"
    by (intro cas_publish assms) (simp add: op_wrap_Inr on_disk_write)
qed

lemma cas_remove: "t \<in> P \<Longrightarrow> cas.stays P p data (op_catch (on_disk (sys_remove t)) (\<lambda>_. True) (op_return ()))"
  by (intro cas.stays_catch cas_on_disk stays_remove_temp cas.stays_pure)

lemma cas_write_attempt: "cas.stays temps p data (write_attempt k p data)"
  unfolding write_attempt_def Let_def
  by (rule cas.stays_bind [OF cas_ensure], rule cas.stays_bind [OF cas_on_disk [OF stays_next(2)]],
      rule cas_cleanup, rule cas_write_publish, simp, rule cas_remove, simp)

lemma cas_write_once: "cas.stays temps p data (write_once p data)"
  unfolding write_once_def
  by (intro cas.stays_read cas.stays_if cas.stays_pure cas.stays_bind cas_write_attempt)
    (auto split: option.split intro!: cas.stays_bind cas_write_attempt cas.stays_pure)

text \<open>What the results mean.\<close>

lemma publish_result:
  assumes "publish k t p r = (Inr (Some b), r')" "files (cas_disk r) t = Some data"
  shows "if b then files (cas_disk r') p = Some data else files (cas_disk r') p \<noteq> None"
  using assms
  by (auto simp: publish_def on_disk_def forget_parent_dir_def op_bind_def op_modify_def op_return_def sys_exists_def
      split: prod.splits sum.splits if_splits dest: sys_replace_Inr)

lemma may_set_keeps: "may_set P p data d d' \<Longrightarrow> q \<notin> P \<Longrightarrow> files d q \<noteq> None \<Longrightarrow> files d' q \<noteq> None"
  by (metis may_set_def option.distinct(1))

lemma write_attempt_result:
  assumes "write_attempt k p data r = (Inr (Some b), r')" "\<not> temp_path p"
  shows "if b then files (cas_disk r') p = Some data else files (cas_disk r') p \<noteq> None"
proof -
  from assms(1) obtain t s1 u s2 s3 where w: "on_disk (sys_write t data) s1 = (Inr u, s2)"
    and pub: "publish k t p s2 = (Inr (Some b), s3)" and t: "t \<in> temps"
    and r': "r' = (if b then s3 else snd (op_catch (on_disk (sys_remove t)) (\<lambda>_. True) (op_return ()) s3))"
    by (auto simp: write_attempt_def Let_def op_bind_def cleanup_unless_def op_wrap_Inr split: prod.splits sum.splits if_splits)
  have p: "if b then files (cas_disk s3) p = Some data else files (cas_disk s3) p \<noteq> None"
    by (rule publish_result [OF pub on_disk_write [OF w]])
  have "cas_may temps p data s3 (snd (op_catch (on_disk (sys_remove t)) (\<lambda>_. True) (op_return ()) s3))"
    using t by (intro cas.stays_state cas_remove)
  then show ?thesis using p r' assms(2) by (auto simp: cas_may_def dest: may_set_keeps [where q = p])
qed

lemma write_once_result:
  assumes "write_once p data r = (Inr b, r')" "\<not> temp_path p"
  shows "if b then files (cas_disk r') p = Some data else files (cas_disk r') p \<noteq> None"
  using assms
  by (auto simp: write_once_def op_read_def op_return_def op_raise_def op_bind_def sys_exists_def
      split: prod.splits sum.splits option.splits if_splits dest!: write_attempt_result)

text \<open>Publishing a chunk is all or nothing: whatever system calls fail, at whichever point, every
  visible path keeps its content or is the chunk's own path with the complete data; \<open>True\<close> means
  that the complete data is there, \<open>False\<close> that the path already held a chunk, and a path that
  held a chunk still does.\<close>

theorem write_once_all_or_nothing:
  assumes "\<not> temp_path p" "write_once p data r = (res, r')"
  shows "(\<forall>q. \<not> temp_path q \<longrightarrow> files (cas_disk r') q = files (cas_disk r) q \<or> (q = p \<and> files (cas_disk r') q = Some data))
    \<and> (res = Inr True \<longrightarrow> files (cas_disk r') p = Some data) \<and> (res = Inr False \<longrightarrow> files (cas_disk r') p \<noteq> None)
    \<and> (files (cas_disk r) p \<noteq> None \<longrightarrow> res = Inr False \<and> r' = r)"
proof -
  have "cas_may temps p data r r'" using cas.stays_state [OF cas_write_once [of p data], of r] assms(2) by simp
  moreover have "res = Inr True \<longrightarrow> files (cas_disk r') p = Some data" "res = Inr False \<longrightarrow> files (cas_disk r') p \<noteq> None"
    using write_once_result [OF _ assms(1), of data r True r'] write_once_result [OF _ assms(1), of data r False r'] assms(2) by auto
  moreover have "files (cas_disk r) p \<noteq> None \<Longrightarrow> res = Inr False \<and> r' = r"
    using assms(2) by (auto simp: write_once_def op_read_def sys_exists_def op_return_def)
  ultimately show ?thesis by (auto simp: cas_may_def may_set_def)
qed

definition demo_cas :: "(nat \<Rightarrow> io_outcome) \<Rightarrow> cas_repository" where
  "demo_cas os = \<lparr>data_folder = [''d''], ensured_dirs = {},
     cas_disk = \<lparr>files = (\<lambda>_. None), outcomes = os, names = (\<lambda>_. ''r''), calls = 0\<rparr>\<rparr>"

theorem write_once_all_or_nothing_witness:
  "files (cas_disk (snd (write_once [''d'', ''c''] [1, 2] (demo_cas (\<lambda>n. if n = 2 then IO_fail 1 else IO_ok))))) [''d'', ''c'']
     \<in> {None, Some [1, 2]}"
proof -
  let ?r = "demo_cas (\<lambda>n. if n = 2 then IO_fail 1 else IO_ok)"
  have t: "\<not> temp_path [''d'', ''c'']" by (auto simp: temp_path_def suffix_def)
  have "files (cas_disk ?r) [''d'', ''c''] = None" by (simp add: demo_cas_def)
  with write_once_all_or_nothing [OF t surjective_pairing [of "write_once [''d'', ''c''] [1, 2] ?r"], THEN conjunct1, rule_format, OF t]
  show ?thesis by auto
qed

section \<open>The custody of a storage node\<close>

lemma hex64_last: "is_hex64 h \<Longrightarrow> h \<noteq> [] \<and> is_hex_lower (last h)"
  using is_hex64_nonempty by (auto simp: is_hex64_def list_all_iff)

lemma chunk_path_not_temp: "is_hex64 h \<Longrightarrow> \<not> temp_path (chunk_path folder h)"
proof
  assume h: "is_hex64 h" and "temp_path (chunk_path folder h)"
  then obtain x where "h = x @ ''.tmp''" by (auto simp: temp_path_def chunk_path_def suffix_def)
  then have "last h = CHR ''p''" by simp
  then show False using hex64_last [OF h] by (simp add: is_hex_lower_def is_dec_char_def)
qed

lemma chunk_path_inj: "chunk_path f h = chunk_path f h' \<Longrightarrow> h = h'"
  by (simp add: chunk_path_def)

text \<open>Every chunk file holds a blob the node itself has decompressed and hashed to the name.\<close>

definition custody_ok :: "codec \<Rightarrow> int \<Rightarrow> cas_repository \<Rightarrow> bool" where
  "custody_ok z n r \<longleftrightarrow> (\<forall>h data. is_hex64 h \<longrightarrow> files (cas_disk r) (chunk_path (data_folder r) h) = Some data \<longrightarrow>
     (\<exists>raw. decompress_max z (max 1 n) data = Inr raw \<and> blake3_hex z raw = h))"

lemma put_compressed_may: "cas_may temps (chunk_path (data_folder r) h) data r (snd (put_compressed h data r))"
  unfolding put_compressed_def op_read_def by (rule cas.stays_state [OF cas_write_once])

lemma process_one_run:
  "\<exists>c. fst (process_one z n h data r) = Inr c \<and> cr_chunk_hash c = h
     \<and> (snd (process_one z n h data r) = r \<or>
        (is_hex64 h \<and> (\<exists>raw. decompress_max z (max 1 n) data = Inr raw \<and> blake3_hex z raw = h)
         \<and> snd (process_one z n h data r) = snd (put_compressed h data r)))
     \<and> (commit_is_success c \<longrightarrow> is_hex64 h
         \<and> files (cas_disk (snd (process_one z n h data r))) (chunk_path (data_folder r) h) \<noteq> None)"
proof -
  consider (bad) "\<not> is_hex64 h" | (present) "is_hex64 h" "exists_local h r"
    | (corrupt) e where "is_hex64 h" "\<not> exists_local h r" "decompress_max z (max 1 n) data = Inl e"
    | (mismatch) raw where "is_hex64 h" "\<not> exists_local h r" "decompress_max z (max 1 n) data = Inr raw" "blake3_hex z raw \<noteq> h"
    | (commit) raw where "is_hex64 h" "\<not> exists_local h r" "decompress_max z (max 1 n) data = Inr raw" "blake3_hex z raw = h"
    by (cases "decompress_max z (max 1 n) data") auto
  then show ?thesis
  proof cases
    case (commit raw)
    obtain x r' where p: "put_compressed h data r = (x, r')" by fastforce
    have "x = Inr b \<Longrightarrow> files (cas_disk r') (chunk_path (data_folder r) h) \<noteq> None" for b
      using p write_once_result [OF _ chunk_path_not_temp [OF commit(1), of "data_folder r"], of data r b r']
      by (cases b) (auto simp: put_compressed_def op_read_def)
    then show ?thesis using commit p
      by (cases x) (auto simp: process_one_def op_read_def op_return_def op_bind_def op_catch_def Let_def commit_is_success_def
          STORE_STATUS_ERROR_def STORE_STATUS_STORED_def STORE_STATUS_ALREADY_PRESENT_def)
  qed (auto simp: process_one_def op_read_def op_return_def Let_def commit_is_success_def exists_local_def sys_exists_def
      STORE_STATUS_REJECTED_CORRUPT_def STORE_STATUS_REJECTED_HASH_MISMATCH_def STORE_STATUS_STORED_def STORE_STATUS_ALREADY_PRESENT_def)
qed

lemma process_one_custody:
  assumes "custody_ok z n r"
  shows "custody_ok z n (snd (process_one z n h data r))"
proof (cases "snd (process_one z n h data r) = r")
  case False
  then obtain raw where v: "is_hex64 h" "decompress_max z (max 1 n) data = Inr raw" "blake3_hex z raw = h"
    "snd (process_one z n h data r) = snd (put_compressed h data r)" using process_one_run [of z n h data r] by auto
  let ?r = "snd (put_compressed h data r)"
  have m: "data_folder ?r = data_folder r" "\<And>q. q \<notin> temps \<Longrightarrow> files (cas_disk ?r) q = files (cas_disk r) q
      \<or> (q = chunk_path (data_folder r) h \<and> files (cas_disk ?r) q = Some data)"
    using put_compressed_may [of r h data] by (auto simp: cas_may_def may_set_def)
  have "\<exists>raw'. decompress_max z (max 1 n) data' = Inr raw' \<and> blake3_hex z raw' = h'"
    if h': "is_hex64 h'" "files (cas_disk ?r) (chunk_path (data_folder r) h') = Some data'" for h' data'
  proof -
    have "chunk_path (data_folder r) h' \<notin> temps" using chunk_path_not_temp [OF h'(1)] by simp
    from m(2) [OF this] show ?thesis
    proof (elim disjE)
    assume "files (cas_disk ?r) (chunk_path (data_folder r) h') = files (cas_disk r) (chunk_path (data_folder r) h')"
    then show ?thesis using assms h' unfolding custody_ok_def by metis
  next
    assume "chunk_path (data_folder r) h' = chunk_path (data_folder r) h \<and> files (cas_disk ?r) (chunk_path (data_folder r) h') = Some data"
    then show ?thesis using h'(2) v chunk_path_inj by auto
    qed
  qed
  then show ?thesis unfolding v(4) custody_ok_def m(1) by blast
qed (use assms in simp)

lemma process_one_keeps:
  assumes "is_hex64 h'" "files (cas_disk r) (chunk_path (data_folder r) h') \<noteq> None"
  shows "files (cas_disk (snd (process_one z n h data r))) (chunk_path (data_folder r) h') \<noteq> None"
proof (cases "snd (process_one z n h data r) = r")
  case False
  then have "snd (process_one z n h data r) = snd (put_compressed h data r)" using process_one_run [of z n h data r] by auto
  then show ?thesis
    using put_compressed_may [of r h data] may_set_keeps [OF _ _ assms(2)] chunk_path_not_temp [OF assms(1)]
    by (auto simp: cas_may_def)
qed (use assms in simp)

lemma process_one_folder: "data_folder (snd (process_one z n h data r)) = data_folder r"
  using process_one_run [of z n h data r] put_compressed_may [of r h data] by (auto simp: cas_may_def)

interpretation chunk_commits: acknowledging_store "\<lambda>r. custody_ok z n r \<and> data_folder r = f" "\<lambda>r h. is_hex64 h \<and> exists_local h r"
  "\<lambda>(h, data). process_one z n h data" "commit_all z n" "\<lambda>i c. cr_chunk_hash c = fst i"
  "\<lambda>c h. commit_is_success c \<and> h = cr_chunk_hash c" for z n f
proof unfold_locales
  fix s :: cas_repository and i :: "string \<times> bytes"
  assume s: "custody_ok z n s \<and> data_folder s = f"
  obtain h data where i: "i = (h, data)" by (cases i)
  let ?t = "snd (process_one z n h data s)"
  obtain c where c: "fst (process_one z n h data s) = Inr c" "cr_chunk_hash c = h"
    "commit_is_success c \<longrightarrow> is_hex64 h \<and> files (cas_disk ?t) (chunk_path (data_folder s) h) \<noteq> None"
    using process_one_run [of z n h data s] by blast
  have "process_one z n h data s = (Inr c, ?t)" using c(1) by (cases "process_one z n h data s") simp
  moreover have "custody_ok z n ?t \<and> data_folder ?t = f" using s process_one_custody [of z n s h data] by (simp add: process_one_folder)
  moreover have "\<forall>k. is_hex64 k \<and> exists_local k s \<longrightarrow> is_hex64 k \<and> exists_local k ?t"
    using process_one_keeps [of _ s z n h data] by (auto simp: exists_local_def sys_exists_def process_one_folder)
  ultimately show "\<exists>a t. (case i of (h, data) \<Rightarrow> process_one z n h data) s = (Inr a, t) \<and> cr_chunk_hash a = fst i
      \<and> (custody_ok z n t \<and> data_folder t = f) \<and> (\<forall>k. is_hex64 k \<and> exists_local k s \<longrightarrow> is_hex64 k \<and> exists_local k t)
      \<and> (\<forall>k. commit_is_success a \<and> k = cr_chunk_hash a \<longrightarrow> is_hex64 k \<and> exists_local k t)"
    using c(2,3) i s by (intro exI [of _ c] exI [of _ ?t]) (simp add: exists_local_def sys_exists_def)
qed auto

lemma commit_all_run:
  assumes "custody_ok z n r" "commit_all z n items r = (Inr cs, r')"
  shows "map cr_chunk_hash cs = map fst items" "custody_ok z n r'"
    "is_hex64 h \<Longrightarrow> exists_local h r \<Longrightarrow> exists_local h r'"
    "c \<in> set cs \<Longrightarrow> commit_is_success c \<Longrightarrow> is_hex64 (cr_chunk_hash c) \<and> exists_local (cr_chunk_hash c) r'"
proof -
  note run = chunk_commits.commits_answer [of z n r "data_folder r" items, unfolded assms(2), simplified]
  have a2: "list_all2 (\<lambda>i c. cr_chunk_hash c = fst i) items cs" using run assms(1) by auto
  then show "map cr_chunk_hash cs = map fst items" by (induction rule: list_all2_induct) auto
  show "custody_ok z n r'" "is_hex64 h \<Longrightarrow> exists_local h r \<Longrightarrow> exists_local h r'"
    "c \<in> set cs \<Longrightarrow> commit_is_success c \<Longrightarrow> is_hex64 (cr_chunk_hash c) \<and> exists_local (cr_chunk_hash c) r'"
    using run assms(1) by auto
qed

text \<open>What is read back: a present chunk, read without an I/O error, is found and authentic.\<close>

definition frames_carry_size :: "codec \<Rightarrow> bool" where
  "frames_carry_size z \<longleftrightarrow> (\<forall>n data raw. decompress_max z n data = Inr raw \<longrightarrow> decompress z data = Inr raw)"

lemma retrieve_found:
  assumes "custody_ok z n r" "frames_carry_size z" "is_hex64 h" "exists_local h r"
    and "outcomes (cas_disk r) (calls (cas_disk r)) = IO_ok"
  shows "\<exists>data raw. fst (retrieve_one z h r) = Inr \<lparr>rv_chunk_hash = h, rv_status = RETRIEVE_STATUS_FOUND, rv_chunk_data = data\<rparr>
    \<and> decompress_max z (max 1 n) data = Inr raw \<and> decompress z data = Inr raw \<and> blake3_hex z raw = h"
proof -
  obtain data where d: "files (cas_disk r) (chunk_path (data_folder r) h) = Some data"
    using assms(4) by (auto simp: exists_local_def sys_exists_def)
  obtain raw where raw: "decompress_max z (max 1 n) data = Inr raw" "blake3_hex z raw = h"
    using assms(1,3) d by (auto simp: custody_ok_def)
  have "decompress z data = Inr raw" using assms(2) raw(1) by (auto simp: frames_carry_size_def)
  then show ?thesis using assms(3,5) d raw
    by (simp add: retrieve_one_def get_validated_compressed_def get_compressed_def decompress_and_validate_def on_disk_def
        sys_read_def next_outcome_def fails_with_def op_wrap_def op_catch_def op_read_def op_bind_def op_lift_def op_return_def)
qed


definition demo_codec :: codec where
  "demo_codec = \<lparr>compress = id, decompress = Inr, decompress_max = (\<lambda>n. Inr), blake3_hex = (\<lambda>b. replicate 64 CHR ''a'')\<rparr>"

lemma demo_commit:
  "fst (commit_all demo_codec 9 [(replicate 64 CHR ''a'', [1])] (demo_cas (\<lambda>_. IO_ok))) =
     Inr [\<lparr>cr_chunk_hash = replicate 64 CHR ''a'', cr_status = STORE_STATUS_STORED\<rparr>]"
  "outcomes (cas_disk (snd (commit_all demo_codec 9 [(replicate 64 CHR ''a'', [1])] (demo_cas (\<lambda>_. IO_ok))))) n = IO_ok"
  by code_simp+


end
