(* ===== verification/ShardStore.thy ===== *)
theory ShardStore
  imports Disk
begin

text \<open>
  The store of erasure-coded shards on a storage node: \<open>stopan.node.storage.ec_shard_store\<close> and
  the handlers of \<open>stopan.node.services.ec_storage_rpc\<close>.

  A reference in a message is the triple of pack hash, shard index and shard hash. The BLAKE3
  digest is the argument \<open>hx\<close>.
\<close>

type_synonym shard_key = "string \<times> int \<times> string"

record shard_store =
  ss_root :: path
  max_shard_size :: int
  ss_disk :: disk

definition in_disk :: "(disk, 'a) op \<Rightarrow> (shard_store, 'a) op" where
  "in_disk f s = (case f (ss_disk s) of (x, d) \<Rightarrow> (x, s\<lparr>ss_disk := d\<rparr>))"

section \<open>The store (ec_shard_store.py)\<close>

definition store_require_hash64 :: "string \<Rightarrow> string result" where
  "store_require_hash64 v = (if is_valid_blake3_hex (PyStr v) then Inr v else Inl DataPackShardStoreError)"

definition store_require_non_negative_int :: "int \<Rightarrow> int result" where
  "store_require_non_negative_int i = require_strict_non_negative_int (PyInt i) DataPackShardStoreError"

definition require_key :: "shard_key \<Rightarrow> unit result" where
  "require_key k = (case k of (p, i, h) \<Rightarrow>
     bindE (store_require_hash64 p) (\<lambda>_. bindE (store_require_hash64 h) (\<lambda>_.
     bindE (store_require_non_negative_int i) (\<lambda>_. Inr ()))))"

text \<open>\<open>f"{shard_index:03d}"\<close> for an index that is not negative.\<close>

definition fmt_03d :: "int \<Rightarrow> string" where
  "fmt_03d i = replicate (3 - length (dec_int i)) CHR ''0'' @ dec_int i"

definition shard_path :: "path \<Rightarrow> shard_key \<Rightarrow> path" where
  "shard_path folder k = (case k of (p, i, h) \<Rightarrow> folder @ [take 2 p, p, fmt_03d i @ ''-'' @ h @ ''.stec''])"

definition store_exists :: "shard_key \<Rightarrow> shard_store \<Rightarrow> bool result" where
  "store_exists k s = bindE (require_key k) (\<lambda>_. Inr (sys_exists (shard_path (ss_root s) k) (ss_disk s)))"

definition store_put :: "(bytes \<Rightarrow> string) \<Rightarrow> shard_key \<Rightarrow> bytes \<Rightarrow> (shard_store, bool) op" where
  "store_put hx k data = op_bind (op_lift (require_key k)) (\<lambda>_. op_read (\<lambda>s.
     if max_shard_size s < int (length data) then op_raise DataPackShardTooLargeError
     else if hx data \<noteq> snd (snd k) then op_raise DataPackShardHashMismatchError
     else if sys_exists (shard_path (ss_root s) k) (ss_disk s) then op_return False
     else op_bind (op_wrap (\<lambda>e. e = StopanStorageOSError) DataPackShardStoreError
                     (in_disk (atomic_write_bytes (shard_path (ss_root s) k) data))) (\<lambda>_. op_return True)))"

definition store_get :: "(bytes \<Rightarrow> string) \<Rightarrow> shard_key \<Rightarrow> (shard_store, bytes) op" where
  "store_get hx k = op_bind (op_lift (require_key k)) (\<lambda>_. op_read (\<lambda>s.
     op_bind (op_wrap (\<lambda>e. is_OSError e \<and> e \<noteq> FileNotFoundError) DataPackShardStoreError
               (in_disk (sys_read (shard_path (ss_root s) k)))) (\<lambda>data.
       if hx data \<noteq> snd (snd k) then op_raise DataPackShardHashMismatchError else op_return data)))"

section \<open>The handlers (ec_storage_rpc.py)\<close>

definition invalid_shard_ref :: "shard_key \<Rightarrow> bool" where
  "invalid_shard_ref k = (case k of (p, i, h) \<Rightarrow>
     \<not> is_valid_blake3_hex (PyStr p) \<or> \<not> is_valid_blake3_hex (PyStr h) \<or> i < 0)"

definition rpc_probe_missing :: "shard_key list \<Rightarrow> shard_store \<Rightarrow> shard_key list result" where
  "rpc_probe_missing ks s =
     (if list_ex invalid_shard_ref ks then Inl (Abort INVALID_ARGUMENT)
      else case mapE (\<lambda>k. bindE (store_exists k s) (\<lambda>b. Inr (k, b))) ks of
             Inl _ \<Rightarrow> Inl (Abort INTERNAL)
           | Inr kbs \<Rightarrow> Inr (map fst (filter (\<lambda>(k, b). \<not> b) kbs)))"

definition store_data_pack_shard :: "(bytes \<Rightarrow> string) \<Rightarrow> shard_key \<times> bytes \<Rightarrow> (shard_store, shard_key \<times> int) op" where
  "store_data_pack_shard hx item s = (case item of (k, data) \<Rightarrow>
     if invalid_shard_ref k \<or> data = [] then (Inr (k, DATA_PACK_SHARD_STORE_STATUS_REJECTED_INVALID_ARGUMENT), s)
     else case store_put hx k data s of
       (Inr stored, s') \<Rightarrow>
         (Inr (k, if stored then DATA_PACK_SHARD_STORE_STATUS_STORED else DATA_PACK_SHARD_STORE_STATUS_ALREADY_PRESENT), s')
     | (Inl e, s') \<Rightarrow>
         (Inr (k, if e = DataPackShardHashMismatchError then DATA_PACK_SHARD_STORE_STATUS_REJECTED_HASH_MISMATCH
                  else if e = DataPackShardTooLargeError then DATA_PACK_SHARD_STORE_STATUS_REJECTED_TOO_LARGE
                  else if e = DataPackShardStoreError then DATA_PACK_SHARD_STORE_STATUS_REJECTED_INVALID_ARGUMENT
                  else DATA_PACK_SHARD_STORE_STATUS_ERROR), s'))"

fun rpc_replicate :: "(bytes \<Rightarrow> string) \<Rightarrow> (shard_key \<times> bytes) list \<Rightarrow> (shard_store, (shard_key \<times> int) list) op" where
  "rpc_replicate hx [] = op_return []"
| "rpc_replicate hx (item # items) =
     op_bind (store_data_pack_shard hx item) (\<lambda>a. op_bind (rpc_replicate hx items) (\<lambda>as. op_return (a # as)))"

definition retrieve_shard :: "(bytes \<Rightarrow> string) \<Rightarrow> shard_key \<Rightarrow> (shard_store, shard_key \<times> int \<times> bytes) op" where
  "retrieve_shard hx k s =
     (if invalid_shard_ref k then (Inr (k, DATA_PACK_SHARD_RETRIEVE_STATUS_ERROR, []), s)
      else case store_get hx k s of
        (Inr data, s') \<Rightarrow> (Inr (k, DATA_PACK_SHARD_RETRIEVE_STATUS_FOUND, data), s')
      | (Inl e, s') \<Rightarrow>
          (Inr (k, if e = FileNotFoundError then DATA_PACK_SHARD_RETRIEVE_STATUS_NOT_FOUND
                   else if e = DataPackShardHashMismatchError then DATA_PACK_SHARD_RETRIEVE_STATUS_HASH_MISMATCH
                   else DATA_PACK_SHARD_RETRIEVE_STATUS_ERROR, []), s'))"

fun rpc_retrieve_batch :: "(bytes \<Rightarrow> string) \<Rightarrow> shard_key list \<Rightarrow> (shard_store, (shard_key \<times> int \<times> bytes) list) op" where
  "rpc_retrieve_batch hx [] = op_return []"
| "rpc_retrieve_batch hx (k # ks) =
     op_bind (retrieve_shard hx k) (\<lambda>r. op_bind (rpc_retrieve_batch hx ks) (\<lambda>rs. op_return (r # rs)))"

section \<open>Paths identify shards\<close>

lemma require_key_iff: "require_key k = Inr () \<longleftrightarrow> \<not> invalid_shard_ref k"
  by (cases k) (auto simp: require_key_def invalid_shard_ref_def store_require_hash64_def store_require_non_negative_int_def
      bindE_eq_Inr require_strict_non_negative_int_iff)

lemma fmt_03d_inj: "0 \<le> i \<Longrightarrow> 0 \<le> j \<Longrightarrow> fmt_03d i = fmt_03d j \<Longrightarrow> i = j"
proof -
  have zeros: "foldl (\<lambda>a c. 10 * a + (of_char c - 48)) 0 (replicate n CHR ''0'') = (0 :: nat)" for n by (induction n) auto
  have v: "dec_value (fmt_03d i) = nat i" if "0 \<le> i" for i
    using that dec_value_dec_nat [of "nat i"] by (simp add: fmt_03d_def dec_value_def zeros dec_int_def)
  assume "0 \<le> i" "0 \<le> j" "fmt_03d i = fmt_03d j"
  then show "i = j" using v [of i] v [of j] by simp
qed

lemma shard_path_inj:
  assumes "\<not> invalid_shard_ref k" "\<not> invalid_shard_ref k'" "shard_path folder k = shard_path folder k'"
  shows "k = k'"
proof -
  obtain p i h p' i' h' where k: "k = (p, i, h)" "k' = (p', i', h')" by (metis prod_cases3)
  have len: "length h = 64" "length h' = 64" using assms(1,2) k by (auto simp: invalid_shard_ref_def is_hex64_def BLAKE3_HEX_LENGTH_def)
  have eq: "p = p'" "fmt_03d i @ ''-'' @ h @ ''.stec'' = fmt_03d i' @ ''-'' @ h' @ ''.stec''"
    using assms(3) by (auto simp: shard_path_def k)
  then have "length (fmt_03d i) = length (fmt_03d i')" using len by (metis (no_types, lifting) add_right_cancel length_append)
  then have "fmt_03d i = fmt_03d i'" "h = h'" using eq(2) len by auto
  moreover have "0 \<le> i" "0 \<le> i'" using assms(1,2) k by (auto simp: invalid_shard_ref_def)
  ultimately show ?thesis using fmt_03d_inj eq(1) k by simp
qed

lemma shard_path_not_temp: "\<not> temp_path (shard_path folder k)"
proof
  assume "temp_path (shard_path folder k)"
  then obtain x y where "x @ ''.stec'' = y @ ''.tmp''"
    by (cases k) (auto simp: temp_path_def shard_path_def suffix_def)
  then have "last (x @ ''.stec'') = last (y @ ''.tmp'')" by (rule arg_cong)
  then show False by simp
qed

section \<open>What the shard store holds\<close>

text \<open>Every shard file holds data with the hash in its name, and no more than the limit.\<close>

definition shards_ok :: "(bytes \<Rightarrow> string) \<Rightarrow> shard_store \<Rightarrow> bool" where
  "shards_ok hx s \<longleftrightarrow> (\<forall>k data. \<not> invalid_shard_ref k \<longrightarrow> files (ss_disk s) (shard_path (ss_root s) k) = Some data \<longrightarrow>
     hx data = snd (snd k) \<and> int (length data) \<le> max_shard_size s)"

definition shard_held :: "shard_store \<Rightarrow> shard_key \<Rightarrow> bool" where
  "shard_held s k \<longleftrightarrow> \<not> invalid_shard_ref k \<and> sys_exists (shard_path (ss_root s) k) (ss_disk s)"

definition shard_acked :: "shard_key \<times> int \<Rightarrow> shard_key \<Rightarrow> bool" where
  "shard_acked a k \<longleftrightarrow> a = (k, DATA_PACK_SHARD_STORE_STATUS_STORED) \<or> a = (k, DATA_PACK_SHARD_STORE_STATUS_ALREADY_PRESENT)"

lemmas op_defs = op_bind_def op_read_def op_return_def op_raise_def op_lift_def op_modify_def

text \<open>The one branch of \<open>store_put\<close> that touches the disk, and what it leaves.\<close>

lemma store_put_cases:
  assumes "\<not> invalid_shard_ref k" "store_put hx k data s = (x, s')"
  shows "(s' = s \<and> (x = Inr False \<longrightarrow> shard_held s k) \<and> x \<noteq> Inr True)
    \<or> (hx data = snd (snd k) \<and> int (length data) \<le> max_shard_size s
       \<and> ss_root s' = ss_root s \<and> max_shard_size s' = max_shard_size s
       \<and> may_set temps (shard_path (ss_root s) k) data (ss_disk s) (ss_disk s') \<and> x \<noteq> Inr False
       \<and> (x = Inr True \<longrightarrow> shard_held s' k))"
proof -
  let ?p = "shard_path (ss_root s) k"
  have key: "require_key k = Inr ()" using assms(1) by (simp add: require_key_iff)
  consider (size) "max_shard_size s < int (length data)" | (hash) "\<not> max_shard_size s < int (length data)" "hx data \<noteq> snd (snd k)"
    | (there) "\<not> max_shard_size s < int (length data)" "hx data = snd (snd k)" "sys_exists ?p (ss_disk s)"
    | (new) "\<not> max_shard_size s < int (length data)" "hx data = snd (snd k)" "\<not> sys_exists ?p (ss_disk s)" by blast
  then show ?thesis
  proof cases
    case new
    let ?w = "op_wrap (\<lambda>e. e = StopanStorageOSError) DataPackShardStoreError (in_disk (atomic_write_bytes ?p data))"
    have run: "(x, s') = op_bind ?w (\<lambda>_. op_return True) s" using assms(2) new key by (simp add: store_put_def op_defs)
    have s': "s' = s\<lparr>ss_disk := snd (atomic_write_bytes ?p data (ss_disk s))\<rparr>"
      using run wrap_snd [of "\<lambda>e. e = StopanStorageOSError" DataPackShardStoreError "in_disk (atomic_write_bytes ?p data)" s]
      by (auto simp: op_defs in_disk_def split: prod.splits sum.splits)
    have "files (ss_disk s') ?p = Some data" if x: "x = Inr True"
    proof -
      obtain u d where "atomic_write_bytes ?p data (ss_disk s) = (Inr u, d)"
        using run unfolding x by (auto simp: op_defs op_wrap_Inr in_disk_def split: prod.splits sum.splits)
      then show ?thesis using atomic_write_files(2) [OF shard_path_not_temp] s' by simp
    qed
    moreover have "x \<noteq> Inr False" using run by (auto simp: op_defs split: prod.splits sum.splits)
    ultimately show ?thesis
      using new s' atomic_write_files(1) [OF shard_path_not_temp] assms(1) by (auto simp: shard_held_def sys_exists_def)
  qed (use assms key in \<open>auto simp: store_put_def op_defs shard_held_def\<close>)
qed

lemma store_put_ok:
  assumes "shards_ok hx s" "\<not> invalid_shard_ref k" "store_put hx k data s = (x, s')"
  shows "shards_ok hx s'" "shard_held s j \<Longrightarrow> shard_held s' j" "x = Inr b \<Longrightarrow> shard_held s' k"
proof -
  consider (same) "s' = s" "x = Inr False \<longrightarrow> shard_held s k" "x \<noteq> Inr True"
    | (new) "hx data = snd (snd k)" "int (length data) \<le> max_shard_size s" "ss_root s' = ss_root s" "max_shard_size s' = max_shard_size s"
      "may_set temps (shard_path (ss_root s) k) data (ss_disk s) (ss_disk s')" "x \<noteq> Inr False" "x = Inr True \<longrightarrow> shard_held s' k"
    using store_put_cases [OF assms(2,3)] by blast
  then have "shards_ok hx s' \<and> (shard_held s j \<longrightarrow> shard_held s' j) \<and> (x = Inr b \<longrightarrow> shard_held s' k)"
  proof cases
    case new
    have f: "files (ss_disk s') (shard_path (ss_root s) i) = files (ss_disk s) (shard_path (ss_root s) i)
        \<or> (i = k \<and> files (ss_disk s') (shard_path (ss_root s) i) = Some data)" if "\<not> invalid_shard_ref i" for i
      using new(5) shard_path_not_temp [of "ss_root s" i] shard_path_inj [OF that assms(2)] by (auto simp: may_set_def)
    have "shards_ok hx s'" unfolding shards_ok_def
    proof (intro allI impI)
      fix i d assume "\<not> invalid_shard_ref i" "files (ss_disk s') (shard_path (ss_root s') i) = Some d"
      with f [of i] show "hx d = snd (snd i) \<and> int (length d) \<le> max_shard_size s'"
        using assms(1) [unfolded shards_ok_def, rule_format, of i d] new(1-4) by auto
    qed
    moreover have "shard_held s j \<longrightarrow> shard_held s' j"
      using f [of j] new(3) by (auto simp: shard_held_def sys_exists_def)
    ultimately show ?thesis using new(6,7) by (cases b) auto
  qed (use assms in \<open>cases b; simp\<close>)
  then show "shards_ok hx s'" "shard_held s j \<Longrightarrow> shard_held s' j" "x = Inr b \<Longrightarrow> shard_held s' k" by auto
qed

interpretation shard_commits: acknowledging_store "shards_ok hx" shard_held "store_data_pack_shard hx" "rpc_replicate hx"
  "\<lambda>i a. fst a = fst i" shard_acked for hx
proof unfold_locales
  fix s :: shard_store and i :: "shard_key \<times> bytes"
  assume s: "shards_ok hx s"
  obtain k data where i: "i = (k, data)" by (cases i)
  show "\<exists>a t. store_data_pack_shard hx i s = (Inr a, t) \<and> fst a = fst i \<and> shards_ok hx t
      \<and> (\<forall>k. shard_held s k \<longrightarrow> shard_held t k) \<and> (\<forall>k. shard_acked a k \<longrightarrow> shard_held t k)"
  proof (cases "invalid_shard_ref k \<or> data = []")
    case False
    obtain x s' where p: "store_put hx k data s = (x, s')" by fastforce
    note ok = store_put_ok [OF s _ p, simplified]
    show ?thesis
      using False ok by (cases x) (auto simp: i store_data_pack_shard_def p shard_acked_def DATA_PACK_SHARD_STORE_STATUS_STORED_def
        DATA_PACK_SHARD_STORE_STATUS_ALREADY_PRESENT_def DATA_PACK_SHARD_STORE_STATUS_REJECTED_HASH_MISMATCH_def
        DATA_PACK_SHARD_STORE_STATUS_REJECTED_TOO_LARGE_def DATA_PACK_SHARD_STORE_STATUS_ERROR_def
        DATA_PACK_SHARD_STORE_STATUS_REJECTED_INVALID_ARGUMENT_def)
  qed (use s in \<open>auto simp: i store_data_pack_shard_def shard_acked_def DATA_PACK_SHARD_STORE_STATUS_STORED_def
      DATA_PACK_SHARD_STORE_STATUS_ALREADY_PRESENT_def DATA_PACK_SHARD_STORE_STATUS_REJECTED_INVALID_ARGUMENT_def\<close>)
qed simp_all

lemma shard_held_found:
  assumes "shards_ok hx s" "shard_held s k" "outcomes (ss_disk s) (calls (ss_disk s)) = IO_ok"
  shows "\<exists>data. fst (retrieve_shard hx k s) = Inr (k, DATA_PACK_SHARD_RETRIEVE_STATUS_FOUND, data) \<and> hx data = snd (snd k)"
proof -
  obtain data where "files (ss_disk s) (shard_path (ss_root s) k) = Some data" "hx data = snd (snd k)" "\<not> invalid_shard_ref k"
    using assms(1) [unfolded shards_ok_def, rule_format, of k] assms(2) by (auto simp: shard_held_def sys_exists_def)
  moreover from this have "require_key k = Inr ()" by (simp add: require_key_iff)
  ultimately show ?thesis using assms(3)
    by (simp add: retrieve_shard_def store_get_def op_wrap_def op_catch_def op_defs in_disk_def sys_read_def next_outcome_def
        fails_with_def)
qed

lemma probe_missing_iff:
  assumes "rpc_probe_missing ks s = Inr ms"
  shows "ms = filter (\<lambda>k. \<not> shard_held s k) ks"
proof -
  have "mapE (\<lambda>k. bindE (store_exists k s) (\<lambda>b. Inr (k, b))) ks = Inr (map (\<lambda>k. (k, shard_held s k)) ks)"
    if "\<forall>k \<in> set ks. \<not> invalid_shard_ref k" for ks
  proof -
    have "store_exists k s = Inr (shard_held s k)" if "k \<in> set ks" for k
    proof -
      have valid: "\<not> invalid_shard_ref k" using that \<open>\<forall>k \<in> set ks. _ k\<close> by blast
      then have "require_key k = Inr ()" by (simp add: require_key_iff)
      with valid show ?thesis by (simp add: store_exists_def shard_held_def)
    qed
    then show ?thesis by (simp add: mapE_eq_Inr list_all2_map2 list_all2_same)
  qed
  then show ?thesis using assms
    by (auto simp: rpc_probe_missing_def list_ex_iff filter_map o_def split: if_splits)
qed


text \<open>C29. An acknowledged shard is really in custody: after a stream of shards on a sound shard store,
  whatever arrives and whichever disk calls fail, there is one answer per item in order; the store is
  sound again and still holds everything it held; a shard answered STORED or ALREADY_PRESENT is not
  among the missing ones of any later accepted probe, and is returned as FOUND, when it is read without
  an I/O error, with data of exactly its hash.\<close>

theorem acknowledged_shards_in_custody:
  assumes "shards_ok hx s" "rpc_replicate hx items s = (Inr as, s')"
    and "outcomes (ss_disk s') (calls (ss_disk s')) = IO_ok"
  shows "shards_ok hx s' \<and> map fst as = map fst items
    \<and> (\<forall>k. shard_held s k \<longrightarrow> shard_held s' k)
    \<and> (\<forall>a \<in> set as. snd a \<in> {DATA_PACK_SHARD_STORE_STATUS_STORED, DATA_PACK_SHARD_STORE_STATUS_ALREADY_PRESENT} \<longrightarrow>
         (\<forall>ks ms. rpc_probe_missing ks s' = Inr ms \<longrightarrow> fst a \<notin> set ms)
         \<and> (\<exists>data. fst (retrieve_shard hx (fst a) s') = Inr (fst a, DATA_PACK_SHARD_RETRIEVE_STATUS_FOUND, data)
              \<and> hx data = snd (snd (fst a))))"
proof -
  have run: "list_all2 (\<lambda>i a. fst a = fst i) items as" "shards_ok hx s'" "\<forall>k. shard_held s k \<longrightarrow> shard_held s' k"
    "\<forall>a \<in> set as. \<forall>k. shard_acked a k \<longrightarrow> shard_held s' k"
    using shard_commits.commits_answer [OF assms(1), of items, unfolded assms(2)] by auto
  have "map fst as = map fst items" using run(1) by (induction rule: list_all2_induct) auto
  moreover have "(\<forall>ks ms. rpc_probe_missing ks s' = Inr ms \<longrightarrow> fst a \<notin> set ms)
       \<and> (\<exists>data. fst (retrieve_shard hx (fst a) s') = Inr (fst a, DATA_PACK_SHARD_RETRIEVE_STATUS_FOUND, data)
            \<and> hx data = snd (snd (fst a)))"
    if "a \<in> set as" "snd a \<in> {DATA_PACK_SHARD_STORE_STATUS_STORED, DATA_PACK_SHARD_STORE_STATUS_ALREADY_PRESENT}" for a
  proof -
    have "shard_acked a (fst a)" using that(2) by (cases a) (auto simp: shard_acked_def)
    then have held: "shard_held s' (fst a)" using run(4) that(1) by blast
    then have "\<forall>ks ms. rpc_probe_missing ks s' = Inr ms \<longrightarrow> fst a \<notin> set ms" using probe_missing_iff [of _ s'] by fastforce
    with shard_held_found [OF run(2) held assms(3)] show ?thesis by blast
  qed
  ultimately show ?thesis using run(2,3) by blast
qed

definition demo_shard_store :: shard_store where
  "demo_shard_store = \<lparr>ss_root = [''s''], max_shard_size = 9,
     ss_disk = \<lparr>files = (\<lambda>_. None), outcomes = (\<lambda>_. IO_ok), names = (\<lambda>_. ''r''), calls = 0\<rparr>\<rparr>"

definition demo_shard :: shard_key where
  "demo_shard = (replicate 64 CHR ''b'', 2, replicate 64 CHR ''a'')"

lemma demo_replicate:
  "fst (rpc_replicate (\<lambda>_. replicate 64 CHR ''a'') [(demo_shard, [1, 2])] demo_shard_store) =
     Inr [(demo_shard, DATA_PACK_SHARD_STORE_STATUS_STORED)]"
  "outcomes (ss_disk (snd (rpc_replicate (\<lambda>_. replicate 64 CHR ''a'') [(demo_shard, [1, 2])] demo_shard_store))) n = IO_ok"
  by code_simp+

theorem acknowledged_shards_in_custody_witness:
  "\<exists>data. fst (retrieve_shard (\<lambda>_. replicate 64 CHR ''a'') demo_shard
      (snd (rpc_replicate (\<lambda>_. replicate 64 CHR ''a'') [(demo_shard, [1, 2])] demo_shard_store)))
    = Inr (demo_shard, DATA_PACK_SHARD_RETRIEVE_STATUS_FOUND, data)"
proof -
  let ?hx = "\<lambda>_ :: bytes. replicate 64 CHR ''a''" and ?items = "[(demo_shard, [1, 2])]"
  have ok: "shards_ok ?hx demo_shard_store" by (simp add: shards_ok_def demo_shard_store_def)
  have run: "rpc_replicate ?hx ?items demo_shard_store =
      (Inr [(demo_shard, DATA_PACK_SHARD_STORE_STATUS_STORED)], snd (rpc_replicate ?hx ?items demo_shard_store))"
    using demo_replicate(1) by (metis prod.collapse)
  show ?thesis using acknowledged_shards_in_custody [OF ok run demo_replicate(2)] by auto
qed

end
