(* ===== verification/LocalGc.thy ===== *)
theory LocalGc
  imports Cas ShardStore
begin

text \<open>
  Local garbage collection: \<open>stopan.gc.path_safety\<close>, \<open>stopan.gc.local_files\<close>, the collectors of
  chunks (\<open>stopan.cas.gc\<close>) and of shards (\<open>stopan.node.storage.ec_gc\<close>), and the query for the
  hashes to keep (\<open>MetadataDB.gc_protected_chunk_hashes\<close>).

  The file system is shared with other processes: before the \<open>n\<close>-th system call they change it by
  \<open>gw_others n\<close>, and the call itself may fail. \<open>gw_unlinked\<close> records what the collector removed.
  \<open>os.path.realpath\<close> is the parameter \<open>gw_realpath\<close>. Paths are lists of components; a root is
  resolved and absolute and candidates are paths below listed directories, so \<open>abspath\<close> is the
  identity on them. The iterators list a directory once; here the listing is taken before the
  collection starts. The clock is the argument \<open>now\<close>; error messages are the paths they are about.
\<close>

section \<open>The file system\<close>

datatype gc_kind = Kind_regular | Kind_directory | Kind_redirection | Kind_other

record gc_stat =
  st_kind :: gc_kind
  st_dev :: int
  st_ino :: int
  st_mode :: int
  st_size :: int
  st_mtime :: real
  st_mtime_ns :: int
  st_ctime_ns :: int

type_synonym gc_entries = "path \<Rightarrow> gc_stat option"

record gc_world =
  gw_entries :: gc_entries
  gw_others :: "nat \<Rightarrow> gc_entries \<Rightarrow> gc_entries"
  gw_fails :: "nat \<Rightarrow> bool"
  gw_realpath :: "nat \<Rightarrow> path \<Rightarrow> path result"
  gw_calls :: nat
  gw_unlinked :: "path list"

definition os_call :: "(gc_world, 'a) op \<Rightarrow> (gc_world, 'a) op" where
  "os_call f w =
     (let v = w\<lparr>gw_entries := gw_others w (gw_calls w) (gw_entries w), gw_calls := Suc (gw_calls w)\<rparr> in
      if gw_fails w (gw_calls w) then (Inl OSError, v) else f v)"

definition os_lstat :: "path \<Rightarrow> (gc_world, gc_stat) op" where
  "os_lstat p = os_call (\<lambda>w. (case gw_entries w p of None \<Rightarrow> Inl FileNotFoundError | Some st \<Rightarrow> Inr st, w))"

definition os_unlink :: "path \<Rightarrow> (gc_world, unit) op" where
  "os_unlink p = os_call (\<lambda>w. case gw_entries w p of None \<Rightarrow> (Inl FileNotFoundError, w)
     | Some st \<Rightarrow> (Inr (), w\<lparr>gw_entries := (gw_entries w)(p := None), gw_unlinked := gw_unlinked w @ [p]\<rparr>))"

definition os_realpath :: "path \<Rightarrow> (gc_world, path) op" where
  "os_realpath p w = (gw_realpath w (gw_calls w) p, w)"

section \<open>Safe candidates (path_safety.py)\<close>

definition is_filesystem_redirection :: "gc_stat \<Rightarrow> bool" where
  "is_filesystem_redirection st \<longleftrightarrow> st_kind st = Kind_redirection"

definition gc_is_within :: "path \<Rightarrow> path \<Rightarrow> bool" where
  "gc_is_within root_dir candidate \<longleftrightarrow> take (length root_dir) candidate = root_dir"

definition gc_error :: "(gc_world, 'a) op \<Rightarrow> (gc_world, 'a) op" where
  "gc_error m = op_wrap is_OSError GarbageCollectionPathError m"

fun check_components :: "path \<Rightarrow> string list \<Rightarrow> (gc_world, unit) op" where
  "check_components current [] = op_return ()"
| "check_components current (c # cs) =
     op_bind (gc_error (os_lstat (current @ [c]))) (\<lambda>st.
       if is_filesystem_redirection st then op_raise GarbageCollectionPathError
       else if cs \<noteq> [] \<and> st_kind st \<noteq> Kind_directory then op_raise GarbageCollectionPathError
       else check_components (current @ [c]) cs)"

definition validate_gc_regular_file :: "path \<Rightarrow> path \<Rightarrow> (gc_world, gc_stat) op" where
  "validate_gc_regular_file root_dir candidate =
     (if \<not> gc_is_within root_dir candidate then op_raise GarbageCollectionPathError
      else op_bind (check_components root_dir (drop (length root_dir) candidate)) (\<lambda>_.
        op_bind (gc_error (os_realpath root_dir)) (\<lambda>root_real.
        op_bind (gc_error (os_realpath candidate)) (\<lambda>candidate_real.
          if \<not> gc_is_within root_real candidate_real then op_raise GarbageCollectionPathError
          else op_bind (gc_error (os_lstat candidate)) (\<lambda>final_stat.
            if is_filesystem_redirection final_stat \<or> st_kind final_stat \<noteq> Kind_regular
            then op_raise GarbageCollectionPathError else op_return final_stat)))))"

definition same_file_identity :: "gc_stat \<Rightarrow> gc_stat \<Rightarrow> bool" where
  "same_file_identity a b =
     (if st_ino a \<noteq> 0 \<and> st_ino b \<noteq> 0 then st_dev a = st_dev b \<and> st_ino a = st_ino b
      else st_mode a = st_mode b \<and> st_size a = st_size b \<and> st_mtime_ns a = st_mtime_ns b \<and> st_ctime_ns a = st_ctime_ns b)"

section \<open>Collection by age (local_files.py)\<close>

record gc_result =
  gr_enabled :: bool
  gr_max_age_seconds :: "int option"
  gr_cutoff_unix :: "real option"
  gr_files_seen :: int
  gr_files_collectable :: int
  gr_files_deleted :: int
  gr_files_retained_by_policy :: int
  gr_files_skipped_by_age :: int
  gr_bytes_collectable :: int
  gr_bytes_deleted :: int
  gr_errors :: "path list"

definition empty_result :: "int option \<Rightarrow> real option \<Rightarrow> gc_result" where
  "empty_result max_age cutoff = \<lparr>gr_enabled = (max_age \<noteq> None), gr_max_age_seconds = max_age, gr_cutoff_unix = cutoff,
     gr_files_seen = 0, gr_files_collectable = 0, gr_files_deleted = 0, gr_files_retained_by_policy = 0,
     gr_files_skipped_by_age = 0, gr_bytes_collectable = 0, gr_bytes_deleted = 0, gr_errors = []\<rparr>"

record gc_run =
  rn_world :: gc_world
  rn_result :: gc_result
  rn_touched :: "path list"

definition add_error :: "path \<Rightarrow> gc_result \<Rightarrow> gc_result" where
  "add_error p r = r\<lparr>gr_errors := gr_errors r @ [p]\<rparr>"

text \<open>The \<open>try\<close> block that removes a candidate whose first observation was \<open>st\<close>.\<close>

definition delete_candidate :: "path \<Rightarrow> gc_stat \<Rightarrow> path \<Rightarrow> gc_run \<Rightarrow> gc_run" where
  "delete_candidate root_dir st p s =
     (case validate_gc_regular_file root_dir p (rn_world s) of
        (Inl _, w) \<Rightarrow> s\<lparr>rn_world := w, rn_result := add_error p (rn_result s)\<rparr>
      | (Inr current, w) \<Rightarrow>
          if \<not> same_file_identity st current then s\<lparr>rn_world := w, rn_result := add_error p (rn_result s)\<rparr>
          else (case os_unlink p w of
            (Inl _, v) \<Rightarrow> s\<lparr>rn_world := v, rn_result := add_error p (rn_result s)\<rparr>
          | (Inr _, v) \<Rightarrow> s\<lparr>rn_world := v, rn_touched := rn_touched s @ [butlast p],
              rn_result := (rn_result s)\<lparr>gr_files_deleted := gr_files_deleted (rn_result s) + 1,
                gr_bytes_deleted := gr_bytes_deleted (rn_result s) + st_size current\<rparr>\<rparr>))"

definition collect_one :: "path \<Rightarrow> real option \<Rightarrow> bool \<Rightarrow> (path \<Rightarrow> bool) \<Rightarrow> gc_run \<Rightarrow> path \<Rightarrow> gc_run" where
  "collect_one root_dir cutoff dry_run retain s p =
     (case validate_gc_regular_file root_dir p (rn_world s) of
        (Inl _, w) \<Rightarrow> s\<lparr>rn_world := w, rn_result := add_error p (rn_result s)\<rparr>
      | (Inr st, w) \<Rightarrow>
          let r = (rn_result s)\<lparr>gr_files_seen := gr_files_seen (rn_result s) + 1\<rparr>; s' = s\<lparr>rn_world := w, rn_result := r\<rparr> in
          case cutoff of
            None \<Rightarrow> s'
          | Some t \<Rightarrow>
              if retain p then s'\<lparr>rn_result := r\<lparr>gr_files_retained_by_policy := gr_files_retained_by_policy r + 1\<rparr>\<rparr>
              else if t < st_mtime st then s'\<lparr>rn_result := r\<lparr>gr_files_skipped_by_age := gr_files_skipped_by_age r + 1\<rparr>\<rparr>
              else let s'' = s'\<lparr>rn_result := r\<lparr>gr_files_collectable := gr_files_collectable r + 1,
                     gr_bytes_collectable := gr_bytes_collectable r + st_size st\<rparr>\<rparr> in
                if dry_run then s'' else delete_candidate root_dir st p s'')"

text \<open>\<open>fsync_dir(directory, strict=True)\<close> changes no entry; it may fail.\<close>

definition fsync_one :: "gc_run \<Rightarrow> path \<Rightarrow> gc_run" where
  "fsync_one s d =
     (case os_call (op_return ()) (rn_world s) of
        (Inl _, w) \<Rightarrow> s\<lparr>rn_world := w, rn_result := add_error d (rn_result s)\<rparr>
      | (Inr _, w) \<Rightarrow> s\<lparr>rn_world := w\<rparr>)"

datatype root_state = Root_missing | Root_not_dir | Root_dir

definition collect_files_by_age ::
    "real \<Rightarrow> root_state \<Rightarrow> path \<Rightarrow> path list \<Rightarrow> int option \<Rightarrow> bool \<Rightarrow> (path \<Rightarrow> bool) \<Rightarrow> bool \<Rightarrow> gc_world \<Rightarrow> gc_result \<times> gc_world" where
  "collect_files_by_age now state root_dir candidates max_age_seconds dry_run retain sort_files w =
     (let max_age = map_option (\<lambda>a. max a 0) max_age_seconds;
          cutoff = map_option (\<lambda>a. now - of_int a) max_age;
          r = empty_result max_age cutoff in
      case state of
        Root_missing \<Rightarrow> (r, w)
      | Root_not_dir \<Rightarrow> (add_error root_dir r, w)
      | Root_dir \<Rightarrow>
          let s = foldl (collect_one root_dir cutoff dry_run retain) \<lparr>rn_world = w, rn_result = r, rn_touched = []\<rparr>
                    (if sort_files then sort candidates else candidates);
              t = foldl fsync_one s (sort (remdups (rn_touched s)))
          in (rn_result t, rn_world t))"

section \<open>The chunk and shard collectors\<close>

text \<open>Both walk two levels of directories; \<open>listing\<close> is \<open>iterdir\<close>.\<close>

definition real_dir :: "gc_entries \<Rightarrow> path \<Rightarrow> bool" where
  "real_dir entries p \<longleftrightarrow> (case entries p of None \<Rightarrow> False
     | Some st \<Rightarrow> \<not> (is_filesystem_redirection st \<or> st_kind st \<noteq> Kind_directory))"

definition iter_cas_chunk_files :: "gc_entries \<Rightarrow> (path \<Rightarrow> string list) \<Rightarrow> path \<Rightarrow> path list" where
  "iter_cas_chunk_files entries listing root_dir =
     concat (map (\<lambda>a. if real_dir entries (root_dir @ [a]) \<and> length a = 2 then
       concat (map (\<lambda>b. if real_dir entries (root_dir @ [a, b]) \<and> length b = 2 then
         map (\<lambda>h. root_dir @ [a, b, h])
           (filter (\<lambda>h. is_hex64 h \<and> a = take 2 h \<and> b = take 2 (drop 2 h)) (listing (root_dir @ [a, b])))
         else []) (listing (root_dir @ [a])))
       else []) (listing root_dir))"

definition collect_cas_chunks ::
    "real \<Rightarrow> root_state \<Rightarrow> (path \<Rightarrow> string list) \<Rightarrow> path \<Rightarrow> int option \<Rightarrow> bool \<Rightarrow> string list option \<Rightarrow> gc_world \<Rightarrow> gc_result \<times> gc_world" where
  "collect_cas_chunks now state listing root_dir max_age_seconds dry_run reachable_hashes w =
     collect_files_by_age now state root_dir
       (if state = Root_dir then iter_cas_chunk_files (gw_entries w) listing root_dir else []) max_age_seconds dry_run
       (\<lambda>p. case reachable_hashes of None \<Rightarrow> False | Some hs \<Rightarrow> last p \<in> set hs) False w"

text \<open>The regular expression of a shard file, as the index and the hash it captures.\<close>

definition parse_shard_name :: "string \<Rightarrow> (nat \<times> string) option" where
  "parse_shard_name s =
     (let ds = takeWhile is_dec_char s; rest = dropWhile is_dec_char s in
      if ds \<noteq> [] \<and> length rest = 70 \<and> take 1 rest = ''-'' \<and> drop 65 rest = ''.stec'' \<and> is_hex64 (take 64 (drop 1 rest))
      then Some (dec_value ds, take 64 (drop 1 rest)) else None)"

definition is_shard_name :: "string \<Rightarrow> bool" where
  "is_shard_name s = (case parse_shard_name s of None \<Rightarrow> False
     | Some (i, h) \<Rightarrow> s = fmt_03d (int i) @ ''-'' @ h @ ''.stec'')"

definition iter_ec_shard_files :: "gc_entries \<Rightarrow> (path \<Rightarrow> string list) \<Rightarrow> path \<Rightarrow> path list" where
  "iter_ec_shard_files entries listing root_dir =
     concat (map (\<lambda>a. if real_dir entries (root_dir @ [a]) \<and> length a = 2 then
       concat (map (\<lambda>p. if real_dir entries (root_dir @ [a, p]) \<and> is_hex64 p \<and> a = take 2 p then
         map (\<lambda>f. root_dir @ [a, p, f]) (filter is_shard_name (listing (root_dir @ [a, p])))
         else []) (listing (root_dir @ [a])))
       else []) (listing root_dir))"

definition collect_ec_shards ::
    "real \<Rightarrow> root_state \<Rightarrow> (path \<Rightarrow> string list) \<Rightarrow> path \<Rightarrow> int option \<Rightarrow> bool \<Rightarrow> gc_world \<Rightarrow> gc_result \<times> gc_world" where
  "collect_ec_shards now state listing root_dir max_age_seconds dry_run w =
     collect_files_by_age now state root_dir
       (if state = Root_dir then iter_ec_shard_files (gw_entries w) listing root_dir else []) max_age_seconds dry_run
       (\<lambda>_. False) False w"

section \<open>The hashes to keep (database.py)\<close>

text \<open>The three tables of the query: snapshots with their status, snapshot items with type and
  recipe, and the chunks of recipes.\<close>

record catalog =
  ct_snapshots :: "(string \<times> string) list"
  ct_snapshot_items :: "(string \<times> string \<times> int option) list"
  ct_recipe_chunks :: "(int \<times> string) list"

text \<open>The chunk hashes a joined pair of snapshot and item contributes.\<close>

definition protected_rows :: "catalog \<Rightarrow> string \<times> string \<Rightarrow> string \<times> string \<times> int option \<Rightarrow> string list" where
  "protected_rows db x y = (case x of (s, status) \<Rightarrow> case y of (si, item_type, recipe) \<Rightarrow>
     if si = s \<and> (status = ''CREATING'' \<or> status = ''COMPLETE'') \<and> item_type = ''file'' then
       (case recipe of None \<Rightarrow> [] | Some r \<Rightarrow> map snd (filter (\<lambda>(q, _). q = r) (ct_recipe_chunks db)))
     else [])"

definition gc_protected_chunk_hashes :: "catalog \<Rightarrow> string list" where
  "gc_protected_chunk_hashes db =
     sort (remdups (concat (map (\<lambda>x. concat (map (protected_rows db x) (ct_snapshot_items db))) (ct_snapshots db))))"

text \<open>\<open>stopan gc generated-chunks\<close>: the grace period in hours gives whole seconds.\<close>

definition cmd_generated_chunks ::
    "real \<Rightarrow> root_state \<Rightarrow> (path \<Rightarrow> string list) \<Rightarrow> path \<Rightarrow> real \<Rightarrow> bool \<Rightarrow> catalog \<Rightarrow> gc_world \<Rightarrow> gc_result \<times> gc_world" where
  "cmd_generated_chunks now state listing root_dir grace_hours dry_run db w =
     (let secs = grace_hours * 3600; age = (if secs < 0 then - \<lfloor>- secs\<rfloor> else \<lfloor>secs\<rfloor>) in
      collect_cas_chunks now state listing root_dir (Some age) dry_run (Some (gc_protected_chunk_hashes db)) w)"

definition cmd_received_chunks ::
    "real \<Rightarrow> root_state \<Rightarrow> (path \<Rightarrow> string list) \<Rightarrow> path \<Rightarrow> int \<Rightarrow> bool \<Rightarrow> gc_world \<Rightarrow> gc_result \<times> gc_world" where
  "cmd_received_chunks now state listing root_dir max_age_days dry_run w =
     collect_cas_chunks now state listing root_dir (if max_age_days = 0 then None else Some (max_age_days * 86400)) dry_run None w"

definition cmd_received_ec ::
    "real \<Rightarrow> root_state \<Rightarrow> (path \<Rightarrow> string list) \<Rightarrow> path \<Rightarrow> int \<Rightarrow> bool \<Rightarrow> gc_world \<Rightarrow> gc_result \<times> gc_world" where
  "cmd_received_ec now state listing root_dir max_age_days dry_run w =
     collect_ec_shards now state listing root_dir (if max_age_days = 0 then None else Some (max_age_days * 86400)) dry_run w"

section \<open>What a collection removes\<close>

text \<open>Only \<open>os_unlink\<close> extends the log of removals.\<close>

definition same_log :: "gc_world \<Rightarrow> gc_world \<Rightarrow> bool" where
  "same_log w w' \<longleftrightarrow> gw_unlinked w' = gw_unlinked w"

interpretation log: op_relation same_log
  by unfold_locales (simp_all add: same_log_def)

lemma log_lstat: "log.stays (os_lstat p)"
  by (rule log.staysI) (simp add: same_log_def os_lstat_def os_call_def Let_def)

lemma log_realpath: "log.stays (os_realpath p)"
  by (rule log.staysI) (simp add: same_log_def os_realpath_def)

lemma log_error: "log.stays m \<Longrightarrow> log.stays (gc_error m)"
  unfolding gc_error_def op_wrap_def by (intro log.stays_catch log.stays_pure)

lemma log_components: "log.stays (check_components current cs)"
  by (induction cs arbitrary: current) (auto intro!: log.stays_intros log_error log_lstat)

lemma log_validate: "log.stays (validate_gc_regular_file root_dir p)"
  unfolding validate_gc_regular_file_def
  by (intro log.stays_if log.stays_bind log_components log_error log_realpath log_lstat log.stays_pure)

lemma validate_log:
  assumes "validate_gc_regular_file root_dir p w = (x, w')"
  shows "gw_unlinked w' = gw_unlinked w"
  using log.stays_state [OF log_validate, of w root_dir p] by (simp add: same_log_def assms)

lemma validate_within:
  assumes "validate_gc_regular_file root_dir p w = (Inr st, w')"
  shows "gc_is_within root_dir p"
  using assms by (auto simp: validate_gc_regular_file_def op_raise_def split: if_splits)

lemma unlink_log:
  assumes "os_unlink p w = (x, w')"
  shows "gw_unlinked w' = gw_unlinked w @ (case x of Inr _ \<Rightarrow> [p] | Inl _ \<Rightarrow> [])"
  using assms by (auto simp: os_unlink_def os_call_def Let_def split: if_splits option.splits)

text \<open>The counters of a run account for every candidate.\<close>

definition accounted :: "bool \<Rightarrow> gc_result \<Rightarrow> bool" where
  "accounted enabled r \<longleftrightarrow> 0 \<le> gr_files_deleted r \<and> gr_files_deleted r \<le> gr_files_collectable r \<and>
     (enabled \<longrightarrow> gr_files_seen r = gr_files_collectable r + gr_files_retained_by_policy r + gr_files_skipped_by_age r)"

text \<open>\<open>removed Q n s t\<close>: between two states of a run \<open>n\<close> more files were counted as deleted, and the
  log grew by \<open>n\<close> paths, all in \<open>Q\<close>.\<close>

definition removed :: "path set \<Rightarrow> gc_run \<Rightarrow> gc_run \<Rightarrow> bool" where
  "removed Q s t \<longleftrightarrow> (\<exists>ps. gw_unlinked (rn_world t) = gw_unlinked (rn_world s) @ ps \<and> set ps \<subseteq> Q \<and>
     gr_files_deleted (rn_result t) = gr_files_deleted (rn_result s) + int (length ps))"

lemma removed_none: "gw_unlinked (rn_world t) = gw_unlinked (rn_world s) \<Longrightarrow>
    gr_files_deleted (rn_result t) = gr_files_deleted (rn_result s) \<Longrightarrow> removed Q s t"
  unfolding removed_def by (intro exI [of _ "[]"]) simp

lemma removed_trans: "removed Q s t \<Longrightarrow> removed Q t u \<Longrightarrow> removed Q s u"
  unfolding removed_def by (elim exE, rule_tac x = "ps @ psa" in exI) auto

lemma removed_mono: "removed Q s t \<Longrightarrow> Q \<subseteq> Q' \<Longrightarrow> removed Q' s t"
  unfolding removed_def by blast

lemma delete_candidate_removes: "removed {q. q = p \<and> gc_is_within root_dir p} s (delete_candidate root_dir st p s)"
proof -
  obtain x w where v: "validate_gc_regular_file root_dir p (rn_world s) = (x, w)" by fastforce
  note log = validate_log [OF v]
  show ?thesis
  proof (cases x)
    case (Inl e)
    then show ?thesis by (auto simp: delete_candidate_def v log add_error_def intro!: removed_none)
  next
    case (Inr current)
    have inside: "gc_is_within root_dir p" using v Inr by (auto intro: validate_within)
    obtain y u where u: "os_unlink p w = (y, u)" by fastforce
    show ?thesis
    proof (cases "same_file_identity st current \<and> (\<exists>z. y = Inr z)")
      case True
      then show ?thesis using unlink_log [OF u] inside
        by (auto simp: delete_candidate_def v Inr u log removed_def)
    next
      case False
      then show ?thesis using unlink_log [OF u]
        by (cases y) (auto simp: delete_candidate_def v Inr u log add_error_def intro!: removed_none)
    qed
  qed
qed

lemma delete_candidate_counts:
  "accounted b (rn_result s) \<Longrightarrow> gr_files_deleted (rn_result s) < gr_files_collectable (rn_result s) \<Longrightarrow>
     accounted b (rn_result (delete_candidate root_dir st p s))"
  by (auto simp: delete_candidate_def accounted_def add_error_def split: prod.splits sum.splits)

lemma collect_one_removes:
  "removed {q. q = p \<and> gc_is_within root_dir p \<and> \<not> retain p \<and> cutoff \<noteq> None \<and> \<not> dry_run} s (collect_one root_dir cutoff dry_run retain s p)"
proof -
  obtain x w where v: "validate_gc_regular_file root_dir p (rn_world s) = (x, w)" by fastforce
  note log = validate_log [OF v]
  define s2 where "s2 st = s\<lparr>rn_world := w, rn_result := (rn_result s)\<lparr>gr_files_seen := gr_files_seen (rn_result s) + 1,
      gr_files_collectable := gr_files_collectable (rn_result s) + 1,
      gr_bytes_collectable := gr_bytes_collectable (rn_result s) + st_size st\<rparr>\<rparr>" for st :: gc_stat
  show ?thesis
  proof (cases "\<exists>st t. x = Inr st \<and> cutoff = Some t \<and> \<not> retain p \<and> \<not> t < st_mtime st \<and> \<not> dry_run")
    case True
    then obtain st t where st: "x = Inr st" "cutoff = Some t" "\<not> retain p" "\<not> t < st_mtime st" "\<not> dry_run" by blast
    have "removed {} s (s2 st)" by (rule removed_none) (simp_all add: s2_def log)
    then have "removed {q. q = p \<and> gc_is_within root_dir p} s (delete_candidate root_dir st p (s2 st))"
      by (rule removed_trans [OF removed_mono delete_candidate_removes]) simp
    moreover have "collect_one root_dir cutoff dry_run retain s p = delete_candidate root_dir st p (s2 st)"
      using st by (simp add: collect_one_def v s2_def Let_def)
    ultimately show ?thesis using st by simp
  next
    case False
    then show ?thesis
      by (intro removed_none) (auto simp: collect_one_def v log add_error_def Let_def split: sum.splits option.splits)
  qed
qed

lemma collect_one_accounted:
  assumes "accounted (cutoff \<noteq> None) (rn_result s)"
  shows "accounted (cutoff \<noteq> None) (rn_result (collect_one root_dir cutoff dry_run retain s p))"
proof -
  obtain x w where v: "validate_gc_regular_file root_dir p (rn_world s) = (x, w)" by fastforce
  show ?thesis
  proof (cases "\<exists>st t. x = Inr st \<and> cutoff = Some t \<and> \<not> retain p \<and> \<not> t < st_mtime st \<and> \<not> dry_run")
    case True
    then obtain st t where st: "x = Inr st" "cutoff = Some t" "\<not> retain p" "\<not> t < st_mtime st" "\<not> dry_run" by blast
    show ?thesis using st assms
      by (simp add: collect_one_def v Let_def, intro delete_candidate_counts) (auto simp: accounted_def)
  next
    case False
    then show ?thesis using assms
      by (auto simp: collect_one_def v add_error_def Let_def accounted_def split: sum.splits option.splits)
  qed
qed

lemma collect_loop:
  "removed {q \<in> set ps. gc_is_within root_dir q \<and> \<not> retain q \<and> cutoff \<noteq> None \<and> \<not> dry_run} s
      (foldl (collect_one root_dir cutoff dry_run retain) s ps)"
proof (induction ps arbitrary: s)
  case (Cons p ps)
  let ?P = "\<lambda>q. gc_is_within root_dir q \<and> \<not> retain q \<and> cutoff \<noteq> None \<and> \<not> dry_run"
  have "removed {q \<in> set (p # ps). ?P q} s (collect_one root_dir cutoff dry_run retain s p)"
    by (rule removed_mono [OF collect_one_removes]) auto
  moreover have "removed {q \<in> set (p # ps). ?P q} (collect_one root_dir cutoff dry_run retain s p)
      (foldl (collect_one root_dir cutoff dry_run retain) (collect_one root_dir cutoff dry_run retain s p) ps)"
    by (rule removed_mono [OF Cons.IH]) auto
  ultimately show ?case unfolding foldl_Cons by (rule removed_trans)
qed (simp add: removed_none)

lemma collect_loop_accounted:
  "accounted (cutoff \<noteq> None) (rn_result s) \<Longrightarrow>
     accounted (cutoff \<noteq> None) (rn_result (foldl (collect_one root_dir cutoff dry_run retain) s ps))"
proof (induction ps arbitrary: s)
  case (Cons p ps)
  show ?case unfolding foldl_Cons by (rule Cons.IH [OF collect_one_accounted [OF Cons.prems]])
qed simp

lemma fsync_one_keeps:
  "gw_unlinked (rn_world (fsync_one s d)) = gw_unlinked (rn_world s)"
  "gr_files_deleted (rn_result (fsync_one s d)) = gr_files_deleted (rn_result s)"
  "accounted b (rn_result (fsync_one s d)) = accounted b (rn_result s)"
  by (simp_all add: fsync_one_def os_call_def op_return_def Let_def add_error_def accounted_def split: prod.splits)

lemma fsync_loop_removes: "removed {} s (foldl fsync_one s ds)"
proof (induction ds arbitrary: s)
  case (Cons d ds)
  have "removed {} s (fsync_one s d)" by (rule removed_none) (simp_all add: fsync_one_keeps)
  then show ?case unfolding foldl_Cons by (rule removed_trans [OF _ Cons.IH])
qed (simp add: removed_none)

lemma fsync_loop_accounted: "accounted b (rn_result (foldl fsync_one s ds)) = accounted b (rn_result s)"
  by (induction ds arbitrary: s) (simp_all add: fsync_one_keeps)

lemma collect_files_by_age_removes:
  assumes "collect_files_by_age now state root_dir candidates age dry_run retain sort_files w = (r, w')"
  shows "\<exists>ps. gw_unlinked w' = gw_unlinked w @ ps \<and> gr_files_deleted r = int (length ps) \<and> accounted (age \<noteq> None) r \<and>
    (\<forall>p \<in> set ps. p \<in> set candidates \<and> state = Root_dir \<and> gc_is_within root_dir p \<and> \<not> retain p \<and> age \<noteq> None \<and> \<not> dry_run)"
proof (cases state)
  case Root_dir
  define cutoff where "cutoff = map_option (\<lambda>a. now - of_int a) (map_option (\<lambda>a. max a 0) age)"
  define s0 where "s0 = \<lparr>rn_world = w, rn_result = empty_result (map_option (\<lambda>a. max a 0) age) cutoff, rn_touched = []\<rparr>"
  define ps where "ps = (if sort_files then sort candidates else candidates)"
  define s where "s = foldl (collect_one root_dir cutoff dry_run retain) s0 ps"
  define t where "t = foldl fsync_one s (sort (remdups (rn_touched s)))"
  have t: "rn_result t = r" "rn_world t = w'"
    using assms by (auto simp: collect_files_by_age_def Root_dir Let_def cutoff_def s0_def ps_def s_def t_def)
  have cutoff: "cutoff \<noteq> None \<longleftrightarrow> age \<noteq> None" and set_ps: "set ps = set candidates" by (simp_all add: cutoff_def ps_def)
  have s0: "rn_world s0 = w" "gr_files_deleted (rn_result s0) = 0" "accounted (cutoff \<noteq> None) (rn_result s0)"
    by (simp_all add: s0_def accounted_def empty_result_def)
  have "accounted (cutoff \<noteq> None) (rn_result t)"
    unfolding t_def fsync_loop_accounted unfolding s_def by (rule collect_loop_accounted [OF s0(3)])
  then have acc: "accounted (age \<noteq> None) r" unfolding t cutoff .
  have "removed {q \<in> set ps. gc_is_within root_dir q \<and> \<not> retain q \<and> cutoff \<noteq> None \<and> \<not> dry_run} s0 t"
    unfolding t_def s_def by (rule removed_trans [OF collect_loop removed_mono [OF fsync_loop_removes]]) simp
  then obtain qs where "gw_unlinked w' = gw_unlinked w @ qs" "gr_files_deleted r = int (length qs)"
      "set qs \<subseteq> {q \<in> set ps. gc_is_within root_dir q \<and> \<not> retain q \<and> cutoff \<noteq> None \<and> \<not> dry_run}"
    unfolding removed_def t s0 by auto
  then show ?thesis using acc Root_dir unfolding set_ps cutoff by (intro exI [of _ qs]) blast
qed (use assms in \<open>auto simp: collect_files_by_age_def Let_def accounted_def empty_result_def add_error_def\<close>)

lemma in_concat_map: "p \<in> set (concat (map f xs)) \<longleftrightarrow> (\<exists>x \<in> set xs. p \<in> set (f x))"
  by auto

lemma iter_cas_member:
  "p \<in> set (iter_cas_chunk_files entries listing root_dir) \<longleftrightarrow>
     (\<exists>h. p = chunk_path root_dir h \<and> is_hex64 h \<and> take 2 h \<in> set (listing root_dir) \<and>
       real_dir entries (root_dir @ [take 2 h]) \<and> take 2 (drop 2 h) \<in> set (listing (root_dir @ [take 2 h])) \<and>
       real_dir entries (root_dir @ [take 2 h, take 2 (drop 2 h)]) \<and> h \<in> set (listing (root_dir @ [take 2 h, take 2 (drop 2 h)])))"
  (is "_ \<longleftrightarrow> (\<exists>h. ?P h)")
proof
  assume "\<exists>h. ?P h"
  then obtain h where h: "?P h" ..
  then have "length (take 2 h) = 2 \<and> length (take 2 (drop 2 h)) = 2" by (simp add: is_hex64_def BLAKE3_HEX_LENGTH_def)
  then show "p \<in> set (iter_cas_chunk_files entries listing root_dir)" using h
    unfolding iter_cas_chunk_files_def in_concat_map
    by (intro bexI [of _ "take 2 h"]) (auto simp: in_concat_map chunk_path_def intro!: bexI [of _ "take 2 (drop 2 h)"])
qed (auto simp: iter_cas_chunk_files_def in_concat_map chunk_path_def split: if_splits)

lemma last_chunk_path [simp]: "last (chunk_path root_dir h) = h"
  by (simp add: chunk_path_def)

lemma protected_member:
  "h \<in> set (gc_protected_chunk_hashes db) \<longleftrightarrow>
     (\<exists>s status r. (s, status) \<in> set (ct_snapshots db) \<and> (status = ''CREATING'' \<or> status = ''COMPLETE'') \<and>
        (s, ''file'', Some r) \<in> set (ct_snapshot_items db) \<and> (r, h) \<in> set (ct_recipe_chunks db))"
proof -
  have rows: "protected_rows db (s, status) (si, item_type, None) = []"
    "si = s \<and> (status = ''CREATING'' \<or> status = ''COMPLETE'') \<and> item_type = ''file'' \<Longrightarrow>
       protected_rows db (s, status) (si, item_type, Some r) = map snd (filter (\<lambda>(q, _). q = r) (ct_recipe_chunks db))"
    "\<not> (si = s \<and> (status = ''CREATING'' \<or> status = ''COMPLETE'') \<and> item_type = ''file'') \<Longrightarrow>
       protected_rows db (s, status) (si, item_type, recipe) = []" for s status si item_type recipe r
    unfolding protected_rows_def prod.case option.case by (simp_all only: if_True if_False if_cancel simp_thms)
  have row: "h \<in> set (map snd (filter (\<lambda>(q, _). q = r) xs)) \<longleftrightarrow> (r, h) \<in> set xs" for r :: int and xs by force
  have "h \<in> set (protected_rows db (s, status) (si, item_type, recipe)) \<longleftrightarrow>
      si = s \<and> (status = ''CREATING'' \<or> status = ''COMPLETE'') \<and> item_type = ''file'' \<and>
      (\<exists>r. recipe = Some r \<and> (r, h) \<in> set (ct_recipe_chunks db))" (is "_ \<longleftrightarrow> ?R") for s status si item_type recipe
  proof (cases "si = s \<and> (status = ''CREATING'' \<or> status = ''COMPLETE'') \<and> item_type = ''file''")
    case True
    then show ?thesis by (cases recipe) (simp_all only: rows row simp_thms option.inject option.distinct list.set empty_iff ex_simps)
  qed (simp add: rows, blast)
  then show ?thesis unfolding gc_protected_chunk_hashes_def set_sort set_remdups in_concat_map Bex_def split_paired_Ex by simp blast
qed

text \<open>C34. Collecting the node's own chunks never removes a chunk that a snapshot needs, whatever other
  processes do to the store meanwhile and whatever system calls fail: every path it removes is the
  store path of a valid hash that no file of a snapshot being created or complete refers to; a dry run
  removes nothing; the number of deleted files it reports is the number of paths removed, and its
  counters account for every file seen.\<close>

theorem gc_keeps_protected_chunks:
  assumes "cmd_generated_chunks now state listing root_dir grace_hours dry_run db w = (r, w')"
  shows "\<exists>ps. gw_unlinked w' = gw_unlinked w @ ps \<and> gr_files_deleted r = int (length ps) \<and> (dry_run \<longrightarrow> ps = []) \<and>
    (\<forall>p \<in> set ps. \<exists>h. p = chunk_path root_dir h \<and> is_hex64 h \<and>
       (\<forall>s status recipe. (s, status) \<in> set (ct_snapshots db) \<and> status \<in> {''CREATING'', ''COMPLETE''} \<and>
          (s, ''file'', Some recipe) \<in> set (ct_snapshot_items db) \<longrightarrow> (recipe, h) \<notin> set (ct_recipe_chunks db))) \<and>
    gr_files_seen r = gr_files_collectable r + gr_files_retained_by_policy r + gr_files_skipped_by_age r \<and>
    gr_files_deleted r \<le> gr_files_collectable r"
proof -
  obtain age where run: "collect_files_by_age now state root_dir
      (if state = Root_dir then iter_cas_chunk_files (gw_entries w) listing root_dir else []) (Some age) dry_run
      (\<lambda>p. last p \<in> set (gc_protected_chunk_hashes db)) False w = (r, w')"
    using assms by (auto simp: cmd_generated_chunks_def collect_cas_chunks_def Let_def)
  from collect_files_by_age_removes [OF run] obtain ps where ps: "gw_unlinked w' = gw_unlinked w @ ps"
      "gr_files_deleted r = int (length ps)" "accounted True r"
    and each: "\<And>p. p \<in> set ps \<Longrightarrow> p \<in> set (iter_cas_chunk_files (gw_entries w) listing root_dir)
      \<and> last p \<notin> set (gc_protected_chunk_hashes db) \<and> \<not> dry_run"
    by (auto split: if_splits)
  have "\<exists>h. p = chunk_path root_dir h \<and> is_hex64 h \<and>
       (\<forall>s status recipe. (s, status) \<in> set (ct_snapshots db) \<and> status \<in> {''CREATING'', ''COMPLETE''} \<and>
          (s, ''file'', Some recipe) \<in> set (ct_snapshot_items db) \<longrightarrow> (recipe, h) \<notin> set (ct_recipe_chunks db))"
    if "p \<in> set ps" for p
  proof -
    note here = each [OF that]
    obtain h where h: "p = chunk_path root_dir h" "is_hex64 h" using here unfolding iter_cas_member by blast
    then have "h \<notin> set (gc_protected_chunk_hashes db)" using here by simp
    then show ?thesis using h unfolding protected_member by blast
  qed
  moreover have "dry_run \<longrightarrow> ps = []" using each by (cases ps) auto
  ultimately show ?thesis using ps by (intro exI [of _ ps]) (auto simp: accounted_def)
qed

section \<open>An undisturbed collection removes exactly what is stale\<close>

text \<open>No other process, no failing call, no redirections on the way to the root.\<close>

definition quiet :: "gc_world \<Rightarrow> bool" where
  "quiet w \<longleftrightarrow> (\<forall>n e. gw_others w n e = e) \<and> (\<forall>n. \<not> gw_fails w n) \<and> (\<forall>n p. gw_realpath w n p = Inr p)"

definition at_call :: "nat \<Rightarrow> gc_world \<Rightarrow> gc_world" where
  "at_call n w = w\<lparr>gw_calls := n\<rparr>"

lemma at_call_simps [simp]:
  "gw_entries (at_call n w) = gw_entries w" "quiet (at_call n w) = quiet w" "at_call m (at_call n w) = at_call m w"
  "gw_unlinked (at_call n w) = gw_unlinked w"
  by (simp_all add: at_call_def quiet_def)

lemma quiet_lstat:
  assumes "quiet w"
  shows "os_lstat p w = (case gw_entries w p of None \<Rightarrow> Inl FileNotFoundError | Some st \<Rightarrow> Inr st, at_call (Suc (gw_calls w)) w)"
  using assms by (simp add: os_lstat_def os_call_def quiet_def at_call_def Let_def)

lemma quiet_gc_lstat:
  assumes "quiet w"
  shows "gc_error (os_lstat p) w =
    (case gw_entries w p of None \<Rightarrow> Inl GarbageCollectionPathError | Some st \<Rightarrow> Inr st, at_call (Suc (gw_calls w)) w)"
  by (simp add: gc_error_def op_wrap_def op_catch_def quiet_lstat [OF assms] op_raise_def is_OSError_def split: option.splits)

lemma quiet_realpath: "quiet w \<Longrightarrow> gc_error (os_realpath p) w = (Inr p, w)"
  by (simp add: gc_error_def op_wrap_def op_catch_def os_realpath_def quiet_def)

text \<open>A candidate two directories below the root.\<close>

definition below :: "path \<Rightarrow> gc_entries \<Rightarrow> path \<Rightarrow> bool" where
  "below root_dir e p \<longleftrightarrow> (\<exists>a b f. p = root_dir @ [a, b, f] \<and> real_dir e (root_dir @ [a]) \<and> real_dir e (root_dir @ [a, b]))"

definition regular_at :: "gc_entries \<Rightarrow> path \<Rightarrow> gc_stat result" where
  "regular_at e p = (case e p of None \<Rightarrow> Inl GarbageCollectionPathError
     | Some st \<Rightarrow> if st_kind st = Kind_regular then Inr st else Inl GarbageCollectionPathError)"

lemma validate_quiet:
  assumes "quiet w" "below root_dir (gw_entries w) p"
  shows "\<exists>n. validate_gc_regular_file root_dir p w = (regular_at (gw_entries w) p, at_call n w)"
proof -
  obtain a b f where p: "p = root_dir @ [a, b, f]"
    and d: "real_dir (gw_entries w) (root_dir @ [a])" "real_dir (gw_entries w) (root_dir @ [a, b])"
    using assms(2) by (auto simp: below_def)
  obtain st1 st2 where st: "gw_entries w (root_dir @ [a]) = Some st1" "st_kind st1 = Kind_directory"
      "gw_entries w (root_dir @ [a, b]) = Some st2" "st_kind st2 = Kind_directory"
    using d by (auto simp: real_dir_def split: option.splits)
  have inside: "gc_is_within root_dir (root_dir @ [a, b, f])" by (simp add: gc_is_within_def)
  show ?thesis
  proof (cases "gw_entries w p")
    case None
    then show ?thesis using assms(1) st
      by (simp add: validate_gc_regular_file_def inside op_bind_def quiet_gc_lstat is_filesystem_redirection_def p regular_at_def)
        blast
  next
    case (Some st)
    then show ?thesis using assms(1) st inside
      by (simp add: validate_gc_regular_file_def op_bind_def quiet_gc_lstat quiet_realpath is_filesystem_redirection_def p
          regular_at_def op_return_def op_raise_def) (auto simp: op_return_def op_raise_def)
  qed
qed

definition stale :: "real \<Rightarrow> (path \<Rightarrow> bool) \<Rightarrow> gc_entries \<Rightarrow> path \<Rightarrow> bool" where
  "stale t retain e p \<longleftrightarrow> \<not> retain p \<and> (case regular_at e p of Inl _ \<Rightarrow> False | Inr st \<Rightarrow> st_mtime st \<le> t)"

lemma collect_one_quiet:
  assumes "quiet (rn_world s)" "below root_dir (gw_entries (rn_world s)) p"
  shows "quiet (rn_world (collect_one root_dir (Some t) False retain s p)) \<and>
    gw_entries (rn_world (collect_one root_dir (Some t) False retain s p)) =
      (if stale t retain (gw_entries (rn_world s)) p then (gw_entries (rn_world s))(p := None) else gw_entries (rn_world s))"
proof -
  define w where "w = rn_world s"
  obtain n where v: "validate_gc_regular_file root_dir p w = (regular_at (gw_entries w) p, at_call n w)"
    using validate_quiet assms unfolding w_def by blast
  obtain m where v2: "validate_gc_regular_file root_dir p (at_call n w) = (regular_at (gw_entries w) p, at_call m w)"
    using validate_quiet [of "at_call n w" root_dir p] assms unfolding w_def by auto
  show ?thesis
  proof (cases "regular_at (gw_entries w) p")
    case (Inl e)
    then show ?thesis using assms(1) v by (simp add: collect_one_def w_def [symmetric] stale_def)
  next
    case (Inr st)
    then have ent: "gw_entries w p = Some st" by (auto simp: regular_at_def split: option.splits if_splits)
    have un: "os_unlink p (at_call m w) = (Inr (), (at_call (Suc m) w)\<lparr>gw_entries := (gw_entries w)(p := None), gw_unlinked := gw_unlinked w @ [p]\<rparr>)"
      using assms(1) ent by (simp add: os_unlink_def os_call_def quiet_def at_call_def w_def [symmetric] Let_def)
    have same: "same_file_identity st st" by (simp add: same_file_identity_def)
    show ?thesis
    proof (cases "stale t retain (gw_entries w) p")
      case True
      then have "\<not> retain p" "\<not> t < st_mtime st" by (auto simp: stale_def Inr)
      then show ?thesis using assms(1) True
        by (simp add: collect_one_def w_def [symmetric] v Inr Let_def delete_candidate_def v2 same un) (simp add: quiet_def at_call_def)
    next
      case False
      then show ?thesis using assms(1)
        by (auto simp: collect_one_def w_def [symmetric] v Inr Let_def stale_def)
    qed
  qed
qed

lemma real_dir_remove: "stale t retain e p \<Longrightarrow> real_dir (e(p := None)) d = real_dir e d"
  by (auto simp: real_dir_def stale_def regular_at_def is_filesystem_redirection_def split: option.splits if_splits)

lemma below_remove: "stale t retain e p \<Longrightarrow> below root_dir (e(p := None)) q = below root_dir e q"
  by (simp only: below_def real_dir_remove)

lemma stale_remove: "stale t retain (e(p := None)) q \<longleftrightarrow> q \<noteq> p \<and> stale t retain e q"
  by (auto simp: stale_def regular_at_def)

lemma collect_loop_quiet:
  assumes "quiet (rn_world s)" "\<And>p. p \<in> set ps \<Longrightarrow> below root_dir (gw_entries (rn_world s)) p"
  shows "quiet (rn_world (foldl (collect_one root_dir (Some t) False retain) s ps)) \<and>
    gw_entries (rn_world (foldl (collect_one root_dir (Some t) False retain) s ps)) =
      (\<lambda>q. if q \<in> set ps \<and> stale t retain (gw_entries (rn_world s)) q then None else gw_entries (rn_world s) q)"
  using assms
proof (induction ps arbitrary: s)
  case (Cons p ps)
  define e where "e = gw_entries (rn_world s)"
  define s1 where "s1 = collect_one root_dir (Some t) False retain s p"
  have s1: "quiet (rn_world s1)" "gw_entries (rn_world s1) = (if stale t retain e p then e(p := None) else e)"
    using collect_one_quiet [OF Cons.prems(1), of root_dir p t retain] Cons.prems(2) [of p] by (simp_all add: s1_def e_def)
  have "below root_dir (gw_entries (rn_world s1)) q" if "q \<in> set ps" for q
    using Cons.prems(2) [of q] that below_remove [of t retain e p root_dir q] by (simp add: s1 e_def)
  from Cons.IH [OF s1(1) this] show ?case
    unfolding foldl_Cons s1_def [symmetric] e_def [symmetric] s1(2) by (auto simp: stale_remove fun_eq_iff)
qed simp

lemma fsync_loop_quiet:
  "quiet (rn_world s) \<Longrightarrow> gw_entries (rn_world (foldl fsync_one s ds)) = gw_entries (rn_world s)"
proof (induction ds arbitrary: s)
  case (Cons d ds)
  have "quiet (rn_world (fsync_one s d))" "gw_entries (rn_world (fsync_one s d)) = gw_entries (rn_world s)"
    using Cons.prems by (simp_all add: fsync_one_def os_call_def op_return_def quiet_def Let_def)
  then show ?case using Cons.IH by simp
qed simp

lemma collect_files_quiet:
  assumes "quiet w" "\<And>p. p \<in> set candidates \<Longrightarrow> below root_dir (gw_entries w) p"
  shows "gw_entries (snd (collect_files_by_age now Root_dir root_dir candidates (Some age) False retain sort_files w)) =
    (\<lambda>q. if q \<in> set candidates \<and> stale (now - of_int (max age 0)) retain (gw_entries w) q then None else gw_entries w q)"
proof -
  define ps where "ps = (if sort_files then sort candidates else candidates)"
  define s0 where "s0 = \<lparr>rn_world = w, rn_result = empty_result (Some (max age 0)) (Some (now - of_int (max age 0))), rn_touched = []\<rparr>"
  have ps: "set ps = set candidates" by (simp add: ps_def)
  note run = collect_loop_quiet [of s0 ps root_dir "now - of_int (max age 0)" retain]
  have s0: "rn_world s0 = w" by (simp add: s0_def)
  have "snd (collect_files_by_age now Root_dir root_dir candidates (Some age) False retain sort_files w) =
      rn_world (foldl fsync_one (foldl (collect_one root_dir (Some (now - of_int (max age 0))) False retain) s0 ps)
        (sort (remdups (rn_touched (foldl (collect_one root_dir (Some (now - of_int (max age 0))) False retain) s0 ps)))))"
    by (simp add: collect_files_by_age_def Let_def ps_def s0_def)
  then show ?thesis using run assms unfolding s0 ps by (simp add: fsync_loop_quiet)
qed

text \<open>C35. What the collection of chunks is for: undisturbed, with a listing that shows what is there, a
  chunk file is gone afterwards exactly when it was a regular file, its hash is not to be kept and it
  was last modified at or before the cutoff; nothing else in the file system changes.\<close>

theorem gc_removes_exactly_stale_chunks:
  assumes "quiet w" and listing: "\<And>p x. x \<in> set (listing p) \<longleftrightarrow> gw_entries w (p @ [x]) \<noteq> None"
    and "w' = snd (collect_cas_chunks now Root_dir listing root_dir (Some age) False (Some keep) w)"
  shows "(\<forall>h. is_hex64 h \<and> real_dir (gw_entries w) (root_dir @ [take 2 h]) \<and>
        real_dir (gw_entries w) (root_dir @ [take 2 h, take 2 (drop 2 h)]) \<longrightarrow>
      (gw_entries w' (chunk_path root_dir h) = None \<longleftrightarrow>
        (case gw_entries w (chunk_path root_dir h) of None \<Rightarrow> True
         | Some st \<Rightarrow> st_kind st = Kind_regular \<and> h \<notin> set keep \<and> st_mtime st \<le> now - of_int (max age 0)))) \<and>
    (\<forall>q. gw_entries w' q = gw_entries w q \<or> (gw_entries w' q = None \<and> (\<exists>h. is_hex64 h \<and> q = chunk_path root_dir h)))"
proof -
  let ?C = "iter_cas_chunk_files (gw_entries w) listing root_dir"
  let ?retain = "\<lambda>p. last p \<in> set keep"
  have "below root_dir (gw_entries w) p" if "p \<in> set ?C" for p
    using that unfolding iter_cas_member below_def chunk_path_def by blast
  then have ent: "gw_entries w' = (\<lambda>q. if q \<in> set ?C \<and> stale (now - of_int (max age 0)) ?retain (gw_entries w) q
      then None else gw_entries w q)"
    unfolding assms(3) collect_cas_chunks_def using collect_files_quiet [OF assms(1)] by simp
  have member: "chunk_path root_dir h \<in> set ?C \<longleftrightarrow> gw_entries w (chunk_path root_dir h) \<noteq> None"
    if "is_hex64 h" "real_dir (gw_entries w) (root_dir @ [take 2 h])"
      "real_dir (gw_entries w) (root_dir @ [take 2 h, take 2 (drop 2 h)])" for h
    using that unfolding iter_cas_member
    by (auto simp: listing chunk_path_def real_dir_def dest: arg_cong [of _ _ last] split: option.splits)
  show ?thesis
  proof (intro conjI allI impI)
    fix h assume h: "is_hex64 h \<and> real_dir (gw_entries w) (root_dir @ [take 2 h]) \<and>
        real_dir (gw_entries w) (root_dir @ [take 2 h, take 2 (drop 2 h)])"
    show "gw_entries w' (chunk_path root_dir h) = None \<longleftrightarrow>
        (case gw_entries w (chunk_path root_dir h) of None \<Rightarrow> True
         | Some st \<Rightarrow> st_kind st = Kind_regular \<and> h \<notin> set keep \<and> st_mtime st \<le> now - of_int (max age 0))"
      using member [of h] h by (auto simp: ent stale_def regular_at_def split: option.splits if_splits)
  next
    fix q
    show "gw_entries w' q = gw_entries w q \<or> (gw_entries w' q = None \<and> (\<exists>h. is_hex64 h \<and> q = chunk_path root_dir h))"
      unfolding ent iter_cas_member by auto
  qed
qed

text \<open>A file system as a list of entries, and its listing.\<close>

definition listing_of :: "(path \<times> gc_stat) list \<Rightarrow> path \<Rightarrow> string list" where
  "listing_of es p = map (\<lambda>e. last (fst e)) (filter (\<lambda>e. fst e \<noteq> [] \<and> butlast (fst e) = p) es)"

lemma listing_of_faithful: "x \<in> set (listing_of es p) \<longleftrightarrow> map_of es (p @ [x]) \<noteq> None"
proof -
  have "(\<exists>e \<in> set es. fst e \<noteq> [] \<and> butlast (fst e) = p \<and> last (fst e) = x) \<longleftrightarrow> p @ [x] \<in> fst ` set es"
    by (metis (no_types, lifting) append_butlast_last_id image_iff last_snoc snoc_eq_iff_butlast)
  then show ?thesis by (auto simp: listing_of_def map_of_eq_None_iff)
qed

definition demo_stat :: "gc_kind \<Rightarrow> real \<Rightarrow> gc_stat" where
  "demo_stat k t = \<lparr>st_kind = k, st_dev = 1, st_ino = 7, st_mode = 0, st_size = 5, st_mtime = t, st_mtime_ns = 0, st_ctime_ns = 0\<rparr>"

definition demo_tree :: "(path \<times> gc_stat) list" where
  "demo_tree = [([''aa''], demo_stat Kind_directory 0), ([''aa'', ''aa''], demo_stat Kind_directory 0),
     ([''aa'', ''aa'', replicate 64 (CHR ''a'')], demo_stat Kind_regular 10),
     ([''aa'', ''aa'', replicate 63 (CHR ''a'') @ ''b''], demo_stat Kind_regular 10)]"

definition demo_world :: gc_world where
  "demo_world = \<lparr>gw_entries = map_of demo_tree, gw_others = (\<lambda>_ e. e), gw_fails = (\<lambda>_. False), gw_realpath = (\<lambda>_ p. Inr p),
     gw_calls = 0, gw_unlinked = []\<rparr>"

definition demo_catalog :: catalog where
  "demo_catalog = \<lparr>ct_snapshots = [(''s'', ''COMPLETE'')], ct_snapshot_items = [(''s'', ''file'', Some 1)],
     ct_recipe_chunks = [(1, replicate 64 (CHR ''a''))]\<rparr>"

lemma demo_paths:
  "chunk_path [] (replicate 64 (CHR ''a'')) = [''aa'', ''aa'', replicate 64 (CHR ''a'')]"
  "chunk_path [] (replicate 63 (CHR ''a'') @ ''b'') = [''aa'', ''aa'', replicate 63 (CHR ''a'') @ ''b'']"
  by (simp_all add: chunk_path_def numeral_eq_Suc)

lemma demo_gc_hex: "is_hex64 (replicate 64 (CHR ''a''))" "is_hex64 (replicate 63 (CHR ''a'') @ ''b'')"
  by code_simp+

lemma demo_differ: "replicate 64 (CHR ''a'') \<noteq> replicate 63 (CHR ''a'') @ ''b''"
  by (simp add: numeral_eq_Suc)

theorem gc_removes_exactly_stale_chunks_witness:
  "gw_entries (snd (collect_cas_chunks 100 Root_dir (listing_of demo_tree) [] (Some 50) False (Some [replicate 64 (CHR ''a'')]) demo_world))
      (chunk_path [] (replicate 63 (CHR ''a'') @ ''b'')) = None \<and>
   gw_entries (snd (collect_cas_chunks 100 Root_dir (listing_of demo_tree) [] (Some 50) False (Some [replicate 64 (CHR ''a'')]) demo_world))
      (chunk_path [] (replicate 64 (CHR ''a''))) \<noteq> None"
proof -
  have "quiet demo_world" by (simp add: quiet_def demo_world_def)
  moreover have "x \<in> set (listing_of demo_tree p) \<longleftrightarrow> gw_entries demo_world (p @ [x]) \<noteq> None" for p x
    by (simp add: listing_of_faithful demo_world_def)
  ultimately have ex: "gw_entries (snd (collect_cas_chunks 100 Root_dir (listing_of demo_tree) [] (Some 50) False
        (Some [replicate 64 (CHR ''a'')]) demo_world)) (chunk_path [] h) = None \<longleftrightarrow>
        (case gw_entries demo_world (chunk_path [] h) of None \<Rightarrow> True
         | Some st \<Rightarrow> st_kind st = Kind_regular \<and> h \<notin> set [replicate 64 (CHR ''a'')] \<and> st_mtime st \<le> 100 - of_int (max 50 0))"
    if "is_hex64 h \<and> real_dir (gw_entries demo_world) ([] @ [take 2 h]) \<and>
        real_dir (gw_entries demo_world) ([] @ [take 2 h, take 2 (drop 2 h)])" for h
    using gc_removes_exactly_stale_chunks [OF _ _ refl] that by blast
  have dirs: "real_dir (gw_entries demo_world) [''aa'']" "real_dir (gw_entries demo_world) [''aa'', ''aa'']"
    by (simp_all add: real_dir_def demo_world_def demo_tree_def demo_stat_def is_filesystem_redirection_def)
  have heads: "take 2 (replicate 64 (CHR ''a'')) = ''aa''" "take 2 (drop 2 (replicate 64 (CHR ''a''))) = ''aa''"
    "take 2 (replicate 63 (CHR ''a'') @ ''b'') = ''aa''" "take 2 (drop 2 (replicate 63 (CHR ''a'') @ ''b'')) = ''aa''"
    by (simp_all add: numeral_eq_Suc)
  show ?thesis
    using ex [of "replicate 63 (CHR ''a'') @ ''b''"] ex [of "replicate 64 (CHR ''a'')"] demo_gc_hex demo_differ dirs
    unfolding heads demo_paths by (simp add: demo_world_def demo_tree_def demo_stat_def)
qed

theorem gc_keeps_protected_chunks_witness:
  "chunk_path [] (replicate 64 (CHR ''a'')) \<notin>
     set (gw_unlinked (snd (cmd_generated_chunks 100000 Root_dir (listing_of demo_tree) [] 1 False demo_catalog demo_world)))"
proof
  let ?run = "cmd_generated_chunks 100000 Root_dir (listing_of demo_tree) [] 1 False demo_catalog demo_world"
  assume "chunk_path [] (replicate 64 (CHR ''a'')) \<in> set (gw_unlinked (snd ?run))"
  moreover have "gw_unlinked demo_world = []" by (simp add: demo_world_def)
  ultimately obtain h where "chunk_path [] (replicate 64 (CHR ''a'')) = chunk_path [] h"
      "\<And>s status recipe. (s, status) \<in> set (ct_snapshots demo_catalog) \<and> status \<in> {''CREATING'', ''COMPLETE''} \<and>
          (s, ''file'', Some recipe) \<in> set (ct_snapshot_items demo_catalog) \<Longrightarrow> (recipe, h) \<notin> set (ct_recipe_chunks demo_catalog)"
    using gc_keeps_protected_chunks [OF surjective_pairing [of ?run]] by (metis append_Nil)
  from this(1) this(2) [of "''s''" "''COMPLETE''" 1] show False
    by (simp add: chunk_path_def demo_catalog_def)
qed

section \<open>The collectors see what the stores write\<close>

text \<open>The shard collector recognises every file name under which the shard store keeps a shard, and
  reads the index and the hash back from it.\<close>

lemma takeWhile_dec_fmt:
  assumes "0 \<le> i"
  shows "takeWhile is_dec_char (fmt_03d i @ ''-'' @ s) = fmt_03d i" "dropWhile is_dec_char (fmt_03d i @ ''-'' @ s) = ''-'' @ s"
proof -
  have "list_all is_dec_char (fmt_03d i)"
    using assms dec_nat_dec [of "nat i"] by (auto simp: fmt_03d_def dec_int_def list_all_iff is_dec_char_def)
  moreover have "\<not> is_dec_char (CHR ''-'')" by (simp add: is_dec_char_def)
  ultimately show "takeWhile is_dec_char (fmt_03d i @ ''-'' @ s) = fmt_03d i" "dropWhile is_dec_char (fmt_03d i @ ''-'' @ s) = ''-'' @ s"
    by (simp_all add: list_all_iff)
qed

lemma dec_value_fmt: "0 \<le> i \<Longrightarrow> dec_value (fmt_03d i) = nat i"
proof -
  have zeros: "foldl (\<lambda>a c. 10 * a + (of_char c - 48)) 0 (replicate n CHR ''0'') = (0 :: nat)" for n by (induction n) auto
  assume "0 \<le> i"
  then show ?thesis using dec_value_dec_nat [of "nat i"] by (simp add: fmt_03d_def dec_value_def zeros dec_int_def)
qed

lemma parse_shard_file:
  assumes "0 \<le> i" "is_hex64 h"
  shows "parse_shard_name (fmt_03d i @ ''-'' @ h @ ''.stec'') = Some (nat i, h)"
proof -
  have "fmt_03d i \<noteq> []" using assms(1) by (simp add: fmt_03d_def dec_int_def)
  moreover have "length h = 64" using assms(2) by (simp add: is_hex64_def BLAKE3_HEX_LENGTH_def)
  moreover have "drop 65 (CHR ''-'' # h @ ''.stec'') = ''.stec''" "take 64 (h @ ''.stec'') = h"
    using \<open>length h = 64\<close> by (simp_all add: drop_Cons')
  ultimately show ?thesis using assms takeWhile_dec_fmt [OF assms(1), of "h @ ''.stec''"] dec_value_fmt [OF assms(1)]
    by (simp add: parse_shard_name_def Let_def)
qed

lemma stored_shards_are_seen: "\<not> invalid_shard_ref (p, i, h) \<Longrightarrow> is_shard_name (last (shard_path folder (p, i, h)))"
  using parse_shard_file [of i h] by (simp add: invalid_shard_ref_def is_shard_name_def shard_path_def)

end
