(* ===== verification/PackStore.thy ===== *)
theory PackStore
  imports Json Disk
begin

text \<open>
  The store of encrypted metadata packs a node keeps for others:
  \<open>stopan.metadata.packs.distributed_store\<close>, the signatures of \<open>stopan.metadata.identity.signatures\<close>
  and the service of \<open>stopan.node.services.metadata_pack_rpc\<close>.

  A pack file is identified by owner and pack hash, as its path is (\<open>paths.py\<close>); \<open>ps_packs\<close> lists the
  files in the order of the sorted directory walk. \<open>ps_sidecars\<close> holds the signature records that
  parse. A file that cannot be read stays so (\<open>pf_readable\<close>). Every write and every removal consumes an
  entry of \<open>ps_io\<close>: it succeeds, finds the file gone, or fails; a write that fails may have published its
  file (an outcome \<open>IO_fail (Suc n)\<close>). Ed25519, BLAKE3 and Base64 are the parameter \<open>pack_crypto\<close>. Error
  texts and reporters of candidates are not represented.
\<close>

section \<open>Signatures (identity/signatures.py)\<close>

record pack_crypto =
  pc_blake3_hex :: "bytes \<Rightarrow> string"
  pc_b64decode :: "string \<Rightarrow> bytes option"
  pc_ed25519_verify :: "bytes \<Rightarrow> bytes \<Rightarrow> bytes \<Rightarrow> bool"

definition validate_owner_id :: "string \<Rightarrow> string result" where
  "validate_owner_id v = (if is_hex64 (py_strip v) then Inr (py_strip v) else Inl MetadataIdentityError)"

definition validate_pack_hash :: "string \<Rightarrow> string result" where
  "validate_pack_hash v = (if is_hex64 (py_strip v) then Inr (py_strip v) else Inl MetadataPackHashValueError)"

definition metadata_pack_signature_payload :: "string \<Rightarrow> string \<Rightarrow> bytes result" where
  "metadata_pack_signature_payload owner_id pack_hash =
     bindE (validate_owner_id owner_id) (\<lambda>owner. bindE (validate_pack_hash pack_hash) (\<lambda>pack.
       Inr (canonical_json_bytes (JObj [
         (''format'', JStr ''stopan.metadata_pack_signature''),
         (''version'', JInt 1),
         (''algorithm'', JStr ''ed25519''),
         (''owner_id'', JStr owner),
         (''pack_hash'', JStr pack)]))))"

definition verify_metadata_signature :: "pack_crypto \<Rightarrow> string \<Rightarrow> string \<Rightarrow> bytes \<Rightarrow> bytes \<Rightarrow> bool result" where
  "verify_metadata_signature c owner_id public_key_b64 signature data =
     bindE (validate_owner_id owner_id) (\<lambda>owner.
       case pc_b64decode c public_key_b64 of
         None \<Rightarrow> Inl ValueError
       | Some raw \<Rightarrow>
           if length raw \<noteq> 32 then Inl MetadataIdentityError
           else if pc_blake3_hex c raw \<noteq> owner then Inr False
           else Inr (pc_ed25519_verify c raw signature data))"

text \<open>Any exception is a failed verification.\<close>

definition verify_metadata_pack_signature :: "pack_crypto \<Rightarrow> string \<Rightarrow> string \<Rightarrow> string \<Rightarrow> string \<Rightarrow> bool" where
  "verify_metadata_pack_signature c owner_id public_key_b64 signature_b64 pack_hash =
     (case pc_b64decode c signature_b64 of
        None \<Rightarrow> False
      | Some signature \<Rightarrow>
          (case bindE (metadata_pack_signature_payload owner_id pack_hash)
                 (verify_metadata_signature c owner_id public_key_b64 signature) of
             Inl _ \<Rightarrow> False | Inr b \<Rightarrow> b))"

section \<open>The store\<close>

type_synonym pack_key = "string \<times> string"

record pack_file =
  pf_data :: bytes
  pf_mtime :: real
  pf_readable :: bool

record sidecar =
  sc_owner_id :: string
  sc_pack_hash :: string
  sc_public_key :: string
  sc_signature :: string

record pack_store =
  ps_max_pack_bytes :: int
  ps_max_packs_per_owner :: int
  ps_max_total_bytes_per_owner :: int
  ps_max_total_store_bytes :: int
  ps_max_age_days :: int
  ps_packs :: "(pack_key \<times> pack_file) list"
  ps_sidecars :: "pack_key \<Rightarrow> sidecar option"
  ps_io :: "nat \<Rightarrow> io_outcome"
  ps_clock :: "nat \<Rightarrow> real"
  ps_calls :: nat

definition mk_MetadataPackStore ::
    "int \<Rightarrow> int \<Rightarrow> int \<Rightarrow> int \<Rightarrow> int \<Rightarrow> (pack_key \<times> pack_file) list \<Rightarrow> (pack_key \<Rightarrow> sidecar option) \<Rightarrow> (nat \<Rightarrow> io_outcome) \<Rightarrow> (nat \<Rightarrow> real)
      \<Rightarrow> pack_store result" where
  "mk_MetadataPackStore max_pack max_count max_owner max_store max_age packs sidecars io clock =
     (if max_pack < 1 \<or> max_count < 1 \<or> max_owner < 1 \<or> max_store < 1 \<or> max_age < 0 then Inl StopanConfigValueError
      else if max_owner < max_pack then Inl StopanConfigValueError
      else if max_store < max_pack then Inl StopanConfigValueError
      else Inr \<lparr>ps_max_pack_bytes = max_pack, ps_max_packs_per_owner = max_count, ps_max_total_bytes_per_owner = max_owner,
        ps_max_total_store_bytes = max_store, ps_max_age_days = max_age, ps_packs = packs, ps_sidecars = sidecars, ps_io = io,
        ps_clock = clock, ps_calls = 0\<rparr>)"

definition next_io :: "(pack_store, io_outcome) op" where
  "next_io s = (Inr (ps_io s (ps_calls s)), s\<lparr>ps_calls := Suc (ps_calls s)\<rparr>)"

definition time_now :: "(pack_store, real) op" where
  "time_now s = (Inr (ps_clock s (ps_calls s)), s\<lparr>ps_calls := Suc (ps_calls s)\<rparr>)"

definition del_pack :: "pack_key \<Rightarrow> pack_store \<Rightarrow> pack_store" where
  "del_pack k s = s\<lparr>ps_packs := filter (\<lambda>e. fst e \<noteq> k) (ps_packs s)\<rparr>"

definition del_sidecar :: "pack_key \<Rightarrow> pack_store \<Rightarrow> pack_store" where
  "del_sidecar k s = s\<lparr>ps_sidecars := (ps_sidecars s)(k := None)\<rparr>"

definition add_pack :: "pack_key \<Rightarrow> bytes \<Rightarrow> real \<Rightarrow> pack_store \<Rightarrow> pack_store" where
  "add_pack k data t s =
     s\<lparr>ps_packs := insort_key fst (k, \<lparr>pf_data = data, pf_mtime = t, pf_readable = True\<rparr>) (filter (\<lambda>e. fst e \<noteq> k) (ps_packs s))\<rparr>"

section \<open>Signature records (signatures.py)\<close>

definition read_signature_record :: "pack_crypto \<Rightarrow> pack_key \<Rightarrow> pack_store \<Rightarrow> string \<times> string" where
  "read_signature_record c k s =
     (case ps_sidecars s k of
        None \<Rightarrow> ([], [])
      | Some r \<Rightarrow>
          if sc_owner_id r \<noteq> fst k \<or> sc_pack_hash r \<noteq> snd k then ([], [])
          else if sc_public_key r = [] \<or> sc_signature r = [] then ([], [])
          else if \<not> verify_metadata_pack_signature c (fst k) (sc_public_key r) (sc_signature r) (snd k) then ([], [])
          else (sc_public_key r, sc_signature r))"

definition write_signature_record :: "pack_crypto \<Rightarrow> pack_key \<Rightarrow> string \<Rightarrow> string \<Rightarrow> (pack_store, unit) op" where
  "write_signature_record c k public_key signature =
     (if public_key = [] \<or> signature = [] then op_raise MetadataPackSignatureError
      else if \<not> verify_metadata_pack_signature c (fst k) public_key signature (snd k) then op_raise MetadataPackSignatureError
      else let written = op_modify (\<lambda>s. s\<lparr>ps_sidecars := (ps_sidecars s)(k \<mapsto>
             \<lparr>sc_owner_id = fst k, sc_pack_hash = snd k, sc_public_key = public_key, sc_signature = signature\<rparr>)\<rparr>) in
        op_bind next_io (\<lambda>r. case r of
            IO_ok \<Rightarrow> written
          | IO_fail (Suc _) \<Rightarrow> op_bind written (\<lambda>_. op_raise StopanStorageOSError)
          | _ \<Rightarrow> op_raise StopanStorageOSError))"

section \<open>Records (store.py)\<close>

record pack_record =
  pr_owner_id :: string
  pr_pack_hash :: string
  pr_size_bytes :: int
  pr_stored_at :: real
  pr_public_key :: string
  pr_signature_b64 :: string

definition record_signed :: "pack_record \<Rightarrow> bool" where
  "record_signed r \<longleftrightarrow> pr_public_key r \<noteq> [] \<and> pr_signature_b64 r \<noteq> []"

text \<open>A file whose content does not have its hash, or that cannot be read, gives no record.\<close>

definition record_from_path :: "pack_crypto \<Rightarrow> pack_store \<Rightarrow> pack_key \<times> pack_file \<Rightarrow> pack_record option" where
  "record_from_path c s e =
     (case e of (k, f) \<Rightarrow>
        if \<not> pf_readable f then None
        else if pc_blake3_hex c (pf_data f) \<noteq> snd k then None
        else Some \<lparr>pr_owner_id = fst k, pr_pack_hash = snd k, pr_size_bytes = int (length (pf_data f)), pr_stored_at = pf_mtime f,
               pr_public_key = fst (read_signature_record c k s), pr_signature_b64 = snd (read_signature_record c k s)\<rparr>)"

definition all_pack_records :: "pack_crypto \<Rightarrow> pack_store \<Rightarrow> pack_record list" where
  "all_pack_records c s = List.map_filter (record_from_path c s) (ps_packs s)"

definition pack_records_for_owner :: "pack_crypto \<Rightarrow> string \<Rightarrow> pack_store \<Rightarrow> pack_record list" where
  "pack_records_for_owner c owner s = List.map_filter (record_from_path c s) (filter (\<lambda>e. fst (fst e) = owner) (ps_packs s))"

definition record_key :: "pack_record \<Rightarrow> pack_key" where
  "record_key r = (pr_owner_id r, pr_pack_hash r)"

text \<open>The size of a removed file; \<open>0\<close> when another process removed it first. A signature record that
  cannot be removed stays.\<close>

definition delete_record :: "pack_record \<Rightarrow> (pack_store, int) op" where
  "delete_record r =
     op_bind next_io (\<lambda>x. case x of
         IO_fail _ \<Rightarrow> op_raise MetadataPackStoreError
       | IO_enoent \<Rightarrow> op_bind (op_modify (del_pack (record_key r))) (\<lambda>_. op_return 0)
       | IO_ok \<Rightarrow> op_bind (op_modify (del_pack (record_key r))) (\<lambda>_.
           op_bind next_io (\<lambda>y. op_bind (if y = IO_ok then op_modify (del_sidecar (record_key r)) else op_return ()) (\<lambda>_.
             op_return (pr_size_bytes r)))))"

text \<open>Whether an artifact was removed, and whether removing it failed.\<close>

definition remove_artifact :: "(pack_store \<Rightarrow> bool) \<Rightarrow> (pack_store \<Rightarrow> pack_store) \<Rightarrow> (pack_store, bool \<times> bool) op" where
  "remove_artifact present f = op_read (\<lambda>s.
     if \<not> present s then op_return (False, False)
     else op_bind next_io (\<lambda>r. if r = IO_ok then op_bind (op_modify f) (\<lambda>_. op_return (True, False)) else op_return (False, True)))"

definition has_pack :: "pack_key \<Rightarrow> pack_store \<Rightarrow> bool" where
  "has_pack k s \<longleftrightarrow> k \<in> fst ` set (ps_packs s)"

definition rollback_new_publication :: "pack_key \<Rightarrow> (pack_store, unit) op" where
  "rollback_new_publication k =
     op_bind (remove_artifact (\<lambda>s. ps_sidecars s k \<noteq> None) (del_sidecar k)) (\<lambda>(r1, e1).
     op_bind (remove_artifact (has_pack k) (del_pack k)) (\<lambda>(r2, e2).
     op_bind (if r1 \<or> r2 then op_bind next_io (\<lambda>x. op_return (x \<noteq> IO_ok)) else op_return False) (\<lambda>e3.
       if e1 \<or> e2 \<or> e3 then op_raise MetadataPackStoreError else op_return ())))"

section \<open>Pruning\<close>

definition oldest_first :: "pack_record list \<Rightarrow> pack_record list" where
  "oldest_first rs = sort_key (\<lambda>r. (pr_stored_at r, pr_pack_hash r)) rs"

fun prune_loop :: "bool \<Rightarrow> pack_record list \<Rightarrow> int \<Rightarrow> int \<Rightarrow> int \<Rightarrow> int \<Rightarrow> (pack_store, (int \<times> int) \<times> (int \<times> int)) op" where
  "prune_loop dry [] n b rb rc = op_return ((n, b), (rb, rc))"
| "prune_loop dry (r # rs) n b rb rc = (\<lambda>s.
     if rb \<le> 0 \<and> rc \<le> 0 then (Inr ((n, b), (rb, rc)), s)
     else if dry then prune_loop dry rs (n + 1) (b + pr_size_bytes r) (max 0 (rb - pr_size_bytes r)) (max 0 (rc - 1)) s
     else (case delete_record r s of
         (Inl _, t) \<Rightarrow> prune_loop dry rs n b rb rc t
       | (Inr d, t) \<Rightarrow>
           if d \<le> 0 then prune_loop dry rs n b rb rc t
           else prune_loop dry rs (n + 1) (b + d) (max 0 (rb - d)) (max 0 (rc - 1)) t))"

definition prune_records :: "bool \<Rightarrow> pack_record list \<Rightarrow> int \<Rightarrow> int \<Rightarrow> string \<Rightarrow> (pack_store, int \<times> int) op" where
  "prune_records dry candidates bytes_needed count_needed protected =
     op_bind (prune_loop dry (oldest_first (filter (\<lambda>r. pr_pack_hash r \<noteq> protected) candidates)) 0 0
                (max 0 bytes_needed) (max 0 count_needed)) (\<lambda>((n, b), (rb, rc)).
       if 0 < rb \<or> 0 < rc then op_raise MetadataPackQuotaError else op_return (n, b))"

fun expire_loop :: "bool \<Rightarrow> pack_record list \<Rightarrow> int \<Rightarrow> int \<Rightarrow> (pack_store, int \<times> int) op" where
  "expire_loop dry [] n b = op_return (n, b)"
| "expire_loop dry (r # rs) n b = (\<lambda>s.
     if dry then expire_loop dry rs (n + 1) (b + pr_size_bytes r) s
     else (case delete_record r s of
         (Inl _, t) \<Rightarrow> expire_loop dry rs n b t
       | (Inr d, t) \<Rightarrow> if d \<le> 0 then expire_loop dry rs n b t else expire_loop dry rs (n + 1) (b + d) t))"

definition prune_expired_records :: "bool \<Rightarrow> pack_record list \<Rightarrow> string \<Rightarrow> (pack_store, (int \<times> int) \<times> real option) op" where
  "prune_expired_records dry records protected = op_read (\<lambda>s.
     if ps_max_age_days s \<le> 0 then op_return ((0, 0), None)
     else op_bind time_now (\<lambda>now.
       let cutoff = now - of_int (ps_max_age_days s * 86400) in
       op_bind (expire_loop dry (oldest_first (filter (\<lambda>r. pr_pack_hash r \<noteq> protected \<and> pr_stored_at r < cutoff) records)) 0 0) (\<lambda>nb.
       op_return (nb, Some cutoff))))"

definition validate_incoming_quota_limits :: "int \<Rightarrow> pack_store \<Rightarrow> unit result" where
  "validate_incoming_quota_limits incoming s =
     (if ps_max_pack_bytes s < incoming then Inl MetadataPackStoreError
      else if ps_max_total_bytes_per_owner s < incoming then Inl MetadataPackQuotaError
      else if ps_max_total_store_bytes s < incoming then Inl MetadataPackQuotaError
      else Inr ())"

definition total_bytes :: "pack_record list \<Rightarrow> int" where
  "total_bytes rs = sum_list (map pr_size_bytes rs)"

text \<open>Prune \<open>candidates\<close> when a limit is exceeded, and report what was pruned.\<close>

definition prune_excess :: "bool \<Rightarrow> pack_record list \<Rightarrow> int \<Rightarrow> int \<Rightarrow> string \<Rightarrow> (pack_store, int \<times> int) op" where
  "prune_excess dry candidates bytes_excess count_excess protected =
     (if bytes_excess \<noteq> 0 \<or> count_excess \<noteq> 0 then prune_records dry candidates bytes_excess count_excess protected
      else op_return (0, 0))"

definition enforce_post_store_quotas :: "pack_crypto \<Rightarrow> pack_key \<Rightarrow> int \<Rightarrow> (pack_store, int \<times> int) op" where
  "enforce_post_store_quotas c k incoming =
     op_bind (op_read (\<lambda>s. op_lift (validate_incoming_quota_limits incoming s))) (\<lambda>_.
     op_bind (op_read (\<lambda>s. prune_expired_records False (all_pack_records c s) (snd k))) (\<lambda>((n1, b1), _).
     op_bind (op_read (\<lambda>s.
       let rs = filter (\<lambda>r. pr_pack_hash r \<noteq> snd k) (pack_records_for_owner c (fst k) s) in
       prune_excess False rs (max 0 (total_bytes rs + incoming - ps_max_total_bytes_per_owner s))
         (max 0 (int (length rs) + 1 - ps_max_packs_per_owner s)) (snd k))) (\<lambda>(n2, b2).
     op_bind (op_read (\<lambda>s.
       let rs = filter (\<lambda>r. pr_pack_hash r \<noteq> snd k) (all_pack_records c s) in
       prune_excess False rs (max 0 (total_bytes rs + incoming - ps_max_total_store_bytes s)) 0 (snd k))) (\<lambda>(n3, b3).
     op_return (n1 + n2 + n3, b1 + b2 + b3)))))"

record prune_result =
  pu_cutoff :: "real option"
  pu_packs_seen :: nat
  pu_owners_seen :: nat
  pu_expired_packs :: int
  pu_quota_packs :: int
  pu_pruned_packs :: int
  pu_pruned_bytes :: int

text \<open>The loop over owners. In a dry run the pruned records are taken out of the list of records;
  otherwise the list stays as it was read after the expired packs were removed.\<close>

fun prune_owners :: "bool \<Rightarrow> string list \<Rightarrow> pack_record list \<Rightarrow> int \<Rightarrow> int \<Rightarrow> (pack_store, pack_record list \<times> int \<times> int) op" where
  "prune_owners dry [] records n b = op_return (records, n, b)"
| "prune_owners dry (owner # owners) records n b = op_read (\<lambda>s.
     let own = filter (\<lambda>r. pr_owner_id r = owner) records in
     op_bind (prune_excess dry own (max 0 (total_bytes own - ps_max_total_bytes_per_owner s))
       (max 0 (int (length own) - ps_max_packs_per_owner s)) []) (\<lambda>(n1, b1).
     prune_owners dry owners
       (if dry then filter (\<lambda>r. record_key r \<notin> set (map record_key (take (nat n1) (oldest_first own)))) records else records)
       (n + n1) (b + b1)))"

definition prune_to_limits :: "pack_crypto \<Rightarrow> bool \<Rightarrow> (pack_store, prune_result) op" where
  "prune_to_limits c dry = op_read (\<lambda>s0.
     let initial = all_pack_records c s0 in
     op_bind (prune_expired_records dry initial []) (\<lambda>((n1, b1), cutoff).
     op_bind (op_read (\<lambda>s. op_return (
       if dry then (case cutoff of Some t \<Rightarrow> filter (\<lambda>r. t \<le> pr_stored_at r) initial | None \<Rightarrow> initial)
       else all_pack_records c s))) (\<lambda>after.
     op_bind (prune_owners dry (sort (remdups (map pr_owner_id after))) after 0 0) (\<lambda>(rest, n2, b2).
     op_bind (op_read (\<lambda>s. let rs = (if dry then rest else all_pack_records c s) in
       prune_excess dry rs (max 0 (total_bytes rs - ps_max_total_store_bytes s)) 0 [])) (\<lambda>(n3, b3).
     op_return \<lparr>pu_cutoff = cutoff, pu_packs_seen = length initial, pu_owners_seen = length (remdups (map pr_owner_id initial)),
       pu_expired_packs = n1, pu_quota_packs = n2 + n3, pu_pruned_packs = n1 + n2 + n3, pu_pruned_bytes = b1 + b2 + b3\<rparr>)))))"

section \<open>Publication and retrieval\<close>

record put_result =
  sr_size_bytes :: int
  sr_stored :: bool
  sr_already_present :: bool
  sr_public_key :: string
  sr_signature :: string
  sr_pruned_packs :: int
  sr_pruned_bytes :: int

definition write_pack :: "pack_key \<Rightarrow> bytes \<Rightarrow> (pack_store, unit) op" where
  "write_pack k data =
     op_bind time_now (\<lambda>t. op_bind next_io (\<lambda>r. case r of
         IO_ok \<Rightarrow> op_modify (add_pack k data t)
       | IO_fail (Suc _) \<Rightarrow> op_bind (op_modify (add_pack k data t)) (\<lambda>_. op_raise StopanStorageOSError)
       | _ \<Rightarrow> op_raise StopanStorageOSError))"

definition with_rollback :: "pack_key \<Rightarrow> (pack_store, 'a) op \<Rightarrow> (pack_store, 'a) op" where
  "with_rollback k m s =
     (case m s of
        (Inr x, t) \<Rightarrow> (Inr x, t)
      | (Inl e, t) \<Rightarrow> (case rollback_new_publication k t of (Inl _, u) \<Rightarrow> (Inl MetadataPackStoreError, u) | (Inr _, u) \<Rightarrow> (Inl e, u)))"

text \<open>The locked part, the same in \<open>put_pack_bytes\<close> and \<open>put_pack_file\<close>.\<close>

definition accept_pack :: "pack_crypto \<Rightarrow> pack_key \<Rightarrow> bytes \<Rightarrow> string \<Rightarrow> string \<Rightarrow> (pack_store, put_result) op" where
  "accept_pack c k data public_key signature = op_read (\<lambda>s.
     case map_of (ps_packs s) k of
       Some f \<Rightarrow>
         if \<not> pf_readable f then op_raise MetadataPackStoreError
         else if pc_blake3_hex c (pf_data f) \<noteq> snd k then op_raise MetadataPackCorruptionError
         else op_bind (write_signature_record c k public_key signature) (\<lambda>_. op_read (\<lambda>t.
           op_return \<lparr>sr_size_bytes = int (length (pf_data f)), sr_stored = False, sr_already_present = True,
             sr_public_key = fst (read_signature_record c k t), sr_signature = snd (read_signature_record c k t),
             sr_pruned_packs = 0, sr_pruned_bytes = 0\<rparr>))
     | None \<Rightarrow>
         op_bind (op_lift (validate_incoming_quota_limits (int (length data)) s)) (\<lambda>_.
         op_bind next_io (\<lambda>dir. if dir \<noteq> IO_ok then op_raise StopanStorageOSError else
         op_bind (with_rollback k (op_bind (write_pack k data) (\<lambda>_. write_signature_record c k public_key signature))) (\<lambda>_.
         op_bind (with_rollback k (enforce_post_store_quotas c k (int (length data)))) (\<lambda>(n, b).
         op_return \<lparr>sr_size_bytes = int (length data), sr_stored = True, sr_already_present = False,
           sr_public_key = public_key, sr_signature = signature, sr_pruned_packs = n, sr_pruned_bytes = b\<rparr>)))))"

definition put_pack_bytes :: "pack_crypto \<Rightarrow> string \<Rightarrow> string \<Rightarrow> bytes \<Rightarrow> string \<Rightarrow> string \<Rightarrow> (pack_store, put_result) op" where
  "put_pack_bytes c owner_id pack_hash data public_key signature =
     op_bind (op_lift (validate_owner_id owner_id)) (\<lambda>owner.
     op_bind (op_lift (validate_pack_hash pack_hash)) (\<lambda>pack. op_read (\<lambda>s.
       if data = [] then op_raise MetadataPackStoreError
       else if ps_max_pack_bytes s < int (length data) then op_raise MetadataPackStoreError
       else if pc_blake3_hex c data \<noteq> pack then op_raise MetadataPackStoreError
       else if public_key = [] \<or> signature = [] then op_raise MetadataPackSignatureError
       else if \<not> verify_metadata_pack_signature c owner public_key signature pack then op_raise MetadataPackSignatureError
       else accept_pack c (owner, pack) data public_key signature)))"

text \<open>The source file of \<open>put_pack_file\<close>: \<open>None\<close> when it cannot be inspected or read or is not a
  regular file.\<close>

definition put_pack_file ::
    "pack_crypto \<Rightarrow> string \<Rightarrow> bytes option \<Rightarrow> string option \<Rightarrow> int option \<Rightarrow> string \<Rightarrow> string \<Rightarrow> (pack_store, put_result) op" where
  "put_pack_file c owner_id source expected_pack_hash expected_size public_key signature =
     op_bind (op_lift (validate_owner_id owner_id)) (\<lambda>owner.
       case source of
         None \<Rightarrow> op_raise MetadataPackStoreError
       | Some data \<Rightarrow> op_read (\<lambda>s.
           if data = [] then op_raise MetadataPackStoreError
           else if ps_max_pack_bytes s < int (length data) then op_raise MetadataPackStoreError
           else if expected_size \<noteq> None \<and> expected_size \<noteq> Some (int (length data)) then op_raise MetadataPackStoreError
           else let pack = pc_blake3_hex c data in
             op_bind (case expected_pack_hash of
                 None \<Rightarrow> op_return ()
               | Some h \<Rightarrow> op_bind (op_lift (validate_pack_hash h)) (\<lambda>expected.
                   if expected \<noteq> pack then op_raise MetadataPackStoreError else op_return ())) (\<lambda>_.
             if public_key = [] \<or> signature = [] then op_raise MetadataPackSignatureError
             else if \<not> verify_metadata_pack_signature c owner public_key signature pack then op_raise MetadataPackSignatureError
             else accept_pack c (owner, pack) data public_key signature)))"

definition get_pack_bytes :: "pack_crypto \<Rightarrow> string \<Rightarrow> string \<Rightarrow> pack_store \<Rightarrow> bytes result" where
  "get_pack_bytes c owner_id pack_hash s =
     bindE (validate_owner_id owner_id) (\<lambda>owner. bindE (validate_pack_hash pack_hash) (\<lambda>pack.
       case map_of (ps_packs s) (owner, pack) of
         None \<Rightarrow> Inl MetadataPackStoreError
       | Some f \<Rightarrow> if \<not> pf_readable f then Inl MetadataPackStoreError
           else if pc_blake3_hex c (pf_data f) \<noteq> pack then Inl MetadataPackCorruptionError
           else Inr (pf_data f)))"

definition list_packs :: "pack_crypto \<Rightarrow> string \<Rightarrow> pack_store \<Rightarrow> pack_record list result" where
  "list_packs c owner_id s = bindE (validate_owner_id owner_id) (\<lambda>owner. Inr (pack_records_for_owner c owner s))"

section \<open>The service (metadata_pack_rpc.py)\<close>

datatype store_status = STORED | ALREADY_PRESENT | REJECTED_INVALID_ARGUMENT | REJECTED_TOO_LARGE
  | REJECTED_HASH_MISMATCH | REJECTED_SIGNATURE | REJECTED_QUOTA | STORE_ERROR

record store_header =
  sh_cluster_token :: string
  sh_owner_id :: string
  sh_pack_hash :: string
  sh_size_bytes :: int
  sh_public_key :: string
  sh_signature :: string

datatype stream_part = Part_header store_header | Part_chunk bytes | Part_unset

definition check_token :: "string \<Rightarrow> string \<Rightarrow> bool" where
  "check_token expected received = (if py_strip expected = [] then False else received = expected)"

fun receive_blocks :: "int \<Rightarrow> int \<Rightarrow> bytes \<Rightarrow> stream_part list \<Rightarrow> store_status + bytes" where
  "receive_blocks announced limit acc [] = Inr acc"
| "receive_blocks announced limit acc (Part_chunk block # parts) =
     (if block = [] then receive_blocks announced limit acc parts
      else let acc' = acc @ block in
        if announced < int (length acc') \<or> limit < int (length acc') then Inl REJECTED_TOO_LARGE
        else receive_blocks announced limit acc' parts)"
| "receive_blocks announced limit acc (_ # parts) = Inl REJECTED_INVALID_ARGUMENT"

definition status_of_exn :: "exn \<Rightarrow> store_status" where
  "status_of_exn e =
     (if e = TypeError \<or> is_ValueError e then REJECTED_INVALID_ARGUMENT
      else if e = MetadataPackSignatureError then REJECTED_SIGNATURE
      else if e = MetadataPackQuotaError then REJECTED_QUOTA
      else if e = MetadataPackCorruptionError then REJECTED_HASH_MISMATCH
      else STORE_ERROR)"

text \<open>The body after admission, with exceptions: the received bytes go through a temporary file.\<close>

definition store_stream :: "pack_crypto \<Rightarrow> store_header \<Rightarrow> stream_part list \<Rightarrow> (pack_store, store_status) op" where
  "store_stream c h parts =
     op_bind (op_lift (validate_owner_id (sh_owner_id h))) (\<lambda>owner.
     op_bind (op_lift (validate_pack_hash (sh_pack_hash h))) (\<lambda>pack. op_read (\<lambda>s.
       if sh_size_bytes h \<le> 0 then op_return REJECTED_INVALID_ARGUMENT
       else if ps_max_pack_bytes s < sh_size_bytes h then op_return REJECTED_TOO_LARGE
       else if sh_public_key h = [] \<or> sh_signature h = [] then op_return REJECTED_SIGNATURE
       else if \<not> verify_metadata_pack_signature c owner (sh_public_key h) (sh_signature h) pack then op_return REJECTED_SIGNATURE
       else op_bind next_io (\<lambda>opened. if opened \<noteq> IO_ok then op_raise MetadataPackStoreError else
         (case receive_blocks (sh_size_bytes h) (ps_max_pack_bytes s) [] parts of
            Inl st \<Rightarrow> op_return st
          | Inr data \<Rightarrow>
              op_bind next_io (\<lambda>written. if written \<noteq> IO_ok then op_raise MetadataPackStoreError
              else if int (length data) \<noteq> sh_size_bytes h then op_return REJECTED_INVALID_ARGUMENT
              else if pc_blake3_hex c data \<noteq> pack then op_return REJECTED_HASH_MISMATCH
              else op_bind (put_pack_file c owner (Some data) (Some pack) (Some (sh_size_bytes h)) (sh_public_key h) (sh_signature h)) (\<lambda>r.
                op_return (if sr_already_present r then ALREADY_PRESENT else STORED))))))))"

definition StoreMetadataPack ::
    "pack_crypto \<Rightarrow> string \<Rightarrow> unit result \<Rightarrow> stream_part list \<Rightarrow> (pack_store, store_status) op" where
  "StoreMetadataPack c cluster_token admit parts =
     (case parts of
        Part_header h # rest \<Rightarrow>
          if \<not> check_token cluster_token (sh_cluster_token h) then op_return STORE_ERROR
          else op_bind (op_lift admit) (\<lambda>_. \<lambda>s.
            case store_stream c h rest s of (Inr st, t) \<Rightarrow> (Inr st, t) | (Inl e, t) \<Rightarrow> (Inr (status_of_exn e), t))
      | _ \<Rightarrow> op_return REJECTED_INVALID_ARGUMENT)"

definition ListMetadataPacks :: "pack_crypto \<Rightarrow> string \<Rightarrow> string \<Rightarrow> unit result \<Rightarrow> string \<Rightarrow> (pack_store, pack_record list) op" where
  "ListMetadataPacks c cluster_token received admit owner_id =
     (if \<not> check_token cluster_token received then op_return []
      else op_bind (op_lift admit) (\<lambda>_. op_read (\<lambda>s.
        case list_packs c owner_id s of Inl _ \<Rightarrow> op_return [] | Inr rs \<Rightarrow> op_return (filter record_signed rs))))"

definition metadata_pack_stream_chunk_bytes :: "int \<Rightarrow> int" where
  "metadata_pack_stream_chunk_bytes max_message_bytes =
     (let limit = max 1 max_message_bytes in
      if limit \<le> 2 * 1024 then max 1 (limit div 2) else min (1024 * 1024) (limit - 1024))"

function iter_file_chunks :: "nat \<Rightarrow> bytes \<Rightarrow> bytes list" where
  "iter_file_chunks n data = (if n = 0 \<or> data = [] then [] else take n data # iter_file_chunks n (drop n data))"
  by pat_completeness auto
termination
  by (relation "measure (\<lambda>(n, data). length data)") auto

declare iter_file_chunks.simps [simp del]

datatype retrieve_status = RETRIEVE_FOUND | RETRIEVE_NOT_FOUND | RETRIEVE_ERROR

record retrieve_answer =
  ra_status :: retrieve_status
  ra_public_key :: string
  ra_signature :: string
  ra_blocks :: "bytes list"

definition retrieve_failed :: "retrieve_status \<Rightarrow> retrieve_answer" where
  "retrieve_failed st = \<lparr>ra_status = st, ra_public_key = [], ra_signature = [], ra_blocks = []\<rparr>"

text \<open>An unexpected exception aborts the call; \<open>validate_owner_id\<close> raises one of these.\<close>

definition RetrieveMetadataPack ::
    "pack_crypto \<Rightarrow> int \<Rightarrow> string \<Rightarrow> string \<Rightarrow> unit result \<Rightarrow> string \<Rightarrow> string \<Rightarrow> (pack_store, retrieve_answer) op" where
  "RetrieveMetadataPack c max_message_bytes cluster_token received admit owner_id pack_hash =
     (if \<not> check_token cluster_token received then op_return (retrieve_failed RETRIEVE_ERROR)
      else op_bind (op_lift admit) (\<lambda>_. op_read (\<lambda>s.
        case bindE (validate_owner_id owner_id) (\<lambda>owner. bindE (validate_pack_hash pack_hash) (\<lambda>pack. Inr (owner, pack))) of
          Inl e \<Rightarrow> if e = TypeError \<or> is_ValueError e then op_return (retrieve_failed RETRIEVE_ERROR) else op_raise (Abort INTERNAL)
        | Inr k \<Rightarrow>
            (case map_of (ps_packs s) k of
               None \<Rightarrow> op_return (retrieve_failed RETRIEVE_NOT_FOUND)
             | Some f \<Rightarrow>
                 let (public_key, signature) = read_signature_record c k s in
                 if public_key = [] \<or> signature = [] then op_return (retrieve_failed RETRIEVE_ERROR)
                 else if \<not> pf_readable f then op_return (retrieve_failed RETRIEVE_NOT_FOUND)
                 else if pc_blake3_hex c (pf_data f) \<noteq> snd k then op_return (retrieve_failed RETRIEVE_ERROR)
                 else op_return \<lparr>ra_status = RETRIEVE_FOUND, ra_public_key = public_key, ra_signature = signature,
                        ra_blocks = iter_file_chunks (nat (metadata_pack_stream_chunk_bytes max_message_bytes)) (pf_data f)\<rparr>))))"

datatype probe_status = PROBE_PRESENT | PROBE_MISSING | PROBE_ERROR

definition ProbeMetadataPack ::
    "pack_crypto \<Rightarrow> string \<Rightarrow> string \<Rightarrow> unit result \<Rightarrow> string \<Rightarrow> string \<Rightarrow> (pack_store, probe_status) op" where
  "ProbeMetadataPack c cluster_token received admit owner_id pack_hash =
     (if \<not> check_token cluster_token received then op_return PROBE_ERROR
      else op_bind (op_lift admit) (\<lambda>_. op_read (\<lambda>s.
        case bindE (validate_owner_id owner_id) (\<lambda>owner. bindE (validate_pack_hash pack_hash) (\<lambda>pack. Inr (owner, pack))) of
          Inl _ \<Rightarrow> op_return PROBE_ERROR
        | Inr k \<Rightarrow>
            (case map_of (ps_packs s) k of
               None \<Rightarrow> op_return PROBE_MISSING
             | Some f \<Rightarrow>
                 if \<not> pf_readable f then op_return PROBE_MISSING
                 else if pc_blake3_hex c (pf_data f) \<noteq> snd k then op_return PROBE_ERROR
                 else if fst (read_signature_record c k s) = [] \<or> snd (read_signature_record c k s) = [] then op_return PROBE_ERROR
                 else op_return PROBE_PRESENT))))"

section \<open>What the operations change\<close>

text \<open>\<open>removes Q\<close>: pack files and signature records with keys in \<open>Q\<close> may disappear, nothing else changes.\<close>

definition same_limits :: "pack_store \<Rightarrow> pack_store \<Rightarrow> bool" where
  "same_limits s t \<longleftrightarrow> ps_max_pack_bytes t = ps_max_pack_bytes s \<and> ps_max_packs_per_owner t = ps_max_packs_per_owner s \<and>
     ps_max_total_bytes_per_owner t = ps_max_total_bytes_per_owner s \<and> ps_max_total_store_bytes t = ps_max_total_store_bytes s \<and>
     ps_max_age_days t = ps_max_age_days s"

definition removes :: "pack_key set \<Rightarrow> pack_store \<Rightarrow> pack_store \<Rightarrow> bool" where
  "removes Q s t \<longleftrightarrow> same_limits s t \<and>
     (\<exists>P. ps_packs t = filter P (ps_packs s) \<and> (\<forall>e. \<not> P e \<longrightarrow> fst e \<in> Q)) \<and>
     (\<forall>k. ps_sidecars t k = ps_sidecars s k \<or> (k \<in> Q \<and> ps_sidecars t k = None))"

lemma removes_refl: "removes Q s s"
  unfolding removes_def same_limits_def by (auto intro!: exI [of _ "\<lambda>_. True"])

lemma removes_trans: "removes Q s t \<Longrightarrow> removes Q t u \<Longrightarrow> removes Q s u"
  unfolding removes_def same_limits_def
  by (elim conjE exE, intro conjI) (auto intro!: exI [of _ "\<lambda>e. P e \<and> Pa e" for P Pa] simp: filter_filter, metis+)

interpretation rem: op_relation "removes Q" for Q
  by unfold_locales (fact removes_refl, erule (1) removes_trans)

lemma removes_calls: "removes Q s (s\<lparr>ps_calls := n\<rparr>)"
  unfolding removes_def same_limits_def by (auto intro!: exI [of _ "\<lambda>_. True"])

lemma rem_basic: "rem.stays Q next_io" "rem.stays Q time_now"
  by (rule rem.staysI; simp add: next_io_def time_now_def removes_calls)+

lemma rem_modify: "(\<And>s. removes Q s (f s)) \<Longrightarrow> rem.stays Q (op_modify f)"
  by (rule rem.staysI) (simp add: op_modify_def)

lemma removes_del_pack: "k \<in> Q \<Longrightarrow> removes Q s (del_pack k s)"
  unfolding removes_def same_limits_def del_pack_def by (auto intro!: exI [of _ "\<lambda>e. fst e \<noteq> k"])

lemma removes_del_sidecar: "k \<in> Q \<Longrightarrow> removes Q s (del_sidecar k s)"
  unfolding removes_def same_limits_def del_sidecar_def by (auto intro!: exI [of _ "\<lambda>_. True"])

lemma rem_delete_record: "record_key r \<in> Q \<Longrightarrow> rem.stays Q (delete_record r)"
  unfolding delete_record_def
  by (intro rem.stays_bind rem_basic)
    (auto split: io_outcome.split intro!: rem.stays_bind rem_basic rem_modify rem.stays_pure removes_del_pack removes_del_sidecar)

lemma rem_rollback: "k \<in> Q \<Longrightarrow> rem.stays Q (rollback_new_publication k)"
  unfolding rollback_new_publication_def remove_artifact_def
  by (auto intro!: rem.stays_intros rem_basic rem_modify removes_del_pack removes_del_sidecar split: prod.split)

lemma rem_prune_loop: "(\<And>r. r \<in> set rs \<Longrightarrow> record_key r \<in> Q) \<Longrightarrow> rem.stays Q (prune_loop dry rs n b rb rc)"
proof (induction rs arbitrary: n b rb rc)
  case (Cons r rs)
  have IH: "removes Q t (snd (prune_loop dry rs n b rb rc t))" for n b rb rc t
    by (rule rem.stays_state [OF Cons.IH]) (simp add: Cons.prems)
  have del: "removes Q s (snd (delete_record r s))" for s
    by (rule rem.stays_state [OF rem_delete_record]) (simp add: Cons.prems)
  show ?case
  proof (rule rem.staysI)
    fix s
    obtain x t where d: "delete_record r s = (x, t)" by fastforce
    then have "removes Q s t" using del [of s] by simp
    then show "removes Q s (snd (prune_loop dry (r # rs) n b rb rc s))"
      using IH by (cases x) (auto simp: d removes_refl intro: removes_trans)
  qed
qed (simp add: rem.stays_pure)

lemma rem_expire_loop: "(\<And>r. r \<in> set rs \<Longrightarrow> record_key r \<in> Q) \<Longrightarrow> rem.stays Q (expire_loop dry rs n b)"
proof (induction rs arbitrary: n b)
  case (Cons r rs)
  have IH: "removes Q t (snd (expire_loop dry rs n b t))" for n b t
    by (rule rem.stays_state [OF Cons.IH]) (simp add: Cons.prems)
  have del: "removes Q s (snd (delete_record r s))" for s
    by (rule rem.stays_state [OF rem_delete_record]) (simp add: Cons.prems)
  show ?case
  proof (rule rem.staysI)
    fix s
    obtain x t where d: "delete_record r s = (x, t)" by fastforce
    then have "removes Q s t" using del [of s] by simp
    then show "removes Q s (snd (expire_loop dry (r # rs) n b s))"
      using IH by (cases x) (auto simp: d intro: removes_trans)
  qed
qed (simp add: rem.stays_pure)

lemma set_oldest_first [simp]: "set (oldest_first rs) = set rs"
  by (simp add: oldest_first_def)

lemma rem_prune_records:
  "(\<And>r. r \<in> set rs \<Longrightarrow> pr_pack_hash r \<noteq> protected \<Longrightarrow> record_key r \<in> Q) \<Longrightarrow> rem.stays Q (prune_records dry rs bytes_needed count_needed protected)"
  unfolding prune_records_def
  by (intro rem.stays_bind rem_prune_loop) (auto intro!: rem.stays_pure split: prod.split)

lemma rem_prune_excess:
  "(\<And>r. r \<in> set rs \<Longrightarrow> pr_pack_hash r \<noteq> protected \<Longrightarrow> record_key r \<in> Q) \<Longrightarrow> rem.stays Q (prune_excess dry rs b n protected)"
  unfolding prune_excess_def by (intro rem.stays_if rem_prune_records rem.stays_pure)

lemma rem_prune_expired:
  "(\<And>r. r \<in> set rs \<Longrightarrow> pr_pack_hash r \<noteq> protected \<Longrightarrow> record_key r \<in> Q) \<Longrightarrow> rem.stays Q (prune_expired_records dry rs protected)"
  unfolding prune_expired_records_def Let_def
  by (intro rem.stays_read rem.stays_if rem.stays_bind rem_expire_loop rem_basic rem.stays_pure) auto

text \<open>Enforcing the quotas for an incoming pack touches no pack with its hash.\<close>

lemma rem_enforce: "rem.stays {q. snd q \<noteq> snd k} (enforce_post_store_quotas c k incoming)"
  unfolding enforce_post_store_quotas_def Let_def
  by (intro rem.stays_bind rem.stays_read rem.stays_pure rem_prune_expired rem_prune_excess; clarsimp simp: split_beta)
    (auto simp: record_key_def split: prod.split
      intro!: rem.stays_bind rem.stays_read rem_prune_excess rem.stays_pure)

section \<open>What a store holds\<close>

definition intact :: "pack_crypto \<Rightarrow> pack_key \<times> pack_file \<Rightarrow> bool" where
  "intact c e \<longleftrightarrow> pf_readable (snd e) \<and> pc_blake3_hex c (pf_data (snd e)) = snd (fst e)"

text \<open>The intact packs whose key satisfies \<open>Q\<close>, and their bytes.\<close>

definition held_packs :: "pack_crypto \<Rightarrow> (pack_key \<Rightarrow> bool) \<Rightarrow> pack_store \<Rightarrow> (pack_key \<times> pack_file) list" where
  "held_packs c Q s = filter (\<lambda>e. intact c e \<and> Q (fst e)) (ps_packs s)"

definition held_bytes :: "pack_crypto \<Rightarrow> (pack_key \<Rightarrow> bool) \<Rightarrow> pack_store \<Rightarrow> int" where
  "held_bytes c Q s = sum_list (map (\<lambda>e. int (length (pf_data (snd e)))) (held_packs c Q s))"

definition store_wf :: "pack_store \<Rightarrow> bool" where
  "store_wf s \<longleftrightarrow> distinct (map fst (ps_packs s))"

lemma record_from_path_intact:
  "record_from_path c s e = (if intact c e then Some \<lparr>pr_owner_id = fst (fst e), pr_pack_hash = snd (fst e),
     pr_size_bytes = int (length (pf_data (snd e))), pr_stored_at = pf_mtime (snd e),
     pr_public_key = fst (read_signature_record c (fst e) s), pr_signature_b64 = snd (read_signature_record c (fst e) s)\<rparr> else None)"
  by (simp add: record_from_path_def intact_def split: prod.split)

lemma map_filter_if: "List.map_filter (\<lambda>x. if P x then Some (f x) else None) xs = map f (filter P xs)"
  by (induction xs) (auto simp: List.map_filter_simps)

lemma records_held:
  "map record_key (filter (\<lambda>r. Q (record_key r)) (all_pack_records c s)) = map fst (held_packs c Q s)"
  "total_bytes (filter (\<lambda>r. Q (record_key r)) (all_pack_records c s)) = held_bytes c Q s"
  "length (filter (\<lambda>r. Q (record_key r)) (all_pack_records c s)) = length (held_packs c Q s)"
  unfolding all_pack_records_def record_from_path_intact map_filter_if held_bytes_def held_packs_def total_bytes_def
  by (simp_all add: filter_map o_def record_key_def filter_filter conj_commute)

lemma owner_records: "pack_records_for_owner c owner s = filter (\<lambda>r. fst (record_key r) = owner) (all_pack_records c s)"
  unfolding pack_records_for_owner_def all_pack_records_def record_from_path_intact map_filter_if
  by (simp add: filter_map o_def record_key_def filter_filter conj_commute)

lemma record_nonneg: "r \<in> set (all_pack_records c s) \<Longrightarrow> 0 \<le> pr_size_bytes r"
  unfolding all_pack_records_def record_from_path_intact map_filter_if by auto

lemma distinct_held: "store_wf s \<Longrightarrow> distinct (map fst (held_packs c Q s))"
  unfolding store_wf_def held_packs_def by (rule distinct_map_filter_sub)

text \<open>Of a list of records, those whose pack is still there.\<close>

definition left :: "pack_store \<Rightarrow> pack_record list \<Rightarrow> pack_record list" where
  "left t rs = filter (\<lambda>r. has_pack (record_key r) t) rs"

lemma removes_has_pack: "removes Q s t \<Longrightarrow> has_pack k t \<Longrightarrow> has_pack k s"
  unfolding removes_def has_pack_def by auto

lemma removes_wf: "removes Q s t \<Longrightarrow> store_wf s \<Longrightarrow> store_wf t"
  unfolding removes_def store_wf_def by (auto intro: distinct_map_filter_sub)

lemma removes_held:
  assumes "removes Q s t" "store_wf s"
  shows "held_packs c R t = filter (\<lambda>e. has_pack (fst e) t) (held_packs c R s)"
proof -
  obtain P where P: "ps_packs t = filter P (ps_packs s)" using assms(1) by (auto simp: removes_def)
  have inj: "inj_on fst (set (ps_packs s))" using assms(2) by (simp add: store_wf_def distinct_map)
  have "has_pack (fst e) t \<longleftrightarrow> P e" if "e \<in> set (ps_packs s)" for e
  proof
    assume "has_pack (fst e) t"
    then obtain d where "d \<in> set (ps_packs s)" "P d" "fst d = fst e" by (auto simp: has_pack_def P)
    then show "P e" using inj_onD [OF inj, of d e] that by simp
  qed (use that in \<open>auto simp: has_pack_def P\<close>)
  then have "filter P (ps_packs s) = filter (\<lambda>e. has_pack (fst e) t) (ps_packs s)" by (simp cong: filter_cong)
  then show ?thesis unfolding held_packs_def P by (simp add: filter_filter conj_ac)
qed

lemma sum_filter_le: "(\<And>x. x \<in> set xs \<Longrightarrow> 0 \<le> f x) \<Longrightarrow> sum_list (map f (filter P xs)) \<le> (sum_list (map f xs) :: int)"
  by (induction xs) (auto simp: add_increasing)

lemma removes_le:
  assumes "removes Q s t" "store_wf s"
  shows "held_bytes c R t \<le> held_bytes c R s" "length (held_packs c R t) \<le> length (held_packs c R s)"
  unfolding held_bytes_def removes_held [OF assms] by (auto intro: sum_filter_le)

lemma held_left:
  assumes "removes Q s t" "store_wf s"
  shows "total_bytes (left t (filter (\<lambda>r. R (record_key r)) (all_pack_records c s))) = held_bytes c R t"
    and "length (left t (filter (\<lambda>r. R (record_key r)) (all_pack_records c s))) = length (held_packs c R t)"
proof -
  have eq: "left t (filter (\<lambda>r. R (record_key r)) (all_pack_records c s)) =
      filter (\<lambda>r. R (record_key r) \<and> has_pack (record_key r) t) (all_pack_records c s)"
    by (simp add: left_def filter_filter conj_commute)
  have held: "held_packs c (\<lambda>k. R k \<and> has_pack k t) s = held_packs c R t"
    unfolding removes_held [OF assms] by (simp add: held_packs_def filter_filter conj_ac)
  show "total_bytes (left t (filter (\<lambda>r. R (record_key r)) (all_pack_records c s))) = held_bytes c R t"
    unfolding eq records_held(2) [where Q = "\<lambda>k. R k \<and> has_pack k t"] held_bytes_def held ..
  show "length (left t (filter (\<lambda>r. R (record_key r)) (all_pack_records c s))) = length (held_packs c R t)"
    unfolding eq records_held(3) [where Q = "\<lambda>k. R k \<and> has_pack k t"] held ..
qed

section \<open>Pruning reaches its goal\<close>

lemma delete_record_gone: "delete_record r s = (Inr d, t) \<Longrightarrow> \<not> has_pack (record_key r) t \<and> (d = 0 \<or> d = pr_size_bytes r)"
  by (auto simp: delete_record_def op_bind_def next_io_def op_modify_def op_return_def op_raise_def has_pack_def del_pack_def
      del_sidecar_def split: io_outcome.splits if_splits)

lemma prune_loop_progress:
  assumes "prune_loop False rs n b rb rc s = (Inr ((n', b'), (rb', rc')), t)" "\<And>r. r \<in> set rs \<Longrightarrow> 0 \<le> pr_size_bytes r"
    and "0 \<le> rb" "0 \<le> rc"
  shows "total_bytes (left t rs) \<le> total_bytes rs - (rb - rb') \<and> int (length (left t rs)) \<le> int (length rs) - (rc - rc')"
  using assms
proof (induction rs arbitrary: n b rb rc s)
  case (Cons r rs)
  have sz: "0 \<le> pr_size_bytes r" using Cons.prems(2) by simp
  have keep: "total_bytes (left t (r # rs)) \<le> pr_size_bytes r + total_bytes (left t rs)"
    "int (length (left t (r # rs))) \<le> 1 + int (length (left t rs))"
    using sz by (auto simp: left_def total_bytes_def)
  have cons: "total_bytes (r # rs) = pr_size_bytes r + total_bytes rs" by (simp add: total_bytes_def)
  have all: "total_bytes (left t (r # rs)) \<le> total_bytes (r # rs)" "length (left t (r # rs)) \<le> length (r # rs)"
    unfolding total_bytes_def left_def using Cons.prems(2) sum_filter_le [of "r # rs" pr_size_bytes] length_filter_le by blast+
  obtain x u where d: "delete_record r s = (x, u)" by fastforce
  show ?case
  proof (cases "rb \<le> 0 \<and> rc \<le> 0")
    case True
    then show ?thesis using Cons.prems all by (simp add: True)
  next
    case False
    show ?thesis
    proof (cases "\<exists>d. x = Inr d \<and> 0 < d")
      case True
      then obtain d' where x: "x = Inr d'" "0 < d'" by blast
      have gone: "\<not> has_pack (record_key r) u" "d' = pr_size_bytes r" using delete_record_gone d x by auto
      have run: "prune_loop False rs (n + 1) (b + d') (max 0 (rb - d')) (max 0 (rc - 1)) u = (Inr ((n', b'), (rb', rc')), t)"
        using Cons.prems(1) False d x by simp
      have "rem.stays UNIV (prune_loop False rs (n + 1) (b + d') (max 0 (rb - d')) (max 0 (rc - 1)))" by (rule rem_prune_loop) simp
      from rem.stays_state [OF this, of u] have "removes UNIV u t" by (simp add: run)
      then have "\<not> has_pack (record_key r) t" using gone(1) removes_has_pack by blast
      then have "left t (r # rs) = left t rs" by (simp add: left_def)
      then show ?thesis using Cons.IH [OF run] Cons.prems(2) gone(2) cons by auto
    next
      case stuck: False
      have run: "prune_loop False rs n b rb rc u = (Inr ((n', b'), (rb', rc')), t)"
        using Cons.prems(1) False d stuck by (cases x) (auto split: if_splits)
      show ?thesis using Cons.IH [OF run] Cons.prems(2-4) keep cons by auto
    qed
  qed
qed (simp add: op_return_def left_def total_bytes_def)

lemma total_oldest: "total_bytes (oldest_first rs) = total_bytes rs" "length (oldest_first rs) = length rs"
proof -
  have "mset (map pr_size_bytes (oldest_first rs)) = mset (map pr_size_bytes rs)" by (simp add: oldest_first_def)
  then show "total_bytes (oldest_first rs) = total_bytes rs" unfolding total_bytes_def by (metis sum_mset_sum_list)
qed (simp add: oldest_first_def)

lemma left_oldest: "total_bytes (left t (oldest_first rs)) = total_bytes (left t rs)" "length (left t (oldest_first rs)) = length (left t rs)"
proof -
  have "mset (left t (oldest_first rs)) = mset (left t rs)" by (simp add: left_def oldest_first_def mset_filter)
  then show "total_bytes (left t (oldest_first rs)) = total_bytes (left t rs)" "length (left t (oldest_first rs)) = length (left t rs)"
    unfolding total_bytes_def by (metis mset_map sum_mset_sum_list) (metis \<open>mset (left t (oldest_first rs)) = mset (left t rs)\<close> size_mset)
qed

lemma prune_excess_progress:
  assumes "prune_excess False rs bx cx protected s = (Inr x, t)" "\<And>r. r \<in> set rs \<Longrightarrow> 0 \<le> pr_size_bytes r \<and> pr_pack_hash r \<noteq> protected"
    and "0 \<le> bx" "0 \<le> cx"
  shows "total_bytes (left t rs) \<le> total_bytes rs - bx \<and> int (length (left t rs)) \<le> int (length rs) - cx"
proof (cases "bx \<noteq> 0 \<or> cx \<noteq> 0")
  case True
  have all: "filter (\<lambda>r. pr_pack_hash r \<noteq> protected) rs = rs" using assms(2) by (simp add: filter_id_conv)
  obtain n b rb rc u where run: "prune_loop False (oldest_first rs) 0 0 (max 0 bx) (max 0 cx) s = (Inr ((n, b), (rb, rc)), u)"
      "\<not> (0 < rb \<or> 0 < rc)" "t = u"
    using assms(1) True unfolding prune_excess_def prune_records_def all
    by (auto simp: op_bind_def op_raise_def op_return_def split: prod.splits sum.splits if_splits)
  show ?thesis using prune_loop_progress [OF run(1)] assms(2-4) run(2,3) by (simp add: total_oldest left_oldest)
next
  case False
  then show ?thesis using assms(2) sum_filter_le [of rs pr_size_bytes]
    by (auto simp: total_bytes_def left_def)
qed

section \<open>Publication\<close>

lemma add_pack_packs:
  assumes "store_wf s"
  shows "store_wf (add_pack k data t s)"
    and "map_of (ps_packs (add_pack k data t s)) k = Some \<lparr>pf_data = data, pf_mtime = t, pf_readable = True\<rparr>"
proof -
  let ?e = "(k, \<lparr>pf_data = data, pf_mtime = t, pf_readable = True\<rparr>)"
  let ?rest = "filter (\<lambda>e. fst e \<noteq> k) (ps_packs s)"
  have d: "distinct (map fst (?e # ?rest))" using assms distinct_map_filter_sub [of fst "ps_packs s"] by (auto simp: store_wf_def)
  have m: "mset (insort_key fst ?e ?rest) = mset (?e # ?rest)" by simp
  have "mset (map fst (insort_key fst ?e ?rest)) = mset (map fst (?e # ?rest))" unfolding mset_map m ..
  then have "distinct (map fst (insort_key fst ?e ?rest))" using d mset_eq_imp_distinct_iff by blast
  then show wf: "store_wf (add_pack k data t s)" by (simp add: store_wf_def add_pack_def)
  have "?e \<in> set (ps_packs (add_pack k data t s))" by (simp add: add_pack_def set_insort_key)
  then show "map_of (ps_packs (add_pack k data t s)) k = Some \<lparr>pf_data = data, pf_mtime = t, pf_readable = True\<rparr>"
    using wf by (simp add: store_wf_def)
qed

lemma removes_map_of:
  assumes "removes Q s t" "store_wf s" "k \<notin> Q"
  shows "map_of (ps_packs t) k = map_of (ps_packs s) k" "ps_sidecars t k = ps_sidecars s k"
proof -
  obtain P where P: "ps_packs t = filter P (ps_packs s)" "\<And>e. \<not> P e \<Longrightarrow> fst e \<in> Q"
    using assms(1) unfolding removes_def by blast
  have "map_of (filter P xs) k = map_of xs k" if "distinct (map fst xs)" for xs
    using that P(2) assms(3) by (induction xs) auto
  then show "map_of (ps_packs t) k = map_of (ps_packs s) k" using assms(2) by (simp add: P(1) store_wf_def)
  show "ps_sidecars t k = ps_sidecars s k" using assms(1,3) unfolding removes_def by metis
qed

lemma write_signature_ok:
  assumes "write_signature_record c k public_key signature s = (Inr u, t)"
  shows "verify_metadata_pack_signature c (fst k) public_key signature (snd k) \<and> public_key \<noteq> [] \<and> signature \<noteq> [] \<and>
    ps_packs t = ps_packs s \<and> same_limits s t \<and> ps_sidecars t = (ps_sidecars s)(k \<mapsto>
      \<lparr>sc_owner_id = fst k, sc_pack_hash = snd k, sc_public_key = public_key, sc_signature = signature\<rparr>)"
  using assms
  by (auto simp: write_signature_record_def Let_def op_bind_def next_io_def op_modify_def op_raise_def same_limits_def
      split: if_splits io_outcome.splits nat.splits)

lemma write_pack_ok:
  assumes "write_pack k data s = (Inr u, t)"
  shows "\<exists>n time. t = add_pack k data time (s\<lparr>ps_calls := n\<rparr>)"
  using assms
  by (auto simp: write_pack_def op_bind_def time_now_def next_io_def op_modify_def op_raise_def add_pack_def
      split: io_outcome.splits nat.splits)

lemma publish_ok:
  assumes "op_bind (write_pack k data) (\<lambda>_. write_signature_record c k public_key signature) s = (Inr u, t)" "store_wf s"
  shows "store_wf t \<and> same_limits s t \<and> (\<exists>time. map_of (ps_packs t) k = Some \<lparr>pf_data = data, pf_mtime = time, pf_readable = True\<rparr>) \<and>
    verify_metadata_pack_signature c (fst k) public_key signature (snd k) \<and> public_key \<noteq> [] \<and> signature \<noteq> [] \<and>
    ps_sidecars t k = Some \<lparr>sc_owner_id = fst k, sc_pack_hash = snd k, sc_public_key = public_key, sc_signature = signature\<rparr>"
proof -
  obtain x m where m: "write_pack k data s = (Inr x, m)" "write_signature_record c k public_key signature m = (Inr u, t)"
    using assms(1) by (auto simp: op_bind_def split: prod.splits sum.splits)
  obtain n time where mm: "m = add_pack k data time (s\<lparr>ps_calls := n\<rparr>)" using write_pack_ok [OF m(1)] by blast
  have wf: "store_wf (s\<lparr>ps_calls := n\<rparr>)" using assms(2) by (simp add: store_wf_def)
  have "same_limits s m" by (simp add: mm same_limits_def add_pack_def)
  then show ?thesis
    using write_signature_ok [OF m(2)] add_pack_packs [OF wf, of k data time] mm
    by (auto simp: store_wf_def same_limits_def)
qed

lemma held_with_one:
  assumes "store_wf s" "map_of (ps_packs s) k = Some f"
  shows "held_bytes c Q s \<le> held_bytes c (\<lambda>q. Q q \<and> q \<noteq> k) s + int (length (pf_data f))"
    and "length (held_packs c Q s) \<le> length (held_packs c (\<lambda>q. Q q \<and> q \<noteq> k) s) + 1"
proof -
  have "sum_list (map (\<lambda>e. int (length (pf_data (snd e)))) (filter (\<lambda>e. intact c e \<and> Q (fst e)) xs))
      \<le> sum_list (map (\<lambda>e. int (length (pf_data (snd e)))) (filter (\<lambda>e. intact c e \<and> Q (fst e) \<and> fst e \<noteq> k) xs))
        + (case map_of xs k of None \<Rightarrow> 0 | Some f \<Rightarrow> int (length (pf_data f)))
    \<and> length (filter (\<lambda>e. intact c e \<and> Q (fst e)) xs) \<le> length (filter (\<lambda>e. intact c e \<and> Q (fst e) \<and> fst e \<noteq> k) xs)
        + (case map_of xs k of None \<Rightarrow> 0 | Some f \<Rightarrow> 1)" if "distinct (map fst xs)" for xs
    using that
  proof (induction xs)
    case (Cons x xs)
    show ?case
    proof (cases "fst x = k")
      case True
      then have "map_of xs k = None" using Cons.prems by (auto simp: map_of_eq_None_iff)
      then show ?thesis using Cons True by auto
    qed (use Cons in auto)
  qed simp
  from this [of "ps_packs s"] show "held_bytes c Q s \<le> held_bytes c (\<lambda>q. Q q \<and> q \<noteq> k) s + int (length (pf_data f))"
    "length (held_packs c Q s) \<le> length (held_packs c (\<lambda>q. Q q \<and> q \<noteq> k) s) + 1"
    using assms by (simp_all add: held_bytes_def held_packs_def store_wf_def)
qed

text \<open>What enforcing the quotas guarantees when it returns.\<close>

lemma enforce_quotas:
  assumes "enforce_post_store_quotas c k incoming s = (Inr x, t)" "store_wf s"
  shows "held_bytes c (\<lambda>q. fst q = fst k \<and> snd q \<noteq> snd k) t + incoming \<le> ps_max_total_bytes_per_owner s"
    and "int (length (held_packs c (\<lambda>q. fst q = fst k \<and> snd q \<noteq> snd k) t)) + 1 \<le> ps_max_packs_per_owner s"
    and "held_bytes c (\<lambda>q. snd q \<noteq> snd k) t + incoming \<le> ps_max_total_store_bytes s"
proof -
  let ?own = "\<lambda>u. filter (\<lambda>r. pr_pack_hash r \<noteq> snd k) (pack_records_for_owner c (fst k) u)"
  let ?all = "\<lambda>u. filter (\<lambda>r. pr_pack_hash r \<noteq> snd k) (all_pack_records c u)"
  obtain u1 y1 u2 y2 y3 where e: "prune_expired_records False (all_pack_records c s) (snd k) s = (Inr y1, u1)"
    and o: "prune_excess False (?own u1) (max 0 (total_bytes (?own u1) + incoming - ps_max_total_bytes_per_owner u1))
         (max 0 (int (length (?own u1)) + 1 - ps_max_packs_per_owner u1)) (snd k) u1 = (Inr y2, u2)"
    and g: "prune_excess False (?all u2) (max 0 (total_bytes (?all u2) + incoming - ps_max_total_store_bytes u2)) 0 (snd k) u2 = (Inr y3, t)"
    using assms(1)
    by (auto simp: enforce_post_store_quotas_def op_bind_def op_read_def op_lift_def op_return_def Let_def split: prod.splits sum.splits)
  have r1: "removes UNIV s u1" using rem.stays_state [OF rem_prune_expired [of "all_pack_records c s" "snd k" UNIV], of s False] e by simp
  have r2: "removes UNIV u1 u2"
    using rem.stays_state [OF rem_prune_excess [of "?own u1" "snd k" UNIV], of u1] o by (metis UNIV_I snd_conv)
  have r3: "removes UNIV u2 t"
    using rem.stays_state [OF rem_prune_excess [of "?all u2" "snd k" UNIV], of u2] g by (metis UNIV_I snd_conv)
  note w1 = removes_wf [OF r1 assms(2)] and w2 = removes_wf [OF r2 removes_wf [OF r1 assms(2)]]
  have lim: "ps_max_total_bytes_per_owner u1 = ps_max_total_bytes_per_owner s" "ps_max_packs_per_owner u1 = ps_max_packs_per_owner s"
    "ps_max_total_store_bytes u2 = ps_max_total_store_bytes s"
    using r1 r2 by (simp_all add: removes_def same_limits_def)
  have own: "?own u1 = filter (\<lambda>r. (\<lambda>q. fst q = fst k \<and> snd q \<noteq> snd k) (record_key r)) (all_pack_records c u1)"
    unfolding owner_records by (simp add: filter_filter record_key_def conj_commute)
  have all: "?all u2 = filter (\<lambda>r. (\<lambda>q. snd q \<noteq> snd k) (record_key r)) (all_pack_records c u2)" by (simp add: record_key_def)
  have "total_bytes (left u2 (?own u1)) \<le> total_bytes (?own u1) - max 0 (total_bytes (?own u1) + incoming - ps_max_total_bytes_per_owner s)
      \<and> int (length (left u2 (?own u1))) \<le> int (length (?own u1)) - max 0 (int (length (?own u1)) + 1 - ps_max_packs_per_owner s)"
    using prune_excess_progress [OF o] record_nonneg unfolding owner_records lim by auto
  then have "total_bytes (left u2 (?own u1)) + incoming \<le> ps_max_total_bytes_per_owner s"
    "int (length (left u2 (?own u1))) + 1 \<le> ps_max_packs_per_owner s" by linarith+
  then have own2: "held_bytes c (\<lambda>q. fst q = fst k \<and> snd q \<noteq> snd k) u2 + incoming \<le> ps_max_total_bytes_per_owner s"
    "int (length (held_packs c (\<lambda>q. fst q = fst k \<and> snd q \<noteq> snd k) u2)) + 1 \<le> ps_max_packs_per_owner s"
    unfolding own held_left [OF r2 w1, where R = "\<lambda>q. fst q = fst k \<and> snd q \<noteq> snd k"] by blast+
  have "total_bytes (left t (?all u2)) \<le> total_bytes (?all u2) - max 0 (total_bytes (?all u2) + incoming - ps_max_total_store_bytes s)"
    using prune_excess_progress [OF g] record_nonneg unfolding lim by auto
  then have "total_bytes (left t (?all u2)) + incoming \<le> ps_max_total_store_bytes s" by linarith
  then show "held_bytes c (\<lambda>q. snd q \<noteq> snd k) t + incoming \<le> ps_max_total_store_bytes s"
    unfolding all held_left [OF r3 w2, where R = "\<lambda>q. snd q \<noteq> snd k"] .
  show "held_bytes c (\<lambda>q. fst q = fst k \<and> snd q \<noteq> snd k) t + incoming \<le> ps_max_total_bytes_per_owner s"
    using own2(1) removes_le(1) [OF r3 w2, of c "\<lambda>q. fst q = fst k \<and> snd q \<noteq> snd k"] by linarith
  show "int (length (held_packs c (\<lambda>q. fst q = fst k \<and> snd q \<noteq> snd k) t)) + 1 \<le> ps_max_packs_per_owner s"
    using own2(2) removes_le(2) [OF r3 w2, of c "\<lambda>q. fst q = fst k \<and> snd q \<noteq> snd k"] by linarith
qed

lemma with_rollback_ok: "with_rollback k m s = (Inr x, t) \<Longrightarrow> m s = (Inr x, t)"
  by (auto simp: with_rollback_def split: prod.splits sum.splits)

lemma same_limits_calls [simp]: "same_limits s (s\<lparr>ps_calls := n\<rparr>)" "store_wf (s\<lparr>ps_calls := n\<rparr>) = store_wf s"
  by (simp_all add: same_limits_def store_wf_def)

text \<open>What a node holds when it says that it has a pack: the intact file and a valid signature.\<close>

definition in_custody :: "pack_crypto \<Rightarrow> pack_key \<Rightarrow> pack_store \<Rightarrow> bool" where
  "in_custody c k s \<longleftrightarrow> (\<exists>f. map_of (ps_packs s) k = Some f \<and> pf_readable f \<and> pc_blake3_hex c (pf_data f) = snd k) \<and>
     (\<exists>p g. read_signature_record c k s = (p, g) \<and> p \<noteq> [] \<and> g \<noteq> [])"

lemma signature_read_written:
  assumes "ps_sidecars t k = Some \<lparr>sc_owner_id = fst k, sc_pack_hash = snd k, sc_public_key = p, sc_signature = g\<rparr>"
    and "verify_metadata_pack_signature c (fst k) p g (snd k)" "p \<noteq> []" "g \<noteq> []"
  shows "read_signature_record c k t = (p, g)"
  using assms by (simp add: read_signature_record_def)

lemma read_signature_verified:
  "read_signature_record c k s = (p, g) \<Longrightarrow> p \<noteq> [] \<Longrightarrow> verify_metadata_pack_signature c (fst k) p g (snd k)"
  by (auto simp: read_signature_record_def split: option.splits if_splits)

lemma accept_new:
  assumes "accept_pack c k data public_key signature s = (Inr r, t)" "store_wf s" "map_of (ps_packs s) k = None"
    and "pc_blake3_hex c data = snd k"
  shows "sr_stored r \<and> \<not> sr_already_present r \<and> store_wf t \<and> same_limits s t \<and> in_custody c k t \<and>
    (\<exists>time. map_of (ps_packs t) k = Some \<lparr>pf_data = data, pf_mtime = time, pf_readable = True\<rparr>) \<and>
    int (length (held_packs c (\<lambda>q. fst q = fst k) t)) \<le> ps_max_packs_per_owner s \<and>
    held_bytes c (\<lambda>q. fst q = fst k) t \<le> ps_max_total_bytes_per_owner s \<and>
    held_bytes c (\<lambda>q. snd q \<noteq> snd k) t + int (length data) \<le> ps_max_total_store_bytes s"
proof -
  define s1 where "s1 = s\<lparr>ps_calls := Suc (ps_calls s)\<rparr>"
  obtain u y x where pub: "with_rollback k (op_bind (write_pack k data) (\<lambda>_. write_signature_record c k public_key signature)) s1 = (Inr y, u)"
    and enf: "with_rollback k (enforce_post_store_quotas c k (int (length data))) u = (Inr x, t)"
    and r: "sr_stored r" "\<not> sr_already_present r"
    using assms(1,3)
    by (auto simp: accept_pack_def op_read_def op_lift_def op_return_def op_raise_def next_io_def op_bind_def [of "op_lift r" for r]
        op_bind_def [of next_io] op_bind_def [of "with_rollback k m" for m] s1_def split: prod.splits sum.splits if_splits)
  have wf1: "store_wf s1" and lim1: "same_limits s s1" using assms(2) by (simp_all add: s1_def)
  note u = publish_ok [OF with_rollback_ok [OF pub] wf1]
  have wfu: "store_wf u" using u by simp
  note enf' = with_rollback_ok [OF enf]
  have "removes {q. snd q \<noteq> snd k} u (snd (enforce_post_store_quotas c k (int (length data)) u))"
    by (rule rem.stays_state [OF rem_enforce])
  then have rm: "removes {q. snd q \<noteq> snd k} u t" by (simp add: enf')
  have wft: "store_wf t" using removes_wf [OF rm wfu] .
  have lim: "same_limits s t" using lim1 u rm by (auto simp: removes_def same_limits_def)
  have limu: "ps_max_packs_per_owner u = ps_max_packs_per_owner s" "ps_max_total_bytes_per_owner u = ps_max_total_bytes_per_owner s"
    "ps_max_total_store_bytes u = ps_max_total_store_bytes s"
    using u by (auto simp: same_limits_def s1_def)
  have k: "map_of (ps_packs t) k = map_of (ps_packs u) k" "ps_sidecars t k = ps_sidecars u k"
    using removes_map_of [OF rm wfu, of k] by simp_all
  obtain time where f: "map_of (ps_packs t) k = Some \<lparr>pf_data = data, pf_mtime = time, pf_readable = True\<rparr>" using u k by auto
  have "read_signature_record c k t = (public_key, signature)" by (rule signature_read_written) (use u k in auto)
  then have cust: "in_custody c k t" using f assms(4) u by (simp add: in_custody_def)
  have q: "(\<lambda>q. fst q = fst k \<and> q \<noteq> k) = (\<lambda>q. fst q = fst k \<and> snd q \<noteq> snd k)" by (auto simp: fun_eq_iff prod_eq_iff)
  note one = held_with_one [OF wft f, of c "\<lambda>q. fst q = fst k", unfolded q]
  show ?thesis using enforce_quotas [OF enf' wfu] one r wft lim cust f unfolding limu by auto
qed

lemma accept_present:
  assumes "accept_pack c k data public_key signature s = (Inr r, t)" "store_wf s" "map_of (ps_packs s) k = Some f"
  shows "sr_already_present r \<and> \<not> sr_stored r \<and> in_custody c k t \<and> ps_packs t = ps_packs s \<and> same_limits s t"
proof -
  obtain y where f: "pf_readable f" "pc_blake3_hex c (pf_data f) = snd k"
    and w: "write_signature_record c k public_key signature s = (Inr y, t)" and r: "sr_already_present r" "\<not> sr_stored r"
    using assms(1,3)
    by (auto simp: accept_pack_def op_read_def op_return_def op_raise_def op_bind_def split: prod.splits sum.splits if_splits)
  note wk = write_signature_ok [OF w]
  have "read_signature_record c k t = (public_key, signature)" by (rule signature_read_written) (use wk in auto)
  then show ?thesis using r wk f assms(3) by (auto simp: in_custody_def)
qed

text \<open>A pack that is not accepted is not kept: when the publication fails with the error of the
  publication or of the quotas (and not of its reversal), the new pack is gone.\<close>

lemma remove_artifact_run:
  assumes "remove_artifact present f s = (x, t)"
  shows "\<exists>a b. x = Inr (a, b) \<and> (\<not> b \<longrightarrow> (present s \<longrightarrow> (\<exists>n. t = f (s\<lparr>ps_calls := n\<rparr>))) \<and> (\<not> present s \<longrightarrow> t = s)) \<and> (b \<longrightarrow> (\<exists>n. t = s\<lparr>ps_calls := n\<rparr>))"
  using assms
  by (auto simp: remove_artifact_def op_read_def op_return_def op_bind_def next_io_def op_modify_def split: if_splits)

lemma rollback_gone:
  assumes "rollback_new_publication k s = (Inr u, t)"
  shows "\<not> has_pack k t"
proof -
  obtain x1 s1 where a: "remove_artifact (\<lambda>s. ps_sidecars s k \<noteq> None) (del_sidecar k) s = (x1, s1)" by fastforce
  obtain r1 e1 where x1: "x1 = Inr (r1, e1)" using remove_artifact_run [OF a] by blast
  obtain x2 s2 where b: "remove_artifact (has_pack k) (del_pack k) s1 = (x2, s2)" by fastforce
  obtain r2 e2 where x2: "x2 = Inr (r2, e2)" using remove_artifact_run [OF b] by blast
  have e2: "\<not> e2" and t: "ps_packs t = ps_packs s2"
    using assms by (auto simp: rollback_new_publication_def op_bind_def [of "remove_artifact p f" for p f] a b x1 x2 op_bind_def [of next_io]
        op_bind_def [of "if c then m else n" for c m n] op_bind_def next_io_def op_return_def op_raise_def simp del: not_None_eq split: if_splits)
  have "\<not> has_pack k s2" using remove_artifact_run [OF b] e2 x2 by (auto simp: has_pack_def del_pack_def)
  then show ?thesis by (simp add: has_pack_def t)
qed

lemma with_rollback_gone:
  "with_rollback k m s = (Inl e, t) \<Longrightarrow> e \<noteq> MetadataPackStoreError \<Longrightarrow> \<not> has_pack k t"
  using rollback_gone by (fastforce simp: with_rollback_def split: prod.splits sum.splits)

lemma rejected_pack_not_kept:
  assumes "accept_pack c k data public_key signature s = (Inl e, t)" "map_of (ps_packs s) k = None" "e \<noteq> MetadataPackStoreError"
  shows "\<not> has_pack k t"
proof -
  define s1 where "s1 = s\<lparr>ps_calls := Suc (ps_calls s)\<rparr>"
  have none: "\<not> has_pack k s" using assms(2) by (simp add: has_pack_def map_of_eq_None_iff)
  let ?pub = "with_rollback k (op_bind (write_pack k data) (\<lambda>_. write_signature_record c k public_key signature)) s1"
  consider "t = s" | "t = s1" | "?pub = (Inl e, t)" | y u where "with_rollback k (enforce_post_store_quotas c k (int (length data))) u = (Inl e, t)"
    using assms(1,2)
    by (auto simp: accept_pack_def op_read_def op_lift_def op_return_def op_raise_def next_io_def op_bind_def [of "op_lift r" for r]
        op_bind_def [of next_io] op_bind_def [of "with_rollback k m" for m] s1_def split: prod.splits sum.splits if_splits)
  then show ?thesis
  proof cases
    case 2
    then show ?thesis using none by (simp add: s1_def has_pack_def)
  qed (use none with_rollback_gone [OF _ assms(3)] in blast)+
qed

section \<open>The service keeps its word\<close>

text \<open>C37. Quotas: when \<open>put_pack_bytes\<close> reports a pack as newly stored, whatever packs, signatures and
  damaged files the store had and whatever removals failed, the pack is there with exactly the given
  bytes; the owner has no more intact packs and no more bytes than the limits allow; and the packs with
  other hashes together with the new one stay within the limit of the store.\<close>

theorem stored_pack_within_quotas:
  assumes "put_pack_bytes c owner_id pack_hash data public_key signature s = (Inr r, t)" "store_wf s" "sr_stored r"
  shows "get_pack_bytes c owner_id pack_hash t = Inr data \<and>
    int (length (held_packs c (\<lambda>q. fst q = py_strip owner_id) t)) \<le> ps_max_packs_per_owner s \<and>
    held_bytes c (\<lambda>q. fst q = py_strip owner_id) t \<le> ps_max_total_bytes_per_owner s \<and>
    held_bytes c (\<lambda>q. snd q \<noteq> py_strip pack_hash) t + int (length data) \<le> ps_max_total_store_bytes s \<and> store_wf t"
proof -
  let ?k = "(py_strip owner_id, py_strip pack_hash)"
  have v: "validate_owner_id owner_id = Inr (py_strip owner_id)" "validate_pack_hash pack_hash = Inr (py_strip pack_hash)"
    and h: "pc_blake3_hex c data = py_strip pack_hash" and a: "accept_pack c ?k data public_key signature s = (Inr r, t)"
    using assms(1)
    by (auto simp: put_pack_bytes_def op_bind_def op_lift_def op_read_def op_raise_def validate_owner_id_def validate_pack_hash_def
        split: if_splits)
  have "map_of (ps_packs s) ?k = None"
    using accept_present [OF a assms(2)] assms(3) by (cases "map_of (ps_packs s) ?k") auto
  note new = accept_new [OF a assms(2) this, simplified, OF h]
  then show ?thesis using h by (auto simp: get_pack_bytes_def v)
qed

lemma concat_iter_file_chunks: "0 < n \<Longrightarrow> concat (iter_file_chunks n data) = data"
proof (induction n data rule: iter_file_chunks.induct)
  case (1 n data)
  show ?case
  proof (cases "data = []")
    case True
    then show ?thesis by (subst iter_file_chunks.simps) simp
  next
    case False
    then show ?thesis using "1.prems" "1.IH" by (subst iter_file_chunks.simps) simp
  qed
qed

lemma iter_file_chunks_size: "b \<in> set (iter_file_chunks n data) \<Longrightarrow> length b \<le> n"
proof (induction n data rule: iter_file_chunks.induct)
  case (1 n data)
  then show ?case by (subst (asm) (2) iter_file_chunks.simps) (auto split: if_splits)
qed

lemma stream_chunk_bytes: "1 \<le> metadata_pack_stream_chunk_bytes m" "1 < m \<Longrightarrow> metadata_pack_stream_chunk_bytes m < m"
  by (auto simp: metadata_pack_stream_chunk_bytes_def Let_def)

lemma retrieve_in_custody:
  assumes "in_custody c k s" "is_hex64 (fst k)" "is_hex64 (snd k)" "check_token token received" "admit = Inr ()"
  shows "\<exists>a. RetrieveMetadataPack c m token received admit (fst k) (snd k) s = (Inr a, s) \<and> ra_status a = RETRIEVE_FOUND \<and>
    pc_blake3_hex c (concat (ra_blocks a)) = snd k \<and>
    verify_metadata_pack_signature c (fst k) (ra_public_key a) (ra_signature a) (snd k) \<and>
    (\<forall>b \<in> set (ra_blocks a). int (length b) \<le> metadata_pack_stream_chunk_bytes m)"
proof -
  obtain f p g where f: "map_of (ps_packs s) k = Some f" "pf_readable f" "pc_blake3_hex c (pf_data f) = snd k"
    and sig: "read_signature_record c k s = (p, g)" "p \<noteq> []" "g \<noteq> []"
    using assms(1) by (auto simp: in_custody_def)
  have v: "validate_owner_id (fst k) = Inr (fst k)" "validate_pack_hash (snd k) = Inr (snd k)"
    using assms(2,3) by (simp_all add: validate_owner_id_def validate_pack_hash_def is_hex64_no_strip)
  have n: "0 < nat (metadata_pack_stream_chunk_bytes m)" using stream_chunk_bytes(1) [of m] by simp
  have small: "int (length b) \<le> metadata_pack_stream_chunk_bytes m"
    if "b \<in> set (iter_file_chunks (nat (metadata_pack_stream_chunk_bytes m)) (pf_data f))" for b
    using iter_file_chunks_size [OF that] stream_chunk_bytes(1) [of m] by simp
  show ?thesis using assms(4,5) f sig read_signature_verified [OF sig(1,2)] concat_iter_file_chunks [OF n] small
    by (simp add: RetrieveMetadataPack_def op_bind_def op_lift_def op_read_def op_return_def v)
qed

lemma put_pack_file_custody:
  assumes "put_pack_file c owner (Some data) (Some pack) announced public_key signature s = (Inr r, t)" "store_wf s"
    "is_hex64 owner" "is_hex64 pack"
  shows "in_custody c (owner, pack) t"
proof -
  have h: "pc_blake3_hex c data = pack" and a: "accept_pack c (owner, pack) data public_key signature s = (Inr r, t)"
    using assms(1,3,4)
    by (auto simp: put_pack_file_def op_bind_def op_lift_def op_read_def op_raise_def op_return_def validate_owner_id_def validate_pack_hash_def
        is_hex64_no_strip Let_def split: if_splits)
  show ?thesis
  proof (cases "map_of (ps_packs s) (owner, pack)")
    case None
    show ?thesis using accept_new [OF a assms(2) None] h by simp
  next
    case (Some f)
    show ?thesis using accept_present [OF a assms(2) Some] by simp
  qed
qed

lemma receive_blocks_rejects: "receive_blocks a l acc parts = Inl st \<Longrightarrow> st = REJECTED_TOO_LARGE \<or> st = REJECTED_INVALID_ARGUMENT"
  by (induction a l acc parts rule: receive_blocks.induct) (auto simp: Let_def split: if_splits)

lemma store_stream_custody:
  assumes "store_stream c h parts s = (Inr st, t)" "st = STORED \<or> st = ALREADY_PRESENT" "store_wf s"
  shows "is_hex64 (py_strip (sh_owner_id h)) \<and> is_hex64 (py_strip (sh_pack_hash h)) \<and>
    in_custody c (py_strip (sh_owner_id h), py_strip (sh_pack_hash h)) t"
proof -
  let ?o = "py_strip (sh_owner_id h)" and ?p = "py_strip (sh_pack_hash h)"
  have hex: "is_hex64 ?o" "is_hex64 ?p"
    using assms(1) by (auto simp: store_stream_def op_bind_def op_lift_def op_read_def validate_owner_id_def validate_pack_hash_def split: if_splits)
  have "receive_blocks a l acc xs \<noteq> Inl STORED" "receive_blocks a l acc xs \<noteq> Inl ALREADY_PRESENT" for a l acc xs
    using receive_blocks_rejects by blast+
  then obtain data r n where put: "put_pack_file c ?o (Some data) (Some ?p) (Some (sh_size_bytes h)) (sh_public_key h) (sh_signature h)
      (s\<lparr>ps_calls := n\<rparr>) = (Inr r, t)"
    using assms(1,2) hex
    by (auto simp: store_stream_def op_bind_def [of "op_lift x" for x] op_lift_def op_read_def validate_owner_id_def validate_pack_hash_def
        op_bind_def [of next_io] op_bind_def [of "put_pack_file a b d e f g h" for a b d e f g h] next_io_def op_return_def op_raise_def
        split: if_splits sum.splits prod.splits)
  show ?thesis using put_pack_file_custody [OF put] assms(3) hex by simp
qed

text \<open>C36. A pack the service acknowledges is served: after \<open>StoreMetadataPack\<close> has answered
  \<open>STORED\<close> or \<open>ALREADY_PRESENT\<close>, under any failures of the disk, retrieving the pack of that owner
  gives \<open>FOUND\<close>, blocks within the message limit whose concatenation has exactly the pack hash, and a
  signature of the owner over that hash that verifies.\<close>

theorem acknowledged_pack_served:
  assumes "StoreMetadataPack c token admit (Part_header h # parts) s = (Inr st, t)" "st = STORED \<or> st = ALREADY_PRESENT" "store_wf s"
  shows "\<exists>a. RetrieveMetadataPack c m token token (Inr ()) (sh_owner_id h) (sh_pack_hash h) t = (Inr a, t) \<and>
    ra_status a = RETRIEVE_FOUND \<and> pc_blake3_hex c (concat (ra_blocks a)) = py_strip (sh_pack_hash h) \<and>
    verify_metadata_pack_signature c (py_strip (sh_owner_id h)) (ra_public_key a) (ra_signature a) (py_strip (sh_pack_hash h)) \<and>
    (\<forall>b \<in> set (ra_blocks a). int (length b) \<le> metadata_pack_stream_chunk_bytes m)"
proof -
  have tok: "check_token token (sh_cluster_token h)" and run: "store_stream c h parts s = (Inr st, t)"
    using assms(1,2)
    by (auto simp: StoreMetadataPack_def op_bind_def op_lift_def op_return_def status_of_exn_def split: if_splits sum.splits prod.splits)
  have tok': "check_token token token" using tok by (simp add: check_token_def split: if_splits)
  have v: "RetrieveMetadataPack c m token token (Inr ()) (py_strip (sh_owner_id h)) (py_strip (sh_pack_hash h)) t =
      RetrieveMetadataPack c m token token (Inr ()) (sh_owner_id h) (sh_pack_hash h) t"
    by (simp add: RetrieveMetadataPack_def validate_owner_id_def validate_pack_hash_def)
  show ?thesis using retrieve_in_custody [of c "(py_strip (sh_owner_id h), py_strip (sh_pack_hash h))" t token token "Inr ()" m]
      store_stream_custody [OF run assms(2,3)] tok' by (simp add: v)
qed

text \<open>Two owners, told apart by the first byte of their public keys.\<close>

definition demo_crypto :: pack_crypto where
  "demo_crypto = \<lparr>pc_blake3_hex = (\<lambda>d. replicate 64 (if length d = 32 then (if d ! 0 = 1 then CHR ''b'' else CHR ''c'') else CHR ''a'')),
     pc_b64decode = (\<lambda>s. Some (replicate 32 (if s = ''k1'' then 1 else 2))), pc_ed25519_verify = (\<lambda>_ _ _. True)\<rparr>"

definition demo_store :: pack_store where
  "demo_store = \<lparr>ps_max_pack_bytes = 2, ps_max_packs_per_owner = 5, ps_max_total_bytes_per_owner = 10, ps_max_total_store_bytes = 3,
     ps_max_age_days = 0, ps_packs = [], ps_sidecars = (\<lambda>_. None), ps_io = (\<lambda>_. IO_ok), ps_clock = (\<lambda>_. 0), ps_calls = 0\<rparr>"

definition demo_put :: "char \<Rightarrow> string \<Rightarrow> pack_store \<Rightarrow> put_result result \<times> pack_store" where
  "demo_put ch key = put_pack_bytes demo_crypto (replicate 64 ch) (replicate 64 (CHR ''a'')) [1, 2] key ''sig''"

lemma demo_pack_hex: "is_hex64 (replicate 64 (CHR ''a''))" "is_hex64 (replicate 64 (CHR ''b''))" "is_hex64 (replicate 64 (CHR ''c''))"
  by code_simp+

lemmas demo_strip = demo_pack_hex [THEN is_hex64_no_strip]

lemma demo_verify:
  "verify_metadata_pack_signature demo_crypto (replicate 64 (CHR ''b'')) ''k1'' ''sig'' (replicate 64 (CHR ''a''))"
  "verify_metadata_pack_signature demo_crypto (replicate 64 (CHR ''c'')) ''k2'' ''sig'' (replicate 64 (CHR ''a''))"
  by (simp_all add: verify_metadata_pack_signature_def metadata_pack_signature_payload_def verify_metadata_signature_def validate_owner_id_def
      validate_pack_hash_def demo_pack_hex demo_strip demo_crypto_def)

lemmas demo_run = put_pack_bytes_def accept_pack_def write_pack_def write_signature_record_def with_rollback_def
  enforce_post_store_quotas_def prune_expired_records_def validate_incoming_quota_limits_def prune_excess_def
  validate_owner_id_def validate_pack_hash_def op_bind_def op_lift_def op_read_def op_return_def op_modify_def next_io_def time_now_def
  all_pack_records_def pack_records_for_owner_def record_from_path_def total_bytes_def add_pack_def List.map_filter_simps Let_def

lemma demo_hash: "pc_blake3_hex demo_crypto [1, 2] = replicate 64 (CHR ''a'')"
  by (simp add: demo_crypto_def)

definition demo_one :: pack_store where
  "demo_one = demo_store\<lparr>ps_packs := [((replicate 64 (CHR ''b''), replicate 64 (CHR ''a'')), \<lparr>pf_data = [1, 2], pf_mtime = 0, pf_readable = True\<rparr>)],
     ps_sidecars := (\<lambda>_. None)((replicate 64 (CHR ''b''), replicate 64 (CHR ''a'')) \<mapsto> \<lparr>sc_owner_id = replicate 64 (CHR ''b''),
       sc_pack_hash = replicate 64 (CHR ''a''), sc_public_key = ''k1'', sc_signature = ''sig''\<rparr>), ps_calls := 4\<rparr>"

lemma demo_put_stored: "\<exists>r. demo_put (CHR ''b'') ''k1'' demo_store = (Inr r, demo_one) \<and> sr_stored r"
  by (simp add: demo_put_def demo_run demo_pack_hex demo_strip demo_verify demo_hash demo_store_def demo_one_def)

theorem stored_pack_within_quotas_witness:
  "get_pack_bytes demo_crypto (replicate 64 (CHR ''b'')) (replicate 64 (CHR ''a'')) demo_one = Inr [1, 2] \<and>
   held_bytes demo_crypto (\<lambda>q. fst q = py_strip (replicate 64 (CHR ''b''))) demo_one \<le> ps_max_total_bytes_per_owner demo_store"
proof -
  obtain r where run: "demo_put (CHR ''b'') ''k1'' demo_store = (Inr r, demo_one)" and st: "sr_stored r"
    using demo_put_stored by blast
  have "store_wf demo_store" by (simp add: store_wf_def demo_store_def)
  then show ?thesis using stored_pack_within_quotas [OF run [unfolded demo_put_def] _ st] by blast
qed

definition demo_header :: store_header where
  "demo_header = \<lparr>sh_cluster_token = ''t'', sh_owner_id = replicate 64 (CHR ''b''), sh_pack_hash = replicate 64 (CHR ''a''), sh_size_bytes = 2,
     sh_public_key = ''k1'', sh_signature = ''sig''\<rparr>"

lemma demo_rpc_stored:
  "fst (StoreMetadataPack demo_crypto ''t'' (Inr ()) [Part_header demo_header, Part_chunk [1], Part_chunk [2]] demo_store) = Inr STORED"
  by (simp add: StoreMetadataPack_def store_stream_def put_pack_file_def check_token_def py_strip_def py_isspace_def demo_header_def demo_run
      demo_pack_hex demo_strip [unfolded py_strip_def] demo_verify demo_hash demo_store_def Let_def)

theorem acknowledged_pack_served_witness:
  "\<exists>a. fst (RetrieveMetadataPack demo_crypto 4096 ''t'' ''t'' (Inr ()) (sh_owner_id demo_header) (sh_pack_hash demo_header)
       (snd (StoreMetadataPack demo_crypto ''t'' (Inr ()) [Part_header demo_header, Part_chunk [1], Part_chunk [2]] demo_store))) = Inr a \<and>
     ra_status a = RETRIEVE_FOUND"
proof -
  have "StoreMetadataPack demo_crypto ''t'' (Inr ()) [Part_header demo_header, Part_chunk [1], Part_chunk [2]] demo_store =
      (Inr STORED, snd (StoreMetadataPack demo_crypto ''t'' (Inr ()) [Part_header demo_header, Part_chunk [1], Part_chunk [2]] demo_store))"
    using demo_rpc_stored by (metis prod.collapse)
  moreover have "store_wf demo_store" by (simp add: store_wf_def demo_store_def)
  ultimately show ?thesis using acknowledged_pack_served [where m = 4096] by (metis fst_conv)
qed

text \<open>The limit of the whole store does not count other owners' copies of the incoming pack: two owners
  who publish the same bytes exceed it.\<close>

lemma shared_pack_exceeds_store_limit:
  "\<exists>r t. demo_put (CHR ''c'') ''k2'' demo_one = (Inr r, t) \<and> sr_stored r \<and>
     held_bytes demo_crypto (\<lambda>_. True) t = 4 \<and> ps_max_total_store_bytes t = 3"
  by (simp add: demo_put_def demo_run demo_pack_hex demo_strip demo_verify demo_hash demo_store_def demo_one_def held_bytes_def held_packs_def
      intact_def)

section \<open>Pruning to the limits\<close>

definition limits_ok :: "pack_store \<Rightarrow> bool" where
  "limits_ok s \<longleftrightarrow> 1 \<le> ps_max_packs_per_owner s \<and> 1 \<le> ps_max_total_bytes_per_owner s \<and> 1 \<le> ps_max_total_store_bytes s"

definition keys_ok :: "pack_store \<Rightarrow> bool" where
  "keys_ok s \<longleftrightarrow> (\<forall>e \<in> set (ps_packs s). is_hex64 (fst (fst e)) \<and> is_hex64 (snd (fst e)))"

lemma mk_limits_ok: "mk_MetadataPackStore a b d e f packs sidecars io clock = Inr s \<Longrightarrow> limits_ok s \<and> ps_packs s = packs"
  by (auto simp: mk_MetadataPackStore_def limits_ok_def split: if_splits)

lemma removes_keys_ok: "removes Q s t \<Longrightarrow> keys_ok s \<Longrightarrow> keys_ok t"
  unfolding removes_def keys_ok_def by auto

lemma record_hash_nonempty: "keys_ok s \<Longrightarrow> r \<in> set (all_pack_records c s) \<Longrightarrow> pr_pack_hash r \<noteq> []"
  unfolding all_pack_records_def record_from_path_intact map_filter_if keys_ok_def by (force dest: is_hex64_nonempty)

lemma left_mono:
  assumes "removes Q s t" "\<And>r. r \<in> set rs \<Longrightarrow> 0 \<le> pr_size_bytes r"
  shows "total_bytes (left t rs) \<le> total_bytes (left s rs) \<and> length (left t rs) \<le> length (left s rs)"
proof -
  have "left t rs = filter (\<lambda>r. has_pack (record_key r) t) (left s rs)"
    unfolding left_def filter_filter by (rule filter_cong) (use removes_has_pack [OF assms(1)] in blast)+
  moreover have "\<And>r. r \<in> set (left s rs) \<Longrightarrow> 0 \<le> pr_size_bytes r" using assms(2) by (auto simp: left_def)
  ultimately show ?thesis unfolding total_bytes_def by (metis length_filter_le sum_filter_le)
qed

lemma rem_prune_owners: "rem.stays UNIV (prune_owners dry owners records n b)"
proof (induction owners arbitrary: records n b)
  case (Cons owner owners)
  show ?case unfolding prune_owners.simps Let_def
    by (intro rem.stays_read rem.stays_bind rem_prune_excess) (simp, split prod.split, intro allI impI, rule Cons.IH)
qed (simp add: rem.stays_pure)

lemma prune_owners_limits:
  assumes "prune_owners False owners records n b s = (Inr x, t)"
    and "\<And>r. r \<in> set records \<Longrightarrow> 0 \<le> pr_size_bytes r \<and> pr_pack_hash r \<noteq> []" "owner \<in> set owners"
  shows "total_bytes (left t (filter (\<lambda>r. pr_owner_id r = owner) records)) \<le> ps_max_total_bytes_per_owner s \<and>
    int (length (left t (filter (\<lambda>r. pr_owner_id r = owner) records))) \<le> ps_max_packs_per_owner s"
  using assms
proof (induction owners arbitrary: n b s)
  case (Cons o1 owners)
  let ?own = "filter (\<lambda>r. pr_owner_id r = o1) records"
  let ?mine = "filter (\<lambda>r. pr_owner_id r = owner) records"
  let ?bx = "max 0 (total_bytes ?own - ps_max_total_bytes_per_owner s)" and ?cx = "max 0 (int (length ?own) - ps_max_packs_per_owner s)"
  obtain n1 b1 u where ex: "prune_excess False ?own ?bx ?cx [] s = (Inr (n1, b1), u)"
    and rest: "prune_owners False owners records (n + n1) (b + b1) u = (Inr x, t)"
    using Cons.prems(1) by (auto simp: op_read_def op_bind_def Let_def split: prod.splits sum.splits)
  have "rem.stays UNIV (prune_excess False ?own ?bx ?cx [])" by (rule rem_prune_excess) simp
  from rem.stays_state [OF this, of s] have su: "removes UNIV s u" by (simp add: ex)
  from rem.stays_state [OF rem_prune_owners, of u False owners records "n + n1" "b + b1"] have ut: "removes UNIV u t" by (simp add: rest)
  have lim: "ps_max_total_bytes_per_owner u = ps_max_total_bytes_per_owner s" "ps_max_packs_per_owner u = ps_max_packs_per_owner s"
    using su by (simp_all add: removes_def same_limits_def)
  show ?case
  proof (cases "owner \<in> set owners")
    case True
    then show ?thesis using Cons.IH [OF rest Cons.prems(2)] unfolding lim by blast
  next
    case False
    then have o: "owner = o1" using Cons.prems(3) by simp
    have "total_bytes (left u ?mine) \<le> total_bytes ?mine - ?bx \<and> int (length (left u ?mine)) \<le> int (length ?mine) - ?cx"
      using prune_excess_progress [OF ex] Cons.prems(2) unfolding o by auto
    moreover have "total_bytes (left t ?mine) \<le> total_bytes (left u ?mine) \<and> length (left t ?mine) \<le> length (left u ?mine)"
      by (rule left_mono [OF ut]) (use Cons.prems(2) in auto)
    ultimately show ?thesis unfolding o by linarith
  qed
qed simp

text \<open>A dry run leaves the store as it is.\<close>

lemma dry_prune_loop: "snd (prune_loop True rs n b rb rc s) = s"
  by (induction rs arbitrary: n b rb rc) (auto simp: op_return_def)

lemma dry_expire_loop: "snd (expire_loop True rs n b s) = s"
  by (induction rs arbitrary: n b) (auto simp: op_return_def)

lemma dry_prune_excess: "rem.stays {} (prune_excess True rs b n protected)"
  unfolding prune_excess_def prune_records_def
  by (intro rem.stays_if rem.stays_bind rem.stays_pure rem.staysI)
    (auto simp: dry_prune_loop removes_refl op_raise_def op_return_def split: prod.splits)

lemma dry_prune_owners: "rem.stays {} (prune_owners True owners records n b)"
proof (induction owners arbitrary: records n b)
  case (Cons owner owners)
  show ?case unfolding prune_owners.simps Let_def
    by (intro rem.stays_read rem.stays_bind dry_prune_excess) (clarsimp, rule Cons.IH)
qed (simp add: rem.stays_pure)

lemma dry_prune_expired: "rem.stays {} (prune_expired_records True rs protected)"
proof -
  have "rem.stays {} (expire_loop True xs 0 0)" for xs by (rule rem.staysI) (simp add: dry_expire_loop removes_refl)
  then show ?thesis unfolding prune_expired_records_def Let_def
    by (intro rem.stays_read rem.stays_if rem.stays_bind rem_basic rem.stays_pure)
qed

lemma removes_none: "removes {} s t \<Longrightarrow> ps_packs t = ps_packs s \<and> ps_sidecars t = ps_sidecars s"
  unfolding removes_def by (auto simp: fun_eq_iff filter_id_conv)

lemma removes_more: "removes Q s t \<Longrightarrow> Q \<subseteq> Q' \<Longrightarrow> removes Q' s t"
  unfolding removes_def by blast

lemma rem_prune_to_limits: "rem.stays (if dry then {} else UNIV) (prune_to_limits c dry)"
proof (cases dry)
  case True
  have "rem.stays {} (prune_to_limits c True)" unfolding prune_to_limits_def Let_def
    by (intro rem.stays_read rem.stays_bind dry_prune_expired; clarsimp)
      (intro rem.stays_read rem.stays_bind rem.stays_pure dry_prune_owners; clarsimp,
       intro rem.stays_read rem.stays_bind rem.stays_pure dry_prune_excess; clarsimp simp: rem.stays_pure)
  then show ?thesis using True by simp
next
  case False
  have "rem.stays UNIV (prune_to_limits c False)" unfolding prune_to_limits_def Let_def
    by (intro rem.stays_read rem.stays_bind rem_prune_expired; clarsimp)
      (intro rem.stays_read rem.stays_bind rem.stays_pure rem_prune_owners; clarsimp,
       intro rem.stays_read rem.stays_bind rem.stays_pure rem_prune_excess; clarsimp simp: rem.stays_pure)
  then show ?thesis using False by simp
qed

lemma prune_reaches_limits:
  assumes "prune_to_limits c False s = (Inr r, t)" "store_wf s" "limits_ok s" "keys_ok s"
  shows "held_bytes c (\<lambda>_. True) t \<le> ps_max_total_store_bytes s"
    and "held_bytes c (\<lambda>q. fst q = owner) t \<le> ps_max_total_bytes_per_owner s \<and>
         int (length (held_packs c (\<lambda>q. fst q = owner) t)) \<le> ps_max_packs_per_owner s"
proof -
  obtain y1 u1 y2 u2 y3 where e: "prune_expired_records False (all_pack_records c s) [] s = (Inr y1, u1)"
    and o: "prune_owners False (sort (remdups (map pr_owner_id (all_pack_records c u1)))) (all_pack_records c u1) 0 0 u1 = (Inr y2, u2)"
    and g: "prune_excess False (all_pack_records c u2) (max 0 (total_bytes (all_pack_records c u2) - ps_max_total_store_bytes u2)) 0 [] u2 = (Inr y3, t)"
    using assms(1)
    by (auto simp: prune_to_limits_def op_bind_def op_read_def op_return_def Let_def split: prod.splits sum.splits)
  have "rem.stays UNIV (prune_expired_records False (all_pack_records c s) [])" by (rule rem_prune_expired) simp
  from rem.stays_state [OF this, of s] have r1: "removes UNIV s u1" by (simp add: e)
  from rem.stays_state [OF rem_prune_owners, of u1 False] o have r2: "removes UNIV u1 u2" by (metis snd_conv)
  have "rem.stays UNIV (prune_excess False (all_pack_records c u2) (max 0 (total_bytes (all_pack_records c u2) - ps_max_total_store_bytes u2)) 0 [])"
    by (rule rem_prune_excess) simp
  from rem.stays_state [OF this, of u2] have r3: "removes UNIV u2 t" by (simp add: g)
  note w1 = removes_wf [OF r1 assms(2)] and w2 = removes_wf [OF r2 removes_wf [OF r1 assms(2)]]
  note k1 = removes_keys_ok [OF r1 assms(4)] and k2 = removes_keys_ok [OF r2 removes_keys_ok [OF r1 assms(4)]]
  have lim: "ps_max_total_bytes_per_owner u1 = ps_max_total_bytes_per_owner s" "ps_max_packs_per_owner u1 = ps_max_packs_per_owner s"
    "ps_max_total_store_bytes u2 = ps_max_total_store_bytes s"
    using r1 r2 by (simp_all add: removes_def same_limits_def)
  have "total_bytes (left t (all_pack_records c u2)) \<le> total_bytes (all_pack_records c u2) -
      max 0 (total_bytes (all_pack_records c u2) - ps_max_total_store_bytes s)"
    using prune_excess_progress [OF g] record_nonneg record_hash_nonempty [OF k2] unfolding lim by auto
  then have "total_bytes (left t (all_pack_records c u2)) \<le> ps_max_total_store_bytes s" by linarith
  then show "held_bytes c (\<lambda>_. True) t \<le> ps_max_total_store_bytes s"
    using held_left(1) [OF r3 w2, where R = "\<lambda>_. True"] by simp
  let ?own = "filter (\<lambda>r. pr_owner_id r = owner) (all_pack_records c u1)"
  have own: "?own = filter (\<lambda>r. (\<lambda>q. fst q = owner) (record_key r)) (all_pack_records c u1)" by (simp add: record_key_def)
  have "total_bytes (left u2 ?own) \<le> ps_max_total_bytes_per_owner s \<and> int (length (left u2 ?own)) \<le> ps_max_packs_per_owner s"
  proof (cases "owner \<in> set (map pr_owner_id (all_pack_records c u1))")
    case True
    then show ?thesis
      using prune_owners_limits [OF o, of owner] record_nonneg record_hash_nonempty [OF k1] unfolding lim by auto
  next
    case False
    then have "?own = []" by (auto simp: filter_empty_conv)
    then show ?thesis using assms(3) by (simp add: left_def total_bytes_def limits_ok_def)
  qed
  then show "held_bytes c (\<lambda>q. fst q = owner) t \<le> ps_max_total_bytes_per_owner s \<and>
         int (length (held_packs c (\<lambda>q. fst q = owner) t)) \<le> ps_max_packs_per_owner s"
    using removes_le [OF r3 w2, of c "\<lambda>q. fst q = owner"] held_left [OF r2 w1, where R = "\<lambda>q. fst q = owner"] unfolding own
    by auto
qed

text \<open>C38. When \<open>prune_to_limits\<close> (run at start-up and by the collector) returns, whatever removals failed,
  every owner is within the limits on packs and bytes and the store is within its limit, counting every
  intact pack; it only removes packs, and a dry run changes nothing in the store.\<close>

theorem prune_enforces_limits:
  assumes "prune_to_limits c dry s = (Inr r, t)" "store_wf s" "limits_ok s" "keys_ok s"
  shows "(dry \<longrightarrow> ps_packs t = ps_packs s \<and> ps_sidecars t = ps_sidecars s) \<and> removes UNIV s t \<and>
    (\<not> dry \<longrightarrow> held_bytes c (\<lambda>_. True) t \<le> ps_max_total_store_bytes s \<and>
      (\<forall>owner. held_bytes c (\<lambda>q. fst q = owner) t \<le> ps_max_total_bytes_per_owner s \<and>
         int (length (held_packs c (\<lambda>q. fst q = owner) t)) \<le> ps_max_packs_per_owner s))"
proof -
  have rm: "removes (if dry then {} else UNIV) s t"
    using rem.stays_state [OF rem_prune_to_limits [of dry c], of s] by (simp add: assms(1))
  have "removes UNIV s t" by (rule removes_more [OF rm]) simp
  then show ?thesis using rm removes_none [of s t] prune_reaches_limits [of c s r t] assms by (cases dry) auto
qed

theorem prune_enforces_limits_witness:
  "\<exists>r t. prune_to_limits demo_crypto False demo_one = (Inr r, t) \<and> held_bytes demo_crypto (\<lambda>_. True) t \<le> 3"
proof -
  have "\<exists>r. prune_to_limits demo_crypto False demo_one = (Inr r, demo_one)"
    by (simp add: prune_to_limits_def demo_run demo_one_def demo_store_def demo_hash)
  then obtain r where run: "prune_to_limits demo_crypto False demo_one = (Inr r, demo_one)" ..
  have "store_wf demo_one" "limits_ok demo_one" "keys_ok demo_one"
    by (simp_all add: store_wf_def limits_ok_def keys_ok_def demo_one_def demo_store_def demo_pack_hex)
  moreover have "ps_max_total_store_bytes demo_one = 3" by (simp add: demo_one_def demo_store_def)
  ultimately show ?thesis using prune_enforces_limits [OF run] run by auto
qed

end
