(* ===== verification/Lifecycle.thy ===== *)
theory Lifecycle
  imports Json
begin

text \<open>
  The life cycle of a node: \<open>stopan.node.lifecycle\<close> and the shutdown sequence of
  \<open>stopan.node.server.serve\<close>.

  \<open>drain_controller\<close> is \<open>NodeDrainController\<close>; each of its methods runs under one lock and is one
  function here. The control socket carries lines: \<open>recv_line\<close>, the commands the node accepts, the
  answers the client parses. \<open>node_step\<close> interleaves the threads of a node: one per control
  connection, one per data RPC, the main thread, signal handlers; every place where another thread
  can run between two critical sections is a separate step.

  Timeouts are not represented: a read or a send that times out is a failed one, and every read and
  every send of a connection may fail at any time.
\<close>

section \<open>The drain controller\<close>

record drain_controller =
  dc_draining :: bool
  dc_stopped :: bool
  dc_active_local_operations :: int
  dc_active_rpcs :: int

definition new_controller :: drain_controller where
  "new_controller = \<lparr>dc_draining = False, dc_stopped = False, dc_active_local_operations = 0, dc_active_rpcs = 0\<rparr>"

definition request_draining :: "drain_controller \<Rightarrow> bool \<times> drain_controller" where
  "request_draining c = (\<not> dc_draining c, c\<lparr>dc_draining := True\<rparr>)"

definition try_begin_local_operation :: "drain_controller \<Rightarrow> bool \<times> drain_controller" where
  "try_begin_local_operation c =
     (if dc_draining c then (False, c)
      else (True, c\<lparr>dc_active_local_operations := dc_active_local_operations c + 1\<rparr>))"

definition end_local_operation :: "(drain_controller, unit) op" where
  "end_local_operation c =
     (if dc_active_local_operations c \<le> 0 then (Inl RuntimeError, c)
      else (Inr (), c\<lparr>dc_active_local_operations := dc_active_local_operations c - 1\<rparr>))"

text \<open>\<open>admit_rpc\<close>: the critical section at its start, and the one of \<open>release\<close>.\<close>

definition admit_rpc_enter :: "drain_controller \<Rightarrow> unit result \<times> drain_controller" where
  "admit_rpc_enter c =
     (if dc_draining c then (Inl (Abort UNAVAILABLE), c)
      else (Inr (), c\<lparr>dc_active_rpcs := dc_active_rpcs c + 1\<rparr>))"

definition release_rpc :: "(drain_controller, unit) op" where
  "release_rpc c =
     (if dc_active_rpcs c \<le> 0 then (Inl RuntimeError, c)
      else (Inr (), c\<lparr>dc_active_rpcs := dc_active_rpcs c - 1\<rparr>))"

text \<open>The whole of \<open>admit_rpc\<close>, run by one thread with no other in between: \<open>registered\<close> is what
  \<open>context.add_callback\<close> does, raising (\<open>None\<close>) or returning a bool.\<close>

definition admit_rpc :: "exn \<Rightarrow> bool option \<Rightarrow> (drain_controller, unit) op" where
  "admit_rpc failure registered =
     op_bind admit_rpc_enter (\<lambda>_. case registered of
         None \<Rightarrow> op_bind release_rpc (\<lambda>_. op_raise failure)
       | Some True \<Rightarrow> op_return ()
       | Some False \<Rightarrow> op_bind release_rpc (\<lambda>_. op_raise (Abort CANCELLED)))"

definition active_work :: "drain_controller \<Rightarrow> int \<times> int" where
  "active_work c = (dc_active_local_operations c, dc_active_rpcs c)"

text \<open>\<open>wait_for_idle\<close> returns when this holds.\<close>

definition is_idle :: "drain_controller \<Rightarrow> bool" where
  "is_idle c \<longleftrightarrow> \<not> (dc_active_local_operations c \<noteq> 0 \<or> dc_active_rpcs c \<noteq> 0)"

definition mark_stopped :: "drain_controller \<Rightarrow> drain_controller" where
  "mark_stopped c = c\<lparr>dc_stopped := True\<rparr>"

section \<open>Control lines\<close>

definition CONTROL_LINE_LIMIT :: nat where
  "CONTROL_LINE_LIMIT = 4096"

text \<open>\<open>bytes.decode\<close> on the characters a \<open>string\<close> can hold: other code points, like malformed
  sequences, give \<open>None\<close>.\<close>

fun utf8_decode :: "bytes \<Rightarrow> string option" where
  "utf8_decode [] = Some []"
| "utf8_decode (b # bs) =
     (if b < 128 then map_option ((#) (char_of (unat b))) (utf8_decode bs)
      else if b = 194 \<or> b = 195 then
        (case bs of [] \<Rightarrow> None
         | c # cs \<Rightarrow> if 128 \<le> c \<and> c < 192
                    then map_option ((#) (char_of ((unat b - 192) * 64 + (unat c - 128)))) (utf8_decode cs)
                    else None)
      else None)"

fun recv_loop :: "nat \<Rightarrow> bytes \<Rightarrow> bytes \<Rightarrow> bytes \<times> bytes" where
  "recv_loop limit acc [] = (acc, [])"
| "recv_loop limit acc (b # stream) =
     (if length acc < limit then
        if b = 10 then (acc, stream) else recv_loop limit (acc @ [b]) stream
      else (acc, b # stream))"

text \<open>A line and what the socket has left to read. The end of the stream ends the line.\<close>

definition recv_line :: "bytes \<Rightarrow> (string \<times> bytes) result" where
  "recv_line stream =
     (let (line, rest) = recv_loop CONTROL_LINE_LIMIT [] stream in
      if length line \<ge> CONTROL_LINE_LIMIT then Inl StopanNetworkError
      else case utf8_decode line of None \<Rightarrow> Inl UnicodeError | Some s \<Rightarrow> Inr (s, rest))"

definition send_line :: "string \<Rightarrow> bytes" where
  "send_line s = utf8_encode (s @ [char_of (10 :: nat)])"

fun split_tab :: "string \<Rightarrow> string list" where
  "split_tab [] = [[]]"
| "split_tab (c # s) =
     (if c = char_of (9 :: nat) then [] # split_tab s
      else (case split_tab s of [] \<Rightarrow> [[c]] | w # ws \<Rightarrow> (c # w) # ws))"

text \<open>\<open>str.isdigit\<close> also holds of the three superscript digits below 256.\<close>

definition py_isdigit :: "string \<Rightarrow> bool" where
  "py_isdigit s \<longleftrightarrow> s \<noteq> [] \<and> list_all (\<lambda>c. is_dec_char c \<or> of_char c \<in> {178 :: nat, 179, 185}) s"

definition normalize_control_node_id :: "string option \<Rightarrow> string option result" where
  "normalize_control_node_id v =
     (let node_id = py_strip (case v of None \<Rightarrow> [] | Some s \<Rightarrow> s) in
      if node_id = [] then Inr None
      else if length node_id \<noteq> 32 \<or> \<not> list_all is_hex_lower node_id then Inl StopanNetworkError
      else Inr (Some node_id))"

definition breaks_line :: "char \<Rightarrow> bool" where
  "breaks_line c \<longleftrightarrow> of_char c \<in> {13 :: nat, 10, 9}"

definition normalize_control_address :: "string option \<Rightarrow> string option result" where
  "normalize_control_address v =
     (let address = py_strip (case v of None \<Rightarrow> [] | Some s \<Rightarrow> s) in
      if address = [] then Inr None
      else if length address > 1024 \<or> list_ex breaks_line address then Inl StopanNetworkError
      else Inr (Some address))"

text \<open>What the client holds: whether a connection stays open, and the identity of the node.\<close>

record lease =
  ls_connected :: bool
  ls_node_id :: "string option"
  ls_advertise_addr :: "string option"

definition LocalOperationLease :: "bool \<Rightarrow> string option \<Rightarrow> string option \<Rightarrow> lease result" where
  "LocalOperationLease has_socket node_id addr =
     bindE (normalize_control_node_id node_id) (\<lambda>n.
     bindE (normalize_control_address addr) (\<lambda>a.
     if (n = None) \<noteq> (a = None) then Inl StopanNetworkError
     else Inr \<lparr>ls_connected = has_socket, ls_node_id = n, ls_advertise_addr = a\<rparr>))"

text \<open>\<open>acquire_local_operation_lease\<close> from the answer of the node on.\<close>

definition lease_of_response :: "string \<Rightarrow> lease result" where
  "lease_of_response response =
     (if response = ''OK'' then LocalOperationLease True None None
      else if take 3 response = ''OK'' @ [char_of (9 :: nat)] then
        (case split_tab response of
           [_, n, a] \<Rightarrow>
             bindE (normalize_control_node_id (Some n)) (\<lambda>node_id.
             bindE (normalize_control_address (Some a)) (\<lambda>addr.
             LocalOperationLease True node_id addr))
         | _ \<Rightarrow> Inl StopanNetworkError)
      else Inl StopanNetworkError)"

definition acquire_local_operation_lease :: "bytes option \<Rightarrow> lease result" where
  "acquire_local_operation_lease socket =
     (case socket of
        None \<Rightarrow> LocalOperationLease False None None
      | Some stream \<Rightarrow>
          (case recv_line stream of
             Inl e \<Rightarrow> Inl StopanNetworkError
           | Inr (response, _) \<Rightarrow> lease_of_response response))"

text \<open>\<open>request_local_node_stop\<close>: two lines are read from the node.\<close>

definition request_local_node_stop :: "bytes \<Rightarrow> unit result" where
  "request_local_node_stop stream =
     (case recv_line stream of
        Inl e \<Rightarrow> Inl StopanNetworkError
      | Inr (response, rest) \<Rightarrow>
          if response \<noteq> ''STOPPING'' then Inl StopanNetworkError
          else (case recv_line rest of
                  Inl e \<Rightarrow> Inl StopanNetworkError
                | Inr (response, _) \<Rightarrow> if response \<noteq> ''STOPPED'' then Inl StopanNetworkError else Inr ()))"

section \<open>Finding the node\<close>

text \<open>What a client sees at one candidate path: nothing, an entry it cannot inspect, an entry that
  is no socket, or a socket and what \<open>connect\<close> does there.\<close>

datatype connect_outcome = Connected bytes | Connect_refused | Connect_gone | Connect_denied | Connect_fails

datatype control_entry = Absent | Not_inspectable | Not_a_socket | Socket connect_outcome

text \<open>A candidate: whether its directory is the fallback runtime directory and fails the check of
  \<open>_validate_fallback_runtime_directory\<close>, and the entry.\<close>

record candidate =
  cd_unsafe_runtime :: bool
  cd_entry :: control_entry

fun connect_loop :: "bool \<Rightarrow> candidate list \<Rightarrow> (bytes option \<times> bool) result" where
  "connect_loop ambiguous [] = Inr (None, ambiguous)"
| "connect_loop ambiguous (c # cs) =
     (if cd_unsafe_runtime c then Inl StopanNetworkError
      else case cd_entry c of
        Absent \<Rightarrow> connect_loop ambiguous cs
      | Not_inspectable \<Rightarrow> Inl StopanNetworkError
      | Not_a_socket \<Rightarrow> Inl StopanNetworkError
      | Socket (Connected stream) \<Rightarrow> Inr (Some stream, ambiguous)
      | Socket Connect_refused \<Rightarrow> connect_loop ambiguous cs
      | Socket Connect_gone \<Rightarrow> connect_loop ambiguous cs
      | Socket Connect_denied \<Rightarrow> Inl StopanNetworkError
      | Socket Connect_fails \<Rightarrow> connect_loop True cs)"

definition connect_control_socket :: "bool \<Rightarrow> bool \<Rightarrow> candidate list \<Rightarrow> bytes option result" where
  "connect_control_socket has_af_unix required candidates =
     (if \<not> has_af_unix then (if required then Inl StopanNetworkError else Inr None)
      else bindE (connect_loop False candidates) (\<lambda>(socket, ambiguous).
        if socket \<noteq> None then Inr socket
        else if ambiguous then Inl StopanNetworkError
        else if required then Inl StopanNetworkError
        else Inr None))"

text \<open>\<open>_validate_fallback_runtime_directory\<close> on the \<open>lstat\<close> of the directory: missing, not
  readable, or its kind, owner and permission bits. The result says whether its permissions have to
  be restricted (\<open>chmod\<close>, only when creating).\<close>

datatype dir_stat = Dir_missing | Dir_error | Dir_stat bool int nat

definition validate_fallback_runtime_directory :: "bool \<Rightarrow> int \<Rightarrow> dir_stat \<Rightarrow> bool result" where
  "validate_fallback_runtime_directory creating euid st =
     (case st of
        Dir_missing \<Rightarrow> Inr False
      | Dir_error \<Rightarrow> Inl StopanNetworkError
      | Dir_stat is_dir uid mode \<Rightarrow>
          if \<not> is_dir then Inl StopanNetworkError
          else if uid \<noteq> euid then Inl StopanNetworkError
          else if mode mod 64 \<noteq> 0 then (if creating then Inr True else Inl StopanNetworkError)
          else Inr False)"

section \<open>The threads of a node\<close>

text \<open>The commands of \<open>_handle_connection\<close>.\<close>

datatype control_command = BEGIN | STOP | Unknown_command

definition parse_command :: "string \<Rightarrow> control_command" where
  "parse_command line =
     (let parts = split_tab line in
      if parts ! 0 = ''BEGIN'' \<and> length parts = 3 \<and> py_isdigit (parts ! 1) \<and> parts ! 2 \<noteq> [] then BEGIN
      else if parts ! 0 = ''STOP'' \<and> length parts = 2 \<and> py_isdigit (parts ! 1) then STOP
      else Unknown_command)"

definition begin_response :: "string \<Rightarrow> string \<Rightarrow> string" where
  "begin_response node_id addr =
     (if node_id \<noteq> [] then ''OK'' @ [char_of (9 :: nat)] @ node_id @ [char_of (9 :: nat)] @ addr else ''OK'')"

text \<open>Where a connection thread stands: reading the command; registered but not answered; leased;
  draining requested; shutdown requested; answered \<open>STOPPING\<close>; closed.\<close>

datatype conn_phase = Conn_reading | Conn_registered | Conn_leased | Conn_drain | Conn_shutdown | Conn_stopping | Conn_closed

record connection =
  cn_phase :: conn_phase
  cn_sent :: "string list"

text \<open>A data RPC: past the critical section of \<open>admit_rpc\<close>; with \<open>release\<close> registered; released;
  rejected. \<open>release\<close> sets its flag before it decrements the counter, in two steps.\<close>

datatype rpc_phase = Rpc_counted | Rpc_active | Rpc_releasing | Rpc_released | Rpc_rejected

text \<open>The main thread: starting; serving (control started); in the \<open>finally\<close> block before and after
  \<open>wait_for_idle\<close>; with executor, membership and repositories closed; stopped.\<close>

datatype main_phase = Main_starting | Main_serving | Main_draining | Main_idle | Main_closed | Main_stopped

record node_system =
  ns_controller :: drain_controller
  ns_conns :: "connection list"
  ns_rpcs :: "rpc_phase list"
  ns_shutdown_requested :: bool
  ns_started :: bool
  ns_main :: main_phase

definition new_node :: node_system where
  "new_node = \<lparr>ns_controller = new_controller, ns_conns = [], ns_rpcs = [], ns_shutdown_requested = False,
     ns_started = False, ns_main = Main_starting\<rparr>"

definition set_conn :: "nat \<Rightarrow> conn_phase \<Rightarrow> string list \<Rightarrow> node_system \<Rightarrow> node_system" where
  "set_conn i ph sent s =
     s\<lparr>ns_conns := (ns_conns s)[i := \<lparr>cn_phase = ph, cn_sent = cn_sent (ns_conns s ! i) @ sent\<rparr>]\<rparr>"

definition set_rpc :: "nat \<Rightarrow> rpc_phase \<Rightarrow> node_system \<Rightarrow> node_system" where
  "set_rpc i ph s = s\<lparr>ns_rpcs := (ns_rpcs s)[i := ph]\<rparr>"

definition conn_at :: "node_system \<Rightarrow> nat \<Rightarrow> conn_phase \<Rightarrow> bool" where
  "conn_at s i ph \<longleftrightarrow> i < length (ns_conns s) \<and> cn_phase (ns_conns s ! i) = ph"

definition rpc_at :: "node_system \<Rightarrow> nat \<Rightarrow> rpc_phase \<Rightarrow> bool" where
  "rpc_at s i ph \<longleftrightarrow> i < length (ns_rpcs s) \<and> ns_rpcs s ! i = ph"

definition with_controller :: "drain_controller \<Rightarrow> node_system \<Rightarrow> node_system" where
  "with_controller c s = s\<lparr>ns_controller := c\<rparr>"

text \<open>\<open>delivered\<close>: a send either delivers its line or fails with nothing delivered.\<close>

inductive node_step :: "string \<Rightarrow> string \<Rightarrow> node_system \<Rightarrow> node_system \<Rightarrow> bool" for node_id addr where
  accept: "ns_started s \<Longrightarrow> node_step node_id addr s (s\<lparr>ns_conns := ns_conns s @ [\<lparr>cn_phase = Conn_reading, cn_sent = []\<rparr>]\<rparr>)"
| read_fails: "conn_at s i Conn_reading \<Longrightarrow> node_step node_id addr s (set_conn i Conn_closed [] s)"
| unknown: "conn_at s i Conn_reading \<Longrightarrow> recv_line stream = Inr (line, rest) \<Longrightarrow> parse_command line = Unknown_command \<Longrightarrow>
    sent \<in> {[''ERROR''], []} \<Longrightarrow> node_step node_id addr s (set_conn i Conn_closed sent s)"
| refused: "conn_at s i Conn_reading \<Longrightarrow> recv_line stream = Inr (line, rest) \<Longrightarrow> parse_command line = BEGIN \<Longrightarrow>
    try_begin_local_operation (ns_controller s) = (False, c) \<Longrightarrow>
    sent \<in> {[''DRAINING''], []} \<Longrightarrow> node_step node_id addr s (set_conn i Conn_closed sent (with_controller c s))"
| registered: "conn_at s i Conn_reading \<Longrightarrow> recv_line stream = Inr (line, rest) \<Longrightarrow> parse_command line = BEGIN \<Longrightarrow>
    try_begin_local_operation (ns_controller s) = (True, c) \<Longrightarrow>
    node_step node_id addr s (set_conn i Conn_registered [] (with_controller c s))"
| leased: "conn_at s i Conn_registered \<Longrightarrow> node_step node_id addr s (set_conn i Conn_leased [begin_response node_id addr] s)"
| lease_ends: "conn_at s i Conn_registered \<or> conn_at s i Conn_leased \<Longrightarrow>
    end_local_operation (ns_controller s) = (r, c) \<Longrightarrow> node_step node_id addr s (set_conn i Conn_closed [] (with_controller c s))"
| stop: "conn_at s i Conn_reading \<Longrightarrow> recv_line stream = Inr (line, rest) \<Longrightarrow> parse_command line = STOP \<Longrightarrow>
    request_draining (ns_controller s) = (b, c) \<Longrightarrow>
    node_step node_id addr s (set_conn i Conn_drain [] (with_controller c s))"
| stop_shutdown: "conn_at s i Conn_drain \<Longrightarrow>
    node_step node_id addr s (set_conn i Conn_shutdown [] (s\<lparr>ns_shutdown_requested := True\<rparr>))"
| stop_answer: "conn_at s i Conn_shutdown \<Longrightarrow> node_step node_id addr s (set_conn i Conn_stopping [''STOPPING''] s)"
| stop_answer_fails: "conn_at s i Conn_shutdown \<Longrightarrow> node_step node_id addr s (set_conn i Conn_closed [] s)"
| stop_done: "conn_at s i Conn_stopping \<Longrightarrow> dc_stopped (ns_controller s) \<Longrightarrow>
    sent \<in> {[''STOPPED''], []} \<Longrightarrow> node_step node_id addr s (set_conn i Conn_closed sent s)"
| rpc_rejected: "ns_started s \<Longrightarrow> admit_rpc_enter (ns_controller s) = (Inl e, c) \<Longrightarrow>
    node_step node_id addr s (with_controller c s\<lparr>ns_rpcs := ns_rpcs s @ [Rpc_rejected]\<rparr>)"
| rpc_counted: "ns_started s \<Longrightarrow> admit_rpc_enter (ns_controller s) = (Inr u, c) \<Longrightarrow>
    node_step node_id addr s (with_controller c s\<lparr>ns_rpcs := ns_rpcs s @ [Rpc_counted]\<rparr>)"
| rpc_registered: "rpc_at s i Rpc_counted \<Longrightarrow> node_step node_id addr s (set_rpc i Rpc_active s)"
| rpc_release: "rpc_at s i Rpc_counted \<or> rpc_at s i Rpc_active \<Longrightarrow> node_step node_id addr s (set_rpc i Rpc_releasing s)"
| rpc_released: "rpc_at s i Rpc_releasing \<Longrightarrow> release_rpc (ns_controller s) = (r, c) \<Longrightarrow>
    node_step node_id addr s (set_rpc i Rpc_released (with_controller c s))"
| signalled: "request_draining (ns_controller s) = (b, c) \<Longrightarrow>
    node_step node_id addr s (with_controller c s\<lparr>ns_shutdown_requested := True\<rparr>)"
| main_start: "ns_main s = Main_starting \<Longrightarrow> node_step node_id addr s (s\<lparr>ns_started := True, ns_main := Main_serving\<rparr>)"
| main_drain: "ns_main s = Main_starting \<or> ns_main s = Main_serving \<Longrightarrow> request_draining (ns_controller s) = (b, c) \<Longrightarrow>
    node_step node_id addr s (with_controller c s\<lparr>ns_main := Main_draining\<rparr>)"
| main_idle: "ns_main s = Main_draining \<Longrightarrow> (ns_started s \<Longrightarrow> is_idle (ns_controller s)) \<Longrightarrow>
    node_step node_id addr s (s\<lparr>ns_main := Main_idle\<rparr>)"
| main_close: "ns_main s = Main_idle \<Longrightarrow> node_step node_id addr s (s\<lparr>ns_main := Main_closed\<rparr>)"
| main_stop: "ns_main s = Main_closed \<Longrightarrow>
    node_step node_id addr s (with_controller (mark_stopped (ns_controller s)) s\<lparr>ns_main := Main_stopped\<rparr>)"

section \<open>Admitted work is counted\<close>

definition holds_lease :: "connection \<Rightarrow> bool" where
  "holds_lease c \<longleftrightarrow> cn_phase c = Conn_registered \<or> cn_phase c = Conn_leased"

definition rpc_counted_phase :: "rpc_phase \<Rightarrow> bool" where
  "rpc_counted_phase ph \<longleftrightarrow> ph = Rpc_counted \<or> ph = Rpc_active \<or> ph = Rpc_releasing"

definition leases :: "node_system \<Rightarrow> nat" where
  "leases s = length (filter holds_lease (ns_conns s))"

definition running_rpcs :: "node_system \<Rightarrow> nat" where
  "running_rpcs s = length (filter rpc_counted_phase (ns_rpcs s))"

text \<open>Past \<open>wait_for_idle\<close>.\<close>

definition past_wait :: "node_system \<Rightarrow> bool" where
  "past_wait s \<longleftrightarrow> ns_main s = Main_idle \<or> ns_main s = Main_closed \<or> ns_main s = Main_stopped"

definition drain_inv :: "node_system \<Rightarrow> bool" where
  "drain_inv s \<longleftrightarrow>
     dc_active_local_operations (ns_controller s) = int (leases s) \<and>
     dc_active_rpcs (ns_controller s) = int (running_rpcs s) \<and>
     (\<not> ns_started s \<longrightarrow> ns_conns s = [] \<and> ns_rpcs s = []) \<and>
     (ns_main s = Main_draining \<or> past_wait s \<longrightarrow> dc_draining (ns_controller s)) \<and>
     (past_wait s \<longrightarrow> leases s = 0 \<and> running_rpcs s = 0) \<and>
     (dc_stopped (ns_controller s) \<longrightarrow> ns_main s = Main_stopped) \<and>
     (\<forall>c \<in> set (ns_conns s). ''STOPPED'' \<in> set (cn_sent c) \<longrightarrow> dc_stopped (ns_controller s))"

lemma filter_length_update:
  "i < length xs \<Longrightarrow> length (filter P (xs[i := y])) + (if P (xs ! i) then 1 else 0) = length (filter P xs) + (if P y then 1 else 0)"
proof (induction xs arbitrary: i)
  case (Cons x xs)
  then show ?case by (cases i) auto
qed simp

lemma with_controller_simps [simp]:
  "ns_controller (with_controller c s) = c" "ns_conns (with_controller c s) = ns_conns s" "ns_rpcs (with_controller c s) = ns_rpcs s"
  "ns_main (with_controller c s) = ns_main s" "ns_started (with_controller c s) = ns_started s"
  "past_wait (with_controller c s) = past_wait s" "leases (with_controller c s) = leases s"
  "running_rpcs (with_controller c s) = running_rpcs s" "conn_at (with_controller c s) = conn_at s"
  by (simp_all add: with_controller_def past_wait_def leases_def running_rpcs_def conn_at_def fun_eq_iff)

lemma set_conn_simps [simp]:
  "ns_controller (set_conn i ph o1 s) = ns_controller s" "ns_rpcs (set_conn i ph o1 s) = ns_rpcs s"
  "ns_main (set_conn i ph o1 s) = ns_main s" "ns_started (set_conn i ph o1 s) = ns_started s"
  "past_wait (set_conn i ph o1 s) = past_wait s" "running_rpcs (set_conn i ph o1 s) = running_rpcs s"
  by (simp_all add: set_conn_def past_wait_def running_rpcs_def)

lemma set_rpc_simps [simp]:
  "ns_controller (set_rpc i ph s) = ns_controller s" "ns_conns (set_rpc i ph s) = ns_conns s"
  "ns_main (set_rpc i ph s) = ns_main s" "ns_started (set_rpc i ph s) = ns_started s"
  "past_wait (set_rpc i ph s) = past_wait s" "leases (set_rpc i ph s) = leases s"
  by (simp_all add: set_rpc_def past_wait_def leases_def)

text \<open>The count of leases after a connection changes phase.\<close>

lemma leases_set_conn:
  assumes "conn_at s i old"
  shows "int (leases (set_conn i ph sent s)) = int (leases s)
    - (if old = Conn_registered \<or> old = Conn_leased then 1 else 0) + (if ph = Conn_registered \<or> ph = Conn_leased then 1 else 0)"
  using filter_length_update [of i "ns_conns s" holds_lease "\<lparr>cn_phase = ph, cn_sent = cn_sent (ns_conns s ! i) @ sent\<rparr>"] assms
  by (auto simp: leases_def set_conn_def conn_at_def holds_lease_def split: if_splits)

lemma rpcs_set_rpc:
  assumes "rpc_at s i old"
  shows "int (running_rpcs (set_rpc i ph s)) = int (running_rpcs s)
    - (if rpc_counted_phase old then 1 else 0) + (if rpc_counted_phase ph then 1 else 0)"
  using filter_length_update [of i "ns_rpcs s" rpc_counted_phase ph] assms
  by (auto simp: running_rpcs_def set_rpc_def rpc_at_def split: if_splits)

lemma leases_pos: "conn_at s i ph \<Longrightarrow> ph = Conn_registered \<or> ph = Conn_leased \<Longrightarrow> 0 < leases s"
  unfolding leases_def conn_at_def using nth_mem by (fastforce simp: filter_empty_conv holds_lease_def)

lemma rpcs_pos: "rpc_at s i ph \<Longrightarrow> rpc_counted_phase ph \<Longrightarrow> 0 < running_rpcs s"
  unfolding running_rpcs_def rpc_at_def using nth_mem by (fastforce simp: filter_empty_conv)

lemma sent_set_conn:
  assumes "c \<in> set (ns_conns (set_conn i ph sent s))" "x \<in> set (cn_sent c)" "conn_at s i old"
  shows "x \<in> set sent \<or> (\<exists>d \<in> set (ns_conns s). x \<in> set (cn_sent d))"
proof -
  have "c = \<lparr>cn_phase = ph, cn_sent = cn_sent (ns_conns s ! i) @ sent\<rparr> \<or> c \<in> set (ns_conns s)"
    using assms(1) set_update_subset_insert [of "ns_conns s" i] by (auto simp: set_conn_def)
  then show ?thesis using assms(2,3) by (auto simp: conn_at_def)
qed

lemma begin_response_not_stopped: "begin_response n a \<noteq> ''STOPPED''"
  by (simp add: begin_response_def)

lemmas controller_defs = try_begin_local_operation_def end_local_operation_def admit_rpc_enter_def release_rpc_def
  request_draining_def mark_stopped_def is_idle_def

text \<open>Every step of a connection keeps the invariant when it keeps the counter in step.\<close>

lemma drain_inv_conn:
  assumes "drain_inv s" "conn_at s i old"
    and "dc_active_local_operations c = int (leases (set_conn i ph sent s))"
    and "dc_active_rpcs c = dc_active_rpcs (ns_controller s)"
    and "dc_draining (ns_controller s) \<longrightarrow> dc_draining c" "dc_stopped c = dc_stopped (ns_controller s)"
    and "''STOPPED'' \<in> set sent \<longrightarrow> dc_stopped (ns_controller s)"
    and "past_wait s \<longrightarrow> leases (set_conn i ph sent s) = 0"
  shows "drain_inv (set_conn i ph sent (with_controller c s))"
proof -
  have l: "leases (set_conn i ph sent (with_controller c s)) = leases (set_conn i ph sent s)"
    "ns_conns (set_conn i ph sent (with_controller c s)) = ns_conns (set_conn i ph sent s)"
    by (simp_all add: leases_def set_conn_def)
  have "\<forall>d \<in> set (ns_conns (set_conn i ph sent s)). ''STOPPED'' \<in> set (cn_sent d) \<longrightarrow> dc_stopped c"
    using sent_set_conn [OF _ _ assms(2)] assms(1,6,7) unfolding drain_inv_def by metis
  moreover have "ns_started s" using assms(1,2) by (auto simp: drain_inv_def conn_at_def)
  ultimately show ?thesis using assms unfolding drain_inv_def by (auto simp: l)
qed

lemma with_same_controller [simp]: "with_controller (ns_controller s) s = s"
  by (simp add: with_controller_def)

lemma drain_inv_rpc:
  assumes "drain_inv s" "rpc_at s i old"
    and "dc_active_rpcs c = int (running_rpcs (set_rpc i ph s))"
    and "c = (ns_controller s)\<lparr>dc_active_rpcs := dc_active_rpcs c\<rparr>"
    and "past_wait s \<longrightarrow> running_rpcs (set_rpc i ph s) = 0"
  shows "drain_inv (set_rpc i ph (with_controller c s))"
proof -
  have l: "running_rpcs (set_rpc i ph (with_controller c s)) = running_rpcs (set_rpc i ph s)"
    by (simp add: running_rpcs_def set_rpc_def)
  have c: "dc_active_local_operations c = dc_active_local_operations (ns_controller s)"
    "dc_draining c = dc_draining (ns_controller s)" "dc_stopped c = dc_stopped (ns_controller s)"
    by (subst assms(4), simp)+
  have "ns_started s" using assms(1,2) by (auto simp: drain_inv_def rpc_at_def)
  then show ?thesis using assms(1,3,5) unfolding drain_inv_def by (auto simp: l c)
qed

lemma drain_inv_quiet:
  assumes "drain_inv s" "conn_at s i old"
    and old: "\<not> (old = Conn_registered \<or> old = Conn_leased)" and ph: "\<not> (ph = Conn_registered \<or> ph = Conn_leased)"
    and "''STOPPED'' \<in> set sent \<longrightarrow> dc_stopped (ns_controller s)"
    and c: "c = ns_controller s \<or> c = (ns_controller s)\<lparr>dc_draining := True\<rparr>"
  shows "drain_inv (set_conn i ph sent (with_controller c s))"
proof (rule drain_inv_conn [OF assms(1,2)])
  have "leases (set_conn i ph sent s) = leases s"
    using leases_set_conn [OF assms(2), of ph sent] unfolding if_not_P [OF old] if_not_P [OF ph] by simp
  then show "dc_active_local_operations c = int (leases (set_conn i ph sent s))"
    "past_wait s \<longrightarrow> leases (set_conn i ph sent s) = 0"
    using assms(1) c by (auto simp: drain_inv_def)
qed (use assms(5) c in auto)

lemma drain_inv_silent:
  assumes "drain_inv s" "conn_at s i old" "old \<notin> {Conn_registered, Conn_leased}" "ph \<notin> {Conn_registered, Conn_leased}"
    and "''STOPPED'' \<in> set sent \<longrightarrow> dc_stopped (ns_controller s)"
  shows "drain_inv (set_conn i ph sent s)"
  using drain_inv_quiet [OF assms(1,2) _ _ assms(5), of ph "ns_controller s"] assms(3,4) by simp

lemma drain_inv_main:
  assumes "drain_inv s"
    and "dc_active_local_operations c = dc_active_local_operations (ns_controller s)"
    and "dc_active_rpcs c = dc_active_rpcs (ns_controller s)"
    and "ns_conns t = ns_conns s" "ns_rpcs t = ns_rpcs s" "ns_controller t = c"
    and "ns_started s \<longrightarrow> ns_started t"
    and "ns_main t = Main_draining \<or> past_wait t \<longrightarrow> dc_draining c"
    and "past_wait t \<longrightarrow> leases s = 0 \<and> running_rpcs s = 0"
    and "dc_stopped (ns_controller s) \<longrightarrow> dc_stopped c" "dc_stopped c \<longrightarrow> ns_main t = Main_stopped"
  shows "drain_inv t"
proof -
  have "leases t = leases s" "running_rpcs t = running_rpcs s" using assms(4,5) by (simp_all add: leases_def running_rpcs_def)
  then show ?thesis using assms unfolding drain_inv_def by metis
qed

lemma drain_inv_step_conn:
  assumes "drain_inv s"
  shows "conn_at s i Conn_reading \<Longrightarrow> try_begin_local_operation (ns_controller s) = (True, c) \<Longrightarrow>
      drain_inv (set_conn i Conn_registered [] (with_controller c s))"
    and "conn_at s i Conn_registered \<Longrightarrow> drain_inv (set_conn i Conn_leased [begin_response node_id addr] s)"
    and "conn_at s i Conn_registered \<or> conn_at s i Conn_leased \<Longrightarrow> end_local_operation (ns_controller s) = (r, c) \<Longrightarrow>
      drain_inv (set_conn i Conn_closed [] (with_controller c s))"
proof -
  assume a: "conn_at s i Conn_reading" "try_begin_local_operation (ns_controller s) = (True, c)"
  then have "\<not> dc_draining (ns_controller s)"
    "c = (ns_controller s)\<lparr>dc_active_local_operations := dc_active_local_operations (ns_controller s) + 1\<rparr>"
    by (auto simp: try_begin_local_operation_def split: if_splits)
  then show "drain_inv (set_conn i Conn_registered [] (with_controller c s))"
    using leases_set_conn [OF a(1), of Conn_registered "[]"] assms
    by (intro drain_inv_conn [OF assms a(1)]) (auto simp: drain_inv_def)
next
  assume a: "conn_at s i Conn_registered"
  have "0 < leases s" using leases_pos [OF a] by simp
  moreover have "int (leases (set_conn i Conn_leased [begin_response node_id addr] s)) = int (leases s)"
    using leases_set_conn [OF a, of Conn_leased "[begin_response node_id addr]"] by simp
  ultimately show "drain_inv (set_conn i Conn_leased [begin_response node_id addr] s)"
    using drain_inv_conn [OF assms a, of "ns_controller s" Conn_leased "[begin_response node_id addr]"] assms
      begin_response_not_stopped [of node_id addr] by (auto simp: drain_inv_def)
next
  assume a: "conn_at s i Conn_registered \<or> conn_at s i Conn_leased" "end_local_operation (ns_controller s) = (r, c)"
  then obtain old where old: "conn_at s i old" "old = Conn_registered \<or> old = Conn_leased" by blast
  have "0 < leases s" using leases_pos [OF old] .
  then have "c = (ns_controller s)\<lparr>dc_active_local_operations := int (leases s) - 1\<rparr>" "\<not> past_wait s"
    using a(2) assms by (auto simp: end_local_operation_def drain_inv_def split: if_splits)
  then show "drain_inv (set_conn i Conn_closed [] (with_controller c s))"
    using leases_set_conn [OF old(1), of Conn_closed "[]"] old(2) by (intro drain_inv_conn [OF assms old(1)]) auto
qed

lemma drain_inv_step_rpc:
  assumes "drain_inv s"
  shows "ns_started s \<Longrightarrow> admit_rpc_enter (ns_controller s) = (Inr u, c) \<Longrightarrow>
      drain_inv (with_controller c s\<lparr>ns_rpcs := ns_rpcs s @ [Rpc_counted]\<rparr>)"
    and "ns_started s \<Longrightarrow> admit_rpc_enter (ns_controller s) = (Inl e, c) \<Longrightarrow>
      drain_inv (with_controller c s\<lparr>ns_rpcs := ns_rpcs s @ [Rpc_rejected]\<rparr>)"
    and "rpc_at s i old \<Longrightarrow> rpc_counted_phase old \<Longrightarrow> rpc_counted_phase ph \<Longrightarrow> drain_inv (set_rpc i ph s)"
    and "rpc_at s i Rpc_releasing \<Longrightarrow> release_rpc (ns_controller s) = (r, c) \<Longrightarrow>
      drain_inv (set_rpc i Rpc_released (with_controller c s))"
proof -
  show "drain_inv (with_controller c s\<lparr>ns_rpcs := ns_rpcs s @ [Rpc_counted]\<rparr>)"
    if "ns_started s" "admit_rpc_enter (ns_controller s) = (Inr u, c)"
    using that assms by (auto simp: drain_inv_def admit_rpc_enter_def running_rpcs_def leases_def past_wait_def
        rpc_counted_phase_def split: if_splits)
  show "drain_inv (with_controller c s\<lparr>ns_rpcs := ns_rpcs s @ [Rpc_rejected]\<rparr>)"
    if "ns_started s" "admit_rpc_enter (ns_controller s) = (Inl e, c)"
    using that assms by (auto simp: drain_inv_def admit_rpc_enter_def running_rpcs_def leases_def past_wait_def
        rpc_counted_phase_def split: if_splits)
  show "drain_inv (set_rpc i ph s)" if a: "rpc_at s i old" "rpc_counted_phase old" "rpc_counted_phase ph"
    using rpcs_set_rpc [OF a(1), of ph] a assms drain_inv_rpc [OF assms a(1), of "ns_controller s" ph]
    by (simp add: drain_inv_def)
  show "drain_inv (set_rpc i Rpc_released (with_controller c s))"
    if a: "rpc_at s i Rpc_releasing" "release_rpc (ns_controller s) = (r, c)"
  proof -
    have "0 < running_rpcs s" using rpcs_pos [OF a(1)] by (simp add: rpc_counted_phase_def)
    then have "c = (ns_controller s)\<lparr>dc_active_rpcs := int (running_rpcs s) - 1\<rparr>" "\<not> past_wait s"
      using a(2) assms by (auto simp: release_rpc_def drain_inv_def split: if_splits)
    then show ?thesis using rpcs_set_rpc [OF a(1), of Rpc_released]
      by (intro drain_inv_rpc [OF assms a(1)]) (auto simp: rpc_counted_phase_def)
  qed
qed

lemma drain_inv_step:
  assumes "drain_inv s" "node_step node_id addr s t"
  shows "drain_inv t"
  using assms(2)
proof (cases rule: node_step.cases)
  case accept
  then show ?thesis using assms(1) by (auto simp: drain_inv_def leases_def running_rpcs_def past_wait_def holds_lease_def)
next
  case (read_fails i)
  then show ?thesis by (auto intro: drain_inv_silent [OF assms(1)])
next
  case (unknown i stream line rest sent)
  then show ?thesis by (auto intro: drain_inv_silent [OF assms(1)])
next
  case (refused i stream line rest c sent)
  then show ?thesis
    by (auto intro!: drain_inv_quiet [OF assms(1)] simp: try_begin_local_operation_def split: if_splits)
next
  case (stop i stream line rest b c)
  then show ?thesis by (auto intro!: drain_inv_quiet [OF assms(1)] simp: request_draining_def)
next
  case (stop_shutdown i)
  have "drain_inv (s\<lparr>ns_shutdown_requested := True\<rparr>)" using assms(1)
    by (simp add: drain_inv_def leases_def running_rpcs_def past_wait_def)
  moreover have "conn_at (s\<lparr>ns_shutdown_requested := True\<rparr>) i Conn_drain" using stop_shutdown(2) by (simp add: conn_at_def)
  ultimately show ?thesis unfolding stop_shutdown(1) by (rule drain_inv_silent) simp_all
next
  case (stop_answer i)
  then show ?thesis by (auto intro: drain_inv_silent [OF assms(1)])
next
  case (stop_answer_fails i)
  then show ?thesis by (auto intro: drain_inv_silent [OF assms(1)])
next
  case (stop_done i sent)
  then show ?thesis by (auto intro: drain_inv_silent [OF assms(1)])
next
  case (rpc_release i)
  then show ?thesis using drain_inv_step_rpc(3) [OF assms(1), of i] by (auto simp: rpc_counted_phase_def)
next
  case (rpc_registered i)
  then show ?thesis using drain_inv_step_rpc(3) [OF assms(1), of i] by (auto simp: rpc_counted_phase_def)
next
  case (signalled b c)
  then have c: "c = (ns_controller s)\<lparr>dc_draining := True\<rparr>" by (simp add: request_draining_def)
  show ?thesis unfolding signalled(1)
    by (rule drain_inv_main [OF assms(1), of c]; use assms(1) in \<open>simp add: c drain_inv_def past_wait_def; force?\<close>)
next
  case main_start
  then show ?thesis using assms(1) by (intro drain_inv_main [OF assms(1) refl refl]) (auto simp: drain_inv_def past_wait_def)
next
  case (main_drain b c)
  then have c: "c = (ns_controller s)\<lparr>dc_draining := True\<rparr>" by (simp add: request_draining_def)
  show ?thesis unfolding main_drain(1)
    by (rule drain_inv_main [OF assms(1), of c]; use assms(1) main_drain(2) in \<open>simp add: c drain_inv_def past_wait_def; force?\<close>)
next
  case main_idle
  have "leases s = 0 \<and> running_rpcs s = 0"
    using main_idle(3) assms(1) by (cases "ns_started s") (auto simp: drain_inv_def is_idle_def leases_def running_rpcs_def)
  then show ?thesis using assms(1) main_idle
    by (intro drain_inv_main [OF assms(1) refl refl]) (auto simp: drain_inv_def past_wait_def)
next
  case main_close
  then show ?thesis using assms(1) by (intro drain_inv_main [OF assms(1) refl refl]) (auto simp: drain_inv_def past_wait_def)
next
  case main_stop
  then show ?thesis using assms(1)
    by (intro drain_inv_main [OF assms(1), of "mark_stopped (ns_controller s)"]) (auto simp: drain_inv_def past_wait_def mark_stopped_def)
qed (use drain_inv_step_conn [OF assms(1)] drain_inv_step_rpc [OF assms(1)] in blast)+

interpretation draining: inv_system "\<lambda>s. s = new_node" "node_step node_id addr" drain_inv for node_id addr
proof unfold_locales
  show "drain_inv s" if "s = new_node" for s
    using that by (simp add: drain_inv_def new_node_def new_controller_def leases_def running_rpcs_def past_wait_def)
qed (blast intro: drain_inv_step)

text \<open>What the counters promise: the checks for an incoherent counter never fire.\<close>

lemma releases_succeed:
  assumes "drain_inv s"
  shows "conn_at s i ph \<Longrightarrow> ph = Conn_registered \<or> ph = Conn_leased \<Longrightarrow> fst (end_local_operation (ns_controller s)) = Inr ()"
    and "rpc_at s j Rpc_releasing \<Longrightarrow> fst (release_rpc (ns_controller s)) = Inr ()"
  using assms leases_pos [of s i ph] rpcs_pos [of s j Rpc_releasing]
  by (auto simp: drain_inv_def end_local_operation_def release_rpc_def rpc_counted_phase_def)

section \<open>The admission barrier\<close>

text \<open>Work that is admitted and not finished, by its thread.\<close>

definition active_conns :: "node_system \<Rightarrow> nat set" where
  "active_conns s = {i. i < length (ns_conns s) \<and> holds_lease (ns_conns s ! i)}"

definition active_rpc_set :: "node_system \<Rightarrow> nat set" where
  "active_rpc_set s = {i. i < length (ns_rpcs s) \<and> rpc_counted_phase (ns_rpcs s ! i)}"

lemma active_set_conn:
  assumes "conn_at s i old" "holds_lease \<lparr>cn_phase = ph, cn_sent = []\<rparr> \<longrightarrow> old = Conn_registered \<or> old = Conn_leased"
  shows "active_conns (set_conn i ph sent (with_controller c s)) \<subseteq> active_conns s"
  using assms by (auto simp: active_conns_def set_conn_def conn_at_def holds_lease_def nth_list_update split: if_splits)

lemma active_set_rpc:
  assumes "rpc_at s i old" "rpc_counted_phase ph \<longrightarrow> rpc_counted_phase old"
  shows "active_rpc_set (set_rpc i ph (with_controller c s)) \<subseteq> active_rpc_set s"
  using assms by (auto simp: active_rpc_set_def set_rpc_def rpc_at_def nth_list_update split: if_splits)

lemma active_other [simp]:
  "active_rpc_set (set_conn i ph sent s) = active_rpc_set s" "active_conns (set_rpc i rph s) = active_conns s"
  "active_rpc_set (with_controller c s) = active_rpc_set s" "active_conns (with_controller c s) = active_conns s"
  "active_conns (s\<lparr>ns_rpcs := rs\<rparr>) = active_conns s" "active_rpc_set (s\<lparr>ns_conns := cs\<rparr>) = active_rpc_set s"
  "active_conns (s\<lparr>ns_main := m\<rparr>) = active_conns s" "active_rpc_set (s\<lparr>ns_main := m\<rparr>) = active_rpc_set s"
  "active_conns (s\<lparr>ns_shutdown_requested := b\<rparr>) = active_conns s" "active_rpc_set (s\<lparr>ns_shutdown_requested := b\<rparr>) = active_rpc_set s"
  "active_conns (s\<lparr>ns_controller := c\<rparr>) = active_conns s" "active_rpc_set (s\<lparr>ns_controller := c\<rparr>) = active_rpc_set s"
  "active_conns (s\<lparr>ns_started := b\<rparr>) = active_conns s" "active_rpc_set (s\<lparr>ns_started := b\<rparr>) = active_rpc_set s"
  by (simp_all add: active_conns_def active_rpc_set_def set_conn_def set_rpc_def with_controller_def)

lemma active_accept:
  "active_conns (s\<lparr>ns_conns := ns_conns s @ [\<lparr>cn_phase = Conn_reading, cn_sent = []\<rparr>]\<rparr>) = active_conns s"
  "active_rpc_set (s\<lparr>ns_rpcs := ns_rpcs s @ [Rpc_rejected]\<rparr>) = active_rpc_set s"
  by (auto simp: active_conns_def active_rpc_set_def nth_append less_Suc_eq holds_lease_def rpc_counted_phase_def)

definition barrier :: "node_system \<Rightarrow> node_system \<Rightarrow> bool" where
  "barrier s t \<longleftrightarrow> dc_draining (ns_controller t) \<and> active_conns t \<subseteq> active_conns s \<and> active_rpc_set t \<subseteq> active_rpc_set s"

lemma barrier_set_conn:
  assumes "conn_at s i old" "holds_lease \<lparr>cn_phase = ph, cn_sent = []\<rparr> \<longrightarrow> old = Conn_registered \<or> old = Conn_leased"
    and "dc_draining c"
  shows "barrier s (set_conn i ph sent (with_controller c s))"
  using active_set_conn [OF assms(1,2)] assms(3) by (simp add: barrier_def)

lemma barrier_set_rpc:
  assumes "rpc_at s i old" "rpc_counted_phase ph \<longrightarrow> rpc_counted_phase old" "dc_draining c"
  shows "barrier s (set_rpc i ph (with_controller c s))"
  using active_set_rpc [OF assms(1,2)] assms(3) by (simp add: barrier_def)

lemma barrier_step:
  assumes "node_step node_id addr s t" "dc_draining (ns_controller s)"
  shows "barrier s t"
  using assms(1)
proof (cases rule: node_step.cases)
  case (read_fails i)
  then show ?thesis using barrier_set_conn [OF read_fails(2), of Conn_closed "ns_controller s"] assms(2) by (simp add: holds_lease_def)
next
  case (unknown i stream line rest sent)
  then show ?thesis using barrier_set_conn [OF unknown(2), of Conn_closed "ns_controller s"] assms(2) by (simp add: holds_lease_def)
next
  case (leased i)
  then show ?thesis using barrier_set_conn [OF leased(2), of Conn_leased "ns_controller s"] assms(2) by simp
next
  case (lease_ends i r c)
  then have "dc_draining c" using assms(2) by (auto simp: end_local_operation_def split: if_splits)
  then show ?thesis using lease_ends barrier_set_conn [of s i _ Conn_closed c] by (auto simp: holds_lease_def)
next
  case (stop i stream line rest b c)
  then show ?thesis using barrier_set_conn [OF stop(2), of Conn_drain c] by (auto simp: holds_lease_def request_draining_def)
next
  case (stop_shutdown i)
  have "conn_at (s\<lparr>ns_shutdown_requested := True\<rparr>) i Conn_drain" using stop_shutdown(2) by (simp add: conn_at_def)
  from barrier_set_conn [OF this, of Conn_shutdown "ns_controller s" "[]"] show ?thesis
    using assms(2) stop_shutdown(1) with_same_controller [of "s\<lparr>ns_shutdown_requested := True\<rparr>"]
    by (simp add: holds_lease_def barrier_def)
next
  case (stop_answer i)
  then show ?thesis using barrier_set_conn [OF stop_answer(2), of Conn_stopping "ns_controller s"] assms(2) by (simp add: holds_lease_def)
next
  case (stop_answer_fails i)
  then show ?thesis using barrier_set_conn [OF stop_answer_fails(2), of Conn_closed "ns_controller s"] assms(2) by (simp add: holds_lease_def)
next
  case (stop_done i sent)
  then show ?thesis using barrier_set_conn [OF stop_done(2), of Conn_closed "ns_controller s"] assms(2) by (simp add: holds_lease_def)
next
  case (refused i stream line rest c sent)
  then show ?thesis using barrier_set_conn [OF refused(2), of Conn_closed c] assms(2)
    by (auto simp: holds_lease_def try_begin_local_operation_def split: if_splits)
next
  case (rpc_registered i)
  then show ?thesis using barrier_set_rpc [OF rpc_registered(2), of Rpc_active "ns_controller s"] assms(2) by (simp add: rpc_counted_phase_def)
next
  case (rpc_release i)
  then show ?thesis using barrier_set_rpc [of s i _ Rpc_releasing "ns_controller s"] assms(2) by (auto simp: rpc_counted_phase_def)
next
  case (rpc_released i r c)
  then have "dc_draining c" using assms(2) by (auto simp: release_rpc_def split: if_splits)
  then show ?thesis using barrier_set_rpc [OF rpc_released(2), of Rpc_released c] rpc_released by (auto simp: rpc_counted_phase_def)
qed (use assms(2) in \<open>auto simp: barrier_def controller_defs active_accept with_controller_def split: if_splits\<close>)

lemma barrier_refl: "dc_draining (ns_controller s) \<Longrightarrow> barrier s s"
  by (simp add: barrier_def)

lemma barrier_steps:
  assumes "(node_step node_id addr)\<^sup>*\<^sup>* s t" "dc_draining (ns_controller s)"
  shows "barrier s t"
  using assms(1)
proof (induction rule: rtranclp_induct)
  case (step t u)
  then have "barrier t u" using barrier_step [OF step.hyps(2)] by (simp add: barrier_def)
  with step.IH show ?case by (auto simp: barrier_def)
qed (rule barrier_refl [OF assms(2)])

lemma active_sets_empty:
  "leases s = 0 \<Longrightarrow> active_conns s = {}" "running_rpcs s = 0 \<Longrightarrow> active_rpc_set s = {}"
  by (auto simp: leases_def running_rpcs_def active_conns_def active_rpc_set_def filter_empty_conv)

text \<open>C20. Orderly shutdown, under every interleaving of connections, data RPCs, signals and the main
  thread. Once the main thread has passed \<open>wait_for_idle\<close> (and only then are the executor and the
  repositories closed) no admitted operation or RPC is unfinished, and none is admitted in any later
  state; a client is told \<open>STOPPED\<close> only after the node has stopped; and finishing an operation or an
  RPC never meets an incoherent counter.\<close>

theorem orderly_shutdown:
  assumes "(node_step node_id addr)\<^sup>*\<^sup>* new_node s"
  shows "(past_wait s \<longrightarrow> (\<forall>t. (node_step node_id addr)\<^sup>*\<^sup>* s t \<longrightarrow>
        active_conns t = {} \<and> active_rpc_set t = {} \<and> dc_draining (ns_controller t))) \<and>
     (\<forall>c \<in> set (ns_conns s). ''STOPPED'' \<in> set (cn_sent c) \<longrightarrow> ns_main s = Main_stopped) \<and>
     (\<forall>i \<in> active_conns s. fst (end_local_operation (ns_controller s)) = Inr ()) \<and>
     (\<forall>j. rpc_at s j Rpc_releasing \<longrightarrow> fst (release_rpc (ns_controller s)) = Inr ())"
proof (intro conjI impI allI ballI)
  have inv: "drain_inv s" using draining.inv_reachable [OF refl assms] .
  fix t assume past: "past_wait s" and steps: "(node_step node_id addr)\<^sup>*\<^sup>* s t"
  have "leases s = 0" "running_rpcs s = 0" "dc_draining (ns_controller s)" using inv past by (auto simp: drain_inv_def)
  then show "active_conns t = {}" "active_rpc_set t = {}" "dc_draining (ns_controller t)"
    using barrier_steps [OF steps] active_sets_empty [of s] by (auto simp: barrier_def)
next
  show "ns_main s = Main_stopped" if "c \<in> set (ns_conns s)" "''STOPPED'' \<in> set (cn_sent c)" for c
    using draining.inv_reachable [OF refl assms] that by (auto simp: drain_inv_def)
  show "fst (end_local_operation (ns_controller s)) = Inr ()" if "i \<in> active_conns s" for i
    using that releases_succeed(1) [OF draining.inv_reachable [OF refl assms], of i]
    by (auto simp: active_conns_def holds_lease_def conn_at_def)
  show "fst (release_rpc (ns_controller s)) = Inr ()" if "rpc_at s j Rpc_releasing" for j
    using that by (rule releases_succeed(2) [OF draining.inv_reachable [OF refl assms]])
qed

text \<open>A run: the node starts, a client takes a lease, an RPC is admitted, a signal asks for the
  shutdown, the main thread drains.\<close>

definition demo_started :: node_system where
  "demo_started = new_node\<lparr>ns_started := True, ns_main := Main_serving\<rparr>"

definition demo_connected :: node_system where
  "demo_connected = demo_started\<lparr>ns_conns := ns_conns demo_started @ [\<lparr>cn_phase = Conn_reading, cn_sent = []\<rparr>]\<rparr>"

definition demo_leased :: node_system where
  "demo_leased = set_conn 0 Conn_registered [] (with_controller (snd (try_begin_local_operation (ns_controller demo_connected))) demo_connected)"

definition demo_draining :: node_system where
  "demo_draining = with_controller (snd (request_draining (ns_controller demo_leased))) demo_leased\<lparr>ns_main := Main_draining\<rparr>"

definition demo_ended :: node_system where
  "demo_ended = set_conn 0 Conn_closed [] (with_controller (snd (end_local_operation (ns_controller demo_draining))) demo_draining)"

lemmas demo_defs = demo_started_def demo_connected_def demo_leased_def demo_draining_def demo_ended_def new_node_def
  new_controller_def set_conn_def with_controller_def controller_defs conn_at_def

lemma demo_line: "recv_line (send_line (''BEGIN'' @ [char_of (9 :: nat)] @ ''7'' @ [char_of (9 :: nat)] @ ''backup''))
    = Inr (''BEGIN'' @ [char_of (9 :: nat)] @ ''7'' @ [char_of (9 :: nat)] @ ''backup'', [])"
  by code_simp

lemma demo_command: "parse_command (''BEGIN'' @ [char_of (9 :: nat)] @ ''7'' @ [char_of (9 :: nat)] @ ''backup'') = BEGIN"
  by code_simp

lemma demo_run_draining: "(node_step n a)\<^sup>*\<^sup>* new_node demo_draining"
proof -
  have "node_step n a new_node demo_started" unfolding demo_started_def by (rule node_step.main_start) (simp add: new_node_def)
  moreover have "node_step n a demo_started demo_connected" unfolding demo_connected_def
    by (rule node_step.accept) (simp add: demo_started_def)
  moreover have "node_step n a demo_connected demo_leased" unfolding demo_leased_def
    by (rule node_step.registered [OF _ demo_line demo_command]) (simp_all add: demo_defs)
  moreover have "node_step n a demo_leased demo_draining" unfolding demo_draining_def
    by (rule node_step.main_drain) (simp_all add: demo_defs)
  ultimately show ?thesis by (meson rtranclp.rtrancl_into_rtrancl rtranclp.rtrancl_refl)
qed

lemma demo_run_idle: "(node_step n a)\<^sup>*\<^sup>* new_node (demo_ended\<lparr>ns_main := Main_idle\<rparr>)"
proof -
  have "node_step n a demo_draining demo_ended" unfolding demo_ended_def
    by (rule node_step.lease_ends) (simp_all add: demo_defs)
  moreover have "node_step n a demo_ended (demo_ended\<lparr>ns_main := Main_idle\<rparr>)"
    by (rule node_step.main_idle) (simp_all add: demo_defs)
  ultimately show ?thesis using demo_run_draining by (meson rtranclp.rtrancl_into_rtrancl)
qed

theorem orderly_shutdown_witness:
  "past_wait (demo_ended\<lparr>ns_main := Main_idle\<rparr>) \<and> active_conns (demo_ended\<lparr>ns_main := Main_idle\<rparr>) = {}
   \<and> 0 \<in> active_conns demo_draining \<and> fst (end_local_operation (ns_controller demo_draining)) = Inr ()"
proof -
  have p: "past_wait (demo_ended\<lparr>ns_main := Main_idle\<rparr>)" by (simp add: past_wait_def)
  have "0 \<in> active_conns demo_draining" by (simp add: active_conns_def demo_defs holds_lease_def)
  then show ?thesis
    using p orderly_shutdown [OF demo_run_idle [of "[]" "[]"]] orderly_shutdown [OF demo_run_draining [of "[]" "[]"]] by blast
qed

section \<open>A drain can always finish\<close>

lemma steps_trans: "(node_step n a)\<^sup>*\<^sup>* s t \<Longrightarrow> (node_step n a)\<^sup>*\<^sup>* t u \<Longrightarrow> (node_step n a)\<^sup>*\<^sup>* s u"
  by (rule rtranclp_trans)

text \<open>An unfinished operation or RPC can finish, and the main thread keeps waiting meanwhile.\<close>

lemma lease_can_end:
  assumes "drain_inv s" "0 < leases s"
  shows "\<exists>t. node_step n a s t \<and> leases t < leases s \<and> running_rpcs t = running_rpcs s \<and> ns_main t = ns_main s"
proof -
  obtain c where "c \<in> set (ns_conns s)" "holds_lease c" using assms(2)
    by (auto simp: leases_def filter_empty_conv)
  then obtain i ph where i: "conn_at s i ph" "ph = Conn_registered \<or> ph = Conn_leased"
    by (auto simp: in_set_conv_nth conn_at_def holds_lease_def)
  obtain r c' where e: "end_local_operation (ns_controller s) = (r, c')" by (cases "end_local_operation (ns_controller s)")
  have "node_step n a s (set_conn i Conn_closed [] (with_controller c' s))"
    using i by (intro node_step.lease_ends [OF _ e]) auto
  moreover have "leases (set_conn i Conn_closed [] (with_controller c' s)) < leases s"
    using leases_set_conn [of "with_controller c' s" i ph Conn_closed "[]"] i by (auto split: if_splits)
  ultimately show ?thesis by (intro exI [of _ "set_conn i Conn_closed [] (with_controller c' s)"]) simp
qed

lemma rpc_can_end:
  assumes "drain_inv s" "0 < running_rpcs s"
  shows "\<exists>t. (node_step n a)\<^sup>*\<^sup>* s t \<and> running_rpcs t < running_rpcs s \<and> leases t = leases s \<and> ns_main t = ns_main s"
proof -
  obtain i ph where i: "rpc_at s i ph" "rpc_counted_phase ph" using assms(2)
    by (auto simp: running_rpcs_def filter_empty_conv in_set_conv_nth rpc_at_def)
  define u where "u = set_rpc i Rpc_releasing s"
  have at_u: "rpc_at u i Rpc_releasing" using i(1) by (simp add: u_def set_rpc_def rpc_at_def)
  have run_u: "running_rpcs u = running_rpcs s"
    using rpcs_set_rpc [OF i(1), of Rpc_releasing] i(2) by (simp add: u_def rpc_counted_phase_def)
  have same: "rpc_at s i Rpc_releasing \<Longrightarrow> u = s" by (simp add: u_def set_rpc_def rpc_at_def list_update_same_conv)
  have su: "(node_step n a)\<^sup>*\<^sup>* s u"
  proof (cases "ph = Rpc_releasing")
    case True
    then show ?thesis using same i(1) by simp
  next
    case False
    then have "node_step n a s u" using i unfolding u_def
      by (intro node_step.rpc_release) (auto simp: rpc_counted_phase_def)
    then show ?thesis by blast
  qed
  obtain r c where e: "release_rpc (ns_controller u) = (r, c)" by (cases "release_rpc (ns_controller u)")
  have "node_step n a u (set_rpc i Rpc_released (with_controller c u))" by (rule node_step.rpc_released [OF at_u e])
  moreover have "running_rpcs (set_rpc i Rpc_released (with_controller c u)) < running_rpcs u"
    using rpcs_set_rpc [of "with_controller c u" i Rpc_releasing Rpc_released] at_u
    by (simp add: rpc_at_def rpc_counted_phase_def)
  ultimately show ?thesis using su run_u
    by (intro exI [of _ "set_rpc i Rpc_released (with_controller c u)"]) (auto simp: u_def)
qed

lemma drain_finishes:
  assumes "drain_inv s" "ns_main s = Main_draining"
  shows "\<exists>t. (node_step n a)\<^sup>*\<^sup>* s t \<and> ns_main t = Main_draining \<and> leases t = 0 \<and> running_rpcs t = 0"
  using assms
proof (induction "leases s + running_rpcs s" arbitrary: s rule: less_induct)
  case less
  show ?case
  proof (cases "leases s = 0 \<and> running_rpcs s = 0")
    case False
    then have "\<exists>u. (node_step n a)\<^sup>*\<^sup>* s u \<and> leases u + running_rpcs u < leases s + running_rpcs s \<and> ns_main u = ns_main s"
      using lease_can_end [OF less.prems(1), of n a] rpc_can_end [OF less.prems(1), of n a]
      by (metis add_less_cancel_left add_less_cancel_right bot_nat_0.not_eq_extremum r_into_rtranclp)
    then obtain u where u: "(node_step n a)\<^sup>*\<^sup>* s u" "leases u + running_rpcs u < leases s + running_rpcs s" "ns_main u = Main_draining"
      using less.prems(2) by auto
    have "drain_inv u" using draining.inv_steps [OF u(1) less.prems(1)] .
    then show ?thesis using less.hyps [OF u(2)] u(1,3) steps_trans by blast
  qed (use less.prems(2) in blast)
qed



section \<open>The lease names the node that granted it\<close>

lemma utf8_encode_Cons: "utf8_encode (c # s) = utf8_char c @ utf8_encode s"
  by (simp add: utf8_encode_def)

lemma utf8_encode_append: "utf8_encode (s @ t) = utf8_encode s @ utf8_encode t"
  by (simp add: utf8_encode_def)

lemma utf8_decode_encode [simp]: "utf8_decode (utf8_encode s) = Some s"
proof (induction s)
  case (Cons c s)
  let ?n = "of_char c :: nat"
  have lt: "?n < 256" by simp
  show ?case
  proof (cases "?n < 128")
    case True
    then have "unat (of_nat ?n :: byte) = ?n" by (simp add: unat_of_nat)
    moreover have "(of_nat ?n :: byte) < 128" using True by (simp add: word_less_nat_alt unat_of_nat)
    ultimately show ?thesis using Cons True by (simp add: utf8_encode_Cons utf8_char_def)
  next
    case False
    define q where "q = ?n div 64"
    define r where "r = ?n mod 64"
    have "q = 2 \<or> q = 3" using False lt unfolding q_def by linarith
    then have qr: "q = 2 \<or> q = 3" "r < 64" "?n = q * 64 + r" by (simp_all add: q_def r_def)
    have b: "unat (of_nat (128 + r) :: byte) = 128 + r" using qr by (simp add: unat_of_nat del: of_nat_add)
    have c: "128 \<le> (of_nat (128 + r) :: byte)" "(of_nat (128 + r) :: byte) < 192"
      using qr b by (simp_all add: word_le_nat_alt word_less_nat_alt del: of_nat_add)
    have ch: "char_of (q * 64 + r) = c" using qr(3) by (metis char_of_char)
    have "utf8_decode (of_nat (192 + q) # of_nat (128 + r) # utf8_encode s) = Some (c # s)"
      using qr(1) b c ch Cons by (elim disjE) (simp_all del: of_nat_add)
    moreover have "utf8_encode (c # s) = of_nat (192 + q) # of_nat (128 + r) # utf8_encode s"
      using False by (simp add: utf8_encode_Cons utf8_char_def q_def r_def Let_def)
    ultimately show ?thesis by metis
  qed
qed (simp add: utf8_encode_def)

lemma newline_in_utf8: "10 \<in> set (utf8_encode s) \<Longrightarrow> \<exists>c \<in> set s. of_char c = (10 :: nat)"
proof (induction s)
  case (Cons c s)
  have lt: "(of_char c :: nat) < 256" by simp
  have "of_char c = (10 :: nat)" if "10 \<in> set (utf8_char c)"
  proof (cases "(of_char c :: nat) < 128")
    case True
    then have "(10 :: byte) = of_nat (of_char c)" using that by (simp add: utf8_char_def)
    then have "unat (10 :: byte) = unat (of_nat (of_char c) :: byte)" by metis
    also have "unat (of_nat (of_char c) :: byte) = of_char c" using True by (simp add: unat_of_nat)
    finally have "unat (10 :: byte) = of_char c" .
    then show ?thesis by simp
  next
    case False
    have hi: "(of_char c :: nat) div 64 < 4" using lt by linarith
    from False have "(10 :: byte) = of_nat (192 + of_char c div 64) \<or> (10 :: byte) = of_nat (128 + of_char c mod 64)"
      using that by (simp add: utf8_char_def Let_def)
    then have "unat (10 :: byte) = unat (of_nat (192 + of_char c div 64) :: byte) \<or>
        unat (10 :: byte) = unat (of_nat (128 + of_char c mod 64) :: byte)" by metis
    moreover have "unat (of_nat (192 + of_char c div 64) :: byte) = 192 + of_char c div 64"
      "unat (of_nat (128 + of_char c mod 64) :: byte) = 128 + of_char c mod 64"
      using hi by (simp_all add: unat_of_nat del: of_nat_add)
    ultimately show ?thesis by simp
  qed
  then show ?case using Cons by (auto simp: utf8_encode_Cons)
qed (simp add: utf8_encode_def)

lemma length_utf8_char: "length (utf8_char c) \<le> 2"
  by (simp add: utf8_char_def Let_def)

lemma length_utf8: "length (utf8_encode s) \<le> 2 * length s"
proof (induction s)
  case (Cons c s)
  then show ?case using length_utf8_char [of c] by (simp add: utf8_encode_Cons)
qed (simp add: utf8_encode_def)

lemma recv_loop_line:
  assumes "10 \<notin> set line" "length acc + length line < limit"
  shows "recv_loop limit acc (line @ 10 # rest) = (acc @ line, rest)"
  using assms by (induction line arbitrary: acc) auto

text \<open>A line without line breaks that is short enough arrives as it was sent.\<close>

lemma recv_send_line:
  assumes "list_all (\<lambda>c. of_char c \<noteq> (10 :: nat)) s" "2 * length s < CONTROL_LINE_LIMIT"
  shows "recv_line (send_line s @ rest) = Inr (s, rest)"
proof -
  have "10 \<notin> set (utf8_encode s)" using newline_in_utf8 [of s] assms(1) by (auto simp: list_all_iff)
  moreover have "length (utf8_encode s) < CONTROL_LINE_LIMIT" using length_utf8 [of s] assms(2) by simp
  moreover have "send_line s = utf8_encode s @ [10]" by (simp add: send_line_def utf8_encode_append utf8_encode_Cons utf8_char_def)
     (simp add: utf8_encode_def)
  ultimately show ?thesis by (simp add: recv_line_def recv_loop_line)
qed

lemma split_tab_word: "list_all (\<lambda>c. c \<noteq> char_of (9 :: nat)) w \<Longrightarrow> split_tab (w @ char_of (9 :: nat) # s) = w # split_tab s"
  by (induction w) auto

lemma split_tab_last: "list_all (\<lambda>c. c \<noteq> char_of (9 :: nat)) w \<Longrightarrow> split_tab w = [w]"
  by (induction w) auto

lemma normalize_node_id_Some:
  "normalize_control_node_id v = Inr (Some n) \<Longrightarrow>
     n \<noteq> [] \<and> length n = 32 \<and> list_all is_hex_lower n \<and> normalize_control_node_id (Some n) = Inr (Some n)"
  by (auto simp: normalize_control_node_id_def Let_def split: if_splits)

lemma normalize_address_Some:
  "normalize_control_address v = Inr (Some a) \<Longrightarrow>
     a \<noteq> [] \<and> length a \<le> 1024 \<and> \<not> list_ex breaks_line a \<and> normalize_control_address (Some a) = Inr (Some a)"
  by (auto simp: normalize_control_address_def Let_def split: if_splits)

lemma hex_no_break: "is_hex_lower c \<Longrightarrow> \<not> breaks_line c"
  by (auto simp: is_hex_lower_def is_dec_char_def breaks_line_def)

lemma not_tab: "\<not> breaks_line c \<Longrightarrow> c \<noteq> char_of (9 :: nat)" "\<not> breaks_line c \<Longrightarrow> of_char c \<noteq> (10 :: nat)"
  by (auto simp: breaks_line_def)

text \<open>The lease of a local operation names the node that granted it: whatever identity and
  address the node was configured with (if it accepted them), the client that reads its answer from
  the control socket, within the line limit, gets exactly that identity, whatever follows on the
  socket.\<close>

theorem lease_names_granting_node:
  assumes "normalize_control_node_id v = Inr (Some n)" "normalize_control_address w = Inr (Some a)"
  shows "acquire_local_operation_lease (Some (send_line (begin_response n a) @ rest))
    = Inr \<lparr>ls_connected = True, ls_node_id = Some n, ls_advertise_addr = Some a\<rparr>"
proof -
  note n = normalize_node_id_Some [OF assms(1)] and a = normalize_address_Some [OF assms(2)]
  have nb: "list_all (\<lambda>c. \<not> breaks_line c) n" "list_all (\<lambda>c. \<not> breaks_line c) a"
    using n a hex_no_break by (auto simp: list_all_iff list_ex_iff)
  have "list_all (\<lambda>c. of_char c \<noteq> (10 :: nat)) (begin_response n a)" "2 * length (begin_response n a) < CONTROL_LINE_LIMIT"
    using nb not_tab n a by (auto simp: begin_response_def list_all_iff CONTROL_LINE_LIMIT_def)
  then have line: "recv_line (send_line (begin_response n a) @ rest) = Inr (begin_response n a, rest)" by (rule recv_send_line)
  have tabs: "list_all (\<lambda>c. c \<noteq> char_of (9 :: nat)) n" "list_all (\<lambda>c. c \<noteq> char_of (9 :: nat)) a"
    using nb not_tab by (auto simp: list_all_iff)
  have "split_tab (begin_response n a) = [''OK'', n, a]"
    using split_tab_word [OF tabs(1)] split_tab_last [OF tabs(2)] n
    by (simp add: begin_response_def char_of_def)
  moreover have "take 3 (begin_response n a) = ''OK'' @ [char_of (9 :: nat)]" "begin_response n a \<noteq> ''OK''"
    using n by (simp_all add: begin_response_def)
  ultimately show ?thesis using n a
    by (simp add: acquire_local_operation_lease_def line lease_of_response_def LocalOperationLease_def)
qed

theorem lease_names_granting_node_witness:
  "acquire_local_operation_lease (Some (send_line (begin_response (replicate 32 (CHR ''a'')) ''n1:50051'') @ [1, 2]))
     = Inr \<lparr>ls_connected = True, ls_node_id = Some (replicate 32 (CHR ''a'')), ls_advertise_addr = Some ''n1:50051''\<rparr>"
proof -
  have "normalize_control_node_id (Some (replicate 32 (CHR ''a''))) = Inr (Some (replicate 32 (CHR ''a'')))" by code_simp
  moreover have "normalize_control_address (Some ''n1:50051 '') = Inr (Some ''n1:50051'')" by code_simp
  ultimately show ?thesis by (rule lease_names_granting_node)
qed

section \<open>Working without a lease\<close>

text \<open>An operation runs without a lease only when every candidate path is empty or has a socket on
  which nobody listens: any other failure is an error.\<close>

lemma connect_loop_None:
  "connect_loop b cs = Inr (None, False) \<Longrightarrow> \<not> b \<and>
     (\<forall>c \<in> set cs. \<not> cd_unsafe_runtime c \<and> cd_entry c \<in> {Absent, Socket Connect_refused, Socket Connect_gone})"
proof (induction cs arbitrary: b)
  case (Cons c cs)
  have "connect_loop b cs = Inr (None, False) \<and> cd_entry c \<in> {Absent, Socket Connect_refused, Socket Connect_gone}
      \<or> connect_loop True cs = Inr (None, False)" and "\<not> cd_unsafe_runtime c"
    using Cons.prems by (auto split: if_splits control_entry.splits connect_outcome.splits)
  then show ?case using Cons.IH [of b] Cons.IH [of True] by auto
qed simp

lemma unleased_only_without_node:
  assumes "connect_control_socket True required cs = Inr None"
  shows "\<not> required \<and> (\<forall>c \<in> set cs. \<not> cd_unsafe_runtime c \<and> cd_entry c \<in> {Absent, Socket Connect_refused, Socket Connect_gone})"
  using assms connect_loop_None [of False cs]
  by (auto simp: connect_control_socket_def bindE_eq_Inr split: if_splits)

text \<open>\<open>node stop\<close> returns normally only after both lines of the protocol.\<close>

lemma stop_confirmed:
  "request_local_node_stop (send_line ''STOPPING'' @ send_line ''STOPPED'' @ rest) = Inr ()"
  using recv_send_line [of "''STOPPING''" "send_line ''STOPPED'' @ rest"] recv_send_line [of "''STOPPED''" rest]
  by (simp add: request_local_node_stop_def CONTROL_LINE_LIMIT_def)

end
