(* ===== verification/ObjectModel.thy ===== *)
theory ObjectModel
  imports Json
begin

text \<open>
  The metadata objects (\<open>metadata/objects/models.py\<close>) and their codec (\<open>metadata/objects/codec.py\<close>):
  thirteen object types that describe a vault as a graph of content-addressed objects, from the catalog
  over snapshot indexes, trees, files and recipes to chunk lists, with sharded indexes of known chunks,
  protection records and erasure-coded packs. A dataclass is a record, \<open>decode_C\<close> is
  \<open>_decode_model_dataclass\<close> for the class (field names, nested values, then \<open>__post_init__\<close>),
  \<open>C_payload\<close> its normalised dictionary and \<open>C_ok\<close> the invariant in closed form.

  A decoded value keeps what the JSON parser returned: an integer is never a bool or a float, and
  \<open>_require_number\<close> only checks its argument, so that a time stamp is stored as it was read.
\<close>

section \<open>Constants and field checks\<close>

definition METADATA_OBJECT_FORMAT :: string where
  "METADATA_OBJECT_FORMAT = ''stopan.metadata_object''"

definition METADATA_OBJECT_VERSION :: int where
  "METADATA_OBJECT_VERSION = 1"

datatype metadata_object_type =
    CATALOG
  | SNAPSHOT_INDEX
  | SNAPSHOT_ROOT
  | TREE
  | FILE
  | RECIPE
  | CHUNK_LIST
  | KNOWN_CHUNK_INDEX
  | KNOWN_CHUNK_SHARD
  | PROTECTION_INDEX
  | PROTECTION_SHARD
  | ERASURE_DATA_PACK_INDEX
  | ERASURE_DATA_PACK_SHARD

fun type_value :: "metadata_object_type \<Rightarrow> string" where
  "type_value CATALOG = ''catalog''"
| "type_value SNAPSHOT_INDEX = ''snapshot_index''"
| "type_value SNAPSHOT_ROOT = ''snapshot_root''"
| "type_value TREE = ''tree''"
| "type_value FILE = ''file''"
| "type_value RECIPE = ''recipe''"
| "type_value CHUNK_LIST = ''chunk_list''"
| "type_value KNOWN_CHUNK_INDEX = ''known_chunk_index''"
| "type_value KNOWN_CHUNK_SHARD = ''known_chunk_shard''"
| "type_value PROTECTION_INDEX = ''protection_index''"
| "type_value PROTECTION_SHARD = ''protection_shard''"
| "type_value ERASURE_DATA_PACK_INDEX = ''erasure_data_pack_index''"
| "type_value ERASURE_DATA_PACK_SHARD = ''erasure_data_pack_shard''"

definition object_types :: "metadata_object_type list" where
  "object_types = [CATALOG, SNAPSHOT_INDEX, SNAPSHOT_ROOT, TREE, FILE, RECIPE, CHUNK_LIST, KNOWN_CHUNK_INDEX,
     KNOWN_CHUNK_SHARD, PROTECTION_INDEX, PROTECTION_SHARD, ERASURE_DATA_PACK_INDEX, ERASURE_DATA_PACK_SHARD]"

text \<open>\<open>MetadataObjectType(value)\<close>; the caller turns the \<open>ValueError\<close> into its own exception.\<close>

definition type_of_value :: "string \<Rightarrow> metadata_object_type option" where
  "type_of_value s = find (\<lambda>t. type_value t = s) object_types"

definition is_hex_n :: "nat \<Rightarrow> string \<Rightarrow> bool" where
  "is_hex_n n s \<longleftrightarrow> length s = n \<and> list_all is_hex_lower s"

definition is_uuid :: "string \<Rightarrow> bool" where
  "is_uuid s \<longleftrightarrow> length s = 36 \<and> is_hex_n 8 (take 8 s) \<and> s ! 8 = CHR ''-'' \<and> is_hex_n 4 (take 4 (drop 9 s))
     \<and> s ! 13 = CHR ''-'' \<and> is_hex_n 4 (take 4 (drop 14 s)) \<and> s ! 18 = CHR ''-'' \<and> is_hex_n 4 (take 4 (drop 19 s))
     \<and> s ! 23 = CHR ''-'' \<and> is_hex_n 12 (drop 24 s)"

definition VALID_SNAPSHOT_STATES :: "string set" where
  "VALID_SNAPSHOT_STATES = {''CREATING'', ''COMPLETE'', ''FAILED''}"

definition VALID_ITEM_TYPES :: "string set" where
  "VALID_ITEM_TYPES = {''file'', ''dir''}"

definition VALID_PROTECTION_STATES :: "string set" where
  "VALID_PROTECTION_STATES = {''PENDING'', ''PLACED'', ''DEGRADED'', ''VERIFIED'', ''FAILED''}"

text \<open>\<open>_require_str\<close>, \<open>_require_int\<close>, \<open>_require_hash64\<close>, \<open>_require_node_id\<close>, \<open>_require_vault_id\<close> and
  \<open>_require_uuid\<close>.\<close>

definition require_str :: "bool \<Rightarrow> json \<Rightarrow> string result" where
  "require_str allow_empty v =
     (case v of JStr s \<Rightarrow> if \<not> allow_empty \<and> s = [] then Inl MetadataObjectError else Inr s | _ \<Rightarrow> Inl MetadataObjectError)"

definition require_int :: "int \<Rightarrow> json \<Rightarrow> int result" where
  "require_int min_value v =
     (case v of JInt i \<Rightarrow> if i < min_value then Inl MetadataObjectError else Inr i | _ \<Rightarrow> Inl MetadataObjectError)"

definition require_match :: "(string \<Rightarrow> bool) \<Rightarrow> json \<Rightarrow> string result" where
  "require_match re v = bindE (require_str False v) (\<lambda>s. if \<not> re s then Inl MetadataObjectError else Inr s)"

definition model_require_hash64 :: "json \<Rightarrow> string result" where
  "model_require_hash64 = require_match (is_hex_n 64)"

definition model_require_node_id :: "json \<Rightarrow> string result" where
  "model_require_node_id = require_match (is_hex_n 32)"

definition require_uuid :: "json \<Rightarrow> string result" where
  "require_uuid = require_match is_uuid"

text \<open>A number as it is stored. \<open>float\<close> of an integer whose nearest float is out of range raises
  \<open>OverflowError\<close>; only the lower bound 0 is ever asked for.\<close>

datatype number = NumInt int | NumFloat string

fun number_json :: "number \<Rightarrow> json" where
  "number_json (NumInt i) = JInt i"
| "number_json (NumFloat t) = JFloat t"

definition FLOAT_LIMIT :: int where
  "FLOAT_LIMIT = 2 ^ 1024 - 2 ^ 970"

definition require_number :: "bool \<Rightarrow> json \<Rightarrow> number result" where
  "require_number non_negative v =
     (case v of
        JInt i \<Rightarrow> if FLOAT_LIMIT \<le> \<bar>i\<bar> then Inl OverflowError
                  else if non_negative \<and> i < 0 then Inl MetadataObjectError else Inr (NumInt i)
      | JFloat t \<Rightarrow> if float_special t then Inl MetadataObjectError
                    else if non_negative \<and> float_negative t then Inl MetadataObjectError else Inr (NumFloat t)
      | _ \<Rightarrow> Inl MetadataObjectError)"

definition optional :: "(json \<Rightarrow> 'a result) \<Rightarrow> json \<Rightarrow> 'a option result" where
  "optional f v = (if v = JNull then Inr None else bindE (f v) (\<lambda>x. Inr (Some x)))"

fun optional_json :: "('a \<Rightarrow> json) \<Rightarrow> 'a option \<Rightarrow> json" where
  "optional_json f None = JNull"
| "optional_json f (Some x) = f x"

definition require_one_of :: "string set \<Rightarrow> json \<Rightarrow> string result" where
  "require_one_of vs v = bindE (require_str False v) (\<lambda>s. if s \<notin> vs then Inl MetadataObjectError else Inr s)"

section \<open>Decoding a dataclass\<close>

text \<open>The checks on the field names: no unknown field, no missing field without a default. The values
  are then looked up with their default (\<open>None\<close> unless the code says otherwise).\<close>

definition model_fields :: "string list \<Rightarrow> string list \<Rightarrow> json \<Rightarrow> (string \<times> json) list result" where
  "model_fields required defaulted payload =
     (case payload of
        JObj kvs \<Rightarrow>
          if \<not> list_all (\<lambda>(k, _). k \<in> set required \<union> set defaulted) kvs then Inl MetadataObjectError
          else if \<not> list_all (\<lambda>k. k \<in> fst ` set kvs) required then Inl MetadataObjectError
          else Inr kvs
      | _ \<Rightarrow> Inl MetadataObjectError)"

definition field_or :: "json \<Rightarrow> (string \<times> json) list \<Rightarrow> string \<Rightarrow> json" where
  "field_or d kvs k = (case map_of kvs k of None \<Rightarrow> d | Some v \<Rightarrow> v)"

definition decode_tuple :: "(json \<Rightarrow> 'a result) \<Rightarrow> json \<Rightarrow> 'a list result" where
  "decode_tuple f v = (case v of JArr vs \<Rightarrow> mapE f vs | _ \<Rightarrow> Inl MetadataObjectError)"

text \<open>The loops of \<open>__post_init__\<close> over entries that must have distinct identifiers and be in order
  by a key: the identifiers seen and the previous key.\<close>

fun check_ordered :: "('a \<Rightarrow> 'i) \<Rightarrow> ('a \<Rightarrow> 'k::linorder) \<Rightarrow> 'i set \<Rightarrow> 'k option \<Rightarrow> 'a list \<Rightarrow> unit result" where
  "check_ordered ident key seen previous [] = Inr ()"
| "check_ordered ident key seen previous (x # xs) =
     (if ident x \<in> seen then Inl MetadataObjectError
      else if (case previous of None \<Rightarrow> False | Some p \<Rightarrow> key x < p) then Inl MetadataObjectError
      else check_ordered ident key (insert (ident x) seen) (Some (key x)) xs)"

lemma check_ordered_run:
  "check_ordered ident key seen previous xs = Inr () \<longleftrightarrow>
     sorted (map key xs) \<and> distinct (map ident xs) \<and> ident ` set xs \<inter> seen = {}
     \<and> (case previous of None \<Rightarrow> True | Some p \<Rightarrow> \<forall>x \<in> set xs. p \<le> key x)"
proof (induction xs arbitrary: seen previous)
  case (Cons x xs)
  show ?case by (cases previous) (auto simp: Cons.IH not_less)
qed (auto split: option.split)

lemma check_ordered_iff [simp]:
  "check_ordered ident key {} None xs = Inr () \<longleftrightarrow> sorted (map key xs) \<and> distinct (map ident xs)"
  by (simp add: check_ordered_run)

section \<open>References, chunk lists, recipes and files\<close>

record object_ref =
  or_type :: metadata_object_type
  or_hash :: string

definition decode_enum :: "json \<Rightarrow> metadata_object_type result" where
  "decode_enum v = (case v of JStr s \<Rightarrow> (case type_of_value s of None \<Rightarrow> Inl MetadataObjectError | Some t \<Rightarrow> Inr t)
                    | _ \<Rightarrow> Inl MetadataObjectError)"

definition decode_ObjectRef :: "json \<Rightarrow> object_ref result" where
  "decode_ObjectRef payload =
     bindE (model_fields [''object_type'', ''object_hash''] [] payload) (\<lambda>kvs.
     bindE (decode_enum (json_get kvs ''object_type'')) (\<lambda>t.
     bindE (model_require_hash64 (json_get kvs ''object_hash'')) (\<lambda>h.
       Inr \<lparr>or_type = t, or_hash = h\<rparr>)))"

definition ObjectRef_payload :: "object_ref \<Rightarrow> json" where
  "ObjectRef_payload r = JObj [(''object_type'', JStr (type_value (or_type r))), (''object_hash'', JStr (or_hash r))]"

definition ObjectRef_ok :: "object_ref \<Rightarrow> bool" where
  "ObjectRef_ok r \<longleftrightarrow> is_hex_n 64 (or_hash r)"

text \<open>A reference that points to an object of one type.\<close>

definition ref_to :: "metadata_object_type \<Rightarrow> object_ref \<Rightarrow> bool" where
  "ref_to t r \<longleftrightarrow> ObjectRef_ok r \<and> or_type r = t"

record chunk_ref =
  ch_order :: int
  ch_hash :: string
  ch_size :: int

definition decode_ChunkRef :: "json \<Rightarrow> chunk_ref result" where
  "decode_ChunkRef payload =
     bindE (model_fields [''order'', ''chunk_hash'', ''size''] [] payload) (\<lambda>kvs.
     bindE (require_int 0 (json_get kvs ''order'')) (\<lambda>order.
     bindE (model_require_hash64 (json_get kvs ''chunk_hash'')) (\<lambda>h.
     bindE (require_int 1 (json_get kvs ''size'')) (\<lambda>sz.
       Inr \<lparr>ch_order = order, ch_hash = h, ch_size = sz\<rparr>))))"

definition ChunkRef_payload :: "chunk_ref \<Rightarrow> json" where
  "ChunkRef_payload c = JObj [(''order'', JInt (ch_order c)), (''chunk_hash'', JStr (ch_hash c)), (''size'', JInt (ch_size c))]"

definition ChunkRef_ok :: "chunk_ref \<Rightarrow> bool" where
  "ChunkRef_ok c \<longleftrightarrow> 0 \<le> ch_order c \<and> is_hex_n 64 (ch_hash c) \<and> 1 \<le> ch_size c"

fun check_orders :: "int \<Rightarrow> chunk_ref list \<Rightarrow> unit result" where
  "check_orders expected_order [] = Inr ()"
| "check_orders expected_order (c # cs) =
     (if ch_order c \<noteq> expected_order then Inl MetadataObjectError else check_orders (expected_order + 1) cs)"

definition decode_ChunkListObject :: "json \<Rightarrow> chunk_ref list result" where
  "decode_ChunkListObject payload =
     bindE (model_fields [''chunks''] [] payload) (\<lambda>kvs.
     bindE (decode_tuple decode_ChunkRef (json_get kvs ''chunks'')) (\<lambda>cs.
     bindE (check_orders 0 cs) (\<lambda>_. Inr cs)))"

definition ChunkListObject_payload :: "chunk_ref list \<Rightarrow> json" where
  "ChunkListObject_payload cs = JObj [(''chunks'', JArr (map ChunkRef_payload cs))]"

definition ChunkListObject_ok :: "chunk_ref list \<Rightarrow> bool" where
  "ChunkListObject_ok cs \<longleftrightarrow> list_all ChunkRef_ok cs \<and> map ch_order cs = map int [0..<length cs]"

record recipe_object =
  rc_recipe_hash :: string
  rc_chunk_count :: int
  rc_total_size :: int
  rc_chunk_list :: object_ref

definition decode_RecipeObject :: "json \<Rightarrow> recipe_object result" where
  "decode_RecipeObject payload =
     bindE (model_fields [''recipe_hash'', ''chunk_count'', ''total_size'', ''chunk_list''] [] payload) (\<lambda>kvs.
     bindE (decode_ObjectRef (json_get kvs ''chunk_list'')) (\<lambda>cl.
     bindE (model_require_hash64 (json_get kvs ''recipe_hash'')) (\<lambda>h.
     bindE (require_int 0 (json_get kvs ''chunk_count'')) (\<lambda>n.
     bindE (require_int 0 (json_get kvs ''total_size'')) (\<lambda>sz.
       if or_type cl \<noteq> CHUNK_LIST then Inl MetadataObjectError
       else Inr \<lparr>rc_recipe_hash = h, rc_chunk_count = n, rc_total_size = sz, rc_chunk_list = cl\<rparr>)))))"

definition RecipeObject_payload :: "recipe_object \<Rightarrow> json" where
  "RecipeObject_payload r = JObj [(''recipe_hash'', JStr (rc_recipe_hash r)), (''chunk_count'', JInt (rc_chunk_count r)),
     (''total_size'', JInt (rc_total_size r)), (''chunk_list'', ObjectRef_payload (rc_chunk_list r))]"

definition RecipeObject_ok :: "recipe_object \<Rightarrow> bool" where
  "RecipeObject_ok r \<longleftrightarrow> is_hex_n 64 (rc_recipe_hash r) \<and> 0 \<le> rc_chunk_count r \<and> 0 \<le> rc_total_size r
     \<and> ref_to CHUNK_LIST (rc_chunk_list r)"

record file_object =
  fl_size :: int
  fl_recipe_hash :: string
  fl_recipe :: object_ref

definition decode_FileObject :: "json \<Rightarrow> file_object result" where
  "decode_FileObject payload =
     bindE (model_fields [''size'', ''recipe_hash'', ''recipe''] [] payload) (\<lambda>kvs.
     bindE (decode_ObjectRef (json_get kvs ''recipe'')) (\<lambda>rf.
     bindE (require_int 0 (json_get kvs ''size'')) (\<lambda>sz.
     bindE (model_require_hash64 (json_get kvs ''recipe_hash'')) (\<lambda>h.
       if or_type rf \<noteq> RECIPE then Inl MetadataObjectError
       else Inr \<lparr>fl_size = sz, fl_recipe_hash = h, fl_recipe = rf\<rparr>))))"

definition FileObject_payload :: "file_object \<Rightarrow> json" where
  "FileObject_payload f = JObj [(''size'', JInt (fl_size f)), (''recipe_hash'', JStr (fl_recipe_hash f)),
     (''recipe'', ObjectRef_payload (fl_recipe f))]"

definition FileObject_ok :: "file_object \<Rightarrow> bool" where
  "FileObject_ok f \<longleftrightarrow> 0 \<le> fl_size f \<and> is_hex_n 64 (fl_recipe_hash f) \<and> ref_to RECIPE (fl_recipe f)"

section \<open>Trees and snapshots\<close>

record tree_entry =
  te_name :: string
  te_item_type :: string
  te_size :: int
  te_mode :: int
  te_mtime :: number
  te_mtime_ns :: int
  te_uid :: int
  te_gid :: int
  te_ref :: object_ref

definition entry_ref_type :: "string \<Rightarrow> metadata_object_type" where
  "entry_ref_type item_type = (if item_type = ''file'' then FILE else TREE)"

definition decode_TreeEntry :: "json \<Rightarrow> tree_entry result" where
  "decode_TreeEntry payload =
     bindE (model_fields [''name'', ''item_type'', ''size'', ''mode'', ''mtime'', ''mtime_ns'', ''uid'', ''gid'', ''ref''] [] payload) (\<lambda>kvs.
     bindE (decode_ObjectRef (json_get kvs ''ref'')) (\<lambda>rf.
     bindE (require_str False (json_get kvs ''name'')) (\<lambda>nm.
     bindE (raise_if (CHR ''/'' \<in> set nm \<or> nm \<in> {''.'', ''..''}) MetadataObjectError) (\<lambda>_.
     bindE (require_one_of VALID_ITEM_TYPES (json_get kvs ''item_type'')) (\<lambda>it.
     bindE (require_int 0 (json_get kvs ''size'')) (\<lambda>sz.
     bindE (require_int 0 (json_get kvs ''mode'')) (\<lambda>mode.
     bindE (require_number False (json_get kvs ''mtime'')) (\<lambda>mtime.
     bindE (require_int 0 (json_get kvs ''mtime_ns'')) (\<lambda>ns.
     bindE (require_int 0 (json_get kvs ''uid'')) (\<lambda>uid.
     bindE (require_int 0 (json_get kvs ''gid'')) (\<lambda>gid.
       if or_type rf \<noteq> entry_ref_type it then Inl MetadataObjectError
       else Inr \<lparr>te_name = nm, te_item_type = it, te_size = sz, te_mode = mode, te_mtime = mtime, te_mtime_ns = ns,
                 te_uid = uid, te_gid = gid, te_ref = rf\<rparr>)))))))))))"

definition TreeEntry_payload :: "tree_entry \<Rightarrow> json" where
  "TreeEntry_payload e = JObj [(''name'', JStr (te_name e)), (''item_type'', JStr (te_item_type e)), (''size'', JInt (te_size e)),
     (''mode'', JInt (te_mode e)), (''mtime'', number_json (te_mtime e)), (''mtime_ns'', JInt (te_mtime_ns e)),
     (''uid'', JInt (te_uid e)), (''gid'', JInt (te_gid e)), (''ref'', ObjectRef_payload (te_ref e))]"

definition number_ok :: "bool \<Rightarrow> number \<Rightarrow> bool" where
  "number_ok non_negative x = (case x of
      NumInt i \<Rightarrow> \<bar>i\<bar> < FLOAT_LIMIT \<and> (non_negative \<longrightarrow> 0 \<le> i)
    | NumFloat t \<Rightarrow> \<not> float_special t \<and> (non_negative \<longrightarrow> \<not> float_negative t))"

definition TreeEntry_ok :: "tree_entry \<Rightarrow> bool" where
  "TreeEntry_ok e \<longleftrightarrow> te_name e \<noteq> [] \<and> CHR ''/'' \<notin> set (te_name e) \<and> te_name e \<notin> {''.'', ''..''} \<and> te_item_type e \<in> VALID_ITEM_TYPES
     \<and> 0 \<le> te_size e \<and> 0 \<le> te_mode e \<and> number_ok False (te_mtime e) \<and> 0 \<le> te_mtime_ns e \<and> 0 \<le> te_uid e \<and> 0 \<le> te_gid e
     \<and> ref_to (entry_ref_type (te_item_type e)) (te_ref e)"

definition decode_TreeObject :: "json \<Rightarrow> tree_entry list result" where
  "decode_TreeObject payload =
     bindE (model_fields [''entries''] [] payload) (\<lambda>kvs.
     bindE (decode_tuple decode_TreeEntry (json_get kvs ''entries'')) (\<lambda>es.
     bindE (check_ordered te_name te_name {} None es) (\<lambda>_. Inr es)))"

definition TreeObject_payload :: "tree_entry list \<Rightarrow> json" where
  "TreeObject_payload es = JObj [(''entries'', JArr (map TreeEntry_payload es))]"

definition TreeObject_ok :: "tree_entry list \<Rightarrow> bool" where
  "TreeObject_ok es \<longleftrightarrow> list_all TreeEntry_ok es \<and> sorted_wrt (<) (map te_name es)"


record snapshot_root_object =
  sr_snapshot_uuid :: string
  sr_root_path :: string
  sr_origin_node_id :: string
  sr_created_at :: string
  sr_total_size :: int
  sr_total_files :: int
  sr_root_tree :: object_ref

definition decode_SnapshotRootObject :: "json \<Rightarrow> snapshot_root_object result" where
  "decode_SnapshotRootObject payload =
     bindE (model_fields [''snapshot_uuid'', ''root_path'', ''origin_node_id'', ''created_at'', ''total_size'', ''total_files'', ''root_tree'']
       [] payload) (\<lambda>kvs.
     bindE (decode_ObjectRef (json_get kvs ''root_tree'')) (\<lambda>rf.
     bindE (require_uuid (json_get kvs ''snapshot_uuid'')) (\<lambda>u.
     bindE (require_str True (json_get kvs ''root_path'')) (\<lambda>rp.
     bindE (model_require_node_id (json_get kvs ''origin_node_id'')) (\<lambda>nid.
     bindE (require_str False (json_get kvs ''created_at'')) (\<lambda>ca.
     bindE (require_int 0 (json_get kvs ''total_size'')) (\<lambda>sz.
     bindE (require_int 0 (json_get kvs ''total_files'')) (\<lambda>n.
       if or_type rf \<noteq> TREE then Inl MetadataObjectError
       else Inr \<lparr>sr_snapshot_uuid = u, sr_root_path = rp, sr_origin_node_id = nid, sr_created_at = ca, sr_total_size = sz,
                 sr_total_files = n, sr_root_tree = rf\<rparr>))))))))"

definition SnapshotRootObject_payload :: "snapshot_root_object \<Rightarrow> json" where
  "SnapshotRootObject_payload s = JObj [(''snapshot_uuid'', JStr (sr_snapshot_uuid s)), (''root_path'', JStr (sr_root_path s)),
     (''origin_node_id'', JStr (sr_origin_node_id s)), (''created_at'', JStr (sr_created_at s)), (''total_size'', JInt (sr_total_size s)),
     (''total_files'', JInt (sr_total_files s)), (''root_tree'', ObjectRef_payload (sr_root_tree s))]"

definition SnapshotRootObject_ok :: "snapshot_root_object \<Rightarrow> bool" where
  "SnapshotRootObject_ok s \<longleftrightarrow> is_uuid (sr_snapshot_uuid s) \<and> is_hex_n 32 (sr_origin_node_id s) \<and> sr_created_at s \<noteq> []
     \<and> 0 \<le> sr_total_size s \<and> 0 \<le> sr_total_files s \<and> ref_to TREE (sr_root_tree s)"

record snapshot_index_entry =
  si_snapshot_uuid :: string
  si_status :: string
  si_root_path :: string
  si_origin_node_id :: string
  si_created_at :: string
  si_total_size :: int
  si_total_files :: int
  si_snapshot_root :: "object_ref option"
  si_error :: "string option"

definition decode_SnapshotIndexEntry :: "json \<Rightarrow> snapshot_index_entry result" where
  "decode_SnapshotIndexEntry payload =
     bindE (model_fields [''snapshot_uuid'', ''status'', ''root_path'', ''origin_node_id'', ''created_at'', ''total_size'', ''total_files'']
       [''snapshot_root'', ''error''] payload) (\<lambda>kvs.
     bindE (optional decode_ObjectRef (json_get kvs ''snapshot_root'')) (\<lambda>rf.
     bindE (require_uuid (json_get kvs ''snapshot_uuid'')) (\<lambda>u.
     bindE (require_one_of VALID_SNAPSHOT_STATES (json_get kvs ''status'')) (\<lambda>st.
     bindE (require_str True (json_get kvs ''root_path'')) (\<lambda>rp.
     bindE (model_require_node_id (json_get kvs ''origin_node_id'')) (\<lambda>nid.
     bindE (require_str False (json_get kvs ''created_at'')) (\<lambda>ca.
     bindE (require_int 0 (json_get kvs ''total_size'')) (\<lambda>sz.
     bindE (require_int 0 (json_get kvs ''total_files'')) (\<lambda>n.
     bindE (raise_if (case rf of None \<Rightarrow> False | Some q \<Rightarrow> or_type q \<noteq> SNAPSHOT_ROOT) MetadataObjectError) (\<lambda>_.
     bindE (raise_if (st = ''COMPLETE'' \<and> rf = None) MetadataObjectError) (\<lambda>_.
     bindE (optional (require_str True) (json_get kvs ''error'')) (\<lambda>er.
       Inr \<lparr>si_snapshot_uuid = u, si_status = st, si_root_path = rp, si_origin_node_id = nid, si_created_at = ca, si_total_size = sz,
            si_total_files = n, si_snapshot_root = rf, si_error = er\<rparr>))))))))))))"

definition SnapshotIndexEntry_payload :: "snapshot_index_entry \<Rightarrow> json" where
  "SnapshotIndexEntry_payload s = JObj [(''snapshot_uuid'', JStr (si_snapshot_uuid s)), (''status'', JStr (si_status s)),
     (''root_path'', JStr (si_root_path s)), (''origin_node_id'', JStr (si_origin_node_id s)), (''created_at'', JStr (si_created_at s)),
     (''total_size'', JInt (si_total_size s)), (''total_files'', JInt (si_total_files s)),
     (''snapshot_root'', optional_json ObjectRef_payload (si_snapshot_root s)), (''error'', optional_json JStr (si_error s))]"

definition SnapshotIndexEntry_ok :: "snapshot_index_entry \<Rightarrow> bool" where
  "SnapshotIndexEntry_ok s \<longleftrightarrow> is_uuid (si_snapshot_uuid s) \<and> si_status s \<in> VALID_SNAPSHOT_STATES \<and> is_hex_n 32 (si_origin_node_id s)
     \<and> si_created_at s \<noteq> [] \<and> 0 \<le> si_total_size s \<and> 0 \<le> si_total_files s
     \<and> pred_option (ref_to SNAPSHOT_ROOT) (si_snapshot_root s) \<and> (si_status s = ''COMPLETE'' \<longrightarrow> si_snapshot_root s \<noteq> None)"

definition decode_SnapshotIndexObject :: "json \<Rightarrow> snapshot_index_entry list result" where
  "decode_SnapshotIndexObject payload =
     bindE (model_fields [''snapshots''] [] payload) (\<lambda>kvs.
     bindE (decode_tuple decode_SnapshotIndexEntry (json_get kvs ''snapshots'')) (\<lambda>es.
     bindE (check_ordered si_snapshot_uuid (\<lambda>e. (si_created_at e, si_snapshot_uuid e)) {} None es) (\<lambda>_. Inr es)))"

definition SnapshotIndexObject_payload :: "snapshot_index_entry list \<Rightarrow> json" where
  "SnapshotIndexObject_payload es = JObj [(''snapshots'', JArr (map SnapshotIndexEntry_payload es))]"

definition SnapshotIndexObject_ok :: "snapshot_index_entry list \<Rightarrow> bool" where
  "SnapshotIndexObject_ok es \<longleftrightarrow> list_all SnapshotIndexEntry_ok es \<and> distinct (map si_snapshot_uuid es)
     \<and> sorted (map (\<lambda>e. (si_created_at e, si_snapshot_uuid e)) es)"

section \<open>Sharded indexes\<close>

text \<open>Known chunks, protection records and erasure-coded packs are stored in shards by the first two
  characters of their hash; an index lists the shards with their sizes.\<close>

record index_shard_ref =
  is_prefix :: string
  is_count :: int
  is_ref :: object_ref

definition decode_IndexShardRef :: "json \<Rightarrow> index_shard_ref result" where
  "decode_IndexShardRef payload =
     bindE (model_fields [''prefix'', ''count'', ''ref''] [] payload) (\<lambda>kvs.
     bindE (decode_ObjectRef (json_get kvs ''ref'')) (\<lambda>rf.
     bindE (require_match (is_hex_n 2) (json_get kvs ''prefix'')) (\<lambda>p.
     bindE (require_int 0 (json_get kvs ''count'')) (\<lambda>n.
       Inr \<lparr>is_prefix = p, is_count = n, is_ref = rf\<rparr>))))"

definition IndexShardRef_payload :: "index_shard_ref \<Rightarrow> json" where
  "IndexShardRef_payload s = JObj [(''prefix'', JStr (is_prefix s)), (''count'', JInt (is_count s)), (''ref'', ObjectRef_payload (is_ref s))]"

definition IndexShardRef_ok :: "index_shard_ref \<Rightarrow> bool" where
  "IndexShardRef_ok s \<longleftrightarrow> is_hex_n 2 (is_prefix s) \<and> 0 \<le> is_count s \<and> ObjectRef_ok (is_ref s)"

text \<open>The loop the three index classes share: the type of every reference, distinct prefixes in order,
  and the counts add up.\<close>

definition check_index :: "metadata_object_type \<Rightarrow> index_shard_ref list \<Rightarrow> int \<Rightarrow> unit result" where
  "check_index t shards stated =
     bindE (raise_if (\<not> list_all (\<lambda>s. or_type (is_ref s) = t) shards) MetadataObjectError) (\<lambda>_.
     bindE (check_ordered is_prefix is_prefix {} None shards) (\<lambda>_.
       raise_if (sum_list (map is_count shards) \<noteq> stated) MetadataObjectError))"

definition index_ok :: "metadata_object_type \<Rightarrow> index_shard_ref list \<Rightarrow> int \<Rightarrow> bool" where
  "index_ok t shards stated \<longleftrightarrow> list_all (\<lambda>s. IndexShardRef_ok s \<and> or_type (is_ref s) = t) shards
     \<and> sorted_wrt (<) (map is_prefix shards) \<and> stated = sum_list (map is_count shards)"

text \<open>The loop the three shard classes share.\<close>

definition check_shard :: "('a \<Rightarrow> string) \<Rightarrow> string \<Rightarrow> 'a list \<Rightarrow> unit result" where
  "check_shard key p records =
     bindE (raise_if (\<not> list_all (\<lambda>r. prefix p (key r)) records) MetadataObjectError) (\<lambda>_.
       check_ordered key key {} None records)"

definition shard_ok :: "('a \<Rightarrow> string) \<Rightarrow> ('a \<Rightarrow> bool) \<Rightarrow> string \<Rightarrow> 'a list \<Rightarrow> bool" where
  "shard_ok key record_ok p records \<longleftrightarrow> is_hex_n 2 p \<and> list_all (\<lambda>r. record_ok r \<and> prefix p (key r)) records
     \<and> sorted_wrt (<) (map key records)"

record known_chunk_record =
  kc_hash :: string
  kc_size :: int

definition decode_KnownChunkRecord :: "json \<Rightarrow> known_chunk_record result" where
  "decode_KnownChunkRecord payload =
     bindE (model_fields [''chunk_hash'', ''size''] [] payload) (\<lambda>kvs.
     bindE (model_require_hash64 (json_get kvs ''chunk_hash'')) (\<lambda>h.
     bindE (require_int 1 (json_get kvs ''size'')) (\<lambda>sz.
       Inr \<lparr>kc_hash = h, kc_size = sz\<rparr>)))"

definition KnownChunkRecord_payload :: "known_chunk_record \<Rightarrow> json" where
  "KnownChunkRecord_payload r = JObj [(''chunk_hash'', JStr (kc_hash r)), (''size'', JInt (kc_size r))]"

definition KnownChunkRecord_ok :: "known_chunk_record \<Rightarrow> bool" where
  "KnownChunkRecord_ok r \<longleftrightarrow> is_hex_n 64 (kc_hash r) \<and> 1 \<le> kc_size r"

record known_chunk_shard_object =
  ks_prefix :: string
  ks_chunks :: "known_chunk_record list"

definition decode_KnownChunkShardObject :: "json \<Rightarrow> known_chunk_shard_object result" where
  "decode_KnownChunkShardObject payload =
     bindE (model_fields [''prefix'', ''chunks''] [] payload) (\<lambda>kvs.
     bindE (decode_tuple decode_KnownChunkRecord (json_get kvs ''chunks'')) (\<lambda>rs.
     bindE (require_match (is_hex_n 2) (json_get kvs ''prefix'')) (\<lambda>p.
     bindE (check_shard kc_hash p rs) (\<lambda>_. Inr \<lparr>ks_prefix = p, ks_chunks = rs\<rparr>))))"

definition KnownChunkShardObject_payload :: "known_chunk_shard_object \<Rightarrow> json" where
  "KnownChunkShardObject_payload s = JObj [(''prefix'', JStr (ks_prefix s)), (''chunks'', JArr (map KnownChunkRecord_payload (ks_chunks s)))]"

definition KnownChunkShardObject_ok :: "known_chunk_shard_object \<Rightarrow> bool" where
  "KnownChunkShardObject_ok s \<longleftrightarrow> shard_ok kc_hash KnownChunkRecord_ok (ks_prefix s) (ks_chunks s)"

record known_chunk_index_object =
  ki_shards :: "index_shard_ref list"
  ki_total_chunks :: int

definition decode_KnownChunkIndexObject :: "json \<Rightarrow> known_chunk_index_object result" where
  "decode_KnownChunkIndexObject payload =
     bindE (model_fields [''shards'', ''total_chunks''] [] payload) (\<lambda>kvs.
     bindE (decode_tuple decode_IndexShardRef (json_get kvs ''shards'')) (\<lambda>ss.
     bindE (require_int 0 (json_get kvs ''total_chunks'')) (\<lambda>n.
     bindE (check_index KNOWN_CHUNK_SHARD ss n) (\<lambda>_. Inr \<lparr>ki_shards = ss, ki_total_chunks = n\<rparr>))))"

definition KnownChunkIndexObject_payload :: "known_chunk_index_object \<Rightarrow> json" where
  "KnownChunkIndexObject_payload s = JObj [(''shards'', JArr (map IndexShardRef_payload (ki_shards s))), (''total_chunks'', JInt (ki_total_chunks s))]"

definition KnownChunkIndexObject_ok :: "known_chunk_index_object \<Rightarrow> bool" where
  "KnownChunkIndexObject_ok s \<longleftrightarrow> index_ok KNOWN_CHUNK_SHARD (ki_shards s) (ki_total_chunks s)"


record protection_record_object =
  pr_chunk_hash :: string
  pr_desired_rf :: int
  pr_protection_state :: string
  pr_protected_remote_copies :: int
  pr_placement_epoch :: "string option"
  pr_last_push_at :: "number option"
  pr_last_verify_at :: "number option"
  pr_last_error :: "string option"

definition decode_ProtectionRecordObject :: "json \<Rightarrow> protection_record_object result" where
  "decode_ProtectionRecordObject payload =
     bindE (model_fields [''chunk_hash'', ''desired_rf'', ''protection_state'', ''protected_remote_copies'', ''placement_epoch'',
       ''last_push_at'', ''last_verify_at'', ''last_error''] [] payload) (\<lambda>kvs.
     bindE (model_require_hash64 (json_get kvs ''chunk_hash'')) (\<lambda>h.
     bindE (require_int 0 (json_get kvs ''desired_rf'')) (\<lambda>rf.
     bindE (require_one_of VALID_PROTECTION_STATES (json_get kvs ''protection_state'')) (\<lambda>st.
     bindE (require_int 0 (json_get kvs ''protected_remote_copies'')) (\<lambda>n.
     bindE (optional (require_str True) (json_get kvs ''placement_epoch'')) (\<lambda>ep.
     bindE (optional (require_number True) (json_get kvs ''last_push_at'')) (\<lambda>lp.
     bindE (optional (require_number True) (json_get kvs ''last_verify_at'')) (\<lambda>lv.
     bindE (optional (require_str True) (json_get kvs ''last_error'')) (\<lambda>le.
       Inr \<lparr>pr_chunk_hash = h, pr_desired_rf = rf, pr_protection_state = st, pr_protected_remote_copies = n, pr_placement_epoch = ep,
            pr_last_push_at = lp, pr_last_verify_at = lv, pr_last_error = le\<rparr>)))))))))"

definition ProtectionRecordObject_payload :: "protection_record_object \<Rightarrow> json" where
  "ProtectionRecordObject_payload r = JObj [(''chunk_hash'', JStr (pr_chunk_hash r)), (''desired_rf'', JInt (pr_desired_rf r)),
     (''protection_state'', JStr (pr_protection_state r)), (''protected_remote_copies'', JInt (pr_protected_remote_copies r)),
     (''placement_epoch'', optional_json JStr (pr_placement_epoch r)), (''last_push_at'', optional_json number_json (pr_last_push_at r)),
     (''last_verify_at'', optional_json number_json (pr_last_verify_at r)), (''last_error'', optional_json JStr (pr_last_error r))]"

definition ProtectionRecordObject_ok :: "protection_record_object \<Rightarrow> bool" where
  "ProtectionRecordObject_ok r \<longleftrightarrow> is_hex_n 64 (pr_chunk_hash r) \<and> 0 \<le> pr_desired_rf r \<and> pr_protection_state r \<in> VALID_PROTECTION_STATES
     \<and> 0 \<le> pr_protected_remote_copies r \<and> pred_option (number_ok True) (pr_last_push_at r) \<and> pred_option (number_ok True) (pr_last_verify_at r)"

record protection_shard_object =
  ps_prefix :: string
  ps_records :: "protection_record_object list"

definition decode_ProtectionShardObject :: "json \<Rightarrow> protection_shard_object result" where
  "decode_ProtectionShardObject payload =
     bindE (model_fields [''prefix'', ''records''] [] payload) (\<lambda>kvs.
     bindE (decode_tuple decode_ProtectionRecordObject (json_get kvs ''records'')) (\<lambda>rs.
     bindE (require_match (is_hex_n 2) (json_get kvs ''prefix'')) (\<lambda>p.
     bindE (check_shard pr_chunk_hash p rs) (\<lambda>_. Inr \<lparr>ps_prefix = p, ps_records = rs\<rparr>))))"

definition ProtectionShardObject_payload :: "protection_shard_object \<Rightarrow> json" where
  "ProtectionShardObject_payload s = JObj [(''prefix'', JStr (ps_prefix s)), (''records'', JArr (map ProtectionRecordObject_payload (ps_records s)))]"

definition ProtectionShardObject_ok :: "protection_shard_object \<Rightarrow> bool" where
  "ProtectionShardObject_ok s \<longleftrightarrow> shard_ok pr_chunk_hash ProtectionRecordObject_ok (ps_prefix s) (ps_records s)"

record protection_index_object =
  pi_shards :: "index_shard_ref list"
  pi_total_records :: int

definition decode_ProtectionIndexObject :: "json \<Rightarrow> protection_index_object result" where
  "decode_ProtectionIndexObject payload =
     bindE (model_fields [''shards'', ''total_records''] [] payload) (\<lambda>kvs.
     bindE (decode_tuple decode_IndexShardRef (json_get kvs ''shards'')) (\<lambda>ss.
     bindE (require_int 0 (json_get kvs ''total_records'')) (\<lambda>n.
     bindE (check_index PROTECTION_SHARD ss n) (\<lambda>_. Inr \<lparr>pi_shards = ss, pi_total_records = n\<rparr>))))"

definition ProtectionIndexObject_payload :: "protection_index_object \<Rightarrow> json" where
  "ProtectionIndexObject_payload s = JObj [(''shards'', JArr (map IndexShardRef_payload (pi_shards s))), (''total_records'', JInt (pi_total_records s))]"

definition ProtectionIndexObject_ok :: "protection_index_object \<Rightarrow> bool" where
  "ProtectionIndexObject_ok s \<longleftrightarrow> index_ok PROTECTION_SHARD (pi_shards s) (pi_total_records s)"

section \<open>Records of erasure-coded packs\<close>

record ec_chunk_object =
  ex_chunk_hash :: string
  ex_offset :: int
  ex_length :: int
  ex_ordinal :: int

definition decode_ErasureDataPackChunkObject :: "json \<Rightarrow> ec_chunk_object result" where
  "decode_ErasureDataPackChunkObject payload =
     bindE (model_fields [''chunk_hash'', ''offset'', ''length'', ''ordinal''] [] payload) (\<lambda>kvs.
     bindE (model_require_hash64 (json_get kvs ''chunk_hash'')) (\<lambda>h.
     bindE (require_int 0 (json_get kvs ''offset'')) (\<lambda>off.
     bindE (require_int 1 (json_get kvs ''length'')) (\<lambda>len.
     bindE (require_int 0 (json_get kvs ''ordinal'')) (\<lambda>ord.
       Inr \<lparr>ex_chunk_hash = h, ex_offset = off, ex_length = len, ex_ordinal = ord\<rparr>)))))"

definition ErasureDataPackChunkObject_payload :: "ec_chunk_object \<Rightarrow> json" where
  "ErasureDataPackChunkObject_payload c = JObj [(''chunk_hash'', JStr (ex_chunk_hash c)), (''offset'', JInt (ex_offset c)),
     (''length'', JInt (ex_length c)), (''ordinal'', JInt (ex_ordinal c))]"

definition ErasureDataPackChunkObject_ok :: "ec_chunk_object \<Rightarrow> bool" where
  "ErasureDataPackChunkObject_ok c \<longleftrightarrow> is_hex_n 64 (ex_chunk_hash c) \<and> 0 \<le> ex_offset c \<and> 1 \<le> ex_length c \<and> 0 \<le> ex_ordinal c"

record ec_placement_object =
  ep_shard_index :: int
  ep_shard_hash :: string
  ep_node_id :: string
  ep_size :: int
  ep_protection_state :: string
  ep_last_push_at :: "number option"
  ep_last_verify_at :: "number option"
  ep_last_error :: "string option"

definition decode_ErasureDataPackShardPlacementObject :: "json \<Rightarrow> ec_placement_object result" where
  "decode_ErasureDataPackShardPlacementObject payload =
     bindE (model_fields [''shard_index'', ''shard_hash'', ''node_id'', ''size'', ''protection_state'', ''last_push_at'', ''last_verify_at'',
       ''last_error''] [] payload) (\<lambda>kvs.
     bindE (require_int 0 (json_get kvs ''shard_index'')) (\<lambda>i.
     bindE (model_require_hash64 (json_get kvs ''shard_hash'')) (\<lambda>h.
     bindE (model_require_node_id (json_get kvs ''node_id'')) (\<lambda>nid.
     bindE (require_int 1 (json_get kvs ''size'')) (\<lambda>sz.
     bindE (require_one_of VALID_PROTECTION_STATES (json_get kvs ''protection_state'')) (\<lambda>st.
     bindE (optional (require_number True) (json_get kvs ''last_push_at'')) (\<lambda>lp.
     bindE (optional (require_number True) (json_get kvs ''last_verify_at'')) (\<lambda>lv.
     bindE (optional (require_str True) (json_get kvs ''last_error'')) (\<lambda>le.
       Inr \<lparr>ep_shard_index = i, ep_shard_hash = h, ep_node_id = nid, ep_size = sz, ep_protection_state = st, ep_last_push_at = lp,
            ep_last_verify_at = lv, ep_last_error = le\<rparr>)))))))))"

definition ErasureDataPackShardPlacementObject_payload :: "ec_placement_object \<Rightarrow> json" where
  "ErasureDataPackShardPlacementObject_payload s = JObj [(''shard_index'', JInt (ep_shard_index s)), (''shard_hash'', JStr (ep_shard_hash s)),
     (''node_id'', JStr (ep_node_id s)), (''size'', JInt (ep_size s)), (''protection_state'', JStr (ep_protection_state s)),
     (''last_push_at'', optional_json number_json (ep_last_push_at s)), (''last_verify_at'', optional_json number_json (ep_last_verify_at s)),
     (''last_error'', optional_json JStr (ep_last_error s))]"

definition ErasureDataPackShardPlacementObject_ok :: "ec_placement_object \<Rightarrow> bool" where
  "ErasureDataPackShardPlacementObject_ok s \<longleftrightarrow> 0 \<le> ep_shard_index s \<and> is_hex_n 64 (ep_shard_hash s) \<and> is_hex_n 32 (ep_node_id s)
     \<and> 1 \<le> ep_size s \<and> ep_protection_state s \<in> VALID_PROTECTION_STATES \<and> pred_option (number_ok True) (ep_last_push_at s)
     \<and> pred_option (number_ok True) (ep_last_verify_at s)"

record ec_pack_object =
  eo_pack_hash :: string
  eo_codec :: string
  eo_data_shards :: int
  eo_parity_shards :: int
  eo_payload_size :: int
  eo_padded_size :: int
  eo_shard_size :: int
  eo_protection_state :: string
  eo_placement_epoch :: "string option"
  eo_created_at :: number
  eo_last_push_at :: "number option"
  eo_last_verify_at :: "number option"
  eo_last_error :: "string option"
  eo_chunks :: "ec_chunk_object list"
  eo_shards :: "ec_placement_object list"

fun check_pack_chunks :: "int \<Rightarrow> int \<Rightarrow> string set \<Rightarrow> ec_chunk_object list \<Rightarrow> int result" where
  "check_pack_chunks expected_ordinal previous_end seen [] = Inr previous_end"
| "check_pack_chunks expected_ordinal previous_end seen (c # cs) =
     (if ex_chunk_hash c \<in> seen then Inl MetadataObjectError
      else if ex_ordinal c \<noteq> expected_ordinal then Inl MetadataObjectError
      else if ex_offset c \<noteq> previous_end then Inl MetadataObjectError
      else check_pack_chunks (expected_ordinal + 1) (ex_offset c + ex_length c) (insert (ex_chunk_hash c) seen) cs)"

fun check_pack_nodes :: "string set \<Rightarrow> ec_placement_object list \<Rightarrow> unit result" where
  "check_pack_nodes node_ids [] = Inr ()"
| "check_pack_nodes node_ids (s # ss) =
     (if ep_node_id s \<in> node_ids then Inl MetadataObjectError else check_pack_nodes (insert (ep_node_id s) node_ids) ss)"

definition decode_ErasureDataPackRecordObject :: "json \<Rightarrow> ec_pack_object result" where
  "decode_ErasureDataPackRecordObject payload =
     bindE (model_fields [''pack_hash'', ''codec'', ''data_shards'', ''parity_shards'', ''payload_size'', ''padded_size'', ''shard_size'',
       ''protection_state'', ''placement_epoch'', ''created_at'', ''last_push_at'', ''last_verify_at'', ''last_error'', ''chunks'', ''shards'']
       [] payload) (\<lambda>kvs.
     bindE (decode_tuple decode_ErasureDataPackChunkObject (json_get kvs ''chunks'')) (\<lambda>chunks.
     bindE (decode_tuple decode_ErasureDataPackShardPlacementObject (json_get kvs ''shards'')) (\<lambda>shards.
     bindE (model_require_hash64 (json_get kvs ''pack_hash'')) (\<lambda>h.
     bindE (require_str False (json_get kvs ''codec'')) (\<lambda>cod.
     bindE (require_int 1 (json_get kvs ''data_shards'')) (\<lambda>k.
     bindE (require_int 0 (json_get kvs ''parity_shards'')) (\<lambda>m.
     bindE (require_int 0 (json_get kvs ''payload_size'')) (\<lambda>psize.
     bindE (require_int 0 (json_get kvs ''padded_size'')) (\<lambda>pad.
     bindE (require_int 1 (json_get kvs ''shard_size'')) (\<lambda>ssize.
     bindE (raise_if (pad \<noteq> ssize * k) MetadataObjectError) (\<lambda>_.
     bindE (raise_if (pad < psize) MetadataObjectError) (\<lambda>_.
     bindE (require_one_of VALID_PROTECTION_STATES (json_get kvs ''protection_state'')) (\<lambda>st.
     bindE (optional (require_str True) (json_get kvs ''placement_epoch'')) (\<lambda>ep.
     bindE (require_number True (json_get kvs ''created_at'')) (\<lambda>ca.
     bindE (optional (require_number True) (json_get kvs ''last_push_at'')) (\<lambda>lp.
     bindE (optional (require_number True) (json_get kvs ''last_verify_at'')) (\<lambda>lv.
     bindE (optional (require_str True) (json_get kvs ''last_error'')) (\<lambda>le.
     bindE (raise_if (chunks = []) MetadataObjectError) (\<lambda>_.
     bindE (check_pack_chunks 0 0 {} chunks) (\<lambda>previous_end.
     bindE (raise_if (previous_end \<noteq> psize) MetadataObjectError) (\<lambda>_.
     bindE (check_pack_nodes {} shards) (\<lambda>_.
     bindE (raise_if (map ep_shard_index shards \<noteq> [0..k + m - 1]) MetadataObjectError) (\<lambda>_.
       Inr \<lparr>eo_pack_hash = h, eo_codec = cod, eo_data_shards = k, eo_parity_shards = m, eo_payload_size = psize, eo_padded_size = pad,
            eo_shard_size = ssize, eo_protection_state = st, eo_placement_epoch = ep, eo_created_at = ca, eo_last_push_at = lp,
            eo_last_verify_at = lv, eo_last_error = le, eo_chunks = chunks, eo_shards = shards\<rparr>)))))))))))))))))))))))"

definition ErasureDataPackRecordObject_payload :: "ec_pack_object \<Rightarrow> json" where
  "ErasureDataPackRecordObject_payload p = JObj [(''pack_hash'', JStr (eo_pack_hash p)), (''codec'', JStr (eo_codec p)),
     (''data_shards'', JInt (eo_data_shards p)), (''parity_shards'', JInt (eo_parity_shards p)), (''payload_size'', JInt (eo_payload_size p)),
     (''padded_size'', JInt (eo_padded_size p)), (''shard_size'', JInt (eo_shard_size p)), (''protection_state'', JStr (eo_protection_state p)),
     (''placement_epoch'', optional_json JStr (eo_placement_epoch p)), (''created_at'', number_json (eo_created_at p)),
     (''last_push_at'', optional_json number_json (eo_last_push_at p)), (''last_verify_at'', optional_json number_json (eo_last_verify_at p)),
     (''last_error'', optional_json JStr (eo_last_error p)), (''chunks'', JArr (map ErasureDataPackChunkObject_payload (eo_chunks p))),
     (''shards'', JArr (map ErasureDataPackShardPlacementObject_payload (eo_shards p)))]"

text \<open>The chunks lie one after another in the payload, and cover it.\<close>

definition offsets_ok :: "int \<Rightarrow> ec_chunk_object list \<Rightarrow> bool" where
  "offsets_ok start cs \<longleftrightarrow> (\<forall>i < length cs. ex_offset (cs ! i) = start + sum_list (map ex_length (take i cs)))"

definition ErasureDataPackRecordObject_ok :: "ec_pack_object \<Rightarrow> bool" where
  "ErasureDataPackRecordObject_ok p \<longleftrightarrow> is_hex_n 64 (eo_pack_hash p) \<and> eo_codec p \<noteq> [] \<and> 1 \<le> eo_data_shards p \<and> 0 \<le> eo_parity_shards p
     \<and> 0 \<le> eo_payload_size p \<and> 1 \<le> eo_shard_size p \<and> eo_padded_size p = eo_shard_size p * eo_data_shards p
     \<and> eo_payload_size p \<le> eo_padded_size p \<and> eo_protection_state p \<in> VALID_PROTECTION_STATES \<and> number_ok True (eo_created_at p)
     \<and> pred_option (number_ok True) (eo_last_push_at p) \<and> pred_option (number_ok True) (eo_last_verify_at p)
     \<and> list_all ErasureDataPackChunkObject_ok (eo_chunks p) \<and> list_all ErasureDataPackShardPlacementObject_ok (eo_shards p)
     \<and> eo_chunks p \<noteq> [] \<and> distinct (map ex_chunk_hash (eo_chunks p)) \<and> map ex_ordinal (eo_chunks p) = map int [0..<length (eo_chunks p)]
     \<and> offsets_ok 0 (eo_chunks p) \<and> eo_payload_size p = sum_list (map ex_length (eo_chunks p))
     \<and> distinct (map ep_node_id (eo_shards p)) \<and> map ep_shard_index (eo_shards p) = [0..eo_data_shards p + eo_parity_shards p - 1]"


record ec_pack_shard_object =
  es_prefix :: string
  es_records :: "ec_pack_object list"

definition decode_ErasureDataPackShardObject :: "json \<Rightarrow> ec_pack_shard_object result" where
  "decode_ErasureDataPackShardObject payload =
     bindE (model_fields [''prefix'', ''records''] [] payload) (\<lambda>kvs.
     bindE (decode_tuple decode_ErasureDataPackRecordObject (json_get kvs ''records'')) (\<lambda>rs.
     bindE (require_match (is_hex_n 2) (json_get kvs ''prefix'')) (\<lambda>p.
     bindE (check_shard eo_pack_hash p rs) (\<lambda>_. Inr \<lparr>es_prefix = p, es_records = rs\<rparr>))))"

definition ErasureDataPackShardObject_payload :: "ec_pack_shard_object \<Rightarrow> json" where
  "ErasureDataPackShardObject_payload s = JObj [(''prefix'', JStr (es_prefix s)),
     (''records'', JArr (map ErasureDataPackRecordObject_payload (es_records s)))]"

definition ErasureDataPackShardObject_ok :: "ec_pack_shard_object \<Rightarrow> bool" where
  "ErasureDataPackShardObject_ok s \<longleftrightarrow> shard_ok eo_pack_hash ErasureDataPackRecordObject_ok (es_prefix s) (es_records s)"

record ec_pack_index_object =
  ei_shards :: "index_shard_ref list"
  ei_total_packs :: int
  ei_total_chunks :: int
  ei_total_shards :: int

definition decode_ErasureDataPackIndexObject :: "json \<Rightarrow> ec_pack_index_object result" where
  "decode_ErasureDataPackIndexObject payload =
     bindE (model_fields [''shards'', ''total_packs'', ''total_chunks'', ''total_shards''] [] payload) (\<lambda>kvs.
     bindE (decode_tuple decode_IndexShardRef (json_get kvs ''shards'')) (\<lambda>ss.
     bindE (require_int 0 (json_get kvs ''total_packs'')) (\<lambda>n.
     bindE (require_int 0 (json_get kvs ''total_chunks'')) (\<lambda>c.
     bindE (require_int 0 (json_get kvs ''total_shards'')) (\<lambda>s.
     bindE (check_index ERASURE_DATA_PACK_SHARD ss n) (\<lambda>_.
       Inr \<lparr>ei_shards = ss, ei_total_packs = n, ei_total_chunks = c, ei_total_shards = s\<rparr>))))))"

definition ErasureDataPackIndexObject_payload :: "ec_pack_index_object \<Rightarrow> json" where
  "ErasureDataPackIndexObject_payload s = JObj [(''shards'', JArr (map IndexShardRef_payload (ei_shards s))),
     (''total_packs'', JInt (ei_total_packs s)), (''total_chunks'', JInt (ei_total_chunks s)), (''total_shards'', JInt (ei_total_shards s))]"

definition ErasureDataPackIndexObject_ok :: "ec_pack_index_object \<Rightarrow> bool" where
  "ErasureDataPackIndexObject_ok s \<longleftrightarrow> index_ok ERASURE_DATA_PACK_SHARD (ei_shards s) (ei_total_packs s)
     \<and> 0 \<le> ei_total_chunks s \<and> 0 \<le> ei_total_shards s"

section \<open>The catalog\<close>

record catalog_object =
  ca_vault_id :: string
  ca_snapshot_index :: object_ref
  ca_known_chunk_index :: object_ref
  ca_protection_index :: "object_ref option"
  ca_snapshot_count :: int
  ca_known_chunk_count :: int
  ca_protection_record_count :: int
  ca_erasure_data_pack_index :: "object_ref option"
  ca_erasure_data_pack_count :: int
  ca_erasure_data_pack_chunk_count :: int
  ca_erasure_data_pack_shard_count :: int

definition other_type :: "metadata_object_type \<Rightarrow> object_ref option \<Rightarrow> bool" where
  "other_type t r = (case r of None \<Rightarrow> False | Some q \<Rightarrow> or_type q \<noteq> t)"

definition decode_CatalogObject :: "json \<Rightarrow> catalog_object result" where
  "decode_CatalogObject payload =
     bindE (model_fields [''vault_id'', ''snapshot_index'', ''known_chunk_index'', ''protection_index'', ''snapshot_count'',
         ''known_chunk_count'', ''protection_record_count'']
       [''erasure_data_pack_index'', ''erasure_data_pack_count'', ''erasure_data_pack_chunk_count'', ''erasure_data_pack_shard_count'']
       payload) (\<lambda>kvs.
     bindE (decode_ObjectRef (json_get kvs ''snapshot_index'')) (\<lambda>si.
     bindE (decode_ObjectRef (json_get kvs ''known_chunk_index'')) (\<lambda>ki.
     bindE (optional decode_ObjectRef (json_get kvs ''protection_index'')) (\<lambda>pi.
     bindE (optional decode_ObjectRef (json_get kvs ''erasure_data_pack_index'')) (\<lambda>ei.
     bindE (model_require_node_id (json_get kvs ''vault_id'')) (\<lambda>vid.
     bindE (raise_if (or_type si \<noteq> SNAPSHOT_INDEX) MetadataObjectError) (\<lambda>_.
     bindE (raise_if (or_type ki \<noteq> KNOWN_CHUNK_INDEX) MetadataObjectError) (\<lambda>_.
     bindE (raise_if (other_type PROTECTION_INDEX pi) MetadataObjectError) (\<lambda>_.
     bindE (require_int 0 (json_get kvs ''snapshot_count'')) (\<lambda>sn.
     bindE (require_int 0 (json_get kvs ''known_chunk_count'')) (\<lambda>kn.
     bindE (require_int 0 (json_get kvs ''protection_record_count'')) (\<lambda>pn.
     bindE (raise_if (other_type ERASURE_DATA_PACK_INDEX ei) MetadataObjectError) (\<lambda>_.
     bindE (require_int 0 (field_or (JInt 0) kvs ''erasure_data_pack_count'')) (\<lambda>en.
     bindE (require_int 0 (field_or (JInt 0) kvs ''erasure_data_pack_chunk_count'')) (\<lambda>ec.
     bindE (require_int 0 (field_or (JInt 0) kvs ''erasure_data_pack_shard_count'')) (\<lambda>es.
       Inr \<lparr>ca_vault_id = vid, ca_snapshot_index = si, ca_known_chunk_index = ki, ca_protection_index = pi, ca_snapshot_count = sn,
            ca_known_chunk_count = kn, ca_protection_record_count = pn, ca_erasure_data_pack_index = ei, ca_erasure_data_pack_count = en,
            ca_erasure_data_pack_chunk_count = ec, ca_erasure_data_pack_shard_count = es\<rparr>))))))))))))))))"

definition CatalogObject_payload :: "catalog_object \<Rightarrow> json" where
  "CatalogObject_payload c = JObj [(''vault_id'', JStr (ca_vault_id c)), (''snapshot_index'', ObjectRef_payload (ca_snapshot_index c)),
     (''known_chunk_index'', ObjectRef_payload (ca_known_chunk_index c)),
     (''protection_index'', optional_json ObjectRef_payload (ca_protection_index c)), (''snapshot_count'', JInt (ca_snapshot_count c)),
     (''known_chunk_count'', JInt (ca_known_chunk_count c)), (''protection_record_count'', JInt (ca_protection_record_count c)),
     (''erasure_data_pack_index'', optional_json ObjectRef_payload (ca_erasure_data_pack_index c)),
     (''erasure_data_pack_count'', JInt (ca_erasure_data_pack_count c)),
     (''erasure_data_pack_chunk_count'', JInt (ca_erasure_data_pack_chunk_count c)),
     (''erasure_data_pack_shard_count'', JInt (ca_erasure_data_pack_shard_count c))]"

definition CatalogObject_ok :: "catalog_object \<Rightarrow> bool" where
  "CatalogObject_ok c \<longleftrightarrow> is_hex_n 32 (ca_vault_id c) \<and> ref_to SNAPSHOT_INDEX (ca_snapshot_index c)
     \<and> ref_to KNOWN_CHUNK_INDEX (ca_known_chunk_index c) \<and> pred_option (ref_to PROTECTION_INDEX) (ca_protection_index c)
     \<and> 0 \<le> ca_snapshot_count c \<and> 0 \<le> ca_known_chunk_count c \<and> 0 \<le> ca_protection_record_count c
     \<and> pred_option (ref_to ERASURE_DATA_PACK_INDEX) (ca_erasure_data_pack_index c) \<and> 0 \<le> ca_erasure_data_pack_count c
     \<and> 0 \<le> ca_erasure_data_pack_chunk_count c \<and> 0 \<le> ca_erasure_data_pack_shard_count c"

section \<open>The codec\<close>

datatype metadata_object =
    Catalog catalog_object
  | SnapshotIndex "snapshot_index_entry list"
  | SnapshotRoot snapshot_root_object
  | Tree "tree_entry list"
  | File file_object
  | Recipe recipe_object
  | ChunkList "chunk_ref list"
  | KnownChunkIndex known_chunk_index_object
  | KnownChunkShard known_chunk_shard_object
  | ProtectionIndex protection_index_object
  | ProtectionShard protection_shard_object
  | ErasureDataPackIndex ec_pack_index_object
  | ErasureDataPackShard ec_pack_shard_object

fun object_type :: "metadata_object \<Rightarrow> metadata_object_type" where
  "object_type (Catalog _) = CATALOG"
| "object_type (SnapshotIndex _) = SNAPSHOT_INDEX"
| "object_type (SnapshotRoot _) = SNAPSHOT_ROOT"
| "object_type (Tree _) = TREE"
| "object_type (File _) = FILE"
| "object_type (Recipe _) = RECIPE"
| "object_type (ChunkList _) = CHUNK_LIST"
| "object_type (KnownChunkIndex _) = KNOWN_CHUNK_INDEX"
| "object_type (KnownChunkShard _) = KNOWN_CHUNK_SHARD"
| "object_type (ProtectionIndex _) = PROTECTION_INDEX"
| "object_type (ProtectionShard _) = PROTECTION_SHARD"
| "object_type (ErasureDataPackIndex _) = ERASURE_DATA_PACK_INDEX"
| "object_type (ErasureDataPackShard _) = ERASURE_DATA_PACK_SHARD"

fun object_payload :: "metadata_object \<Rightarrow> json" where
  "object_payload (Catalog c) = CatalogObject_payload c"
| "object_payload (SnapshotIndex s) = SnapshotIndexObject_payload s"
| "object_payload (SnapshotRoot s) = SnapshotRootObject_payload s"
| "object_payload (Tree t) = TreeObject_payload t"
| "object_payload (File f) = FileObject_payload f"
| "object_payload (Recipe r) = RecipeObject_payload r"
| "object_payload (ChunkList c) = ChunkListObject_payload c"
| "object_payload (KnownChunkIndex i) = KnownChunkIndexObject_payload i"
| "object_payload (KnownChunkShard s) = KnownChunkShardObject_payload s"
| "object_payload (ProtectionIndex i) = ProtectionIndexObject_payload i"
| "object_payload (ProtectionShard s) = ProtectionShardObject_payload s"
| "object_payload (ErasureDataPackIndex i) = ErasureDataPackIndexObject_payload i"
| "object_payload (ErasureDataPackShard s) = ErasureDataPackShardObject_payload s"

fun object_ok :: "metadata_object \<Rightarrow> bool" where
  "object_ok (Catalog c) = CatalogObject_ok c"
| "object_ok (SnapshotIndex s) = SnapshotIndexObject_ok s"
| "object_ok (SnapshotRoot s) = SnapshotRootObject_ok s"
| "object_ok (Tree t) = TreeObject_ok t"
| "object_ok (File f) = FileObject_ok f"
| "object_ok (Recipe r) = RecipeObject_ok r"
| "object_ok (ChunkList c) = ChunkListObject_ok c"
| "object_ok (KnownChunkIndex i) = KnownChunkIndexObject_ok i"
| "object_ok (KnownChunkShard s) = KnownChunkShardObject_ok s"
| "object_ok (ProtectionIndex i) = ProtectionIndexObject_ok i"
| "object_ok (ProtectionShard s) = ProtectionShardObject_ok s"
| "object_ok (ErasureDataPackIndex i) = ErasureDataPackIndexObject_ok i"
| "object_ok (ErasureDataPackShard s) = ErasureDataPackShardObject_ok s"

definition decode_as :: "('a \<Rightarrow> metadata_object) \<Rightarrow> (json \<Rightarrow> 'a result) \<Rightarrow> json \<Rightarrow> metadata_object result" where
  "decode_as c f payload = bindE (f payload) (\<lambda>x. Inr (c x))"

fun decode_class :: "metadata_object_type \<Rightarrow> json \<Rightarrow> metadata_object result" where
  "decode_class CATALOG = decode_as Catalog decode_CatalogObject"
| "decode_class SNAPSHOT_INDEX = decode_as SnapshotIndex decode_SnapshotIndexObject"
| "decode_class SNAPSHOT_ROOT = decode_as SnapshotRoot decode_SnapshotRootObject"
| "decode_class TREE = decode_as Tree decode_TreeObject"
| "decode_class FILE = decode_as File decode_FileObject"
| "decode_class RECIPE = decode_as Recipe decode_RecipeObject"
| "decode_class CHUNK_LIST = decode_as ChunkList decode_ChunkListObject"
| "decode_class KNOWN_CHUNK_INDEX = decode_as KnownChunkIndex decode_KnownChunkIndexObject"
| "decode_class KNOWN_CHUNK_SHARD = decode_as KnownChunkShard decode_KnownChunkShardObject"
| "decode_class PROTECTION_INDEX = decode_as ProtectionIndex decode_ProtectionIndexObject"
| "decode_class PROTECTION_SHARD = decode_as ProtectionShard decode_ProtectionShardObject"
| "decode_class ERASURE_DATA_PACK_INDEX = decode_as ErasureDataPackIndex decode_ErasureDataPackIndexObject"
| "decode_class ERASURE_DATA_PACK_SHARD = decode_as ErasureDataPackShard decode_ErasureDataPackShardObject"

text \<open>Two parsed values are equal as dicts when they agree up to the order of keys.\<close>

definition decode_metadata_object_payload :: "metadata_object_type \<Rightarrow> json \<Rightarrow> metadata_object result" where
  "decode_metadata_object_payload t payload =
     bindE (decode_class t payload) (\<lambda>obj.
       if json_sorted (object_payload obj) \<noteq> json_sorted payload then Inl MetadataObjectError else Inr obj)"

definition object_envelope :: "metadata_object \<Rightarrow> json" where
  "object_envelope obj = JObj [(''format'', JStr METADATA_OBJECT_FORMAT), (''version'', JInt METADATA_OBJECT_VERSION),
     (''object_type'', JStr (type_value (object_type obj))), (''payload'', object_payload obj)]"

definition canonical_object_bytes :: "metadata_object \<Rightarrow> bytes" where
  "canonical_object_bytes obj = canonical_json_bytes (object_envelope obj)"

record encoded_metadata_object =
  en_type :: metadata_object_type
  en_hash :: string
  en_bytes :: bytes

definition encoded_size :: "encoded_metadata_object \<Rightarrow> int" where
  "encoded_size e = int (length (en_bytes e))"

definition encode_metadata_object :: "(bytes \<Rightarrow> string) \<Rightarrow> metadata_object \<Rightarrow> encoded_metadata_object" where
  "encode_metadata_object blake3 obj =
     (let canonical = canonical_object_bytes obj in
      \<lparr>en_type = object_type obj, en_hash = blake3 canonical, en_bytes = canonical\<rparr>)"

definition canonical_state_digest :: "(bytes \<Rightarrow> string) \<Rightarrow> string \<Rightarrow> string list \<Rightarrow> string" where
  "canonical_state_digest blake3 catalog_hash object_hashes =
     blake3 (canonical_json_bytes (JObj [(''catalog_hash'', JStr catalog_hash), (''object_hashes'', JArr (map JStr (sort object_hashes)))]))"

section \<open>Decoded objects are well-formed\<close>

lemma require_eqs [res_simps]:
  "require_str ae v = Inr s \<longleftrightarrow> v = JStr s \<and> (ae \<or> s \<noteq> [])"
  "require_int m v = Inr i \<longleftrightarrow> v = JInt i \<and> m \<le> i"
  "require_match re v = Inr s \<longleftrightarrow> v = JStr s \<and> s \<noteq> [] \<and> re s"
  "require_one_of vs v = Inr s \<longleftrightarrow> v = JStr s \<and> s \<noteq> [] \<and> s \<in> vs"
  "require_number nn v = Inr x \<longleftrightarrow> v = number_json x \<and> number_ok nn x"
  "optional f v = Inr y \<longleftrightarrow> (v = JNull \<and> y = None \<or> v \<noteq> JNull \<and> (\<exists>x. f v = Inr x \<and> y = Some x))"
  "decode_tuple g v = Inr xs \<longleftrightarrow> (\<exists>vs. v = JArr vs \<and> list_all2 (\<lambda>v x. g v = Inr x) vs xs)"
  by (auto simp: require_str_def require_int_def require_match_def require_one_of_def require_number_def optional_def decode_tuple_def
      number_ok_def bindE_eq_Inr mapE_eq_Inr split: json.splits if_splits number.splits elim!: number_json.elims)

lemma hex_n_nonempty: "is_hex_n n s \<Longrightarrow> 0 < n \<Longrightarrow> s \<noteq> []"
  by (auto simp: is_hex_n_def)

lemma uuid_nonempty: "is_uuid s \<Longrightarrow> s \<noteq> []"
  by (auto simp: is_uuid_def)

lemma valid_states_nonempty:
  "s \<in> VALID_ITEM_TYPES \<Longrightarrow> s \<noteq> []" "s \<in> VALID_SNAPSHOT_STATES \<Longrightarrow> s \<noteq> []" "s \<in> VALID_PROTECTION_STATES \<Longrightarrow> s \<noteq> []"
  by (auto simp: VALID_ITEM_TYPES_def VALID_SNAPSHOT_STATES_def VALID_PROTECTION_STATES_def)

lemma require_hex [res_simps]:
  "model_require_hash64 v = Inr s \<longleftrightarrow> v = JStr s \<and> is_hex_n 64 s"
  "model_require_node_id v = Inr s \<longleftrightarrow> v = JStr s \<and> is_hex_n 32 s"
  "require_uuid v = Inr s \<longleftrightarrow> v = JStr s \<and> is_uuid s"
  "require_match (is_hex_n 2) v = Inr s \<longleftrightarrow> v = JStr s \<and> is_hex_n 2 s"
  by (auto simp: model_require_hash64_def model_require_node_id_def require_uuid_def require_eqs dest: hex_n_nonempty uuid_nonempty)

lemma list_all_decoded: "list_all2 (\<lambda>v x. f v = Inr x) vs xs \<Longrightarrow> (\<And>v x. f v = Inr x \<Longrightarrow> P x) \<Longrightarrow> list_all P xs"
  by (induction rule: list_all2_induct) auto

lemma strict_sorted: "sorted_wrt (<) (xs :: 'a::linorder list) \<longleftrightarrow> sorted xs \<and> distinct xs"
  by (rule strict_sorted_iff)

lemma check_orders_iff: "check_orders n cs = Inr () \<longleftrightarrow> map ch_order cs = [n..n + int (length cs) - 1]"
proof (induction cs arbitrary: n)
  case (Cons c cs)
  have "[n..n + int (length (c # cs)) - 1] = n # [n + 1..n + 1 + int (length cs) - 1]"
    by (subst upto.simps) (simp add: algebra_simps)
  then show ?case using Cons.IH [of "n + 1"] by auto
qed simp

lemma upto_upt: "[0..int n - 1] = map int [0..<n]"
proof (induction n)
  case (Suc n)
  then show ?case by (simp add: upto_rec2)
qed simp

lemma check_index_iff: "check_index t shards n = Inr () \<longleftrightarrow>
    list_all (\<lambda>s. or_type (is_ref s) = t) shards \<and> sorted_wrt (<) (map is_prefix shards) \<and> n = sum_list (map is_count shards)"
  by (auto simp: check_index_def strict_sorted bindE_eq_Inr)

lemma check_shard_iff: "check_shard key p rs = Inr () \<longleftrightarrow> list_all (\<lambda>r. prefix p (key r)) rs \<and> sorted_wrt (<) (map key rs)"
  by (auto simp: check_shard_def strict_sorted bindE_eq_Inr)

lemma check_pack_nodes_iff: "check_pack_nodes ns ss = Inr () \<longleftrightarrow> distinct (map ep_node_id ss) \<and> ep_node_id ` set ss \<inter> ns = {}"
  by (induction ss arbitrary: ns) auto

lemma offsets_ok_Cons: "offsets_ok start (c # cs) \<longleftrightarrow> ex_offset c = start \<and> offsets_ok (start + ex_length c) cs"
  unfolding offsets_ok_def by (auto simp: All_less_Suc2 algebra_simps)

lemma check_pack_chunks_iff: "check_pack_chunks n start seen cs = Inr e \<longleftrightarrow>
    distinct (map ex_chunk_hash cs) \<and> ex_chunk_hash ` set cs \<inter> seen = {} \<and> map ex_ordinal cs = [n..n + int (length cs) - 1]
    \<and> offsets_ok start cs \<and> e = start + sum_list (map ex_length cs)"
proof (induction cs arbitrary: n start seen)
  case (Cons c cs)
  have "[n..n + int (length (c # cs)) - 1] = n # [n + 1..n + 1 + int (length cs) - 1]"
    by (subst upto.simps) (simp add: algebra_simps)
  then show ?case using Cons.IH [of "n + 1" "ex_offset c + ex_length c" "insert (ex_chunk_hash c) seen"] by (auto simp: offsets_ok_Cons)
qed (auto simp: offsets_ok_def)

lemma decode_ObjectRef_ok: "decode_ObjectRef v = Inr r \<Longrightarrow> ObjectRef_ok r"
  by (auto simp: decode_ObjectRef_def ObjectRef_ok_def res_simps)

lemma decode_ChunkRef_ok: "decode_ChunkRef v = Inr c \<Longrightarrow> ChunkRef_ok c"
  by (auto simp: decode_ChunkRef_def ChunkRef_ok_def res_simps)

lemma decode_ChunkListObject_ok: "decode_ChunkListObject v = Inr cs \<Longrightarrow> ChunkListObject_ok cs"
  by (auto simp: decode_ChunkListObject_def ChunkListObject_ok_def res_simps check_orders_iff upto_upt elim!: list_all_decoded intro: decode_ChunkRef_ok)

lemma decode_RecipeObject_ok: "decode_RecipeObject v = Inr r \<Longrightarrow> RecipeObject_ok r"
  by (auto simp: decode_RecipeObject_def RecipeObject_ok_def ref_to_def res_simps split: if_splits intro: decode_ObjectRef_ok)

lemma decode_FileObject_ok: "decode_FileObject v = Inr r \<Longrightarrow> FileObject_ok r"
  by (auto simp: decode_FileObject_def FileObject_ok_def ref_to_def res_simps split: if_splits intro: decode_ObjectRef_ok)

lemma decode_TreeEntry_ok: "decode_TreeEntry v = Inr e \<Longrightarrow> TreeEntry_ok e"
  by (auto simp: decode_TreeEntry_def TreeEntry_ok_def ref_to_def res_simps split: if_splits intro: decode_ObjectRef_ok)

lemma decode_TreeObject_ok: "decode_TreeObject v = Inr es \<Longrightarrow> TreeObject_ok es"
  by (auto simp: decode_TreeObject_def TreeObject_ok_def res_simps strict_sorted elim!: list_all_decoded intro: decode_TreeEntry_ok)

lemma decode_SnapshotRootObject_ok: "decode_SnapshotRootObject v = Inr r \<Longrightarrow> SnapshotRootObject_ok r"
  by (auto simp: decode_SnapshotRootObject_def SnapshotRootObject_ok_def ref_to_def res_simps split: if_splits intro: decode_ObjectRef_ok)

lemma decode_SnapshotIndexEntry_ok: "decode_SnapshotIndexEntry v = Inr r \<Longrightarrow> SnapshotIndexEntry_ok r"
  by (auto simp: decode_SnapshotIndexEntry_def SnapshotIndexEntry_ok_def ref_to_def res_simps split: if_splits option.splits
      intro: decode_ObjectRef_ok)

lemma decode_SnapshotIndexObject_ok: "decode_SnapshotIndexObject v = Inr es \<Longrightarrow> SnapshotIndexObject_ok es"
  by (auto simp: decode_SnapshotIndexObject_def SnapshotIndexObject_ok_def res_simps elim!: list_all_decoded intro: decode_SnapshotIndexEntry_ok)

lemma decode_IndexShardRef_ok: "decode_IndexShardRef v = Inr r \<Longrightarrow> IndexShardRef_ok r"
  by (auto simp: decode_IndexShardRef_def IndexShardRef_ok_def res_simps intro: decode_ObjectRef_ok)

lemma decoded_index_ok:
  assumes "list_all2 (\<lambda>v x. decode_IndexShardRef v = Inr x) vs ss" "check_index t ss n = Inr ()"
  shows "index_ok t ss n"
  using list_all_decoded [OF assms(1), of IndexShardRef_ok] decode_IndexShardRef_ok assms(2)
  by (auto simp: index_ok_def check_index_iff list_all_iff)

lemma decoded_shard_ok:
  assumes "list_all2 (\<lambda>v x. f v = Inr x) vs rs" "check_shard key p rs = Inr ()" "is_hex_n 2 p" "\<And>v x. f v = Inr x \<Longrightarrow> ok x"
  shows "shard_ok key ok p rs"
  using list_all_decoded [OF assms(1), of ok] assms(2-4) by (auto simp: shard_ok_def check_shard_iff list_all_iff)

lemma decode_KnownChunkRecord_ok: "decode_KnownChunkRecord v = Inr r \<Longrightarrow> KnownChunkRecord_ok r"
  by (auto simp: decode_KnownChunkRecord_def KnownChunkRecord_ok_def res_simps)

lemma decode_ProtectionRecordObject_ok: "decode_ProtectionRecordObject v = Inr r \<Longrightarrow> ProtectionRecordObject_ok r"
  by (auto simp: decode_ProtectionRecordObject_def ProtectionRecordObject_ok_def res_simps)

lemma decode_ErasureDataPackChunkObject_ok: "decode_ErasureDataPackChunkObject v = Inr r \<Longrightarrow> ErasureDataPackChunkObject_ok r"
  by (auto simp: decode_ErasureDataPackChunkObject_def ErasureDataPackChunkObject_ok_def res_simps)

lemma decode_ErasureDataPackShardPlacementObject_ok:
  "decode_ErasureDataPackShardPlacementObject v = Inr r \<Longrightarrow> ErasureDataPackShardPlacementObject_ok r"
  by (auto simp: decode_ErasureDataPackShardPlacementObject_def ErasureDataPackShardPlacementObject_ok_def res_simps)

lemma raise_branch: "(if b then Inl e else m) = Inr y \<longleftrightarrow> \<not> b \<and> m = Inr y"
  by simp

lemma decode_ErasureDataPackRecordObject_ok:
  assumes "decode_ErasureDataPackRecordObject v = Inr r"
  shows "ErasureDataPackRecordObject_ok r"
proof -
  have chunks: "decode_tuple decode_ErasureDataPackChunkObject w = Inr cs \<Longrightarrow> list_all ErasureDataPackChunkObject_ok cs" for w cs
    by (auto simp: require_eqs elim!: list_all_decoded intro: decode_ErasureDataPackChunkObject_ok)
  have shards: "decode_tuple decode_ErasureDataPackShardPlacementObject w = Inr ss
      \<Longrightarrow> list_all ErasureDataPackShardPlacementObject_ok ss" for w ss
    by (auto simp: require_eqs elim!: list_all_decoded intro: decode_ErasureDataPackShardPlacementObject_ok)
  have time: "optional (require_number True) w = Inr y \<Longrightarrow> pred_option (number_ok True) y" for w y
    by (auto simp: require_eqs)
  show ?thesis using assms unfolding decode_ErasureDataPackRecordObject_def
    by (simp add: bindE_eq_Inr require_eqs(1,2,4,5) require_hex raise_branch check_pack_chunks_iff check_pack_nodes_iff upto_upt)
      (elim exE conjE, drule chunks, drule shards, (drule time)+, force simp: ErasureDataPackRecordObject_ok_def)
qed

lemma decode_CatalogObject_ok: "decode_CatalogObject v = Inr r \<Longrightarrow> CatalogObject_ok r"
  by (auto simp: decode_CatalogObject_def CatalogObject_ok_def ref_to_def other_type_def res_simps split: if_splits option.splits
      intro: decode_ObjectRef_ok)

lemma decode_shards_ok:
  "decode_KnownChunkShardObject v = Inr a \<Longrightarrow> KnownChunkShardObject_ok a"
  "decode_ProtectionShardObject v = Inr b \<Longrightarrow> ProtectionShardObject_ok b"
  "decode_ErasureDataPackShardObject v = Inr c \<Longrightarrow> ErasureDataPackShardObject_ok c"
  by (auto simp: decode_KnownChunkShardObject_def KnownChunkShardObject_ok_def decode_ProtectionShardObject_def ProtectionShardObject_ok_def
      decode_ErasureDataPackShardObject_def ErasureDataPackShardObject_ok_def res_simps
      elim!: decoded_shard_ok intro: decode_KnownChunkRecord_ok decode_ProtectionRecordObject_ok decode_ErasureDataPackRecordObject_ok)

lemma decode_indexes_ok:
  "decode_KnownChunkIndexObject v = Inr a \<Longrightarrow> KnownChunkIndexObject_ok a"
  "decode_ProtectionIndexObject v = Inr b \<Longrightarrow> ProtectionIndexObject_ok b"
  "decode_ErasureDataPackIndexObject v = Inr c \<Longrightarrow> ErasureDataPackIndexObject_ok c"
  by (auto simp: decode_KnownChunkIndexObject_def KnownChunkIndexObject_ok_def decode_ProtectionIndexObject_def ProtectionIndexObject_ok_def
      decode_ErasureDataPackIndexObject_def ErasureDataPackIndexObject_ok_def res_simps intro: decoded_index_ok)

lemma decode_class_ok: "decode_class t v = Inr obj \<Longrightarrow> object_type obj = t \<and> object_ok obj"
  by (cases t) (auto simp: decode_as_def bindE_eq_Inr intro: decode_CatalogObject_ok decode_SnapshotIndexObject_ok decode_SnapshotRootObject_ok
      decode_TreeObject_ok decode_FileObject_ok decode_RecipeObject_ok decode_ChunkListObject_ok decode_shards_ok decode_indexes_ok)


section \<open>Payloads of well-formed objects decode\<close>

lemma type_of_type_value [simp]: "type_of_value (type_value t) = Some t"
  by (cases t) (simp_all add: type_of_value_def object_types_def)

lemma json_get_sorted:
  "distinct (map fst kvs) \<Longrightarrow> json_get (sort_key fst (map (\<lambda>(k, v). (k, json_sorted v)) kvs)) k = json_sorted (json_get kvs k)"
  "distinct (map fst kvs) \<Longrightarrow> field_or (JInt 0) (sort_key fst (map (\<lambda>(k, v). (k, json_sorted v)) kvs)) k = json_sorted (field_or (JInt 0) kvs k)"
proof -
  let ?kvs = "map (\<lambda>(k, v). (k, json_sorted v)) kvs"
  assume d: "distinct (map fst kvs)"
  have "map fst ?kvs = map fst kvs" by (induction kvs) auto
  then have "map_of (sort_key fst ?kvs) k = map_option json_sorted (map_of kvs k)" using d map_of_sort_key [of ?kvs]
    by (simp only: map_of_map comp_apply)
  then show "json_get (sort_key fst ?kvs) k = json_sorted (json_get kvs k)"
    "field_or (JInt 0) (sort_key fst ?kvs) k = json_sorted (field_or (JInt 0) kvs k)"
    by (auto simp: json_get_def field_or_def split: option.split)
qed

lemma model_fields_sorted:
  assumes "distinct (map fst kvs)" "set (map fst kvs) \<subseteq> set r \<union> set d" "set r \<subseteq> set (map fst kvs)"
  shows "bindE (model_fields r d (json_sorted (JObj kvs))) f = f (sort_key fst (map (\<lambda>(k, v). (k, json_sorted v)) kvs))"
  using assms by (auto simp: model_fields_def list_all_iff image_iff split_def)

lemma json_get_simps [simp]: "json_get ((k, v) # kvs) k' = (if k' = k then v else json_get kvs k')" "json_get [] k' = JNull"
  by (simp_all add: json_get_def)

lemma field_or_simps [simp]: "field_or d ((k, v) # kvs) k' = (if k' = k then v else field_or d kvs k')" "field_or d [] k' = d"
  by (simp_all add: field_or_def)

lemma require_ok [simp]:
  "require_str True (JStr s) = Inr s" "s \<noteq> [] \<Longrightarrow> require_str b (JStr s) = Inr s" "m \<le> i \<Longrightarrow> require_int m (JInt i) = Inr i"
  "is_hex_n 64 s \<Longrightarrow> model_require_hash64 (JStr s) = Inr s" "is_hex_n 32 s \<Longrightarrow> model_require_node_id (JStr s) = Inr s"
  "is_uuid s \<Longrightarrow> require_uuid (JStr s) = Inr s" "is_hex_n 2 s \<Longrightarrow> require_match (is_hex_n 2) (JStr s) = Inr s"
  "s \<in> VALID_ITEM_TYPES \<Longrightarrow> require_one_of VALID_ITEM_TYPES (JStr s) = Inr s"
  "s \<in> VALID_SNAPSHOT_STATES \<Longrightarrow> require_one_of VALID_SNAPSHOT_STATES (JStr s) = Inr s"
  "s \<in> VALID_PROTECTION_STATES \<Longrightarrow> require_one_of VALID_PROTECTION_STATES (JStr s) = Inr s"
  "number_ok nn x \<Longrightarrow> require_number nn (number_json x) = Inr x"
  by (auto simp: require_eqs require_hex dest: valid_states_nonempty hex_n_nonempty)

lemma number_leaf [simp]: "json_sorted (number_json x) = number_json x" "number_json x \<noteq> JNull"
  by (cases x; simp)+

lemma optional_ok:
  assumes "pred_option P y" "\<And>x. P x \<Longrightarrow> f (json_sorted (g x)) = Inr x" "\<And>x. json_sorted (g x) \<noteq> JNull"
  shows "optional f (json_sorted (optional_json g y)) = Inr y"
  using assms by (cases y) (auto simp: optional_def)

lemma optional_leaf [simp]:
  "optional (require_str True) (json_sorted (optional_json JStr y)) = Inr y"
  "pred_option (number_ok True) z \<Longrightarrow> optional (require_number True) (json_sorted (optional_json number_json z)) = Inr z"
  using optional_ok [of "\<lambda>_. True" y "require_str True" JStr] optional_ok [of "number_ok True" z "require_number True" number_json]
  by (auto simp: pred_option_def)

lemma decode_tuple_ok:
  assumes "list_all P xs" "\<And>x. P x \<Longrightarrow> f (json_sorted (g x)) = Inr x"
  shows "decode_tuple f (JArr (map (json_sorted \<circ> g) xs)) = Inr xs"
  using assms mapE_total [of xs "\<lambda>x. f (json_sorted (g x))" "\<lambda>x. x"] by (auto simp: decode_tuple_def mapE_map list_all_iff comp_def)

lemma checks_ok [simp]:
  "sorted (map key xs) \<Longrightarrow> distinct (map ident xs) \<Longrightarrow> check_ordered ident key {} None xs = Inr ()"
  "sorted_wrt (<) (map key' xs) \<Longrightarrow> check_ordered key' key' {} None xs = Inr ()"
  by (simp_all add: strict_sorted)

lemma ObjectRef_back: "ObjectRef_ok r \<Longrightarrow> decode_ObjectRef (json_sorted (ObjectRef_payload r)) = Inr r"
  unfolding decode_ObjectRef_def ObjectRef_payload_def ObjectRef_ok_def
  by (subst model_fields_sorted) (simp_all add: json_get_sorted decode_enum_def)

lemma ObjectRef_optional_back:
  "pred_option (ref_to t) y \<Longrightarrow> optional decode_ObjectRef (json_sorted (optional_json ObjectRef_payload y)) = Inr y"
  by (erule optional_ok) (simp_all add: ObjectRef_back ref_to_def, simp add: ObjectRef_payload_def)

lemma ChunkRef_back: "ChunkRef_ok c \<Longrightarrow> decode_ChunkRef (json_sorted (ChunkRef_payload c)) = Inr c"
  unfolding decode_ChunkRef_def ChunkRef_payload_def ChunkRef_ok_def
  by (subst model_fields_sorted) (simp_all add: json_get_sorted)

lemma ChunkListObject_back: "ChunkListObject_ok cs \<Longrightarrow> decode_ChunkListObject (json_sorted (ChunkListObject_payload cs)) = Inr cs"
  unfolding decode_ChunkListObject_def ChunkListObject_payload_def ChunkListObject_ok_def
  by (subst model_fields_sorted) (simp_all add: json_get_sorted decode_tuple_ok [where P = ChunkRef_ok] ChunkRef_back
      iffD2 [OF check_orders_iff] upto_upt)

lemma RecipeObject_back: "RecipeObject_ok r \<Longrightarrow> decode_RecipeObject (json_sorted (RecipeObject_payload r)) = Inr r"
  unfolding decode_RecipeObject_def RecipeObject_payload_def RecipeObject_ok_def
  by (subst model_fields_sorted) (simp_all add: json_get_sorted ObjectRef_back ref_to_def)

lemma FileObject_back: "FileObject_ok f \<Longrightarrow> decode_FileObject (json_sorted (FileObject_payload f)) = Inr f"
  unfolding decode_FileObject_def FileObject_payload_def FileObject_ok_def
  by (subst model_fields_sorted) (simp_all add: json_get_sorted ObjectRef_back ref_to_def)

lemma TreeEntry_back: "TreeEntry_ok e \<Longrightarrow> decode_TreeEntry (json_sorted (TreeEntry_payload e)) = Inr e"
  unfolding decode_TreeEntry_def TreeEntry_payload_def TreeEntry_ok_def
  by (subst model_fields_sorted) (simp_all add: json_get_sorted ObjectRef_back ref_to_def)

lemma TreeObject_back: "TreeObject_ok es \<Longrightarrow> decode_TreeObject (json_sorted (TreeObject_payload es)) = Inr es"
  unfolding decode_TreeObject_def TreeObject_payload_def TreeObject_ok_def
  by (subst model_fields_sorted) (simp_all add: json_get_sorted decode_tuple_ok [where P = TreeEntry_ok] TreeEntry_back)

lemma SnapshotRootObject_back: "SnapshotRootObject_ok s \<Longrightarrow> decode_SnapshotRootObject (json_sorted (SnapshotRootObject_payload s)) = Inr s"
  unfolding decode_SnapshotRootObject_def SnapshotRootObject_payload_def SnapshotRootObject_ok_def
  by (subst model_fields_sorted) (simp_all add: json_get_sorted ObjectRef_back ref_to_def)

lemma SnapshotIndexEntry_back: "SnapshotIndexEntry_ok s \<Longrightarrow> decode_SnapshotIndexEntry (json_sorted (SnapshotIndexEntry_payload s)) = Inr s"
  unfolding decode_SnapshotIndexEntry_def SnapshotIndexEntry_payload_def SnapshotIndexEntry_ok_def
  by (subst model_fields_sorted)
    (simp_all add: json_get_sorted ObjectRef_optional_back [where t = SNAPSHOT_ROOT] split: option.split, auto simp: ref_to_def)

lemma SnapshotIndexObject_back:
  "SnapshotIndexObject_ok es \<Longrightarrow> decode_SnapshotIndexObject (json_sorted (SnapshotIndexObject_payload es)) = Inr es"
  unfolding decode_SnapshotIndexObject_def SnapshotIndexObject_payload_def SnapshotIndexObject_ok_def
  by (subst model_fields_sorted) (simp_all add: json_get_sorted decode_tuple_ok [where P = SnapshotIndexEntry_ok] SnapshotIndexEntry_back)


lemma IndexShardRef_back: "IndexShardRef_ok r \<Longrightarrow> decode_IndexShardRef (json_sorted (IndexShardRef_payload r)) = Inr r"
  unfolding decode_IndexShardRef_def IndexShardRef_payload_def IndexShardRef_ok_def
  by (subst model_fields_sorted) (simp_all add: json_get_sorted ObjectRef_back)

lemma index_back:
  assumes "index_ok t ss n"
  shows "decode_tuple decode_IndexShardRef (JArr (map (json_sorted \<circ> IndexShardRef_payload) ss)) = Inr ss" "check_index t ss n = Inr ()"
    "0 \<le> n"
proof -
  have all: "list_all IndexShardRef_ok ss" using assms by (auto simp: index_ok_def list_all_iff)
  then show "decode_tuple decode_IndexShardRef (JArr (map (json_sorted \<circ> IndexShardRef_payload) ss)) = Inr ss"
    by (rule decode_tuple_ok) (rule IndexShardRef_back)
  show "check_index t ss n = Inr ()" using assms by (auto simp: index_ok_def check_index_iff list_all_iff)
  show "0 \<le> n" using all assms by (auto simp: index_ok_def list_all_iff IndexShardRef_ok_def intro!: sum_list_nonneg)
qed

lemma KnownChunkIndexObject_back:
  assumes "KnownChunkIndexObject_ok i"
  shows "decode_KnownChunkIndexObject (json_sorted (KnownChunkIndexObject_payload i)) = Inr i"
  unfolding decode_KnownChunkIndexObject_def KnownChunkIndexObject_payload_def
  by (subst model_fields_sorted) (use index_back [OF assms [unfolded KnownChunkIndexObject_ok_def]] assms in \<open>simp_all add: json_get_sorted KnownChunkIndexObject_ok_def\<close>)

lemma ProtectionIndexObject_back:
  assumes "ProtectionIndexObject_ok i"
  shows "decode_ProtectionIndexObject (json_sorted (ProtectionIndexObject_payload i)) = Inr i"
  unfolding decode_ProtectionIndexObject_def ProtectionIndexObject_payload_def
  by (subst model_fields_sorted) (use index_back [OF assms [unfolded ProtectionIndexObject_ok_def]] assms in \<open>simp_all add: json_get_sorted ProtectionIndexObject_ok_def\<close>)

lemma ErasureDataPackIndexObject_back:
  assumes "ErasureDataPackIndexObject_ok i"
  shows "decode_ErasureDataPackIndexObject (json_sorted (ErasureDataPackIndexObject_payload i)) = Inr i"
  unfolding decode_ErasureDataPackIndexObject_def ErasureDataPackIndexObject_payload_def
  by (subst model_fields_sorted) (use index_back [OF assms [unfolded ErasureDataPackIndexObject_ok_def, THEN conjunct1]] assms in \<open>simp_all add: json_get_sorted ErasureDataPackIndexObject_ok_def\<close>)

lemma shard_back:
  assumes "shard_ok key ok p rs" "\<And>r. ok r \<Longrightarrow> f (json_sorted (g r)) = Inr r"
  shows "decode_tuple f (JArr (map (json_sorted \<circ> g) rs)) = Inr rs" "check_shard key p rs = Inr ()" "is_hex_n 2 p"
  using assms by (auto simp: shard_ok_def check_shard_iff list_all_iff intro!: decode_tuple_ok [where P = ok])

lemma KnownChunkRecord_back: "KnownChunkRecord_ok r \<Longrightarrow> decode_KnownChunkRecord (json_sorted (KnownChunkRecord_payload r)) = Inr r"
  unfolding decode_KnownChunkRecord_def KnownChunkRecord_payload_def KnownChunkRecord_ok_def
  by (subst model_fields_sorted) (simp_all add: json_get_sorted)

lemma ProtectionRecordObject_back:
  "ProtectionRecordObject_ok r \<Longrightarrow> decode_ProtectionRecordObject (json_sorted (ProtectionRecordObject_payload r)) = Inr r"
  unfolding decode_ProtectionRecordObject_def ProtectionRecordObject_payload_def ProtectionRecordObject_ok_def
  by (subst model_fields_sorted) (simp_all add: json_get_sorted)

lemma ErasureDataPackChunkObject_back:
  "ErasureDataPackChunkObject_ok r \<Longrightarrow> decode_ErasureDataPackChunkObject (json_sorted (ErasureDataPackChunkObject_payload r)) = Inr r"
  unfolding decode_ErasureDataPackChunkObject_def ErasureDataPackChunkObject_payload_def ErasureDataPackChunkObject_ok_def
  by (subst model_fields_sorted) (simp_all add: json_get_sorted)

lemma ErasureDataPackShardPlacementObject_back:
  "ErasureDataPackShardPlacementObject_ok r \<Longrightarrow>
   decode_ErasureDataPackShardPlacementObject (json_sorted (ErasureDataPackShardPlacementObject_payload r)) = Inr r"
  unfolding decode_ErasureDataPackShardPlacementObject_def ErasureDataPackShardPlacementObject_payload_def ErasureDataPackShardPlacementObject_ok_def
  by (subst model_fields_sorted) (simp_all add: json_get_sorted)

lemma ErasureDataPackRecordObject_back:
  assumes "ErasureDataPackRecordObject_ok r"
  shows "decode_ErasureDataPackRecordObject (json_sorted (ErasureDataPackRecordObject_payload r)) = Inr r"
proof -
  note ok = assms [unfolded ErasureDataPackRecordObject_ok_def]
  have t: "decode_tuple decode_ErasureDataPackChunkObject (JArr (map (json_sorted \<circ> ErasureDataPackChunkObject_payload) (eo_chunks r))) = Inr (eo_chunks r)"
    "decode_tuple decode_ErasureDataPackShardPlacementObject
       (JArr (map (json_sorted \<circ> ErasureDataPackShardPlacementObject_payload) (eo_shards r))) = Inr (eo_shards r)"
    using ok by (auto intro: decode_tuple_ok ErasureDataPackChunkObject_back ErasureDataPackShardPlacementObject_back)
  have c: "check_pack_chunks 0 0 {} (eo_chunks r) = Inr (eo_payload_size r)" "check_pack_nodes {} (eo_shards r) = Inr ()"
    using ok by (simp_all add: check_pack_chunks_iff check_pack_nodes_iff upto_upt)
  show ?thesis unfolding decode_ErasureDataPackRecordObject_def ErasureDataPackRecordObject_payload_def
    by (subst model_fields_sorted) (use ok in \<open>simp_all add: json_get_sorted t c\<close>)
qed

lemma KnownChunkShardObject_back:
  assumes "KnownChunkShardObject_ok s"
  shows "decode_KnownChunkShardObject (json_sorted (KnownChunkShardObject_payload s)) = Inr s"
  unfolding decode_KnownChunkShardObject_def KnownChunkShardObject_payload_def
  by (subst model_fields_sorted)
    (use shard_back [OF assms [unfolded KnownChunkShardObject_ok_def] KnownChunkRecord_back] in \<open>simp_all add: json_get_sorted\<close>)

lemma ProtectionShardObject_back:
  assumes "ProtectionShardObject_ok s"
  shows "decode_ProtectionShardObject (json_sorted (ProtectionShardObject_payload s)) = Inr s"
  unfolding decode_ProtectionShardObject_def ProtectionShardObject_payload_def
  by (subst model_fields_sorted)
    (use shard_back [OF assms [unfolded ProtectionShardObject_ok_def] ProtectionRecordObject_back] in \<open>simp_all add: json_get_sorted\<close>)

lemma ErasureDataPackShardObject_back:
  assumes "ErasureDataPackShardObject_ok s"
  shows "decode_ErasureDataPackShardObject (json_sorted (ErasureDataPackShardObject_payload s)) = Inr s"
  unfolding decode_ErasureDataPackShardObject_def ErasureDataPackShardObject_payload_def
  by (subst model_fields_sorted)
    (use shard_back [OF assms [unfolded ErasureDataPackShardObject_ok_def] ErasureDataPackRecordObject_back] in \<open>simp_all add: json_get_sorted\<close>)

lemma CatalogObject_back:
  assumes "CatalogObject_ok c"
  shows "decode_CatalogObject (json_sorted (CatalogObject_payload c)) = Inr c"
proof -
  note ok = assms [unfolded CatalogObject_ok_def]
  have o: "optional decode_ObjectRef (json_sorted (optional_json ObjectRef_payload (ca_protection_index c))) = Inr (ca_protection_index c)"
    "optional decode_ObjectRef (json_sorted (optional_json ObjectRef_payload (ca_erasure_data_pack_index c))) = Inr (ca_erasure_data_pack_index c)"
    "\<not> other_type PROTECTION_INDEX (ca_protection_index c)" "\<not> other_type ERASURE_DATA_PACK_INDEX (ca_erasure_data_pack_index c)"
    using ok by (auto simp: ObjectRef_optional_back other_type_def ref_to_def split: option.split)
  show ?thesis unfolding decode_CatalogObject_def CatalogObject_payload_def
    by (subst model_fields_sorted) (use ok in \<open>simp_all add: json_get_sorted o ObjectRef_back ref_to_def\<close>)
qed

lemma decode_class_back:
  assumes "object_ok obj"
  shows "decode_class (object_type obj) (json_sorted (object_payload obj)) = Inr obj"
  using assms by (cases obj) (simp_all add: decode_as_def CatalogObject_back SnapshotIndexObject_back SnapshotRootObject_back TreeObject_back
      FileObject_back RecipeObject_back ChunkListObject_back
      KnownChunkIndexObject_back ProtectionIndexObject_back ErasureDataPackIndexObject_back
      KnownChunkShardObject_back ProtectionShardObject_back ErasureDataPackShardObject_back)


lemma json_sorted_idem [simp]: "json_sorted (json_sorted v) = json_sorted v"
proof (induction v)
  case (JObj kvs)
  let ?f = "\<lambda>(k, v). (k, json_sorted v)"
  have "map ?f (map ?f kvs) = map ?f kvs" using JObj by auto
  then show ?case by (simp only: json_sorted.simps sort_key_fst_map [symmetric] sort_key_id_if_sorted [OF sorted_sort_key])
next
  case (JArr vs)
  then show ?case by simp
qed simp_all

text \<open>C2. The codec accepts exactly the canonical payloads of well-formed objects: a parsed payload of a type
  decodes to an object if and only if the object has that type, satisfies all structural invariants of its
  class in closed form (canonical hashes, node identifiers and UUIDs, contiguous chunk orders, strictly sorted
  tree names and shard keys, distinct snapshots in order, counters equal to the sums, references of the right
  type, packs whose chunks tile the payload and whose shards cover all indexes on distinct nodes), and the
  payload is its normalised dictionary up to the order of keys. No field is dropped, added or coerced.\<close>

theorem codec_accepts_exactly_wellformed:
  "decode_metadata_object_payload t (json_sorted p) = Inr obj \<longleftrightarrow>
     object_type obj = t \<and> object_ok obj \<and> json_sorted p = json_sorted (object_payload obj)"
proof
  assume "decode_metadata_object_payload t (json_sorted p) = Inr obj"
  then have "decode_class t (json_sorted p) = Inr obj" "json_sorted (object_payload obj) = json_sorted p"
    by (auto simp: decode_metadata_object_payload_def bindE_eq_Inr split: if_splits)
  then show "object_type obj = t \<and> object_ok obj \<and> json_sorted p = json_sorted (object_payload obj)" using decode_class_ok by auto
next
  assume *: "object_type obj = t \<and> object_ok obj \<and> json_sorted p = json_sorted (object_payload obj)"
  then show "decode_metadata_object_payload t (json_sorted p) = Inr obj"
    using decode_class_back [of obj] by (auto simp: decode_metadata_object_payload_def)
qed


end
