(* ===== verification/ObjectGraph.thy ===== *)
theory ObjectGraph
  imports ObjectModel
begin

text \<open>
  Graphs of metadata objects: decoding an object from its bytes and the walk over everything reachable
  from a catalog (\<open>metadata/objects/graph/walk.py\<close>), the runtime representation of a graph
  (\<open>graph/runtime.py\<close>) and the validation of relations that span objects (\<open>graph/validation.py\<close>,
  \<open>chunking/recipes.py\<close>).

  BLAKE3 (\<open>blake3\<close>), \<open>json.loads\<close> on UTF-8 bytes (\<open>loads\<close>) and \<open>str\<close> of a container (\<open>repr\<close>) are
  arguments, collected in \<open>graph_env\<close>. Where a theorem needs that a text written by
  \<open>canonical_json_bytes\<close> is parsed back to the value it was written from, it says so
  (\<open>loads_canonical\<close>). The walk reads objects through an operation on an arbitrary state, so that the
  same definition runs on a directory, a pack or a dictionary.
\<close>

record graph_env =
  ge_blake3 :: "bytes \<Rightarrow> string"
  ge_loads :: "bytes \<Rightarrow> json result"
  ge_repr :: "json \<Rightarrow> string"

section \<open>Decoding an object and finding its references (walk.py)\<close>

definition walk_require_hash64 :: "json \<Rightarrow> string result" where
  "walk_require_hash64 v = (case v of
      JStr s \<Rightarrow> let text = py_strip s in if \<not> is_hex_n 64 text then Inl MetadataObjectGraphWalkError else Inr text
    | _ \<Rightarrow> Inl MetadataObjectGraphWalkError)"

definition decode_object_envelope :: "graph_env \<Rightarrow> bytes \<Rightarrow> string option \<Rightarrow> (metadata_object_type \<times> json) result" where
  "decode_object_envelope env canonical_bytes expected_hash =
     bindE (case expected_hash of None \<Rightarrow> Inr None | Some h \<Rightarrow> bindE (walk_require_hash64 (JStr h)) (\<lambda>x. Inr (Some x))) (\<lambda>expected.
     bindE (raise_if (expected \<noteq> None \<and> Some (ge_blake3 env canonical_bytes) \<noteq> expected) MetadataObjectGraphWalkError) (\<lambda>_.
     case ge_loads env canonical_bytes of
       Inl _ \<Rightarrow> Inl MetadataObjectGraphWalkError
     | Inr (JObj kvs) \<Rightarrow>
         if canonical_json_bytes (JObj kvs) \<noteq> canonical_bytes then Inl MetadataObjectGraphWalkError
         else if json_get kvs ''format'' \<noteq> JStr METADATA_OBJECT_FORMAT then Inl MetadataObjectGraphWalkError
         else if json_get kvs ''version'' \<noteq> JInt METADATA_OBJECT_VERSION then Inl MetadataObjectGraphWalkError
         else (case type_of_value (json_str (ge_repr env) (json_get kvs ''object_type'')) of
                 None \<Rightarrow> Inl MetadataObjectGraphWalkError
               | Some t \<Rightarrow> (case json_get kvs ''payload'' of
                   JObj pfs \<Rightarrow>
                     (case decode_metadata_object_payload t (JObj pfs) of
                        Inl _ \<Rightarrow> Inl MetadataObjectGraphWalkError
                      | Inr _ \<Rightarrow> Inr (t, JObj pfs))
                 | _ \<Rightarrow> Inl MetadataObjectGraphWalkError))
     | Inr _ \<Rightarrow> Inl MetadataObjectGraphWalkError))"

text \<open>The reference a dict itself stands for, when it has one of the two keys.\<close>

definition own_ref :: "(string \<times> json) list \<Rightarrow> (metadata_object_type \<times> string) list result" where
  "own_ref kvs =
     (let has_type = ''object_type'' \<in> fst ` set kvs; has_hash = ''object_hash'' \<in> fst ` set kvs in
      if \<not> has_type \<and> \<not> has_hash then Inr []
      else if \<not> has_type \<or> \<not> has_hash then Inl MetadataObjectGraphWalkError
      else case json_get kvs ''object_type'' of
             JStr s \<Rightarrow> (case type_of_value s of
                 None \<Rightarrow> Inl MetadataObjectGraphWalkError
               | Some t \<Rightarrow> bindE (walk_require_hash64 (json_get kvs ''object_hash'')) (\<lambda>h. Inr [(t, h)]))
           | _ \<Rightarrow> Inl MetadataObjectGraphWalkError)"

lemma mapE_cong [fundef_cong]: "xs = ys \<Longrightarrow> (\<And>x. x \<in> set ys \<Longrightarrow> f x = g x) \<Longrightarrow> mapE f xs = mapE g ys"
proof -
  assume a: "xs = ys" "\<And>x. x \<in> set ys \<Longrightarrow> f x = g x"
  have "mapE f ys = mapE g ys" using a(2) by (induction ys) auto
  then show ?thesis using a(1) by simp
qed

fun iter_object_refs :: "json \<Rightarrow> (metadata_object_type \<times> string) list result" where
  "iter_object_refs (JObj kvs) =
     bindE (own_ref kvs) (\<lambda>own. bindE (mapE (\<lambda>(_, v). iter_object_refs v) kvs) (\<lambda>rs. Inr (own @ concat rs)))"
| "iter_object_refs (JArr vs) = bindE (mapE iter_object_refs vs) (\<lambda>rs. Inr (concat rs))"
| "iter_object_refs _ = Inr []"

section \<open>The walk (walk.py)\<close>

record walk_state =
  wk_expected :: "(string \<times> metadata_object_type) list"
  wk_seen :: "string set"
  wk_objects :: "(string \<times> bytes) list"

text \<open>The inner loop over the references of one object: conflicting types raise; a reference to an object
  not seen yet goes on the stack, whose top is the head of the list.\<close>

fun note_refs ::
    "string set \<Rightarrow> (metadata_object_type \<times> string) list \<Rightarrow> (string \<times> metadata_object_type) list \<times> (string \<times> metadata_object_type) list
     \<Rightarrow> ((string \<times> metadata_object_type) list \<times> (string \<times> metadata_object_type) list) result" where
  "note_refs seen [] acc = Inr acc"
| "note_refs seen ((t, h) # rs) (expected, pending) =
     (case map_of expected h of
        Some u \<Rightarrow> if u \<noteq> t then Inl MetadataObjectGraphWalkError
                  else note_refs seen rs (expected, if h \<in> seen then pending else (h, t) # pending)
      | None \<Rightarrow> note_refs seen rs (expected @ [(h, t)], if h \<in> seen then pending else (h, t) # pending))"

definition visit_object ::
    "graph_env \<Rightarrow> bool \<Rightarrow> string \<Rightarrow> metadata_object_type \<Rightarrow> bytes \<Rightarrow> (string \<times> metadata_object_type) list \<Rightarrow> walk_state
     \<Rightarrow> (walk_state \<times> (string \<times> metadata_object_type) list) result" where
  "visit_object env collect_bytes h expected_type data pending w =
     bindE (decode_object_envelope env data (Some h)) (\<lambda>(actual_type, payload).
       if actual_type \<noteq> expected_type then Inl MetadataObjectGraphWalkError
       else let seen = insert h (wk_seen w) in
         bindE (iter_object_refs payload) (\<lambda>refs.
         bindE (note_refs seen refs (wk_expected w, pending)) (\<lambda>(expected, pending').
           Inr (\<lparr>wk_expected = expected, wk_seen = seen,
                 wk_objects = (if collect_bytes then AList.update h data (wk_objects w) else wk_objects w)\<rparr>, pending'))))"

lemma finite_hex_n: "finite {s. is_hex_n n s}"
proof -
  have "{s. is_hex_n n s} \<subseteq> {s. set s \<subseteq> (UNIV :: char set) \<and> length s = n}" by (auto simp: is_hex_n_def)
  then show ?thesis using finite_lists_length_eq [of "UNIV :: char set" n] by (meson finite finite_subset)
qed

lemma own_ref_hex: "own_ref kvs = Inr rs \<Longrightarrow> (t, h) \<in> set rs \<Longrightarrow> is_hex_n 64 h"
  by (auto simp: own_ref_def walk_require_hash64_def Let_def bindE_eq_Inr split: if_splits json.splits option.splits)

lemma iter_object_refs_hex: "iter_object_refs v = Inr rs \<Longrightarrow> (t, h) \<in> set rs \<Longrightarrow> is_hex_n 64 h"
proof (induction v arbitrary: rs)
  case (JObj kvs)
  then obtain own rss where o: "own_ref kvs = Inr own" "mapE (\<lambda>(_, v). iter_object_refs v) kvs = Inr rss" "rs = own @ concat rss"
    by (auto simp: bindE_eq_Inr)
  show ?case
  proof (cases "(t, h) \<in> set own")
    case False
    then obtain r where r: "r \<in> set rss" "(t, h) \<in> set r" using o JObj.prems by auto
    then obtain k v where "(k, v) \<in> set kvs" "iter_object_refs v = Inr r" using mapE_member [OF o(2) r(1)] by auto
    then show ?thesis using JObj.IH [of "(k, v)" v] r(2) by auto
  qed (use o own_ref_hex in auto)
next
  case (JArr vs)
  then obtain rss where o: "mapE iter_object_refs vs = Inr rss" "rs = concat rss" by (auto simp: bindE_eq_Inr)
  then obtain r where r: "r \<in> set rss" "(t, h) \<in> set r" using JArr.prems by auto
  then show ?case using mapE_member [OF o(1) r(1)] JArr.IH by auto
qed auto

lemma note_refs_pending:
  "note_refs seen rs (ex, pending) = Inr (ex', pending') \<Longrightarrow>
   \<exists>new. pending' = new @ pending \<and> set new \<subseteq> {(h, t). (t, h) \<in> set rs \<and> h \<notin> seen}"
proof (induction rs arbitrary: ex pending)
  case (Cons r rs)
  obtain t h where r: "r = (t, h)" by (cases r)
  let ?p = "if h \<in> seen then pending else (h, t) # pending"
  obtain ex2 where "note_refs seen rs (ex2, ?p) = Inr (ex', pending')" using Cons.prems r by (auto split: option.splits if_splits)
  from Cons.IH [OF this] obtain new where "pending' = new @ ?p" "set new \<subseteq> {(h, t). (t, h) \<in> set rs \<and> h \<notin> seen}" by auto
  then show ?case using r by (cases "h \<in> seen") (auto intro!: exI [of _ "new @ [(h, t)]"])
qed auto

definition odd_pending :: "(string \<times> metadata_object_type) list \<Rightarrow> nat" where
  "odd_pending pending = length (filter (\<lambda>(h, _). \<not> is_hex_n 64 h) pending)"

lemma visit_object_pending:
  assumes "visit_object env collect h t data pending w = Inr (w', pending')"
  shows "wk_seen w' = insert h (wk_seen w)" "odd_pending pending' = odd_pending pending"
proof -
  obtain ty payload refs ex where v: "decode_object_envelope env data (Some h) = Inr (ty, payload)" "iter_object_refs payload = Inr refs"
    "note_refs (insert h (wk_seen w)) refs (wk_expected w, pending) = Inr (ex, pending')" "wk_seen w' = insert h (wk_seen w)"
    using assms by (auto simp: visit_object_def bindE_eq_Inr Let_def split: prod.splits if_splits)
  then show "wk_seen w' = insert h (wk_seen w)" by simp
  obtain new where n: "pending' = new @ pending" "set new \<subseteq> {(h', t). (t, h') \<in> set refs \<and> h' \<notin> insert h (wk_seen w)}"
    using note_refs_pending [OF v(3)] by blast
  then have "\<forall>(h, t) \<in> set new. is_hex_n 64 h" using iter_object_refs_hex [OF v(2)] by auto
  then have "filter (\<lambda>(h, _). \<not> is_hex_n 64 h) new = []" by (auto simp: filter_empty_conv)
  then show "odd_pending pending' = odd_pending pending" by (simp add: odd_pending_def n(1))
qed

function walk_loop ::
    "graph_env \<Rightarrow> (string \<Rightarrow> ('s, bytes) op) \<Rightarrow> bool \<Rightarrow> (string \<times> metadata_object_type) list \<Rightarrow> walk_state \<Rightarrow> ('s, walk_state) op" where
  "walk_loop env read collect_bytes pending w s =
     (case pending of
        [] \<Rightarrow> (Inr w, s)
      | (h, t) # rest \<Rightarrow>
          if h \<in> wk_seen w then walk_loop env read collect_bytes rest w s
          else (case read h s of
                  (Inl e, s') \<Rightarrow> (Inl e, s')
                | (Inr data, s') \<Rightarrow>
                    (case visit_object env collect_bytes h t data rest w of
                       Inl e \<Rightarrow> (Inl e, s')
                     | Inr (w', pending') \<Rightarrow> walk_loop env read collect_bytes pending' w' s')))"
  by pat_completeness auto

text \<open>Only finitely many strings are canonical hashes, and every reference is one: each visit either takes
  one of them from those not seen yet, or one of the other entries from the stack.\<close>

termination
proof (relation "inv_image (less_than <*lex*> less_than <*lex*> less_than)
    (\<lambda>(env, read, collect, pending, w, s). (odd_pending pending, card ({h. is_hex_n 64 h} - wk_seen w), length pending))", goal_cases)
  case (2 env read collect_bytes pending w s p rest h t)
  then show ?case by (auto simp: odd_pending_def)
next
  case (3 env read collect_bytes pending w s p rest h t x s' data y w' pending')
  note v = visit_object_pending [of env collect_bytes h t data rest w w' pending']
  have run: "visit_object env collect_bytes h t data rest w = Inr (w', pending')" using 3 by auto
  show ?case
  proof (cases "is_hex_n 64 h")
    case True
    have "card ({h. is_hex_n 64 h} - insert h (wk_seen w)) < card ({h. is_hex_n 64 h} - wk_seen w)"
      using 3 True finite_hex_n [of 64] by (intro psubset_card_mono) auto
    then show ?thesis using 3 True v [OF run] by (auto simp: odd_pending_def)
  next
    case False
    then show ?thesis using 3 v [OF run] by (auto simp: odd_pending_def)
  qed
qed auto

declare walk_loop.simps [simp del]

definition collect_reachable_objects ::
    "graph_env \<Rightarrow> string \<Rightarrow> (string \<Rightarrow> ('s, bytes) op) \<Rightarrow> bool \<Rightarrow> ('s, string set \<times> (string \<times> bytes) list) op" where
  "collect_reachable_objects env catalog_hash read collect_bytes =
     op_bind (op_lift (walk_require_hash64 (JStr catalog_hash))) (\<lambda>root_hash.
     op_bind (walk_loop env read collect_bytes [(root_hash, CATALOG)] \<lparr>wk_expected = [(root_hash, CATALOG)], wk_seen = {}, wk_objects = []\<rparr>)
       (\<lambda>w. op_return (wk_seen w, wk_objects w)))"

definition collect_reachable_object_hashes :: "graph_env \<Rightarrow> string \<Rightarrow> (string \<Rightarrow> ('s, bytes) op) \<Rightarrow> ('s, string set) op" where
  "collect_reachable_object_hashes env catalog_hash read =
     op_bind (collect_reachable_objects env catalog_hash read False) (\<lambda>(seen, _). op_return seen)"

definition collect_reachable_object_bytes :: "graph_env \<Rightarrow> string \<Rightarrow> (string \<Rightarrow> ('s, bytes) op) \<Rightarrow> ('s, (string \<times> bytes) list) op" where
  "collect_reachable_object_bytes env catalog_hash read =
     op_bind (collect_reachable_objects env catalog_hash read True) (\<lambda>(_, objects). op_return objects)"

section \<open>The walk computes reachability\<close>

text \<open>The typed references of an object stored as \<open>data\<close> under the hash \<open>h\<close>; \<open>None\<close> when it does not decode.\<close>

definition object_edges :: "graph_env \<Rightarrow> string \<Rightarrow> bytes \<Rightarrow> (metadata_object_type \<times> (metadata_object_type \<times> string) set) option" where
  "object_edges env h data = (case decode_object_envelope env data (Some h) of
      Inl _ \<Rightarrow> None
    | Inr (t, payload) \<Rightarrow> (case iter_object_refs payload of Inl _ \<Rightarrow> None | Inr rs \<Rightarrow> Some (t, set rs)))"

definition refers :: "graph_env \<Rightarrow> (string \<rightharpoonup> bytes) \<Rightarrow> string \<Rightarrow> string \<Rightarrow> bool" where
  "refers env G a b \<longleftrightarrow> (\<exists>data t rs u. G a = Some data \<and> object_edges env a data = Some (t, rs) \<and> (u, b) \<in> rs)"

text \<open>Every object decodes under its hash, every reference has one type, the type of the object it points to,
  and points into the graph.\<close>

definition closed_graph :: "graph_env \<Rightarrow> (string \<rightharpoonup> bytes) \<Rightarrow> (string \<rightharpoonup> metadata_object_type) \<Rightarrow> bool" where
  "closed_graph env G ty \<longleftrightarrow> (\<forall>h data. G h = Some data \<longrightarrow> (\<exists>t rs. object_edges env h data = Some (t, rs) \<and> ty h = Some t
     \<and> (\<forall>(u, r) \<in> rs. ty r = Some u \<and> G r \<noteq> None)))"

lemma note_refs_run:
  "note_refs seen rs (ex, pending) = Inr (ex', pending') \<Longrightarrow>
   map_of ex \<subseteq>\<^sub>m map_of ex' \<and> (\<forall>(t, h) \<in> set rs. map_of ex' h = Some t)
   \<and> (\<forall>h t. map_of ex' h = Some t \<longrightarrow> map_of ex h = Some t \<or> (t, h) \<in> set rs)
   \<and> set pending' = set pending \<union> {(h, t). (t, h) \<in> set rs \<and> h \<notin> seen}"
proof (induction rs arbitrary: ex pending)
  case (Cons r rs)
  obtain t h where r: "r = (t, h)" by (cases r)
  let ?p = "if h \<in> seen then pending else (h, t) # pending"
  define ex2 where "ex2 = (case map_of ex h of None \<Rightarrow> ex @ [(h, t)] | Some _ \<Rightarrow> ex)"
  have step: "note_refs seen rs (ex2, ?p) = Inr (ex', pending')" using Cons.prems r by (auto simp: ex2_def split: option.splits if_splits)
  have ex2: "map_of ex2 = (map_of ex)(h \<mapsto> t)" "map_of ex \<subseteq>\<^sub>m map_of ex2"
    using Cons.prems r by (auto simp: ex2_def map_le_def map_add_def fun_eq_iff split: option.splits if_splits)
  note IH = Cons.IH [OF step]
  have "map_of ex' h = Some t" using IH ex2(1) by (auto simp: map_le_def dom_def)
  moreover have "map_of ex \<subseteq>\<^sub>m map_of ex'" using IH ex2(2) map_le_trans by blast
  moreover have "map_of ex k = Some u \<or> (u, k) \<in> set (r # rs)" if "map_of ex' k = Some u" for k u
    using IH ex2(1) that r \<open>map_of ex' h = Some t\<close> by (metis fun_upd_apply list.set_intros option.inject)
  ultimately show ?case using IH r by (auto split: if_splits)
qed auto

definition walk_inv :: "graph_env \<Rightarrow> string \<Rightarrow> (string \<times> metadata_object_type) list \<Rightarrow> walk_state \<Rightarrow> bool" where
  "walk_inv env rt pending w \<longleftrightarrow>
     dom (map_of (wk_objects w)) = wk_seen w
     \<and> map_of (wk_expected w) rt = Some CATALOG
     \<and> (\<forall>h t. map_of (wk_expected w) h = Some t \<longrightarrow> h \<in> wk_seen w \<or> (h, t) \<in> set pending)
     \<and> (\<forall>(h, t) \<in> set pending. map_of (wk_expected w) h = Some t)
     \<and> (\<forall>h. map_of (wk_expected w) h \<noteq> None \<longrightarrow> (refers env (map_of (wk_objects w)))\<^sup>*\<^sup>* rt h)
     \<and> (\<forall>h data. map_of (wk_objects w) h = Some data \<longrightarrow> (\<exists>t rs. object_edges env h data = Some (t, rs)
          \<and> map_of (wk_expected w) h = Some t \<and> (\<forall>(u, r) \<in> rs. map_of (wk_expected w) r = Some u)))"

lemma walk_inv_skip: "walk_inv env rt ((h, t) # rest) w \<Longrightarrow> h \<in> wk_seen w \<Longrightarrow> walk_inv env rt rest w"
  unfolding walk_inv_def by auto

lemma refers_mono: "G a \<subseteq>\<^sub>m G b \<Longrightarrow> (refers env (G a))\<^sup>*\<^sup>* x y \<Longrightarrow> (refers env (G b))\<^sup>*\<^sup>* x y"
  by (erule rtranclp_mono [THEN predicate2D, rotated]) (auto simp: refers_def map_le_def dom_def, metis option.distinct(1))

lemma walk_inv_visit:
  assumes "walk_inv env rt ((h, t) # rest) w" "h \<notin> wk_seen w" "visit_object env True h t data rest w = Inr (w', pending')"
  shows "walk_inv env rt pending' w'"
proof -
  obtain payload refs ex where d: "decode_object_envelope env data (Some h) = Inr (t, payload)" "iter_object_refs payload = Inr refs"
    "note_refs (insert h (wk_seen w)) refs (wk_expected w, rest) = Inr (ex, pending')"
    and w': "w' = \<lparr>wk_expected = ex, wk_seen = insert h (wk_seen w), wk_objects = AList.update h data (wk_objects w)\<rparr>"
    using assms(3) by (auto simp: visit_object_def bindE_eq_Inr Let_def split: prod.splits if_splits)
  note inv = assms(1) [unfolded walk_inv_def]
  have run: "map_of (wk_expected w) \<subseteq>\<^sub>m map_of ex" "\<forall>(t, h) \<in> set refs. map_of ex h = Some t"
    "\<And>k u. map_of ex k = Some u \<Longrightarrow> map_of (wk_expected w) k = Some u \<or> (u, k) \<in> set refs"
    "set pending' = set rest \<union> {(k, u). (u, k) \<in> set refs \<and> k \<notin> insert h (wk_seen w)}"
    using note_refs_run [OF d(3)] by blast+
  have e: "object_edges env h data = Some (t, set refs)" using d(1,2) by (simp add: object_edges_def)
  have new: "map_of (wk_objects w) h = None" using inv assms(2) by (metis domIff)
  then have le: "map_of (wk_objects w) \<subseteq>\<^sub>m (map_of (wk_objects w))(h \<mapsto> data)" by (auto simp: map_le_def)
  let ?R = "(refers env ((map_of (wk_objects w))(h \<mapsto> data)))\<^sup>*\<^sup>*"
  have old: "?R rt k" if "map_of (wk_expected w) k \<noteq> None" for k
    using inv that refers_mono [where G = id, simplified, OF le] by blast
  have h: "map_of (wk_expected w) h = Some t" using inv by auto
  have reach: "?R rt k" if "map_of ex k \<noteq> None" for k
  proof (cases "map_of (wk_expected w) k = None")
    case True
    from \<open>map_of ex k \<noteq> None\<close> obtain v where v: "map_of ex k = Some v" by blast
    have "(v, k) \<in> set refs" using run(3) [OF v] True by simp
    then have "refers env ((map_of (wk_objects w))(h \<mapsto> data)) h k" using e by (auto simp: refers_def)
    then show ?thesis using old [of h] h by (simp add: rtranclp.rtrancl_into_rtrancl)
  qed (use old in blast)
  have keep: "map_of ex k = Some u" if "map_of (wk_expected w) k = Some u" for k u
    using run(1) that by (auto simp: map_le_def dom_def)
  have pend: "k \<in> insert h (wk_seen w) \<or> (k, u) \<in> set pending'" if "map_of ex k = Some u" for k u
    using run(3) [OF that] run(4) inv by auto
  have known: "map_of ex k = Some u" if "(k, u) \<in> set pending'" for k u
    using run(2,4) that inv keep by fastforce
  have edges: "\<exists>t rs. object_edges env k dat = Some (t, rs) \<and> map_of ex k = Some t \<and> (\<forall>(u, r) \<in> rs. map_of ex r = Some u)"
    if "((map_of (wk_objects w))(h \<mapsto> data)) k = Some dat" for k dat
  proof (cases "k = h")
    case True
    then show ?thesis using e that run(2) keep [OF h] by auto
  next
    case False
    then have "map_of (wk_objects w) k = Some dat" using that by simp
    then obtain t' rs where "object_edges env k dat = Some (t', rs)" "map_of (wk_expected w) k = Some t'"
      "\<forall>(u, r) \<in> rs. map_of (wk_expected w) r = Some u" using inv by blast
    then show ?thesis using keep by fastforce
  qed
  have "map_of ex rt = Some CATALOG" using keep inv by blast
  then show ?thesis using inv reach pend known edges unfolding walk_inv_def w' by auto
qed

lemma walk_loop_inv:
  "walk_loop env read collect pending w s = (Inr w', s') \<Longrightarrow> collect \<Longrightarrow> walk_inv env rt pending w \<Longrightarrow> walk_inv env rt [] w'"
proof (induction env read collect pending w s rule: walk_loop.induct)
  case (1 env read collect_bytes pending w s)
  show ?case
  proof (cases pending)
    case Nil
    then show ?thesis using "1.prems" by (subst (asm) walk_loop.simps) auto
  next
    case (Cons p rest)
    obtain h t where p: "p = (h, t)" by (cases p)
    show ?thesis
    proof (cases "h \<in> wk_seen w")
      case True
      then show ?thesis using "1.IH"(1) [OF Cons p [symmetric] True] "1.prems" Cons p walk_inv_skip [of env rt h t rest w]
        by (subst (asm) walk_loop.simps) auto
    next
      case False
      obtain data s1 w1 pending1 where "read h s = (Inr data, s1)" "visit_object env collect_bytes h t data rest w = Inr (w1, pending1)"
        "walk_loop env read collect_bytes pending1 w1 s1 = (Inr w', s')"
        using "1.prems"(1) Cons p False by (subst (asm) walk_loop.simps) (auto split: prod.splits sum.splits)
      then show ?thesis using "1.IH"(2) [OF Cons p [symmetric] False, of "Inr data" s1 data "(w1, pending1)" w1 pending1] "1.prems"(2,3) Cons p False
        walk_inv_visit [of env rt h t rest w data w1 pending1] by auto
    qed
  qed
qed


lemma note_refs_total:
  assumes "\<forall>(u, r) \<in> set rs. ty r = Some u" "map_of ex \<subseteq>\<^sub>m ty"
  shows "\<exists>ex' pending'. note_refs seen rs (ex, pending) = Inr (ex', pending') \<and> map_of ex' \<subseteq>\<^sub>m ty"
  using assms
proof (induction rs arbitrary: ex pending)
  case (Cons r rs)
  obtain t h where r: "r = (t, h)" by (cases r)
  show ?case
  proof (cases "map_of ex h")
    case None
    have "map_of (ex @ [(h, t)]) = (map_of ex)(h \<mapsto> t)" using None by (auto simp: map_add_def fun_eq_iff split: option.split)
    then have "map_of (ex @ [(h, t)]) \<subseteq>\<^sub>m ty" using Cons.prems r by (simp add: map_le_def)
    then show ?thesis using Cons.IH [of "ex @ [(h, t)]"] Cons.prems(1) None r by auto
  next
    case (Some u)
    have "ty h = map_of ex h" using Cons.prems(2) Some by (metis domI map_le_def)
    then show ?thesis using Cons.IH [of ex] Cons.prems Some r by auto
  qed
qed auto

lemma visit_object_total:
  assumes "closed_graph env G ty" "G h = Some data" "ty h = Some t" "map_of (wk_expected w) \<subseteq>\<^sub>m ty" "map_of (wk_objects w) \<subseteq>\<^sub>m G"
  shows "\<exists>w' new. visit_object env collect h t data rest w = Inr (w', new) \<and> map_of (wk_expected w') \<subseteq>\<^sub>m ty
    \<and> map_of (wk_objects w') \<subseteq>\<^sub>m G \<and> (\<forall>(k, u) \<in> set new. (k, u) \<in> set rest \<or> G k \<noteq> None \<and> ty k = Some u)"
proof -
  obtain rs where e: "object_edges env h data = Some (t, rs)" "\<forall>(u, r) \<in> rs. ty r = Some u \<and> G r \<noteq> None"
  proof -
    from assms(1,2) obtain t' rs where "object_edges env h data = Some (t', rs)" "ty h = Some t'" "\<forall>(u, r) \<in> rs. ty r = Some u \<and> G r \<noteq> None"
      unfolding closed_graph_def by blast
    then show thesis using assms(3) that by auto
  qed
  then obtain payload refs where d: "decode_object_envelope env data (Some h) = Inr (t, payload)" "iter_object_refs payload = Inr refs" "rs = set refs"
    by (auto simp: object_edges_def split: sum.splits)
  have "\<forall>(u, r) \<in> set refs. ty r = Some u" using e(2) d(3) by auto
  then obtain ex' p' where n: "note_refs (insert h (wk_seen w)) refs (wk_expected w, rest) = Inr (ex', p')" "map_of ex' \<subseteq>\<^sub>m ty"
    using note_refs_total [of refs ty "wk_expected w" "insert h (wk_seen w)" rest] assms(4) by blast
  have "\<forall>(k, u) \<in> set p'. (k, u) \<in> set rest \<or> G k \<noteq> None \<and> ty k = Some u" using note_refs_run [OF n(1)] e(2) d(3) by fastforce
  moreover have "(map_of (wk_objects w))(h \<mapsto> data) \<subseteq>\<^sub>m G" using assms(2,5) by (auto simp: map_le_def)
  ultimately show ?thesis using d(1,2) n assms(5) by (auto simp: visit_object_def Let_def)
qed

lemma walk_loop_total:
  assumes "closed_graph env G ty" "\<And>h data s. P s \<Longrightarrow> G h = Some data \<Longrightarrow> \<exists>s'. read h s = (Inr data, s') \<and> P s'"
  shows "P s \<Longrightarrow> \<forall>(h, t) \<in> set pending. G h \<noteq> None \<and> ty h = Some t \<Longrightarrow> map_of (wk_expected w) \<subseteq>\<^sub>m ty \<Longrightarrow> map_of (wk_objects w) \<subseteq>\<^sub>m G
    \<Longrightarrow> \<exists>w' s'. walk_loop env read collect pending w s = (Inr w', s') \<and> P s' \<and> map_of (wk_objects w') \<subseteq>\<^sub>m G"
  using assms
proof (induction env read collect pending w s rule: walk_loop.induct)
  case (1 env read collect_bytes pending w s)
  show ?case
  proof (cases pending)
    case Nil
    then show ?thesis using "1.prems" by (subst walk_loop.simps) auto
  next
    case (Cons p rest)
    obtain h t where p: "p = (h, t)" by (cases p)
    show ?thesis
    proof (cases "h \<in> wk_seen w")
      case True
      then show ?thesis using "1.IH"(1) [OF Cons p [symmetric] True] "1.prems" Cons p by (subst walk_loop.simps) auto
    next
      case False
      obtain data where data: "G h = Some data" "ty h = Some t" using "1.prems"(2) Cons p by auto
      obtain s1 where s1: "read h s = (Inr data, s1)" "P s1" using "1.prems"(1,6) data(1) by blast
      obtain w1 new where v: "visit_object env collect_bytes h t data rest w = Inr (w1, new)" "map_of (wk_expected w1) \<subseteq>\<^sub>m ty"
        "map_of (wk_objects w1) \<subseteq>\<^sub>m G" "\<forall>(k, u) \<in> set new. (k, u) \<in> set rest \<or> G k \<noteq> None \<and> ty k = Some u"
        using visit_object_total [OF "1.prems"(5) data "1.prems"(3,4)] by blast
      have "\<forall>(k, u) \<in> set new. G k \<noteq> None \<and> ty k = Some u" using v(4) "1.prems"(2) Cons by fastforce
      then have "\<exists>w' s'. walk_loop env read collect_bytes new w1 s1 = (Inr w', s') \<and> P s' \<and> map_of (wk_objects w') \<subseteq>\<^sub>m G"
        using "1.IH"(2) [OF Cons p [symmetric] False s1(1) [symmetric] refl v(1) refl] s1(2) v(2,3) "1.prems"(5,6) by blast
      then show ?thesis using Cons p False s1(1) v(1) by (subst walk_loop.simps) auto
    qed
  qed
qed


section \<open>Typed objects and their references\<close>

fun object_refs :: "metadata_object \<Rightarrow> object_ref list" where
  "object_refs (Catalog c) = [ca_snapshot_index c, ca_known_chunk_index c] @ case_option [] (\<lambda>r. [r]) (ca_protection_index c)
     @ case_option [] (\<lambda>r. [r]) (ca_erasure_data_pack_index c)"
| "object_refs (SnapshotIndex es) = concat (map (\<lambda>e. case_option [] (\<lambda>r. [r]) (si_snapshot_root e)) es)"
| "object_refs (SnapshotRoot s) = [sr_root_tree s]"
| "object_refs (Tree es) = map te_ref es"
| "object_refs (File f) = [fl_recipe f]"
| "object_refs (Recipe r) = [rc_chunk_list r]"
| "object_refs (ChunkList _) = []"
| "object_refs (KnownChunkIndex i) = map is_ref (ki_shards i)"
| "object_refs (KnownChunkShard _) = []"
| "object_refs (ProtectionIndex i) = map is_ref (pi_shards i)"
| "object_refs (ProtectionShard _) = []"
| "object_refs (ErasureDataPackIndex i) = map is_ref (ei_shards i)"
| "object_refs (ErasureDataPackShard _) = []"

lemma hex_n_strip: "is_hex_n n s \<Longrightarrow> py_strip s = s"
  by (auto simp: is_hex_n_def list_all_iff hex_not_space intro!: py_strip_no_space)

definition ref_pair :: "object_ref \<Rightarrow> metadata_object_type \<times> string" where
  "ref_pair r = (or_type r, or_hash r)"

text \<open>What the walk finds in a value as the parser returns it; \<open>None\<close> when it raises.\<close>

definition found_refs :: "json \<Rightarrow> (metadata_object_type \<times> string) set option" where
  "found_refs v = (case iter_object_refs (json_sorted v) of Inl _ \<Rightarrow> None | Inr rs \<Rightarrow> Some (set rs))"

lemma found_leaf [simp]: "found_refs (JInt i) = Some {}" "found_refs (JStr s) = Some {}" "found_refs JNull = Some {}"
  by (simp_all add: found_refs_def)

lemma found_number [simp]: "found_refs (number_json x) = Some {}"
  by (cases x) (simp_all add: found_refs_def)

lemma mapE_sets:
  "(case mapE f xs of Inl _ \<Rightarrow> None | Inr rss \<Rightarrow> Some (set (concat rss))) =
     (if \<forall>x \<in> set xs. \<exists>rs. f x = Inr rs then Some (\<Union>x \<in> set xs. set (projr (f x))) else None)"
proof (cases "\<forall>x \<in> set xs. \<exists>rs. f x = Inr rs")
  case True
  then have "mapE f xs = Inr (map (\<lambda>x. projr (f x)) xs)" by (intro mapE_total) auto
  then show ?thesis using True by simp
next
  case False
  then have "mapE f xs \<noteq> Inr rss" for rss by (auto simp: mapE_eq_Inr list_all2_conv_all_nth in_set_conv_nth) blast
  then show ?thesis using False by (cases "mapE f xs") auto
qed

lemma found_iter:
  "(\<exists>rs. iter_object_refs (json_sorted v) = Inr rs) \<longleftrightarrow> found_refs v \<noteq> None"
  "found_refs v \<noteq> None \<Longrightarrow> set (projr (iter_object_refs (json_sorted v))) = the (found_refs v)"
  by (auto simp: found_refs_def split: sum.splits)

lemma found_arr: "found_refs (JArr vs) = (if \<forall>v \<in> set vs. found_refs v \<noteq> None then Some (\<Union>v \<in> set vs. the (found_refs v)) else None)"
proof -
  have "found_refs (JArr vs) = (case mapE (\<lambda>v. iter_object_refs (json_sorted v)) vs of Inl _ \<Rightarrow> None | Inr rss \<Rightarrow> Some (set (concat rss)))"
    by (simp add: found_refs_def mapE_map bindE_def split: sum.split)
  then show ?thesis unfolding mapE_sets found_iter(1) using found_iter(2) by auto
qed

lemma found_obj:
  assumes "''object_type'' \<notin> fst ` set kvs" "''object_hash'' \<notin> fst ` set kvs"
  shows "found_refs (JObj kvs) =
    (if \<forall>p \<in> set kvs. found_refs (snd p) \<noteq> None then Some (\<Union>p \<in> set kvs. the (found_refs (snd p))) else None)"
proof -
  let ?sorted = "sort_key fst (map (\<lambda>(k, v). (k, json_sorted v)) kvs)"
  have "own_ref ?sorted = Inr []" using assms by (auto simp: own_ref_def split_def image_image)
  then have "found_refs (JObj kvs) = (case mapE (\<lambda>(_, v). iter_object_refs v) ?sorted of Inl _ \<Rightarrow> None | Inr rss \<Rightarrow> Some (set (concat rss)))"
    by (simp add: found_refs_def bindE_def split: sum.split)
  also have "\<dots> = (if \<forall>p \<in> set kvs. \<exists>rs. iter_object_refs (json_sorted (snd p)) = Inr rs
      then Some (\<Union>p \<in> set kvs. set (projr (iter_object_refs (json_sorted (snd p))))) else None)"
    unfolding mapE_sets by (auto simp: split_def)
  finally show ?thesis unfolding found_iter(1) using found_iter(2) by auto
qed

lemma found_ref [simp]: "ObjectRef_ok r \<Longrightarrow> found_refs (ObjectRef_payload r) = Some {ref_pair r}"
  using hex_n_strip [of 64 "or_hash r"]
  by (simp add: found_refs_def ObjectRef_payload_def ObjectRef_ok_def own_ref_def walk_require_hash64_def ref_pair_def)

lemma found_optional_ref: "pred_option (ref_to t) y \<Longrightarrow> found_refs (optional_json ObjectRef_payload y) = Some (ref_pair ` set_option y)"
  by (cases y) (auto simp: ref_to_def)

lemma found_optional_leaf [simp]: "found_refs (optional_json JStr x) = Some {}" "found_refs (optional_json number_json y) = Some {}"
  by (cases x; cases y; simp)+

lemma found_list:
  assumes "list_all P xs" "\<And>x. P x \<Longrightarrow> found_refs (g x) = Some (S x)"
  shows "found_refs (JArr (map g xs)) = Some (\<Union>x \<in> set xs. S x)"
  using assms by (auto simp: found_arr list_all_iff)

lemma found_no_refs: "list_all P xs \<Longrightarrow> (\<And>x. P x \<Longrightarrow> found_refs (g x) = Some {}) \<Longrightarrow> found_refs (JArr (map g xs)) = Some {}"
  using found_list [of P xs g "\<lambda>_. {}"] by simp

lemma found_records:
  "found_refs (ChunkRef_payload c) = Some {}" "found_refs (KnownChunkRecord_payload k) = Some {}"
  "found_refs (ProtectionRecordObject_payload p) = Some {}" "found_refs (ErasureDataPackChunkObject_payload e) = Some {}"
  "found_refs (ErasureDataPackShardPlacementObject_payload q) = Some {}"
  by (simp_all add: ChunkRef_payload_def KnownChunkRecord_payload_def ProtectionRecordObject_payload_def
      ErasureDataPackChunkObject_payload_def ErasureDataPackShardPlacementObject_payload_def found_obj)

lemma found_lists_of_records:
  "found_refs (JArr (map ChunkRef_payload cs)) = Some {}" "found_refs (JArr (map KnownChunkRecord_payload ks)) = Some {}"
  "found_refs (JArr (map ProtectionRecordObject_payload ps)) = Some {}"
  "found_refs (JArr (map ErasureDataPackChunkObject_payload es)) = Some {}"
  "found_refs (JArr (map ErasureDataPackShardPlacementObject_payload qs)) = Some {}"
  by (auto simp: found_arr found_records)

lemma found_pack: "found_refs (ErasureDataPackRecordObject_payload p) = Some {}"
  by (simp add: ErasureDataPackRecordObject_payload_def found_obj found_lists_of_records)

lemma found_tree_entry: "TreeEntry_ok e \<Longrightarrow> found_refs (TreeEntry_payload e) = Some {ref_pair (te_ref e)}"
  by (simp add: TreeEntry_payload_def TreeEntry_ok_def ref_to_def found_obj)

lemma found_shard_ref: "IndexShardRef_ok s \<Longrightarrow> found_refs (IndexShardRef_payload s) = Some {ref_pair (is_ref s)}"
  by (simp add: IndexShardRef_payload_def IndexShardRef_ok_def found_obj)

lemma found_index: "index_ok t ss n \<Longrightarrow> found_refs (JArr (map IndexShardRef_payload ss)) = Some (ref_pair ` is_ref ` set ss)"
  using found_list [of IndexShardRef_ok ss IndexShardRef_payload "\<lambda>s. {ref_pair (is_ref s)}"] found_shard_ref
  by (auto simp: index_ok_def list_all_iff)

lemma found_index_entry: "SnapshotIndexEntry_ok e \<Longrightarrow> found_refs (SnapshotIndexEntry_payload e) = Some (ref_pair ` set_option (si_snapshot_root e))"
  by (simp add: SnapshotIndexEntry_payload_def SnapshotIndexEntry_ok_def found_obj found_optional_ref [of SNAPSHOT_ROOT])

lemma set_case_option: "set (case_option [] (\<lambda>r. [r]) y) = set_option y"
  by (cases y) auto

lemma found_object: "object_ok obj \<Longrightarrow> found_refs (object_payload obj) = Some (ref_pair ` set (object_refs obj))"
proof (cases obj)
  case (Catalog c)
  assume "object_ok obj"
  then show ?thesis using Catalog
    by (simp add: CatalogObject_payload_def CatalogObject_ok_def ref_to_def [of SNAPSHOT_INDEX] ref_to_def [of KNOWN_CHUNK_INDEX] found_obj
        found_optional_ref [of PROTECTION_INDEX] found_optional_ref [of ERASURE_DATA_PACK_INDEX])
      (auto split: option.split)
next
  case (SnapshotIndex es)
  assume "object_ok obj"
  then show ?thesis using SnapshotIndex found_list [of SnapshotIndexEntry_ok es SnapshotIndexEntry_payload _, OF _ found_index_entry]
    by (simp add: SnapshotIndexObject_payload_def SnapshotIndexObject_ok_def found_obj image_UN set_case_option)
next
  case (Tree es)
  assume "object_ok obj"
  then show ?thesis using Tree found_list [of TreeEntry_ok es TreeEntry_payload _, OF _ found_tree_entry]
    by (auto simp: TreeObject_payload_def TreeObject_ok_def found_obj)
next
  case (ErasureDataPackIndex i)
  assume "object_ok obj"
  then show ?thesis using ErasureDataPackIndex found_index [of ERASURE_DATA_PACK_SHARD "ei_shards i" "ei_total_packs i"]
    by (simp add: ErasureDataPackIndexObject_payload_def ErasureDataPackIndexObject_ok_def found_obj)
next
  case (ErasureDataPackShard s)
  then show ?thesis by (auto simp: ErasureDataPackShardObject_payload_def found_obj found_arr found_pack)
qed (simp_all add: SnapshotRootObject_payload_def SnapshotRootObject_ok_def FileObject_payload_def FileObject_ok_def RecipeObject_payload_def
    RecipeObject_ok_def ChunkListObject_payload_def KnownChunkIndexObject_payload_def KnownChunkIndexObject_ok_def
    KnownChunkShardObject_payload_def ProtectionIndexObject_payload_def ProtectionIndexObject_ok_def ProtectionShardObject_payload_def
    ref_to_def found_obj found_index found_lists_of_records)

text \<open>\<open>json.loads\<close> of the text \<open>canonical_json_bytes\<close> writes is the value, with the keys in the order of the text.\<close>

definition loads_canonical :: "graph_env \<Rightarrow> bool" where
  "loads_canonical env \<longleftrightarrow> (\<forall>v. json_dict v \<longrightarrow> ge_loads env (canonical_json_bytes v) = Inr (json_sorted v))"

definition object_hash :: "graph_env \<Rightarrow> metadata_object \<Rightarrow> string" where
  "object_hash env obj = ge_blake3 env (canonical_object_bytes obj)"

lemma canonical_json_sorted: "canonical_json_bytes (json_sorted v) = canonical_json_bytes v"
  by (simp add: canonical_json_bytes_def json_dumps_sorted)

lemma payload_is_obj: "\<exists>kvs. object_payload obj = JObj kvs"
  by (cases obj) (auto simp: CatalogObject_payload_def SnapshotIndexObject_payload_def SnapshotRootObject_payload_def TreeObject_payload_def
      FileObject_payload_def RecipeObject_payload_def ChunkListObject_payload_def KnownChunkIndexObject_payload_def
      KnownChunkShardObject_payload_def ProtectionIndexObject_payload_def ProtectionShardObject_payload_def
      ErasureDataPackIndexObject_payload_def ErasureDataPackShardObject_payload_def)

lemma decode_encoded:
  assumes "loads_canonical env" "object_ok obj" "json_dict (object_payload obj)" "is_hex_n 64 (object_hash env obj)"
  shows "decode_object_envelope env (canonical_object_bytes obj) (Some (object_hash env obj)) = Inr (object_type obj, json_sorted (object_payload obj))"
proof -
  let ?kvs = "[(''format'', JStr METADATA_OBJECT_FORMAT), (''version'', JInt METADATA_OBJECT_VERSION),
     (''object_type'', JStr (type_value (object_type obj))), (''payload'', object_payload obj)]"
  define svs where "svs = sort_key fst (map (\<lambda>(k, v). (k, json_sorted v)) ?kvs)"
  have env: "object_envelope obj = JObj ?kvs" "json_sorted (JObj ?kvs) = JObj svs" by (simp_all add: object_envelope_def svs_def)
  have "json_dict (JObj ?kvs)" using assms(3) by simp
  then have load: "ge_loads env (canonical_object_bytes obj) = Inr (JObj svs)"
    using assms(1) env unfolding loads_canonical_def canonical_object_bytes_def by metis
  have "json_get svs k = json_sorted (json_get ?kvs k)" for k unfolding svs_def by (rule json_get_sorted) simp
  then have get: "json_get svs ''format'' = JStr METADATA_OBJECT_FORMAT" "json_get svs ''version'' = JInt METADATA_OBJECT_VERSION"
    "json_get svs ''object_type'' = JStr (type_value (object_type obj))" "json_get svs ''payload'' = json_sorted (object_payload obj)"
    by simp_all
  have canon: "canonical_json_bytes (JObj svs) = canonical_object_bytes obj"
    unfolding canonical_object_bytes_def env(1) env(2) [symmetric] by (rule canonical_json_sorted)
  obtain pfs where pfs: "json_sorted (object_payload obj) = JObj pfs" using payload_is_obj [of obj] by auto
  have dec: "decode_metadata_object_payload (object_type obj) (JObj pfs) = Inr obj"
    unfolding decode_metadata_object_payload_def pfs [symmetric] decode_class_back [OF assms(2)] by simp
  have hash: "walk_require_hash64 (JStr (object_hash env obj)) = Inr (object_hash env obj)"
    using assms(4) hex_n_strip [OF assms(4)] by (simp add: walk_require_hash64_def)
  show ?thesis unfolding decode_object_envelope_def
    by (simp add: load hash canon dec pfs get object_hash_def [symmetric])
qed

lemma encoded_edges:
  assumes "loads_canonical env" "object_ok obj" "json_dict (object_payload obj)" "is_hex_n 64 (object_hash env obj)"
  shows "object_edges env (object_hash env obj) (canonical_object_bytes obj) = Some (object_type obj, ref_pair ` set (object_refs obj))"
proof -
  obtain rs where "iter_object_refs (json_sorted (object_payload obj)) = Inr rs" "set rs = ref_pair ` set (object_refs obj)"
    using found_object [OF assms(2)] unfolding found_refs_def by (cases "iter_object_refs (json_sorted (object_payload obj))") simp_all
  then show ?thesis unfolding object_edges_def decode_encoded [OF assms] by simp
qed


section \<open>What a walk returns\<close>

definition start_state :: "string \<Rightarrow> walk_state" where
  "start_state rt = \<lparr>wk_expected = [(rt, CATALOG)], wk_seen = {}, wk_objects = []\<rparr>"

lemma walk_inv_start: "walk_inv env rt [(rt, CATALOG)] (start_state rt)"
  by (simp add: walk_inv_def start_state_def)

lemma walk_inv_end:
  assumes "walk_inv env rt [] w"
  shows "dom (map_of (wk_objects w)) = {h. (refers env (map_of (wk_objects w)))\<^sup>*\<^sup>* rt h}"
    "closed_graph env (map_of (wk_objects w)) (map_of (wk_expected w))" "map_of (wk_expected w) rt = Some CATALOG" "wk_seen w = dom (map_of (wk_objects w))"
proof -
  let ?G = "map_of (wk_objects w)"
  note inv = assms [unfolded walk_inv_def]
  have known: "map_of (wk_expected w) h \<noteq> None \<longleftrightarrow> h \<in> dom ?G" for h
  proof
    assume "h \<in> dom ?G"
    then obtain data where "?G h = Some data" by blast
    then obtain t where "map_of (wk_expected w) h = Some t" using inv by blast
    then show "map_of (wk_expected w) h \<noteq> None" by simp
  qed (use inv in auto)
  have edges: "\<exists>t rs. object_edges env h data = Some (t, rs) \<and> map_of (wk_expected w) h = Some t
      \<and> (\<forall>(u, r) \<in> rs. map_of (wk_expected w) r = Some u)" if "?G h = Some data" for h data using inv that by blast
  show "closed_graph env ?G (map_of (wk_expected w))" unfolding closed_graph_def
  proof (intro allI impI)
    fix h data assume "?G h = Some data"
    then obtain t rs where e: "object_edges env h data = Some (t, rs)" "map_of (wk_expected w) h = Some t"
      "\<forall>(u, r) \<in> rs. map_of (wk_expected w) r = Some u" using edges by blast
    then show "\<exists>t rs. object_edges env h data = Some (t, rs) \<and> map_of (wk_expected w) h = Some t
        \<and> (\<forall>(u, r) \<in> rs. map_of (wk_expected w) r = Some u \<and> ?G r \<noteq> None)" using known by fastforce
  qed
  have "h \<in> dom ?G" if "(refers env ?G)\<^sup>*\<^sup>* rt h" for h
    using that
  proof (induction rule: rtranclp_induct)
    case base
    then show ?case using known inv by (metis option.distinct(1))
  next
    case (step a b)
    then obtain data t rs u where "?G a = Some data" "object_edges env a data = Some (t, rs)" "(u, b) \<in> rs" by (auto simp: refers_def)
    then have "map_of (wk_expected w) b = Some u" using edges by fastforce
    then show ?case using known by (metis option.distinct(1))
  qed
  then show "dom ?G = {h. (refers env ?G)\<^sup>*\<^sup>* rt h}" using known inv by blast
  show "map_of (wk_expected w) rt = Some CATALOG" "wk_seen w = dom ?G" using inv by auto
qed

lemma collect_bytes_run:
  "collect_reachable_object_bytes env c read s = (Inr objs, s') \<longleftrightarrow>
     is_hex_n 64 (py_strip c) \<and> (\<exists>w. walk_loop env read True [(py_strip c, CATALOG)] (start_state (py_strip c)) s = (Inr w, s') \<and> objs = wk_objects w)"
  by (auto simp: collect_reachable_object_bytes_def collect_reachable_objects_def walk_require_hash64_def start_state_def op_bind_def op_lift_def
      op_return_def Let_def split: prod.splits sum.splits)

lemma edges_hash: "object_edges env h data = Some e \<Longrightarrow> ge_blake3 env data = py_strip h \<and> is_hex_n 64 (py_strip h)"
  by (auto simp: object_edges_def decode_object_envelope_def walk_require_hash64_def bindE_eq_Inr Let_def split: sum.splits if_splits)

text \<open>C3. A walk that returns has computed reachability: the objects it collected are exactly those reachable
  from the catalog along the references found in the collected bytes, whatever the reads did; each is stored
  under the BLAKE3 hash of its bytes and decodes to a well-formed object of one type; every reference to
  it has this type; no reference leads out of the collection, and the root is a catalog.\<close>

theorem walk_is_reachability:
  assumes "collect_reachable_object_bytes env catalog_hash read s = (Inr objs, s')"
  shows "dom (map_of objs) = {h. (refers env (map_of objs))\<^sup>*\<^sup>* (py_strip catalog_hash) h}
    \<and> (\<exists>ty. closed_graph env (map_of objs) ty \<and> ty (py_strip catalog_hash) = Some CATALOG)
    \<and> (\<forall>h data. map_of objs h = Some data \<longrightarrow> ge_blake3 env data = py_strip h)"
proof -
  obtain w where w: "walk_loop env read True [(py_strip catalog_hash, CATALOG)] (start_state (py_strip catalog_hash)) s = (Inr w, s')" "objs = wk_objects w"
    using assms by (auto simp: collect_bytes_run)
  note fin = walk_inv_end [OF walk_loop_inv [OF w(1) TrueI walk_inv_start]]
  have "ge_blake3 env data = py_strip h" if "map_of objs h = Some data" for h data
    using fin(2) that edges_hash [of env h data] unfolding closed_graph_def w(2) by blast
  then show ?thesis using fin unfolding w(2) by blast
qed

lemma walk_collects_closed_graph:
  assumes "closed_graph env G ty" "\<And>h data s. P s \<Longrightarrow> G h = Some data \<Longrightarrow> \<exists>s'. read h s = (Inr data, s') \<and> P s'"
    and "P s" "is_hex_n 64 rt" "G rt \<noteq> None" "ty rt = Some CATALOG"
  shows "\<exists>objs s'. collect_reachable_object_bytes env rt read s = (Inr objs, s') \<and> P s'
    \<and> map_of objs = G |` {h. (refers env G)\<^sup>*\<^sup>* rt h}"
proof -
  have "\<exists>w s'. walk_loop env read True [(rt, CATALOG)] (start_state rt) s = (Inr w, s') \<and> P s' \<and> map_of (wk_objects w) \<subseteq>\<^sub>m G"
    by (rule walk_loop_total [where ty = ty]) (use assms in \<open>auto simp: start_state_def map_le_def\<close>)
  then obtain w s' where w: "walk_loop env read True [(rt, CATALOG)] (start_state rt) s = (Inr w, s')" "P s'" "map_of (wk_objects w) \<subseteq>\<^sub>m G"
    by blast
  let ?O = "map_of (wk_objects w)"
  note fin = walk_inv_end [OF walk_loop_inv [OF w(1) TrueI walk_inv_start]]
  have "h \<in> dom ?O" if "(refers env G)\<^sup>*\<^sup>* rt h" for h
    using that
  proof (induction rule: rtranclp_induct)
    case base
    then show ?case using fin(1) by blast
  next
    case (step a b)
    then have "?O a = G a" using w(3) by (auto simp: map_le_def)
    then have "refers env ?O a b" using step(2) by (simp add: refers_def)
    moreover have "(refers env ?O)\<^sup>*\<^sup>* rt a" using step.IH unfolding fin(1) by simp
    ultimately have "(refers env ?O)\<^sup>*\<^sup>* rt b" by (rule rtranclp.rtrancl_into_rtrancl [rotated])
    then show ?case unfolding fin(1) by simp
  qed
  moreover have "(refers env G)\<^sup>*\<^sup>* rt h" if "h \<in> dom ?O" for h
    using refers_mono [where G = id, simplified, OF w(3)] fin(1) that by blast
  ultimately have "?O h = (G |` {h. (refers env G)\<^sup>*\<^sup>* rt h}) h" for h
    using w(3) unfolding map_le_def restrict_map_def by (metis domIff mem_Collect_eq)
  then show ?thesis using w(1,2) assms(4) hex_n_strip [OF assms(4)] by (auto simp: collect_bytes_run intro!: exI [of _ "wk_objects w"])
qed


text \<open>A set of well-formed objects, without hash collisions among them, whose references stay inside and have the
  type of the object they point to. \<open>json_dict\<close> says that the floats of a payload are finite float texts.\<close>

definition resolves :: "graph_env \<Rightarrow> metadata_object list \<Rightarrow> bool" where
  "resolves env os \<longleftrightarrow> inj_on (object_hash env) (set os) \<and> (\<forall>q \<in> set os. object_ok q \<and> json_dict (object_payload q) \<and> is_hex_n 64 (object_hash env q)
     \<and> (\<forall>r \<in> set (object_refs q). \<exists>p \<in> set os. ref_pair r = (object_type p, object_hash env p)))"

definition points_to :: "graph_env \<Rightarrow> metadata_object list \<Rightarrow> metadata_object \<Rightarrow> metadata_object \<Rightarrow> bool" where
  "points_to env os a b \<longleftrightarrow> b \<in> set os \<and> (\<exists>r \<in> set (object_refs a). or_hash r = object_hash env b)"

definition encoded_graph :: "graph_env \<Rightarrow> metadata_object list \<Rightarrow> string \<rightharpoonup> bytes" where
  "encoded_graph env os = map_of (map (\<lambda>q. (object_hash env q, canonical_object_bytes q)) os)"

lemma map_of_inj:
  "inj_on f (set xs) \<Longrightarrow> map_of (map (\<lambda>x. (f x, g x)) xs) h = Some y \<longleftrightarrow> (\<exists>x \<in> set xs. h = f x \<and> y = g x)"
proof (induction xs)
  case (Cons x xs)
  then show ?case by (auto simp: inj_on_def)
qed simp

lemma graph_entries: "resolves env os \<Longrightarrow> encoded_graph env os h = Some data \<longleftrightarrow> (\<exists>q \<in> set os. h = object_hash env q \<and> data = canonical_object_bytes q)"
  unfolding encoded_graph_def resolves_def by (intro map_of_inj) simp

lemma type_entries: "resolves env os \<Longrightarrow>
    map_of (map (\<lambda>q. (object_hash env q, object_type q)) os) h = Some t \<longleftrightarrow> (\<exists>q \<in> set os. h = object_hash env q \<and> t = object_type q)"
  unfolding resolves_def by (intro map_of_inj) simp

lemma graph_edges: "loads_canonical env \<Longrightarrow> resolves env os \<Longrightarrow> q \<in> set os \<Longrightarrow>
    object_edges env (object_hash env q) (canonical_object_bytes q) = Some (object_type q, ref_pair ` set (object_refs q))"
  by (intro encoded_edges) (auto simp: resolves_def)

lemma graph_closed:
  assumes canonical: "loads_canonical env" and res: "resolves env os"
  shows "closed_graph env (encoded_graph env os) (map_of (map (\<lambda>q. (object_hash env q, object_type q)) os))"
  unfolding closed_graph_def
proof (intro allI impI)
  note graph_entries = graph_entries [OF res] and type_entries = type_entries [OF res] and graph_edges = graph_edges [OF canonical res]
  fix h data assume "encoded_graph env os h = Some data"
  then obtain q where q: "q \<in> set os" "h = object_hash env q" "data = canonical_object_bytes q" by (auto simp: graph_entries)
  have "map_of (map (\<lambda>q. (object_hash env q, object_type q)) os) r = Some u \<and> encoded_graph env os r \<noteq> None"
    if ur: "(u, r) \<in> ref_pair ` set (object_refs q)" for u r
  proof -
    obtain p where "p \<in> set os" "u = object_type p" "r = object_hash env p"
      using ur res q(1) unfolding resolves_def by (metis (no_types, lifting) imageE prod.inject)
    then have "encoded_graph env os r = Some (canonical_object_bytes p)" "map_of (map (\<lambda>q. (object_hash env q, object_type q)) os) r = Some u"
      by (auto simp: graph_entries type_entries)
    then show ?thesis by simp
  qed
  moreover have "map_of (map (\<lambda>q. (object_hash env q, object_type q)) os) h = Some (object_type q)" using q by (auto simp: type_entries)
  ultimately show "\<exists>t rs. object_edges env h data = Some (t, rs) \<and> map_of (map (\<lambda>q. (object_hash env q, object_type q)) os) h = Some t
      \<and> (\<forall>(u, r) \<in> rs. map_of (map (\<lambda>q. (object_hash env q, object_type q)) os) r = Some u \<and> encoded_graph env os r \<noteq> None)"
    using graph_edges [OF q(1)] q(2,3) by blast
qed

lemma graph_refers:
  assumes canonical: "loads_canonical env" and res: "resolves env os" and a: "a \<in> set os"
  shows "refers env (encoded_graph env os) (object_hash env a) h \<longleftrightarrow> (\<exists>b. points_to env os a b \<and> h = object_hash env b)"
proof -
  have e: "encoded_graph env os (object_hash env a) = Some (canonical_object_bytes a)" using a graph_entries [OF res] by auto
  have "refers env (encoded_graph env os) (object_hash env a) h \<longleftrightarrow> (\<exists>r \<in> set (object_refs a). or_hash r = h)"
    using graph_edges [OF assms] e by (auto simp: refers_def ref_pair_def)
  also have "\<dots> \<longleftrightarrow> (\<exists>b. points_to env os a b \<and> h = object_hash env b)"
    using res a unfolding points_to_def resolves_def ref_pair_def by (metis prod.inject)
  finally show ?thesis .
qed

lemma graph_reach:
  assumes canonical: "loads_canonical env" and res: "resolves env os" and a: "a \<in> set os"
  shows "(refers env (encoded_graph env os))\<^sup>*\<^sup>* (object_hash env a) h \<longleftrightarrow> (\<exists>b \<in> set os. (points_to env os)\<^sup>*\<^sup>* a b \<and> h = object_hash env b)"
proof
  note graph_refers = graph_refers [OF canonical res]
  assume "(refers env (encoded_graph env os))\<^sup>*\<^sup>* (object_hash env a) h"
  then show "\<exists>b \<in> set os. (points_to env os)\<^sup>*\<^sup>* a b \<and> h = object_hash env b"
  proof (induction rule: rtranclp_induct)
    case (step y z)
    then obtain b where "b \<in> set os" "(points_to env os)\<^sup>*\<^sup>* a b" "y = object_hash env b" by blast
    moreover from this obtain d where "points_to env os b d" "z = object_hash env d" using step(2) graph_refers by blast
    ultimately show ?case using rtranclp.rtrancl_into_rtrancl points_to_def by metis
  qed (use a in blast)
next
  note graph_refers = graph_refers [OF canonical res]
  assume "\<exists>b \<in> set os. (points_to env os)\<^sup>*\<^sup>* a b \<and> h = object_hash env b"
  then obtain b where b: "(points_to env os)\<^sup>*\<^sup>* a b" "h = object_hash env b" by blast
  from b(1) have "b \<in> set os \<and> (refers env (encoded_graph env os))\<^sup>*\<^sup>* (object_hash env a) (object_hash env b)"
  proof (induction rule: rtranclp_induct)
    case (step x y)
    then have "refers env (encoded_graph env os) (object_hash env x) (object_hash env y)" using graph_refers by blast
    then show ?case using step by (auto simp: points_to_def intro: rtranclp.rtrancl_into_rtrancl)
  qed (use a in simp)
  then show "(refers env (encoded_graph env os))\<^sup>*\<^sup>* (object_hash env a) h" using b(2) by simp
qed

text \<open>C4. The walk is total on an exported graph: for well-formed objects whose references resolve among
  them, with a store that returns the bytes of each of them (in whatever state its reads leave it), the walk
  from the catalog returns, and it returns exactly the canonical bytes of the objects reachable from the
  catalog along typed references, each under its hash.\<close>

theorem exported_graph_is_collected:
  assumes "loads_canonical env" "resolves env os" "Catalog c \<in> set os"
    and "\<And>q s. P s \<Longrightarrow> q \<in> set os \<Longrightarrow> \<exists>s'. read (object_hash env q) s = (Inr (canonical_object_bytes q), s') \<and> P s'" "P s"
  shows "\<exists>objs s'. collect_reachable_object_bytes env (object_hash env (Catalog c)) read s = (Inr objs, s') \<and> P s'
    \<and> (\<forall>h data. map_of objs h = Some data \<longleftrightarrow>
         (\<exists>q \<in> set os. (points_to env os)\<^sup>*\<^sup>* (Catalog c) q \<and> h = object_hash env q \<and> data = canonical_object_bytes q))"
proof -
  let ?rt = "object_hash env (Catalog c)" and ?G = "encoded_graph env os"
  note ent = graph_entries [OF assms(2)] and reach = graph_reach [OF assms(1-3)]
  have rd: "\<exists>s'. read h s = (Inr data, s') \<and> P s'" if "P s" "?G h = Some data" for h data s
    using that(1) iffD1 [OF ent that(2)] assms(4) by auto
  have "?G ?rt \<noteq> None" "map_of (map (\<lambda>q. (object_hash env q, object_type q)) os) ?rt = Some CATALOG"
    using assms(3) ent type_entries [OF assms(2)] by fastforce+
  moreover have "is_hex_n 64 ?rt" using assms(2,3) by (auto simp: resolves_def)
  ultimately obtain objs s' where o: "collect_reachable_object_bytes env ?rt read s = (Inr objs, s')" "P s'"
    "map_of objs = ?G |` {h. (refers env ?G)\<^sup>*\<^sup>* ?rt h}"
    using walk_collects_closed_graph [where P = P and read = read, OF graph_closed [OF assms(1,2)] rd assms(5)] by blast
  have "map_of objs h = Some data \<longleftrightarrow> (\<exists>q \<in> set os. (points_to env os)\<^sup>*\<^sup>* (Catalog c) q \<and> h = object_hash env q \<and> data = canonical_object_bytes q)"
    for h data
    unfolding o(3) restrict_map_def using ent [of h data] reach [of h] assms(2) unfolding resolves_def
    by (auto dest: inj_onD)
  then show ?thesis using o(1,2) by blast
qed

section \<open>A small vault\<close>

text \<open>An empty vault: a catalog with an empty snapshot index and an empty index of known chunks. \<open>parse_canonical\<close> is a
  parser with the assumed behaviour; the digest is told apart by the length of the text.\<close>

definition parse_canonical :: "bytes \<Rightarrow> json result" where
  "parse_canonical b = (if \<exists>v. json_dict v \<and> canonical_json_bytes v = b
     then Inr (json_sorted (SOME v. json_dict v \<and> canonical_json_bytes v = b)) else Inl ValueError)"

definition demo_graph_env :: graph_env where
  "demo_graph_env = \<lparr>ge_blake3 = (\<lambda>b. replicate 63 CHR ''a'' @ [hex_digit (length b mod 13)]), ge_loads = parse_canonical, ge_repr = (\<lambda>_. [])\<rparr>"

lemma loads_canonical_demo: "loads_canonical demo_graph_env"
  unfolding loads_canonical_def
proof (intro allI impI)
  fix v assume v: "json_dict v"
  define u where "u = (SOME u. json_dict u \<and> canonical_json_bytes u = canonical_json_bytes v)"
  have "json_dict u \<and> canonical_json_bytes u = canonical_json_bytes v" unfolding u_def by (rule someI [of _ v]) (simp add: v)
  then have "json_sorted u = json_sorted v"
    using v json_dumps_eq_sorted utf8_encode_inj unfolding canonical_json_bytes_def by blast
  then show "ge_loads demo_graph_env (canonical_json_bytes v) = Inr (json_sorted v)"
    using v by (auto simp: demo_graph_env_def parse_canonical_def u_def)
qed

definition demo_hash :: "nat \<Rightarrow> string" where
  "demo_hash n = replicate 63 CHR ''a'' @ [hex_digit n]"

definition demo_known_index :: known_chunk_index_object where
  "demo_known_index = \<lparr>ki_shards = [], ki_total_chunks = 0\<rparr>"

definition demo_catalog :: catalog_object where
  "demo_catalog = \<lparr>ca_vault_id = replicate 32 CHR ''0'', ca_snapshot_index = \<lparr>or_type = SNAPSHOT_INDEX, or_hash = demo_hash 1\<rparr>,
     ca_known_chunk_index = \<lparr>or_type = KNOWN_CHUNK_INDEX, or_hash = demo_hash 5\<rparr>, ca_protection_index = None, ca_snapshot_count = 0,
     ca_known_chunk_count = 0, ca_protection_record_count = 0, ca_erasure_data_pack_index = None, ca_erasure_data_pack_count = 0,
     ca_erasure_data_pack_chunk_count = 0, ca_erasure_data_pack_shard_count = 0\<rparr>"

definition demo_objects :: "metadata_object list" where
  "demo_objects = [Catalog demo_catalog, SnapshotIndex [], KnownChunkIndex demo_known_index]"

lemma demo_index_lengths:
  "length (canonical_object_bytes (SnapshotIndex [])) mod 13 = 1"
  "length (canonical_object_bytes (KnownChunkIndex demo_known_index)) mod 13 = 5"
  by code_simp+

lemma demo_catalog_length: "length (canonical_object_bytes (Catalog demo_catalog)) mod 13 = 6"
  by code_simp

lemma demo_object_hashes:
  "object_hash demo_graph_env (SnapshotIndex []) = demo_hash 1"
  "object_hash demo_graph_env (KnownChunkIndex demo_known_index) = demo_hash 5"
  "object_hash demo_graph_env (Catalog demo_catalog) = demo_hash 6"
  by (simp_all add: object_hash_def demo_graph_env_def demo_hash_def demo_index_lengths demo_catalog_length)

lemma demo_distinct: "demo_hash 1 \<noteq> demo_hash 5" "demo_hash 1 \<noteq> demo_hash 6" "demo_hash 5 \<noteq> demo_hash 6"
    "is_hex_n 64 (demo_hash 1)" "is_hex_n 64 (demo_hash 5)" "is_hex_n 64 (demo_hash 6)" "is_hex_n 32 (replicate 32 CHR ''0'')"
  by code_simp+

lemma demo_resolves: "resolves demo_graph_env demo_objects"
proof -
  have "inj_on (object_hash demo_graph_env) (set demo_objects)"
    using demo_distinct by (auto simp: inj_on_def demo_objects_def demo_object_hashes)
  moreover have "object_ok q \<and> json_dict (object_payload q)" if "q \<in> set demo_objects" for q
    using that demo_distinct by (auto simp: demo_objects_def CatalogObject_ok_def CatalogObject_payload_def demo_catalog_def ref_to_def ObjectRef_ok_def
        ObjectRef_payload_def SnapshotIndexObject_ok_def SnapshotIndexObject_payload_def KnownChunkIndexObject_ok_def
        KnownChunkIndexObject_payload_def demo_known_index_def index_ok_def)
  moreover have "is_hex_n 64 (object_hash demo_graph_env q)" if "q \<in> set demo_objects" for q
    using that demo_distinct by (auto simp: demo_objects_def demo_object_hashes)
  moreover have "\<exists>p \<in> set demo_objects. ref_pair r = (object_type p, object_hash demo_graph_env p)"
    if "q \<in> set demo_objects" "r \<in> set (object_refs q)" for q r
  proof -
    have "object_refs (Catalog demo_catalog) = [\<lparr>or_type = SNAPSHOT_INDEX, or_hash = demo_hash 1\<rparr>, \<lparr>or_type = KNOWN_CHUNK_INDEX, or_hash = demo_hash 5\<rparr>]"
      "object_refs (KnownChunkIndex demo_known_index) = []" by (simp_all add: demo_catalog_def demo_known_index_def)
    then show ?thesis using that by (auto simp: demo_objects_def demo_object_hashes ref_pair_def simp del: One_nat_def object_refs.simps(1,8))
  qed
  ultimately show ?thesis by (simp add: resolves_def)
qed

definition demo_read :: "string \<Rightarrow> (unit, bytes) op" where
  "demo_read h s = (case encoded_graph demo_graph_env demo_objects h of None \<Rightarrow> (Inl MetadataObjectStoreMissingError, s) | Some data \<Rightarrow> (Inr data, s))"

lemma demo_read_returns: "q \<in> set demo_objects \<Longrightarrow> demo_read (object_hash demo_graph_env q) s = (Inr (canonical_object_bytes q), s)"
proof -
  assume "q \<in> set demo_objects"
  then have "encoded_graph demo_graph_env demo_objects (object_hash demo_graph_env q) = Some (canonical_object_bytes q)"
    using graph_entries [OF demo_resolves] by auto
  then show ?thesis by (simp add: demo_read_def)
qed

theorem exported_graph_is_collected_witness:
  "\<exists>objs. fst (collect_reachable_object_bytes demo_graph_env (object_hash demo_graph_env (Catalog demo_catalog)) demo_read ()) = Inr objs
     \<and> map_of objs (demo_hash 1) = Some (canonical_object_bytes (SnapshotIndex []))"
proof -
  have c: "Catalog demo_catalog \<in> set demo_objects" by (simp add: demo_objects_def)
  have "points_to demo_graph_env demo_objects (Catalog demo_catalog) (SnapshotIndex [])"
    by (auto simp: points_to_def demo_objects_def demo_object_hashes demo_catalog_def)
  then have "(points_to demo_graph_env demo_objects)\<^sup>*\<^sup>* (Catalog demo_catalog) (SnapshotIndex [])" by blast
  moreover have "SnapshotIndex [] \<in> set demo_objects" by (simp add: demo_objects_def)
  ultimately show ?thesis
    using exported_graph_is_collected [OF loads_canonical_demo demo_resolves c, of "\<lambda>_. True" demo_read "()"] demo_read_returns
    by (metis demo_object_hashes(1) fst_conv)
qed

theorem walk_is_reachability_witness:
  "\<exists>objs. collect_reachable_object_bytes demo_graph_env (demo_hash 6) demo_read () = (Inr objs, ())
     \<and> dom (map_of objs) = {h. (refers demo_graph_env (map_of objs))\<^sup>*\<^sup>* (demo_hash 6) h}"
proof -
  have "map_of (map (\<lambda>q. (object_hash demo_graph_env q, object_type q)) demo_objects) (demo_hash 6) = Some CATALOG"
    "encoded_graph demo_graph_env demo_objects (demo_hash 6) \<noteq> None"
    by (simp_all add: demo_objects_def demo_object_hashes encoded_graph_def)
  then obtain objs s' where run: "collect_reachable_object_bytes demo_graph_env (demo_hash 6) demo_read () = (Inr objs, s')"
    using walk_collects_closed_graph [OF graph_closed [OF loads_canonical_demo demo_resolves], of "\<lambda>_. True" demo_read "()" "demo_hash 6"]
      demo_distinct(6) by (auto simp: demo_read_def)
  then show ?thesis using walk_is_reachability [OF run] hex_n_strip [OF demo_distinct(6)] by auto
qed

end
