(* ===== verification/GraphValidation.thy ===== *)
theory GraphValidation
  imports ObjectGraph
begin

text \<open>
  The relations between objects that make a graph recoverable (\<open>metadata/objects/graph/validation.py\<close>):
  the counters of the catalog, the sharded indexes, the packs, and for every snapshot with a root the tree,
  its files and their recipes, whose hash is recomputed from the chunk sequence
  (\<open>chunking/recipes.py\<close>). The \<open>isinstance\<close> tests after \<open>_expect\<close> are the constructor patterns here: an object
  of the expected type always has the class of that type.
\<close>

section \<open>Recipe hashes (recipes.py)\<close>

definition RECIPE_HASH_DOMAIN :: bytes where
  "RECIPE_HASH_DOMAIN = map of_char ''stopan.recipe.v1'' @ [0]"

text \<open>\<open>int.to_bytes(n, "big", signed=False)\<close>.\<close>

definition to_bytes_big :: "nat \<Rightarrow> int \<Rightarrow> bytes result" where
  "to_bytes_big n i = (if i < 0 \<or> 256 ^ n \<le> i then Inl OverflowError
     else Inr (map (\<lambda>k. of_int (i div 256 ^ (n - 1 - k))) [0..<n]))"

text \<open>\<open>bytes.fromhex\<close>: two hexadecimal digits per byte, ASCII whitespace between bytes is skipped.\<close>

definition hex_value :: "char \<Rightarrow> nat option" where
  "hex_value c = (let n = (of_char c :: nat) in
     if 48 \<le> n \<and> n \<le> 57 then Some (n - 48) else if 97 \<le> n \<and> n \<le> 102 then Some (n - 87)
     else if 65 \<le> n \<and> n \<le> 70 then Some (n - 55) else None)"

definition is_ascii_space :: "char \<Rightarrow> bool" where
  "is_ascii_space c \<longleftrightarrow> (let n = (of_char c :: nat) in 9 \<le> n \<and> n \<le> 13 \<or> n = 32)"

fun fromhex :: "string \<Rightarrow> bytes result" where
  "fromhex [] = Inr []"
| "fromhex [c] = (if is_ascii_space c then Inr [] else Inl ValueError)"
| "fromhex (c # d # s) =
     (if is_ascii_space c then fromhex (d # s)
      else case (hex_value c, hex_value d) of
             (Some a, Some b) \<Rightarrow> bindE (fromhex s) (\<lambda>bs. Inr (of_nat (16 * a + b) # bs))
           | _ \<Rightarrow> Inl ValueError)"

type_synonym recipe_chunk = "int \<times> string \<times> int"

definition recipe_chunk_bytes :: "recipe_chunk \<Rightarrow> bytes result" where
  "recipe_chunk_bytes c = (case c of (order, chunk_hash, sz) \<Rightarrow>
     bindE (to_bytes_big 4 order) (\<lambda>a. bindE (fromhex chunk_hash) (\<lambda>b. bindE (to_bytes_big 8 sz) (\<lambda>d. Inr (a @ b @ d)))))"

definition compute_recipe_hash :: "(bytes \<Rightarrow> string) \<Rightarrow> recipe_chunk list \<Rightarrow> string result" where
  "compute_recipe_hash blake3 chunks = bindE (mapE recipe_chunk_bytes chunks) (\<lambda>bs. Inr (blake3 (RECIPE_HASH_DOMAIN @ concat bs)))"

section \<open>Typed lookup (validation.py)\<close>

type_synonym typed_objects = "(string \<times> metadata_object) list"

definition typed_object_of :: "string \<times> metadata_object_type \<times> json \<Rightarrow> (string \<times> metadata_object) result" where
  "typed_object_of item = (case item of (h, t, payload) \<Rightarrow>
     (case decode_metadata_object_payload t payload of Inl _ \<Rightarrow> Inl MetadataObjectError | Inr obj \<Rightarrow> Inr (h, obj)))"

text \<open>\<open>_typed_objects\<close>; the argument lists the items of a dict.\<close>

definition mk_typed_objects :: "(string \<times> metadata_object_type \<times> json) list \<Rightarrow> typed_objects result" where
  "mk_typed_objects = mapE typed_object_of"

definition expect :: "typed_objects \<Rightarrow> string \<Rightarrow> metadata_object_type \<Rightarrow> metadata_object result" where
  "expect typed h t = (case map_of typed h of
      None \<Rightarrow> Inl MetadataObjectError
    | Some obj \<Rightarrow> if object_type obj \<noteq> t then Inl MetadataObjectError else Inr obj)"

definition reject :: "bool \<Rightarrow> unit result" where
  "reject b = raise_if b MetadataObjectError"

section \<open>Trees, files and recipes (validation.py)\<close>

type_synonym recipe_table = "(string \<times> recipe_chunk list) list"

definition recipe_chunks :: "chunk_ref list \<Rightarrow> recipe_chunk list" where
  "recipe_chunks cs = map (\<lambda>c. (ch_order c, ch_hash c, ch_size c)) cs"

definition check_known_chunk :: "(string \<times> int) list \<Rightarrow> recipe_chunk \<Rightarrow> unit result" where
  "check_known_chunk known c = (case c of (_, h, sz) \<Rightarrow> (case map_of known h of
      None \<Rightarrow> Inl MetadataObjectError
    | Some known_size \<Rightarrow> reject (known_size \<noteq> sz)))"

text \<open>The part of \<open>_validate_tree\<close> for an entry that is not a directory.\<close>

definition validate_file ::
    "(bytes \<Rightarrow> string) \<Rightarrow> typed_objects \<Rightarrow> (string \<times> int) list \<Rightarrow> tree_entry \<Rightarrow> recipe_table \<Rightarrow> recipe_table result" where
  "validate_file blake3 typed known e recipes =
     bindE (expect typed (or_hash (te_ref e)) FILE) (\<lambda>file_obj. case file_obj of File f \<Rightarrow>
     bindE (reject (fl_size f \<noteq> te_size e)) (\<lambda>_.
     bindE (expect typed (or_hash (fl_recipe f)) RECIPE) (\<lambda>recipe_obj. case recipe_obj of Recipe r \<Rightarrow>
     bindE (reject (fl_recipe_hash f \<noteq> rc_recipe_hash r)) (\<lambda>_.
     bindE (expect typed (or_hash (rc_chunk_list r)) CHUNK_LIST) (\<lambda>list_obj. case list_obj of ChunkList cs \<Rightarrow>
     let chunks = recipe_chunks cs in
     bindE (reject (int (length chunks) \<noteq> rc_chunk_count r)) (\<lambda>_.
     bindE (reject (sum_list (map (\<lambda>(_, _, sz). sz) chunks) \<noteq> rc_total_size r)) (\<lambda>_.
     bindE (compute_recipe_hash blake3 chunks) (\<lambda>calculated.
     bindE (reject (calculated \<noteq> rc_recipe_hash r)) (\<lambda>_.
     bindE (reject (case map_of recipes (rc_recipe_hash r) of None \<Rightarrow> False | Some previous \<Rightarrow> previous \<noteq> chunks)) (\<lambda>_.
     bindE (mapE (check_known_chunk known) chunks) (\<lambda>_.
       Inr (if rc_recipe_hash r \<in> fst ` set recipes then recipes else recipes @ [(rc_recipe_hash r, chunks)])))))))
     | _ \<Rightarrow> Inl MetadataObjectError))
     | _ \<Rightarrow> Inl MetadataObjectError))
     | _ \<Rightarrow> Inl MetadataObjectError)"

function (sequential) validate_tree ::
    "(bytes \<Rightarrow> string) \<Rightarrow> typed_objects \<Rightarrow> (string \<times> int) list \<Rightarrow> string \<Rightarrow> string set \<Rightarrow> recipe_table \<Rightarrow> recipe_table result"
  and validate_entries ::
    "(bytes \<Rightarrow> string) \<Rightarrow> typed_objects \<Rightarrow> (string \<times> int) list \<Rightarrow> tree_entry list \<Rightarrow> string set \<Rightarrow> recipe_table \<Rightarrow> recipe_table result" where
  "validate_tree blake3 typed known h active recipes =
     (if h \<in> active then Inl MetadataObjectError
      else case expect typed h TREE of
             Inl e \<Rightarrow> Inl e
           | Inr (Tree es) \<Rightarrow> validate_entries blake3 typed known es (insert h active) recipes
           | Inr _ \<Rightarrow> Inl MetadataObjectError)"
| "validate_entries blake3 typed known [] active recipes = Inr recipes"
| "validate_entries blake3 typed known (e # es) active recipes =
     (case (if te_item_type e = ''dir'' then validate_tree blake3 typed known (or_hash (te_ref e)) active recipes
            else validate_file blake3 typed known e recipes) of
        Inl x \<Rightarrow> Inl x
      | Inr recipes' \<Rightarrow> validate_entries blake3 typed known es active recipes')"
  by pat_completeness auto

text \<open>The set of trees under validation grows on the way down, within the objects of the graph.\<close>

termination
proof (relation "inv_image (less_than <*lex*> less_than)
    (\<lambda>x. case x of Inl (_, typed, _, _, active, _) \<Rightarrow> (card (fst ` set typed - active), 0)
                 | Inr (_, typed, _, es, active, _) \<Rightarrow> (card (fst ` set typed - active), Suc (length es)))", goal_cases)
  case (2 blake3 typed known h active recipes obj es)
  then have "h \<in> fst ` set typed" by (auto simp: expect_def map_of_eq_None_iff split: option.splits if_splits dest!: map_of_SomeD intro: rev_image_eqI)
  then have "card (fst ` set typed - insert h active) < card (fst ` set typed - active)"
    using 2 by (intro psubset_card_mono) auto
  then show ?case by simp
qed auto

declare validate_tree.simps [simp del]

section \<open>Indexes and counters (validation.py)\<close>

definition note_known_chunk :: "(string \<times> int) list \<Rightarrow> known_chunk_record \<Rightarrow> (string \<times> int) list result" where
  "note_known_chunk known r =
     bindE (reject (case map_of known (kc_hash r) of None \<Rightarrow> False | Some previous \<Rightarrow> previous \<noteq> kc_size r)) (\<lambda>_.
       Inr (AList.update (kc_hash r) (kc_size r) known))"

definition load_known_shard :: "typed_objects \<Rightarrow> (string \<times> int) list \<Rightarrow> index_shard_ref \<Rightarrow> (string \<times> int) list result" where
  "load_known_shard typed known s =
     bindE (expect typed (or_hash (is_ref s)) KNOWN_CHUNK_SHARD) (\<lambda>obj. case obj of KnownChunkShard k \<Rightarrow>
     bindE (reject (ks_prefix k \<noteq> is_prefix s)) (\<lambda>_.
     bindE (reject (int (length (ks_chunks k)) \<noteq> is_count s)) (\<lambda>_.
       foldE note_known_chunk known (ks_chunks k)))
     | _ \<Rightarrow> Inl MetadataObjectError)"

definition note_protection :: "(string \<times> int) list \<Rightarrow> string list \<Rightarrow> protection_record_object \<Rightarrow> string list result" where
  "note_protection known seen r =
     bindE (reject (pr_chunk_hash r \<in> set seen)) (\<lambda>_.
     bindE (reject (pr_chunk_hash r \<notin> fst ` set known)) (\<lambda>_. Inr (pr_chunk_hash r # seen)))"

definition load_protection_shard :: "typed_objects \<Rightarrow> (string \<times> int) list \<Rightarrow> string list \<Rightarrow> index_shard_ref \<Rightarrow> string list result" where
  "load_protection_shard typed known seen s =
     bindE (expect typed (or_hash (is_ref s)) PROTECTION_SHARD) (\<lambda>obj. case obj of ProtectionShard p \<Rightarrow>
     bindE (reject (ps_prefix p \<noteq> is_prefix s)) (\<lambda>_.
     bindE (reject (int (length (ps_records p)) \<noteq> is_count s)) (\<lambda>_.
       foldE (note_protection known) seen (ps_records p)))
     | _ \<Rightarrow> Inl MetadataObjectError)"

text \<open>The number of protection records of the graph.\<close>

definition validate_protection :: "typed_objects \<Rightarrow> catalog_object \<Rightarrow> (string \<times> int) list \<Rightarrow> int result" where
  "validate_protection typed c known = (case ca_protection_index c of
      None \<Rightarrow> bindE (reject (ca_protection_record_count c \<noteq> 0)) (\<lambda>_. Inr 0)
    | Some r \<Rightarrow>
        bindE (expect typed (or_hash r) PROTECTION_INDEX) (\<lambda>obj. case obj of ProtectionIndex i \<Rightarrow>
        bindE (reject (ca_protection_record_count c \<noteq> pi_total_records i)) (\<lambda>_.
        bindE (foldE (load_protection_shard typed known) [] (pi_shards i)) (\<lambda>seen.
        bindE (reject (int (length seen) \<noteq> pi_total_records i)) (\<lambda>_. Inr (int (length seen)))))
        | _ \<Rightarrow> Inl MetadataObjectError))"

record pack_totals =
  pt_packs :: "string list"
  pt_chunks :: "string list"
  pt_chunk_count :: int
  pt_shard_count :: int

definition note_pack_chunk :: "(string \<times> int) list \<Rightarrow> string list \<Rightarrow> ec_chunk_object \<Rightarrow> string list result" where
  "note_pack_chunk known seen c = (case map_of known (ex_chunk_hash c) of
      None \<Rightarrow> Inl MetadataObjectError
    | Some known_size \<Rightarrow>
        bindE (reject (ex_length c \<noteq> known_size)) (\<lambda>_.
        bindE (reject (ex_chunk_hash c \<in> set seen)) (\<lambda>_. Inr (ex_chunk_hash c # seen))))"

definition note_pack :: "(string \<times> int) list \<Rightarrow> pack_totals \<Rightarrow> ec_pack_object \<Rightarrow> pack_totals result" where
  "note_pack known t p =
     bindE (reject (eo_pack_hash p \<in> set (pt_packs t))) (\<lambda>_.
     bindE (foldE (note_pack_chunk known) (pt_chunks t) (eo_chunks p)) (\<lambda>seen.
       Inr \<lparr>pt_packs = eo_pack_hash p # pt_packs t, pt_chunks = seen, pt_chunk_count = pt_chunk_count t + int (length (eo_chunks p)),
            pt_shard_count = pt_shard_count t + int (length (eo_shards p))\<rparr>))"

definition load_pack_shard :: "typed_objects \<Rightarrow> (string \<times> int) list \<Rightarrow> pack_totals \<Rightarrow> index_shard_ref \<Rightarrow> pack_totals result" where
  "load_pack_shard typed known t s =
     bindE (expect typed (or_hash (is_ref s)) ERASURE_DATA_PACK_SHARD) (\<lambda>obj. case obj of ErasureDataPackShard p \<Rightarrow>
     bindE (reject (es_prefix p \<noteq> is_prefix s)) (\<lambda>_.
     bindE (reject (int (length (es_records p)) \<noteq> is_count s)) (\<lambda>_.
       foldE (note_pack known) t (es_records p)))
     | _ \<Rightarrow> Inl MetadataObjectError)"

definition validate_erasure_data_packs :: "typed_objects \<Rightarrow> catalog_object \<Rightarrow> (string \<times> int) list \<Rightarrow> unit result" where
  "validate_erasure_data_packs typed c known = (case ca_erasure_data_pack_index c of
      None \<Rightarrow> reject (ca_erasure_data_pack_count c \<noteq> 0 \<or> ca_erasure_data_pack_chunk_count c \<noteq> 0 \<or> ca_erasure_data_pack_shard_count c \<noteq> 0)
    | Some r \<Rightarrow>
        bindE (expect typed (or_hash r) ERASURE_DATA_PACK_INDEX) (\<lambda>obj. case obj of ErasureDataPackIndex i \<Rightarrow>
        bindE (reject (ca_erasure_data_pack_count c \<noteq> ei_total_packs i \<or> ca_erasure_data_pack_chunk_count c \<noteq> ei_total_chunks i
                 \<or> ca_erasure_data_pack_shard_count c \<noteq> ei_total_shards i)) (\<lambda>_.
        bindE (foldE (load_pack_shard typed known) \<lparr>pt_packs = [], pt_chunks = [], pt_chunk_count = 0, pt_shard_count = 0\<rparr> (ei_shards i)) (\<lambda>t.
        bindE (reject (int (length (pt_packs t)) \<noteq> ei_total_packs i)) (\<lambda>_.
        bindE (reject (pt_chunk_count t \<noteq> ei_total_chunks i)) (\<lambda>_.
          reject (pt_shard_count t \<noteq> ei_total_shards i)))))
        | _ \<Rightarrow> Inl MetadataObjectError))"

section \<open>Snapshots and the whole graph (validation.py)\<close>

definition root_matches :: "snapshot_root_object \<Rightarrow> snapshot_index_entry \<Rightarrow> bool" where
  "root_matches q e \<longleftrightarrow> sr_snapshot_uuid q = si_snapshot_uuid e \<and> sr_root_path q = si_root_path e \<and> sr_origin_node_id q = si_origin_node_id e
     \<and> sr_created_at q = si_created_at e \<and> sr_total_size q = si_total_size e \<and> sr_total_files q = si_total_files e"

definition validate_snapshot ::
    "(bytes \<Rightarrow> string) \<Rightarrow> typed_objects \<Rightarrow> (string \<times> int) list \<Rightarrow> recipe_table \<Rightarrow> snapshot_index_entry \<Rightarrow> recipe_table result" where
  "validate_snapshot blake3 typed known recipes e =
     bindE (reject (si_status e \<noteq> ''COMPLETE'' \<and> si_snapshot_root e \<noteq> None)) (\<lambda>_.
     case si_snapshot_root e of
       None \<Rightarrow> Inr recipes
     | Some r \<Rightarrow> bindE (expect typed (or_hash r) SNAPSHOT_ROOT) (\<lambda>obj. case obj of SnapshotRoot q \<Rightarrow>
         bindE (reject (\<not> root_matches q e)) (\<lambda>_. validate_tree blake3 typed known (or_hash (sr_root_tree q)) {} recipes)
         | _ \<Rightarrow> Inl MetadataObjectError))"

definition validate_snapshots ::
    "(bytes \<Rightarrow> string) \<Rightarrow> typed_objects \<Rightarrow> snapshot_index_entry list \<Rightarrow> (string \<times> int) list \<Rightarrow> unit result" where
  "validate_snapshots blake3 typed entries known = bindE (foldE (validate_snapshot blake3 typed known) [] entries) (\<lambda>_. Inr ())"

definition differs :: "int option \<Rightarrow> int \<Rightarrow> bool" where
  "differs expected n = (case expected of None \<Rightarrow> False | Some m \<Rightarrow> m \<noteq> n)"

definition validate_metadata_object_graph_semantics ::
    "(bytes \<Rightarrow> string) \<Rightarrow> string \<Rightarrow> (string \<times> metadata_object_type \<times> json) list \<Rightarrow> int option \<Rightarrow> int option \<Rightarrow> int option \<Rightarrow> unit result" where
  "validate_metadata_object_graph_semantics blake3 catalog_hash objects_by_hash expected_snapshots expected_chunks expected_records =
     bindE (mk_typed_objects objects_by_hash) (\<lambda>typed.
     bindE (expect typed catalog_hash CATALOG) (\<lambda>catalog_obj. case catalog_obj of Catalog c \<Rightarrow>
     bindE (expect typed (or_hash (ca_snapshot_index c)) SNAPSHOT_INDEX) (\<lambda>snapshot_obj.
     bindE (expect typed (or_hash (ca_known_chunk_index c)) KNOWN_CHUNK_INDEX) (\<lambda>known_obj.
     case snapshot_obj of SnapshotIndex entries \<Rightarrow> (case known_obj of KnownChunkIndex k \<Rightarrow>
     bindE (reject (ca_snapshot_count c \<noteq> int (length entries))) (\<lambda>_.
     bindE (reject (ca_known_chunk_count c \<noteq> ki_total_chunks k)) (\<lambda>_.
     bindE (reject (differs expected_snapshots (ca_snapshot_count c))) (\<lambda>_.
     bindE (reject (differs expected_chunks (ca_known_chunk_count c))) (\<lambda>_.
     bindE (foldE (load_known_shard typed) [] (ki_shards k)) (\<lambda>known.
     bindE (reject (int (length known) \<noteq> ki_total_chunks k)) (\<lambda>_.
     bindE (validate_protection typed c known) (\<lambda>protection_records.
     bindE (reject (differs expected_records protection_records)) (\<lambda>_.
     bindE (validate_erasure_data_packs typed c known) (\<lambda>_.
       validate_snapshots blake3 typed entries known)))))))))
     | _ \<Rightarrow> Inl MetadataObjectError)
     | _ \<Rightarrow> Inl MetadataObjectError))
     | _ \<Rightarrow> Inl MetadataObjectError))"

section \<open>What a validated graph promises\<close>

lemma expect_eq: "expect typed h t = Inr obj \<longleftrightarrow> map_of typed h = Some obj \<and> object_type obj = t"
  by (auto simp: expect_def split: option.splits if_splits)

lemma object_type_class:
  "object_type obj = TREE \<longleftrightarrow> (\<exists>x. obj = Tree x)"
  "object_type obj = FILE \<longleftrightarrow> (\<exists>x. obj = File x)"
  "object_type obj = RECIPE \<longleftrightarrow> (\<exists>x. obj = Recipe x)"
  "object_type obj = CHUNK_LIST \<longleftrightarrow> (\<exists>x. obj = ChunkList x)"
  "object_type obj = SNAPSHOT_ROOT \<longleftrightarrow> (\<exists>x. obj = SnapshotRoot x)"
  "object_type obj = SNAPSHOT_INDEX \<longleftrightarrow> (\<exists>x. obj = SnapshotIndex x)"
  "object_type obj = KNOWN_CHUNK_INDEX \<longleftrightarrow> (\<exists>x. obj = KnownChunkIndex x)"
  "object_type obj = KNOWN_CHUNK_SHARD \<longleftrightarrow> (\<exists>x. obj = KnownChunkShard x)"
  "object_type obj = CATALOG \<longleftrightarrow> (\<exists>x. obj = Catalog x)"
  "object_type obj = PROTECTION_INDEX \<longleftrightarrow> (\<exists>x. obj = ProtectionIndex x)"
  "object_type obj = PROTECTION_SHARD \<longleftrightarrow> (\<exists>x. obj = ProtectionShard x)"
  "object_type obj = ERASURE_DATA_PACK_INDEX \<longleftrightarrow> (\<exists>x. obj = ErasureDataPackIndex x)"
  "object_type obj = ERASURE_DATA_PACK_SHARD \<longleftrightarrow> (\<exists>x. obj = ErasureDataPackShard x)"
  by (cases obj; simp)+

lemma expect_class:
  "expect typed h TREE = Inr obj \<longleftrightarrow> (\<exists>x. obj = Tree x \<and> map_of typed h = Some (Tree x))"
  "expect typed h FILE = Inr obj \<longleftrightarrow> (\<exists>x. obj = File x \<and> map_of typed h = Some (File x))"
  "expect typed h RECIPE = Inr obj \<longleftrightarrow> (\<exists>x. obj = Recipe x \<and> map_of typed h = Some (Recipe x))"
  "expect typed h CHUNK_LIST = Inr obj \<longleftrightarrow> (\<exists>x. obj = ChunkList x \<and> map_of typed h = Some (ChunkList x))"
  "expect typed h SNAPSHOT_ROOT = Inr obj \<longleftrightarrow> (\<exists>x. obj = SnapshotRoot x \<and> map_of typed h = Some (SnapshotRoot x))"
  "expect typed h SNAPSHOT_INDEX = Inr obj \<longleftrightarrow> (\<exists>x. obj = SnapshotIndex x \<and> map_of typed h = Some (SnapshotIndex x))"
  "expect typed h KNOWN_CHUNK_INDEX = Inr obj \<longleftrightarrow> (\<exists>x. obj = KnownChunkIndex x \<and> map_of typed h = Some (KnownChunkIndex x))"
  "expect typed h KNOWN_CHUNK_SHARD = Inr obj \<longleftrightarrow> (\<exists>x. obj = KnownChunkShard x \<and> map_of typed h = Some (KnownChunkShard x))"
  "expect typed h CATALOG = Inr obj \<longleftrightarrow> (\<exists>x. obj = Catalog x \<and> map_of typed h = Some (Catalog x))"
  "expect typed h PROTECTION_INDEX = Inr obj \<longleftrightarrow> (\<exists>x. obj = ProtectionIndex x \<and> map_of typed h = Some (ProtectionIndex x))"
  "expect typed h PROTECTION_SHARD = Inr obj \<longleftrightarrow> (\<exists>x. obj = ProtectionShard x \<and> map_of typed h = Some (ProtectionShard x))"
  "expect typed h ERASURE_DATA_PACK_INDEX = Inr obj \<longleftrightarrow> (\<exists>x. obj = ErasureDataPackIndex x \<and> map_of typed h = Some (ErasureDataPackIndex x))"
  "expect typed h ERASURE_DATA_PACK_SHARD = Inr obj \<longleftrightarrow> (\<exists>x. obj = ErasureDataPackShard x \<and> map_of typed h = Some (ErasureDataPackShard x))"
  by (auto simp: expect_eq object_type_class)+

lemma reject_eq [simp]: "reject b = Inr u \<longleftrightarrow> \<not> b"
  by (auto simp: reject_def raise_if_def)

text \<open>The directories below a tree, and the file entries in it and below it.\<close>

definition tree_dir :: "typed_objects \<Rightarrow> string \<Rightarrow> string \<Rightarrow> bool" where
  "tree_dir typed a b \<longleftrightarrow> (\<exists>es e. map_of typed a = Some (Tree es) \<and> e \<in> set es \<and> te_item_type e = ''dir'' \<and> or_hash (te_ref e) = b)"

definition tree_file :: "typed_objects \<Rightarrow> string \<Rightarrow> tree_entry \<Rightarrow> bool" where
  "tree_file typed h e \<longleftrightarrow> (\<exists>a es. (tree_dir typed)\<^sup>*\<^sup>* h a \<and> map_of typed a = Some (Tree es) \<and> e \<in> set es \<and> te_item_type e \<noteq> ''dir'')"

definition file_sound :: "(bytes \<Rightarrow> string) \<Rightarrow> typed_objects \<Rightarrow> (string \<times> int) list \<Rightarrow> tree_entry \<Rightarrow> bool" where
  "file_sound blake3 typed known e \<longleftrightarrow> (\<exists>f r cs. map_of typed (or_hash (te_ref e)) = Some (File f) \<and> fl_size f = te_size e
     \<and> map_of typed (or_hash (fl_recipe f)) = Some (Recipe r) \<and> rc_recipe_hash r = fl_recipe_hash f
     \<and> map_of typed (or_hash (rc_chunk_list r)) = Some (ChunkList cs)
     \<and> rc_chunk_count r = int (length cs) \<and> rc_total_size r = sum_list (map ch_size cs)
     \<and> compute_recipe_hash blake3 (recipe_chunks cs) = Inr (fl_recipe_hash f)
     \<and> (\<forall>c \<in> set cs. map_of known (ch_hash c) = Some (ch_size c)))"


lemma mapE_all: "mapE f xs = Inr ys \<Longrightarrow> x \<in> set xs \<Longrightarrow> \<exists>y. f x = Inr y"
  by (auto simp: mapE_eq_Inr list_all2_conv_all_nth in_set_conv_nth)

lemma validate_file_sound:
  assumes "validate_file blake3 typed known e recipes = Inr recipes'"
  shows "file_sound blake3 typed known e"
proof -
  obtain f r cs u where v: "map_of typed (or_hash (te_ref e)) = Some (File f)" "fl_size f = te_size e"
    "map_of typed (or_hash (fl_recipe f)) = Some (Recipe r)" "fl_recipe_hash f = rc_recipe_hash r"
    "map_of typed (or_hash (rc_chunk_list r)) = Some (ChunkList cs)" "int (length (recipe_chunks cs)) = rc_chunk_count r"
    "sum_list (map (\<lambda>(_, _, sz). sz) (recipe_chunks cs)) = rc_total_size r"
    "compute_recipe_hash blake3 (recipe_chunks cs) = Inr (rc_recipe_hash r)" "mapE (check_known_chunk known) (recipe_chunks cs) = Inr u"
    using assms by (auto simp: validate_file_def bindE_eq_Inr expect_class Let_def)
  have "map_of known (ch_hash c) = Some (ch_size c)" if "c \<in> set cs" for c
    using mapE_all [OF v(9), of "(ch_order c, ch_hash c, ch_size c)"] that
    by (auto simp: recipe_chunks_def check_known_chunk_def split: option.splits)
  moreover have "sum_list (map ch_size cs) = rc_total_size r" using v(7) by (simp add: recipe_chunks_def comp_def)
  ultimately show ?thesis using v unfolding file_sound_def by (auto simp: recipe_chunks_def)
qed

text \<open>A tree whose directories all resolve and never contain themselves, and whose files are all sound.\<close>

definition tree_sound :: "(bytes \<Rightarrow> string) \<Rightarrow> typed_objects \<Rightarrow> (string \<times> int) list \<Rightarrow> string \<Rightarrow> bool" where
  "tree_sound blake3 typed known h \<longleftrightarrow>
     (\<forall>a. (tree_dir typed)\<^sup>*\<^sup>* h a \<longrightarrow> (\<exists>es. map_of typed a = Some (Tree es)) \<and> \<not> (tree_dir typed)\<^sup>+\<^sup>+ a a)
     \<and> (\<forall>e. tree_file typed h e \<longrightarrow> file_sound blake3 typed known e)"

lemma tree_file_cases:
  assumes "tree_file typed h e" "map_of typed h = Some (Tree es)"
  shows "(e \<in> set es \<and> te_item_type e \<noteq> ''dir'')
    \<or> (\<exists>d \<in> set es. te_item_type d = ''dir'' \<and> tree_file typed (or_hash (te_ref d)) e)"
proof -
  obtain a fs where a: "(tree_dir typed)\<^sup>*\<^sup>* h a" "map_of typed a = Some (Tree fs)" "e \<in> set fs" "te_item_type e \<noteq> ''dir''"
    using assms(1) by (auto simp: tree_file_def)
  from a(1) show ?thesis
  proof (cases rule: converse_rtranclpE)
    case base
    then show ?thesis using a assms(2) by auto
  next
    case (step b)
    then show ?thesis using a assms(2) by (auto simp: tree_dir_def [of typed h] tree_file_def)
  qed
qed

lemma tree_sound_step:
  assumes "map_of typed h = Some (Tree es)" "h \<notin> active"
    and files: "\<And>e. e \<in> set es \<Longrightarrow> te_item_type e \<noteq> ''dir'' \<Longrightarrow> file_sound blake3 typed known e"
    and dirs: "\<And>e. e \<in> set es \<Longrightarrow> te_item_type e = ''dir'' \<Longrightarrow> tree_sound blake3 typed known (or_hash (te_ref e))
      \<and> (\<forall>a. (tree_dir typed)\<^sup>*\<^sup>* (or_hash (te_ref e)) a \<longrightarrow> a \<notin> insert h active)"
  shows "tree_sound blake3 typed known h \<and> (\<forall>a. (tree_dir typed)\<^sup>*\<^sup>* h a \<longrightarrow> a \<notin> active)"
proof -
  have child: "tree_sound blake3 typed known b \<and> (\<forall>a. (tree_dir typed)\<^sup>*\<^sup>* b a \<longrightarrow> a \<notin> insert h active)" if "tree_dir typed h b" for b
    using that dirs assms(1) by (auto simp: tree_dir_def)
  have noc: "\<not> (tree_dir typed)\<^sup>+\<^sup>+ h h"
  proof
    assume "(tree_dir typed)\<^sup>+\<^sup>+ h h"
    then obtain b where "tree_dir typed h b" "(tree_dir typed)\<^sup>*\<^sup>* b h" by (blast dest: tranclpD)
    then show False using child by blast
  qed
  have "(\<exists>es. map_of typed a = Some (Tree es)) \<and> \<not> (tree_dir typed)\<^sup>+\<^sup>+ a a \<and> a \<notin> active" if "(tree_dir typed)\<^sup>*\<^sup>* h a" for a
  proof -
    have "h = a \<or> (\<exists>b. tree_dir typed h b \<and> (tree_dir typed)\<^sup>*\<^sup>* b a)" using that by (metis converse_rtranclpE)
    then show ?thesis using assms(1,2) child noc unfolding tree_sound_def by blast
  qed
  moreover have "file_sound blake3 typed known e" if "tree_file typed h e" for e
    using tree_file_cases [OF that assms(1)] files dirs unfolding tree_sound_def by blast
  ultimately show ?thesis unfolding tree_sound_def by blast
qed

lemma validate_tree_sound:
  "validate_tree blake3 typed known h active recipes = Inr recipes' \<Longrightarrow>
     tree_sound blake3 typed known h \<and> (\<forall>a. (tree_dir typed)\<^sup>*\<^sup>* h a \<longrightarrow> a \<notin> active)"
  "validate_entries blake3 typed known es active recipes = Inr recipes' \<Longrightarrow> e \<in> set es \<Longrightarrow>
     (if te_item_type e = ''dir'' then tree_sound blake3 typed known (or_hash (te_ref e))
        \<and> (\<forall>a. (tree_dir typed)\<^sup>*\<^sup>* (or_hash (te_ref e)) a \<longrightarrow> a \<notin> active)
      else file_sound blake3 typed known e)"
proof (induction blake3 typed known h active recipes and blake3 typed known es active recipes
    arbitrary: recipes' and recipes' e rule: validate_tree_validate_entries.induct)
  case (1 blake3 typed known h active recipes)
  then obtain es where es: "expect typed h TREE = Inr (Tree es)" "h \<notin> active"
    and run: "validate_entries blake3 typed known es (insert h active) recipes = Inr recipes'"
    by (simp add: validate_tree.simps(1) split: if_splits sum.splits metadata_object.splits)
  note kid = "1.IH" [OF es(2,1) refl run]
  have f: "file_sound blake3 typed known e" if "e \<in> set es" "te_item_type e \<noteq> ''dir''" for e using kid [OF that(1)] that(2) by simp
  have d: "tree_sound blake3 typed known (or_hash (te_ref e)) \<and> (\<forall>a. (tree_dir typed)\<^sup>*\<^sup>* (or_hash (te_ref e)) a \<longrightarrow> a \<notin> insert h active)"
    if "e \<in> set es" "te_item_type e = ''dir''" for e using kid [OF that(1)] that(2) by simp
  have "map_of typed h = Some (Tree es)" using es(1) by (simp add: expect_eq)
  then show ?case using es(2) f d by (rule tree_sound_step)
next
  case (3 blake3 typed known d es active recipes)
  then obtain b where b: "(if te_item_type d = ''dir'' then validate_tree blake3 typed known (or_hash (te_ref d)) active recipes
      else validate_file blake3 typed known d recipes) = Inr b" "validate_entries blake3 typed known es active b = Inr recipes'"
    by (auto split: sum.splits)
  show ?case
  proof (cases "e \<in> set es")
    case True
    then show ?thesis by (rule "3.IH"(2) [OF b])
  next
    case False
    then have "e = d" using "3.prems"(2) by simp
    then show ?thesis using b(1) "3.IH"(1) [of b] validate_file_sound by (cases "te_item_type d = ''dir''") simp_all
  qed
qed simp

section \<open>What validated indexes promise\<close>

text \<open>The records of the shards of an index, and the agreement of a shard with its entry in the index.\<close>

definition known_records :: "typed_objects \<Rightarrow> index_shard_ref \<Rightarrow> known_chunk_record list" where
  "known_records typed s = (case map_of typed (or_hash (is_ref s)) of Some (KnownChunkShard k) \<Rightarrow> ks_chunks k | _ \<Rightarrow> [])"

definition protection_records :: "typed_objects \<Rightarrow> index_shard_ref \<Rightarrow> protection_record_object list" where
  "protection_records typed s = (case map_of typed (or_hash (is_ref s)) of Some (ProtectionShard p) \<Rightarrow> ps_records p | _ \<Rightarrow> [])"

definition pack_records :: "typed_objects \<Rightarrow> index_shard_ref \<Rightarrow> ec_pack_object list" where
  "pack_records typed s = (case map_of typed (or_hash (is_ref s)) of Some (ErasureDataPackShard p) \<Rightarrow> es_records p | _ \<Rightarrow> [])"

definition known_shard_ok :: "typed_objects \<Rightarrow> index_shard_ref \<Rightarrow> bool" where
  "known_shard_ok typed s \<longleftrightarrow> (\<exists>k. map_of typed (or_hash (is_ref s)) = Some (KnownChunkShard k) \<and> ks_prefix k = is_prefix s
     \<and> int (length (ks_chunks k)) = is_count s)"

definition protection_shard_ok :: "typed_objects \<Rightarrow> index_shard_ref \<Rightarrow> bool" where
  "protection_shard_ok typed s \<longleftrightarrow> (\<exists>p. map_of typed (or_hash (is_ref s)) = Some (ProtectionShard p) \<and> ps_prefix p = is_prefix s
     \<and> int (length (ps_records p)) = is_count s)"

definition pack_shard_ok :: "typed_objects \<Rightarrow> index_shard_ref \<Rightarrow> bool" where
  "pack_shard_ok typed s \<longleftrightarrow> (\<exists>p. map_of typed (or_hash (is_ref s)) = Some (ErasureDataPackShard p) \<and> es_prefix p = is_prefix s
     \<and> int (length (es_records p)) = is_count s)"

lemma load_shard_eq:
  "load_known_shard typed known s =
     (if known_shard_ok typed s then foldE note_known_chunk known (known_records typed s) else Inl MetadataObjectError)"
  "load_protection_shard typed known seen s =
     (if protection_shard_ok typed s then foldE (note_protection known) seen (protection_records typed s) else Inl MetadataObjectError)"
  "load_pack_shard typed known t s =
     (if pack_shard_ok typed s then foldE (note_pack known) t (pack_records typed s) else Inl MetadataObjectError)"
  by (auto simp: load_known_shard_def known_shard_ok_def known_records_def load_protection_shard_def protection_shard_ok_def
      protection_records_def load_pack_shard_def pack_shard_ok_def pack_records_def expect_def reject_def raise_if_def
      split: option.splits metadata_object.splits)

text \<open>Loading shard after shard is one pass over all their records.\<close>

lemma foldE_shards:
  assumes "\<And>st s. load st s = (if ok s then foldE f st (recs s) else Inl e)"
  shows "foldE load st ss = Inr t \<longleftrightarrow> list_all ok ss \<and> foldE f st (concat (map recs ss)) = Inr t"
  by (induction ss arbitrary: st) (auto simp: assms foldE_append bindE_eq_Inr)

lemmas load_shards = load_shard_eq [THEN foldE_shards]

lemma note_known_chunk_run:
  assumes "foldE note_known_chunk known rs = Inr known'"
  shows "map_of known' h = Some sz \<longleftrightarrow> map_of known h = Some sz \<or> (\<exists>r \<in> set rs. kc_hash r = h \<and> kc_size r = sz)"
  using assms by (induction rs arbitrary: known)
    (auto simp: bindE_eq_Inr note_known_chunk_def update_conv' split: option.splits if_splits)

lemma note_known_chunk_distinct:
  assumes "foldE note_known_chunk known rs = Inr known'" "distinct (map fst known)"
  shows "distinct (map fst known')"
  using assms by (rule foldE_inv) (auto simp: bindE_eq_Inr note_known_chunk_def intro: distinct_update)

lemma note_protection_run:
  "foldE (note_protection known) seen rs = Inr t \<longleftrightarrow> distinct (map pr_chunk_hash rs) \<and> pr_chunk_hash ` set rs \<inter> set seen = {}
     \<and> (\<forall>r \<in> set rs. map_of known (pr_chunk_hash r) \<noteq> None) \<and> t = rev (map pr_chunk_hash rs) @ seen"
  by (induction rs arbitrary: seen) (auto simp: bindE_eq_Inr note_protection_def map_of_eq_None_iff)

lemma note_pack_chunk_run:
  "foldE (note_pack_chunk known) seen cs = Inr t \<longleftrightarrow> distinct (map ex_chunk_hash cs) \<and> ex_chunk_hash ` set cs \<inter> set seen = {}
     \<and> (\<forall>c \<in> set cs. map_of known (ex_chunk_hash c) = Some (ex_length c)) \<and> t = rev (map ex_chunk_hash cs) @ seen"
  by (induction cs arbitrary: seen) (auto simp: bindE_eq_Inr note_pack_chunk_def split: option.splits)

lemma image_apart: "\<forall>b \<in> B. f b \<notin> S \<Longrightarrow> f ` A \<subseteq> S \<Longrightarrow> f ` A \<inter> f ` B = {}"
  by force

lemma note_pack_run:
  "foldE (note_pack known) t ps = Inr t' \<Longrightarrow>
     distinct (map eo_pack_hash ps) \<and> eo_pack_hash ` set ps \<inter> set (pt_packs t) = {} \<and> length (pt_packs t') = length ps + length (pt_packs t)
     \<and> distinct (map ex_chunk_hash (concat (map eo_chunks ps))) \<and> (\<forall>c \<in> set (concat (map eo_chunks ps)). ex_chunk_hash c \<notin> set (pt_chunks t))
     \<and> (\<forall>c \<in> set (concat (map eo_chunks ps)). map_of known (ex_chunk_hash c) = Some (ex_length c))
     \<and> pt_chunk_count t' = pt_chunk_count t + int (length (concat (map eo_chunks ps)))
     \<and> pt_shard_count t' = pt_shard_count t + int (length (concat (map eo_shards ps)))"
proof (induction ps arbitrary: t)
  case (Cons p ps)
  obtain seen where p: "eo_pack_hash p \<notin> set (pt_packs t)" "foldE (note_pack_chunk known) (pt_chunks t) (eo_chunks p) = Inr seen"
    "foldE (note_pack known) \<lparr>pt_packs = eo_pack_hash p # pt_packs t, pt_chunks = seen, pt_chunk_count = pt_chunk_count t + int (length (eo_chunks p)),
       pt_shard_count = pt_shard_count t + int (length (eo_shards p))\<rparr> ps = Inr t'"
    using Cons.prems by (auto simp: bindE_eq_Inr note_pack_def [of known t p])
  have seen: "distinct (map ex_chunk_hash (eo_chunks p))" "ex_chunk_hash ` set (eo_chunks p) \<inter> set (pt_chunks t) = {}"
    "\<forall>c \<in> set (eo_chunks p). map_of known (ex_chunk_hash c) = Some (ex_length c)" "seen = rev (map ex_chunk_hash (eo_chunks p)) @ pt_chunks t"
    using p(2) by (simp_all add: note_pack_chunk_run)
  note ih = Cons.IH [OF p(3)]
  have "\<forall>c \<in> set (concat (map eo_chunks ps)). ex_chunk_hash c \<notin> set seen" using ih by simp
  moreover have "ex_chunk_hash ` set (eo_chunks p) \<subseteq> set seen" using seen(4) by auto
  ultimately have "ex_chunk_hash ` set (eo_chunks p) \<inter> ex_chunk_hash ` set (concat (map eo_chunks ps)) = {}"
    by (rule image_apart)
  then show ?case using ih p(1) seen by (simp add: ball_Un) blast
qed simp

text \<open>The three indexes of a graph against each other and against the counters of the catalog.\<close>

definition known_table :: "typed_objects \<Rightarrow> known_chunk_index_object \<Rightarrow> (string \<times> int) list \<Rightarrow> bool" where
  "known_table typed k known \<longleftrightarrow> list_all (known_shard_ok typed) (ki_shards k) \<and> distinct (map fst known)
     \<and> (\<forall>h sz. map_of known h = Some sz \<longleftrightarrow> (\<exists>s \<in> set (ki_shards k). \<exists>r \<in> set (known_records typed s). kc_hash r = h \<and> kc_size r = sz))"

definition protection_consistent :: "typed_objects \<Rightarrow> catalog_object \<Rightarrow> (string \<times> int) list \<Rightarrow> bool" where
  "protection_consistent typed c known \<longleftrightarrow> (case ca_protection_index c of
      None \<Rightarrow> ca_protection_record_count c = 0
    | Some rf \<Rightarrow> \<exists>i. map_of typed (or_hash rf) = Some (ProtectionIndex i) \<and> list_all (protection_shard_ok typed) (pi_shards i)
        \<and> (let rs = concat (map (protection_records typed) (pi_shards i)) in
             int (length rs) = ca_protection_record_count c \<and> distinct (map pr_chunk_hash rs)
             \<and> (\<forall>r \<in> set rs. map_of known (pr_chunk_hash r) \<noteq> None)))"

definition packs_consistent :: "typed_objects \<Rightarrow> catalog_object \<Rightarrow> (string \<times> int) list \<Rightarrow> bool" where
  "packs_consistent typed c known \<longleftrightarrow> (case ca_erasure_data_pack_index c of
      None \<Rightarrow> ca_erasure_data_pack_count c = 0 \<and> ca_erasure_data_pack_chunk_count c = 0 \<and> ca_erasure_data_pack_shard_count c = 0
    | Some rf \<Rightarrow> \<exists>i. map_of typed (or_hash rf) = Some (ErasureDataPackIndex i) \<and> list_all (pack_shard_ok typed) (ei_shards i)
        \<and> (let ps = concat (map (pack_records typed) (ei_shards i)); cs = concat (map eo_chunks ps) in
             int (length ps) = ca_erasure_data_pack_count c \<and> int (length cs) = ca_erasure_data_pack_chunk_count c
             \<and> int (length (concat (map eo_shards ps))) = ca_erasure_data_pack_shard_count c
             \<and> distinct (map eo_pack_hash ps) \<and> distinct (map ex_chunk_hash cs)
             \<and> (\<forall>x \<in> set cs. map_of known (ex_chunk_hash x) = Some (ex_length x))))"

definition snapshot_sound :: "(bytes \<Rightarrow> string) \<Rightarrow> typed_objects \<Rightarrow> (string \<times> int) list \<Rightarrow> snapshot_index_entry \<Rightarrow> bool" where
  "snapshot_sound blake3 typed known e \<longleftrightarrow> (case si_snapshot_root e of None \<Rightarrow> True
    | Some rf \<Rightarrow> si_status e = ''COMPLETE'' \<and> (\<exists>q. map_of typed (or_hash rf) = Some (SnapshotRoot q) \<and> root_matches q e
        \<and> tree_sound blake3 typed known (or_hash (sr_root_tree q))))"

lemma known_table_built:
  assumes "foldE (load_known_shard typed) [] (ki_shards k) = Inr known"
  shows "known_table typed k known"
proof -
  have run: "list_all (known_shard_ok typed) (ki_shards k)" "foldE note_known_chunk [] (concat (map (known_records typed) (ki_shards k))) = Inr known"
    using assms by (simp_all add: load_shards(1))
  then show ?thesis
    using note_known_chunk_run [OF run(2)] note_known_chunk_distinct [OF run(2)] unfolding known_table_def by simp
qed

lemma validate_protection_sound:
  assumes "validate_protection typed c known = Inr n"
  shows "protection_consistent typed c known \<and> n = ca_protection_record_count c"
  using assms by (auto simp: validate_protection_def protection_consistent_def bindE_eq_Inr expect_class load_shards(2) note_protection_run
      Let_def split: option.splits)

lemma validate_packs_sound:
  assumes "validate_erasure_data_packs typed c known = Inr ()"
  shows "packs_consistent typed c known"
proof (cases "ca_erasure_data_pack_index c")
  case (Some rf)
  then obtain i t where i: "map_of typed (or_hash rf) = Some (ErasureDataPackIndex i)" "list_all (pack_shard_ok typed) (ei_shards i)"
    "ca_erasure_data_pack_count c = ei_total_packs i" "ca_erasure_data_pack_chunk_count c = ei_total_chunks i" "ca_erasure_data_pack_shard_count c = ei_total_shards i"
    "int (length (pt_packs t)) = ei_total_packs i" "pt_chunk_count t = ei_total_chunks i" "pt_shard_count t = ei_total_shards i"
    and run: "foldE (note_pack known) \<lparr>pt_packs = [], pt_chunks = [], pt_chunk_count = 0, pt_shard_count = 0\<rparr> (concat (map (pack_records typed) (ei_shards i))) = Inr t"
    using assms by (auto simp: validate_erasure_data_packs_def bindE_eq_Inr expect_class load_shards(3))
  show ?thesis using note_pack_run [OF run] i Some by (simp add: packs_consistent_def Let_def)
qed (use assms in \<open>simp add: validate_erasure_data_packs_def packs_consistent_def\<close>)

lemma validate_snapshot_sound:
  assumes "validate_snapshot blake3 typed known recipes e = Inr recipes'"
  shows "snapshot_sound blake3 typed known e"
  using assms validate_tree_sound(1)
  by (auto simp: validate_snapshot_def snapshot_sound_def bindE_eq_Inr expect_class split: option.splits)

lemma foldE_each: "foldE f s xs = Inr t \<Longrightarrow> x \<in> set xs \<Longrightarrow> \<exists>u v. f u x = Inr v"
  by (induction xs arbitrary: s) (auto simp: bindE_eq_Inr)

text \<open>C5. A graph that \<open>validate_metadata_object_graph_semantics\<close> accepts is recoverable. Every object decodes to its class; the catalog,
  its snapshot index and its index of known chunks resolve, and their counters and the ones the caller expects are the true numbers of
  entries. The table of known chunks is what the shards list, one size per chunk. Protection records and pack chunks only name known
  chunks, no chunk has two records or is in two packs, and a pack agrees with the known size. A snapshot with a root is complete and its
  root repeats the index entry; below it every directory resolves and none contains itself, and every file has its stated size, a recipe
  with the stated hash recomputed from its chunk sequence, and only known chunks with their sizes.\<close>

theorem validated_graph_is_recoverable:
  assumes "validate_metadata_object_graph_semantics blake3 catalog_hash objects ns nc np = Inr ()"
  shows "\<exists>typed c entries k known. mk_typed_objects objects = Inr typed \<and> map_of typed catalog_hash = Some (Catalog c)
    \<and> map_of typed (or_hash (ca_snapshot_index c)) = Some (SnapshotIndex entries) \<and> int (length entries) = ca_snapshot_count c
    \<and> map_of typed (or_hash (ca_known_chunk_index c)) = Some (KnownChunkIndex k) \<and> known_table typed k known
    \<and> int (length known) = ca_known_chunk_count c
    \<and> ns \<in> {None, Some (ca_snapshot_count c)} \<and> nc \<in> {None, Some (ca_known_chunk_count c)} \<and> np \<in> {None, Some (ca_protection_record_count c)}
    \<and> protection_consistent typed c known \<and> packs_consistent typed c known
    \<and> (\<forall>e \<in> set entries. snapshot_sound blake3 typed known e)"
proof -
  obtain typed c entries k known n where v: "mk_typed_objects objects = Inr typed" "map_of typed catalog_hash = Some (Catalog c)"
    "map_of typed (or_hash (ca_snapshot_index c)) = Some (SnapshotIndex entries)" "map_of typed (or_hash (ca_known_chunk_index c)) = Some (KnownChunkIndex k)"
    "ca_snapshot_count c = int (length entries)" "ca_known_chunk_count c = ki_total_chunks k"
    "\<not> differs ns (ca_snapshot_count c)" "\<not> differs nc (ca_known_chunk_count c)" "foldE (load_known_shard typed) [] (ki_shards k) = Inr known"
    "int (length known) = ki_total_chunks k" "validate_protection typed c known = Inr n" "\<not> differs np n"
    "validate_erasure_data_packs typed c known = Inr ()" "validate_snapshots blake3 typed entries known = Inr ()"
    using assms by (auto simp: validate_metadata_object_graph_semantics_def bindE_eq_Inr expect_class)
  have "snapshot_sound blake3 typed known e" if "e \<in> set entries" for e
    using v(14) foldE_each [OF _ that] validate_snapshot_sound by (fastforce simp: validate_snapshots_def bindE_eq_Inr)
  moreover have "m \<in> {None, Some n}" if "\<not> differs m n" for m n using that by (auto simp: differs_def split: option.splits)
  ultimately show ?thesis
    using v known_table_built [OF v(9)] validate_protection_sound [OF v(11)] validate_packs_sound [OF v(13)]
    by (intro exI [of _ typed] exI [of _ c] exI [of _ entries] exI [of _ k] exI [of _ known] conjI ballI) simp_all
qed

section \<open>A small recoverable vault\<close>

text \<open>One complete snapshot: a directory with a directory with one file of one chunk, which has a protection record.
  The digest is constant, so it is the hash that the recipe states.\<close>

definition ref_at :: "metadata_object_type \<Rightarrow> nat \<Rightarrow> object_ref" where
  "ref_at t n = \<lparr>or_type = t, or_hash = demo_hash n\<rparr>"

definition vault_entry :: "string \<Rightarrow> string \<Rightarrow> object_ref \<Rightarrow> tree_entry" where
  "vault_entry name kind r = \<lparr>te_name = name, te_item_type = kind, te_size = 5, te_mode = 0, te_mtime = NumInt 0, te_mtime_ns = 0,
     te_uid = 0, te_gid = 0, te_ref = r\<rparr>"

definition vault_uuid :: string where
  "vault_uuid = ''00000000-0000-0000-0000-000000000000''"

definition vault_root :: snapshot_root_object where
  "vault_root = \<lparr>sr_snapshot_uuid = vault_uuid, sr_root_path = ''/'', sr_origin_node_id = replicate 32 CHR ''0'', sr_created_at = ''now'',
     sr_total_size = 5, sr_total_files = 1, sr_root_tree = ref_at TREE 3\<rparr>"

definition vault_snapshot :: snapshot_index_entry where
  "vault_snapshot = \<lparr>si_snapshot_uuid = vault_uuid, si_status = ''COMPLETE'', si_root_path = ''/'', si_origin_node_id = replicate 32 CHR ''0'',
     si_created_at = ''now'', si_total_size = 5, si_total_files = 1, si_snapshot_root = Some (ref_at SNAPSHOT_ROOT 2), si_error = None\<rparr>"

definition vault_catalog :: catalog_object where
  "vault_catalog = \<lparr>ca_vault_id = replicate 32 CHR ''0'', ca_snapshot_index = ref_at SNAPSHOT_INDEX 1,
     ca_known_chunk_index = ref_at KNOWN_CHUNK_INDEX 8, ca_protection_index = Some (ref_at PROTECTION_INDEX 12), ca_snapshot_count = 1,
     ca_known_chunk_count = 1, ca_protection_record_count = 1, ca_erasure_data_pack_index = None, ca_erasure_data_pack_count = 0,
     ca_erasure_data_pack_chunk_count = 0, ca_erasure_data_pack_shard_count = 0\<rparr>"

definition vault_record :: protection_record_object where
  "vault_record = \<lparr>pr_chunk_hash = demo_hash 10, pr_desired_rf = 1, pr_protection_state = ''PENDING'', pr_protected_remote_copies = 0,
     pr_placement_epoch = None, pr_last_push_at = None, pr_last_verify_at = None, pr_last_error = None\<rparr>"

definition vault_typed :: typed_objects where
  "vault_typed =
     [(demo_hash 0, Catalog vault_catalog), (demo_hash 1, SnapshotIndex [vault_snapshot]), (demo_hash 2, SnapshotRoot vault_root),
      (demo_hash 3, Tree [vault_entry ''d'' ''dir'' (ref_at TREE 4)]), (demo_hash 4, Tree [vault_entry ''f'' ''file'' (ref_at FILE 5)]),
      (demo_hash 5, File \<lparr>fl_size = 5, fl_recipe_hash = demo_hash 11, fl_recipe = ref_at RECIPE 6\<rparr>),
      (demo_hash 6, Recipe \<lparr>rc_recipe_hash = demo_hash 11, rc_chunk_count = 1, rc_total_size = 5, rc_chunk_list = ref_at CHUNK_LIST 7\<rparr>),
      (demo_hash 7, ChunkList [\<lparr>ch_order = 0, ch_hash = demo_hash 10, ch_size = 5\<rparr>]),
      (demo_hash 8, KnownChunkIndex \<lparr>ki_shards = [\<lparr>is_prefix = ''aa'', is_count = 1, is_ref = ref_at KNOWN_CHUNK_SHARD 9\<rparr>], ki_total_chunks = 1\<rparr>),
      (demo_hash 9, KnownChunkShard \<lparr>ks_prefix = ''aa'', ks_chunks = [\<lparr>kc_hash = demo_hash 10, kc_size = 5\<rparr>]\<rparr>),
      (demo_hash 12, ProtectionIndex \<lparr>pi_shards = [\<lparr>is_prefix = ''aa'', is_count = 1, is_ref = ref_at PROTECTION_SHARD 13\<rparr>], pi_total_records = 1\<rparr>),
      (demo_hash 13, ProtectionShard \<lparr>ps_prefix = ''aa'', ps_records = [vault_record]\<rparr>)]"

definition vault_objects :: "(string \<times> metadata_object_type \<times> json) list" where
  "vault_objects = map (\<lambda>(h, q). (h, object_type q, json_sorted (object_payload q))) vault_typed"

lemma hex_digit_lower: "n < 16 \<Longrightarrow> is_hex_lower (hex_digit n)"
  by (auto simp: hex_digit_def is_hex_lower_def is_dec_char_def)

lemma demo_hash_hex: "n < 16 \<Longrightarrow> is_hex_n 64 (demo_hash n)"
proof -
  assume "n < 16"
  moreover have "is_hex_lower CHR ''a''" by code_simp
  ultimately show ?thesis using hex_digit_lower by (simp add: is_hex_n_def demo_hash_def list_all_iff)
qed

lemma vault_strings: "is_uuid vault_uuid" "is_hex_n 32 (replicate 32 CHR ''0'')" "is_hex_n 2 ''aa''" "prefix ''aa'' (demo_hash 10)"
  by code_simp+

lemma vault_ok: "list_all (\<lambda>(h, q). object_ok q) vault_typed"
  by (simp add: demo_hash_hex vault_strings vault_typed_def CatalogObject_ok_def vault_catalog_def ref_at_def ref_to_def ObjectRef_ok_def SnapshotIndexObject_ok_def
      SnapshotIndexEntry_ok_def vault_snapshot_def VALID_SNAPSHOT_STATES_def SnapshotRootObject_ok_def vault_root_def TreeObject_ok_def
      TreeEntry_ok_def vault_entry_def VALID_ITEM_TYPES_def number_ok_def FLOAT_LIMIT_def entry_ref_type_def FileObject_ok_def
      RecipeObject_ok_def ChunkListObject_ok_def ChunkRef_ok_def KnownChunkIndexObject_ok_def index_ok_def IndexShardRef_ok_def
      KnownChunkShardObject_ok_def shard_ok_def KnownChunkRecord_ok_def ProtectionIndexObject_ok_def ProtectionShardObject_ok_def
      ProtectionRecordObject_ok_def vault_record_def VALID_PROTECTION_STATES_def)

lemma vault_decodes: "mk_typed_objects vault_objects = Inr vault_typed"
proof -
  have "typed_object_of (h, object_type q, json_sorted (object_payload q)) = Inr (h, q)" if "(h, q) \<in> set vault_typed" for h q
    using decode_class_back [of q] vault_ok that by (auto simp: list_all_iff typed_object_of_def decode_metadata_object_payload_def)
  then have "mapE typed_object_of (map (\<lambda>(h, q). (h, object_type q, json_sorted (object_payload q))) vault_typed) = Inr (map (\<lambda>x. x) vault_typed)"
    unfolding mapE_map by (intro mapE_total) auto
  then show ?thesis by (simp add: mk_typed_objects_def vault_objects_def)
qed

lemma vault_validates: "validate_metadata_object_graph_semantics (\<lambda>_. demo_hash 11) (demo_hash 0) vault_objects (Some 1) (Some 1) (Some 1) = Inr ()"
  unfolding validate_metadata_object_graph_semantics_def vault_decodes bindE_simps by code_simp

lemma vault_lookups:
  "map_of vault_typed (demo_hash 0) = Some (Catalog vault_catalog)"
  "map_of vault_typed (demo_hash 1) = Some (SnapshotIndex [vault_snapshot])"
  "map_of vault_typed (demo_hash 2) = Some (SnapshotRoot vault_root)"
  by code_simp+

theorem validated_graph_is_recoverable_witness:
  "\<exists>known. tree_sound (\<lambda>_. demo_hash 11) vault_typed known (demo_hash 3) \<and> packs_consistent vault_typed vault_catalog known"
proof -
  obtain typed c entries k known where v: "mk_typed_objects vault_objects = Inr typed" "map_of typed (demo_hash 0) = Some (Catalog c)"
    "map_of typed (or_hash (ca_snapshot_index c)) = Some (SnapshotIndex entries)" "packs_consistent typed c known"
    "\<forall>e \<in> set entries. snapshot_sound (\<lambda>_. demo_hash 11) typed known e"
    using validated_graph_is_recoverable [OF vault_validates] by blast
  have t: "typed = vault_typed" "c = vault_catalog" using v(1,2) vault_decodes vault_lookups(1) by auto
  then have "entries = [vault_snapshot]" using v(3) vault_lookups(2) by (simp add: vault_catalog_def ref_at_def)
  then have "snapshot_sound (\<lambda>_. demo_hash 11) vault_typed known vault_snapshot" using v(5) t by simp
  then have "tree_sound (\<lambda>_. demo_hash 11) vault_typed known (demo_hash 3)"
    using vault_lookups(3) by (auto simp: snapshot_sound_def vault_snapshot_def ref_at_def vault_root_def)
  then show ?thesis using v(4) t by blast
qed

end
