(* ===== verification/Fetch.thy ===== *)
theory Fetch
  imports Cas EcDelivery
begin

text \<open>
  Where the chunks of a restore come from: \<open>stopan.restore.fetch\<close>, the reconstruction from data
  packs (\<open>stopan.restore.ec_fetch\<close>, \<open>stopan.protection.ec.metadata_adapter\<close>), the retrieval
  calls (\<open>stopan.restore.remote_client\<close>, \<open>stopan.protection.ec.remote_client\<close>), the queries of
  \<open>stopan.metadata.database\<close> they use and the window of \<open>stopan.restore.prefetcher\<close>.

  The gRPC stubs, the cluster view that \<open>LazyClusterResolver\<close> yields, BLAKE3, Zstandard and zfec are
  fields of the environment. Python iterates over sets and completed futures in an order the program
  does not determine: \<open>shuffle\<close> and \<open>completion\<close> give it. Exceptions carry no messages, so the
  lists of error texts are not represented.
\<close>

section \<open>Statistics (models.py)\<close>

record restore_run_stats =
  rr_processed_items :: int
  rr_successful_items :: int
  rr_directories_created :: int
  rr_files_restored :: int
  rr_files_failed :: int
  rr_chunks_requested :: int
  rr_chunks_from_local_cas :: int
  rr_chunks_from_local_p2p_cas :: int
  rr_chunks_from_remote_replication :: int
  rr_chunks_from_ec :: int
  rr_chunks_failed :: int
  rr_remote_chunks_corrupt :: int
  rr_ec_recovery_failures :: int
  rr_files_reused :: int
  rr_files_resumed :: int
  rr_chunks_reused :: int
  rr_bytes_reused :: int
  rr_bytes_written :: int

section \<open>Retrieval calls (restore/remote\_client.py, ec/remote\_client.py)\<close>

text \<open>The stub answers a list of results or raises; an item the node left out becomes an ERROR.\<close>

definition fill_missing :: "('k \<Rightarrow> 'v) \<Rightarrow> 'k list \<Rightarrow> ('k \<times> 'v) list \<Rightarrow> ('k \<times> 'v) list" where
  "fill_missing absent keys results =
     foldl (\<lambda>d k. if k \<in> fst ` set d then d else AList.update k (absent k) d) results keys"

definition retrieve_chunk_batch_once ::
    "(string \<Rightarrow> string list \<Rightarrow> retrieved_chunk list result) \<Rightarrow> string \<Rightarrow> string list \<Rightarrow> (string \<times> retrieved_chunk) list result" where
  "retrieve_chunk_batch_once stub addr chunk_hashes =
     (if chunk_hashes = [] then Inr []
      else bindE (stub addr chunk_hashes) (\<lambda>items.
        Inr (fill_missing (\<lambda>h. \<lparr>rv_chunk_hash = h, rv_status = RETRIEVE_STATUS_ERROR, rv_chunk_data = []\<rparr>) chunk_hashes
              (dict_of (map (\<lambda>i. (rv_chunk_hash i, i)) (filter (\<lambda>i. rv_chunk_hash i \<noteq> []) items))))))"

definition retrieve_chunk_batch ::
    "(exn \<Rightarrow> bool) \<Rightarrow> (string \<Rightarrow> string list \<Rightarrow> retrieved_chunk list result) \<Rightarrow> string \<Rightarrow> string list
       \<Rightarrow> (string \<times> retrieved_chunk) list result" where
  "retrieve_chunk_batch too_large stub addr chunk_hashes =
     (let ordered = ordered_unique chunk_hashes in
      if ordered = [] then Inr [] else run_adaptive_batch_call too_large (retrieve_chunk_batch_once stub addr) ordered)"

record shard_retrieve_result =
  sv_ref :: shard_ref
  sv_status :: int
  sv_data :: bytes

type_synonym shard_stub = "string \<Rightarrow> shard_ref list \<Rightarrow> ((string \<times> int \<times> string) \<times> int \<times> bytes) list result"

definition retrieve_shard_batch_once ::
    "shard_stub \<Rightarrow> string \<Rightarrow> shard_ref list \<Rightarrow> ((string \<times> int \<times> string) \<times> shard_retrieve_result) list result" where
  "retrieve_shard_batch_once stub addr refs =
     bindE (stub addr refs) (\<lambda>items.
     bindE (mapE (\<lambda>((p, i, h), status, data). bindE (mk_RemoteDataPackShardRef p i h) (\<lambda>ref.
              Inr (identity_key ref, \<lparr>sv_ref = ref, sv_status = status, sv_data = data\<rparr>)))
            (filter (\<lambda>((p, i, h), _). p \<noteq> [] \<and> h \<noteq> []) items)) (\<lambda>found.
       Inr (fill_missing (\<lambda>(p, i, h). \<lparr>sv_ref = \<lparr>sr_pack_hash = p, sr_shard_index = i, sr_shard_hash = h\<rparr>,
                sv_status = DATA_PACK_SHARD_RETRIEVE_STATUS_ERROR, sv_data = []\<rparr>)
              (map identity_key refs) (dict_of found))))"

definition retrieve_shard_batch ::
    "(exn \<Rightarrow> bool) \<Rightarrow> shard_stub \<Rightarrow> string \<Rightarrow> shard_ref list
       \<Rightarrow> ((string \<times> int \<times> string) \<times> shard_retrieve_result) list result" where
  "retrieve_shard_batch too_large stub addr refs =
     (let ordered = dedupe_refs refs in
      if ordered = [] then Inr [] else run_adaptive_batch_call too_large (retrieve_shard_batch_once stub addr) ordered)"

section \<open>Erasure metadata (database.py, metadata\_adapter.py)\<close>

record erasure_data_pack = erasure_pack_record +
  pk_codec :: string
  pk_payload_size :: int
  pk_padded_size :: int
  pk_shard_size :: int

record erasure_chunk_row =
  ec_chunk_hash :: string
  ec_pack_hash :: string
  ec_offset :: int
  ec_length :: int
  ec_ordinal :: int

text \<open>The three erasure tables; the first two have the keys \<open>pack_hash\<close> and \<open>chunk_hash\<close>.\<close>

record erasure_tables =
  erasure_data_packs :: "erasure_data_pack list"
  erasure_data_pack_chunks :: "erasure_chunk_row list"
  erasure_data_pack_shards :: "erasure_shard_row list"

definition db_require_hash64 :: "string \<Rightarrow> string result" where
  "db_require_hash64 v = (let t = py_strip v in if is_hex64 t then Inr t else Inl MetadataDatabaseError)"

definition unique_hashes :: "string list \<Rightarrow> string list result" where
  "unique_hashes vs = bindE (mapE db_require_hash64 vs) (\<lambda>ts. Inr (ordered_unique ts))"

definition get_erasure_data_pack :: "erasure_tables \<Rightarrow> string \<Rightarrow> erasure_data_pack option result" where
  "get_erasure_data_pack t h = bindE (db_require_hash64 h) (\<lambda>p. Inr (List.find (\<lambda>r. pk_pack_hash r = p) (erasure_data_packs t)))"

definition get_erasure_chunk_locations :: "erasure_tables \<Rightarrow> string list \<Rightarrow> (string \<times> erasure_chunk_row) list result" where
  "get_erasure_chunk_locations t hs = bindE (unique_hashes hs) (\<lambda>us.
     if us = [] then Inr []
     else Inr (dict_of (map (\<lambda>r. (ec_chunk_hash r, r))
       (sort_key (\<lambda>r. (ec_pack_hash r, ec_ordinal r)) (filter (\<lambda>r. ec_chunk_hash r \<in> set us) (erasure_data_pack_chunks t))))))"

definition get_erasure_pack_chunks :: "erasure_tables \<Rightarrow> string \<Rightarrow> erasure_chunk_row list result" where
  "get_erasure_pack_chunks t h = bindE (db_require_hash64 h) (\<lambda>p.
     Inr (sort_key ec_ordinal (filter (\<lambda>r. ec_pack_hash r = p) (erasure_data_pack_chunks t))))"

definition get_erasure_pack_shards :: "erasure_tables \<Rightarrow> string \<Rightarrow> erasure_shard_row list result" where
  "get_erasure_pack_shards t h = bindE (db_require_hash64 h) (\<lambda>p.
     Inr (sort_key er_shard_index (filter (\<lambda>r. er_pack_hash r = p) (erasure_data_pack_shards t))))"

definition spec_from_erasure_metadata :: "erasure_data_pack \<Rightarrow> erasure_spec result" where
  "spec_from_erasure_metadata pack = mk_ErasureSpec (PyInt (pk_data_shards pack)) (PyInt (pk_parity_shards pack)) (pk_codec pack)"

definition manifest_entries_from_erasure_metadata :: "erasure_chunk_row list \<Rightarrow> data_pack_entry list result" where
  "manifest_entries_from_erasure_metadata rows =
     mapE (\<lambda>r. mk_DataPackEntry (ec_chunk_hash r) (ec_offset r) (ec_length r) (ec_ordinal r)) rows"

definition manifest_from_erasure_metadata :: "erasure_data_pack \<Rightarrow> erasure_chunk_row list \<Rightarrow> data_pack_manifest result" where
  "manifest_from_erasure_metadata pack rows =
     bindE (spec_from_erasure_metadata pack) (\<lambda>spec.
     bindE (manifest_entries_from_erasure_metadata rows) (\<lambda>entries.
       mk_DataPackManifest (pk_pack_hash pack) (pk_payload_size pack) (pk_padded_size pack) (pk_shard_size pack) spec entries))"

section \<open>Reconstruction from data packs (ec\_fetch.py)\<close>

record recovery_job =
  rj_pack_hash :: string
  rj_manifest :: data_pack_manifest
  rj_shard_rows :: "erasure_shard_row list"
  rj_wanted_hashes :: "string list"

record ec_service =
  es_tables :: erasure_tables
  es_stub :: shard_stub
  es_too_large :: "exn \<Rightarrow> bool"
  es_zfec :: "zfec option"
  es_cluster :: "cluster_view result"
  es_completion :: "string list \<Rightarrow> string list"
  es_pack_completion :: "recovery_job list \<Rightarrow> recovery_job list"

fun group_missing_loop ::
    "(string \<times> erasure_chunk_row) list \<Rightarrow> (string \<times> bytes result) list \<times> (string \<times> string list) list \<Rightarrow> string list
       \<Rightarrow> (string \<times> bytes result) list \<times> (string \<times> string list) list" where
  "group_missing_loop locations acc [] = acc"
| "group_missing_loop locations (results, by_pack) (h # hs) =
     (case map_of locations h of
        None \<Rightarrow> group_missing_loop locations (AList.update h (Inl ChunkUnavailableError) results, by_pack) hs
      | Some loc \<Rightarrow> group_missing_loop locations (results, dict_append (ec_pack_hash loc) h by_pack) hs)"

definition build_recovery_job :: "erasure_tables \<Rightarrow> string \<Rightarrow> string list \<Rightarrow> recovery_job result" where
  "build_recovery_job t pack_hash wanted =
     bindE (get_erasure_data_pack t pack_hash) (\<lambda>found. case found of
         None \<Rightarrow> Inl RestoreDataError
       | Some pack \<Rightarrow>
           bindE (get_erasure_pack_chunks t pack_hash) (\<lambda>chunks.
           bindE (get_erasure_pack_shards t pack_hash) (\<lambda>shards.
             if chunks = [] then Inl RestoreDataError
             else if int (length shards) < pk_data_shards pack then Inl RestoreDataError
             else bindE (manifest_from_erasure_metadata pack chunks) (\<lambda>mf.
               Inr \<lparr>rj_pack_hash = pack_hash, rj_manifest = mf, rj_shard_rows = shards, rj_wanted_hashes = wanted\<rparr>))))"

text \<open>\<open>result_map[h] = e\<close> for every \<open>h\<close>.\<close>

definition set_all :: "'v \<Rightarrow> string list \<Rightarrow> (string \<times> 'v) list \<Rightarrow> (string \<times> 'v) list" where
  "set_all v hs d = foldl (\<lambda>d h. AList.update h v d) d hs"

fun build_recovery_jobs ::
    "erasure_tables \<Rightarrow> (string \<times> bytes result) list \<Rightarrow> (string \<times> string list) list
       \<Rightarrow> (string \<times> bytes result) list \<times> recovery_job list" where
  "build_recovery_jobs t results [] = (results, [])"
| "build_recovery_jobs t results ((pack_hash, wanted) # packs) =
     (case build_recovery_job t pack_hash wanted of
        Inl _ \<Rightarrow> build_recovery_jobs t (set_all (Inl ChunkUnavailableError) wanted results) packs
      | Inr job \<Rightarrow> (case build_recovery_jobs t results packs of (rs, jobs) \<Rightarrow> (rs, job # jobs)))"

text \<open>The shards of one completed call that are FOUND and whose data has the announced hash.\<close>

fun collect_found :: "(bytes \<Rightarrow> string) \<Rightarrow> shard_retrieve_result list \<Rightarrow> data_pack_shard list" where
  "collect_found hx [] = []"
| "collect_found hx (item # items) =
     (if sv_status item \<noteq> DATA_PACK_SHARD_RETRIEVE_STATUS_FOUND then collect_found hx items
      else case mk_DataPackShard hx (sr_pack_hash (sv_ref item)) (sr_shard_index (sv_ref item)) (sv_data item)
                  (sr_shard_hash (sv_ref item)) of
             Inl _ \<Rightarrow> collect_found hx items
           | Inr shard \<Rightarrow> shard # collect_found hx items)"

definition retrieve_pack_shards ::
    "(bytes \<Rightarrow> string) \<Rightarrow> ec_service \<Rightarrow> erasure_shard_row list \<Rightarrow> int \<Rightarrow> data_pack_shard list result" where
  "retrieve_pack_shards hx svc rows required =
     bindE (es_cluster svc) (\<lambda>cluster.
     bindE (group_erasure_shard_refs_by_address rows (node_addresses cluster)) (\<lambda>(refs_by_addr, _).
       if int (length refs_by_addr) < required then Inl ChunkUnavailableError
       else
         let found = concat (map (\<lambda>addr.
                 case map_of refs_by_addr addr of
                   None \<Rightarrow> []
                 | Some refs \<Rightarrow> (case retrieve_shard_batch (es_too_large svc) (es_stub svc) addr refs of
                       Inl _ \<Rightarrow> []
                     | Inr results \<Rightarrow> collect_found hx (map snd results)))
               (es_completion svc (map fst refs_by_addr)));
             ordered = sort_key ds_shard_index found
         in if int (length ordered) < required then Inl ChunkUnavailableError
            else Inr (py_slice ordered 0 required)))"

definition recover_pack_chunks :: "(bytes \<Rightarrow> string) \<Rightarrow> ec_service \<Rightarrow> recovery_job \<Rightarrow> (string \<times> bytes) list result" where
  "recover_pack_chunks hx svc job =
     bindE (retrieve_pack_shards hx svc (rj_shard_rows job) (data_shards (mf_spec (rj_manifest job)))) (\<lambda>shards.
     bindE (reconstruct_payload hx (es_zfec svc) (rj_manifest job) shards) (\<lambda>payload.
       extract_pack_chunks hx payload (rj_manifest job) []))"

fun cache_reconstructed_pack_chunks :: "codec \<Rightarrow> (string \<times> bytes) list \<Rightarrow> cas_repository \<Rightarrow> cas_repository" where
  "cache_reconstructed_pack_chunks z [] r = r"
| "cache_reconstructed_pack_chunks z ((h, data) # cs) r = cache_reconstructed_pack_chunks z cs (snd (put z h data r))"

fun collect_wanted :: "(string \<times> bytes) list \<Rightarrow> string list \<Rightarrow> (string \<times> bytes result) list \<Rightarrow> (string \<times> bytes result) list" where
  "collect_wanted recovered [] results = results"
| "collect_wanted recovered (h # hs) results =
     collect_wanted recovered hs
       (AList.update h (case map_of recovered h of None \<Rightarrow> Inl ChunkUnavailableError | Some data \<Rightarrow> Inr data) results)"

fun run_recovery_jobs ::
    "codec \<Rightarrow> ec_service \<Rightarrow> recovery_job list \<Rightarrow> (string \<times> bytes result) list \<Rightarrow> cas_repository
       \<Rightarrow> (string \<times> bytes result) list \<times> cas_repository" where
  "run_recovery_jobs z svc [] results r = (results, r)"
| "run_recovery_jobs z svc (job # jobs) results r =
     (case recover_pack_chunks (blake3_hex z) svc job of
        Inl _ \<Rightarrow> run_recovery_jobs z svc jobs (set_all (Inl ChunkUnavailableError) (rj_wanted_hashes job) results) r
      | Inr recovered \<Rightarrow>
          run_recovery_jobs z svc jobs (collect_wanted recovered (rj_wanted_hashes job) results)
            (cache_reconstructed_pack_chunks z recovered r))"

definition recover_many_raw_chunks ::
    "codec \<Rightarrow> ec_service \<Rightarrow> string list \<Rightarrow> (cas_repository, (string \<times> bytes result) list) op" where
  "recover_many_raw_chunks z svc chunk_hashes =
     (let ordered = ordered_unique chunk_hashes in
      if ordered = [] then op_return []
      else op_bind (op_lift (get_erasure_chunk_locations (es_tables svc) ordered)) (\<lambda>locations.
        case group_missing_loop locations ([], []) ordered of
          (results, by_pack) \<Rightarrow>
            (case build_recovery_jobs (es_tables svc) results by_pack of
               (results', jobs) \<Rightarrow> (\<lambda>r. case run_recovery_jobs z svc (es_pack_completion svc jobs) results' r of
                                      (results'', r') \<Rightarrow> (Inr results'', r')))))"

section \<open>The fetch service (fetch.py)\<close>

record fetch_env =
  fe_codec :: codec
  fe_digest :: "bytes \<Rightarrow> bytes"
  fe_rf :: int
  fe_cluster_token :: string
  fe_max_chunk_size :: int
  fe_cluster :: "(cluster_view result \<times> string) option"
  fe_stub :: "(string \<Rightarrow> string list \<Rightarrow> retrieved_chunk list result) option"
  fe_too_large :: "exn \<Rightarrow> bool"
  fe_remote_chunk_recovery :: bool
  fe_ec :: "ec_service option"
  fe_shuffle :: "string list \<Rightarrow> string list"
  fe_completion :: "(string \<times> string list) list \<Rightarrow> (string \<times> string list) list"

record fetch_state =
  fs_repo :: cas_repository
  fs_p2p :: "cas_repository option"
  fs_stats :: restore_run_stats

text \<open>The constructor clamps \<open>max_chunk_size\<close> to at least one.\<close>

definition validate_compressed_chunk :: "fetch_env \<Rightarrow> string \<Rightarrow> bytes \<Rightarrow> bytes result" where
  "validate_compressed_chunk e h data =
     (case decompress_max (fe_codec e) (max (fe_max_chunk_size e) 1) data of
        Inl _ \<Rightarrow> Inl RestoreDataError
      | Inr raw \<Rightarrow> if blake3_hex (fe_codec e) raw \<noteq> h then Inl RestoreDataError else Inr raw)"

fun multiplicity_loop :: "(string \<times> int) list \<Rightarrow> string list \<Rightarrow> (string \<times> int) list" where
  "multiplicity_loop m [] = m"
| "multiplicity_loop m (h # hs) =
     multiplicity_loop (AList.update h ((case map_of m h of None \<Rightarrow> 0 | Some n \<Rightarrow> n) + 1) m) hs"

text \<open>One turn of the local loop: the local CAS, then the CAS of the local node. A failure to cache
  what the latter returned is only noted.\<close>

definition fetch_local :: "fetch_env \<Rightarrow> int \<Rightarrow> string \<Rightarrow> fetch_state \<Rightarrow> bytes option \<times> fetch_state" where
  "fetch_local e reps h s =
     (case get (fe_codec e) h (fs_repo s) of
        (Inr raw, r) \<Rightarrow>
          (Some raw, s\<lparr>fs_repo := r, fs_stats := (fs_stats s)\<lparr>rr_chunks_from_local_cas := rr_chunks_from_local_cas (fs_stats s) + reps\<rparr>\<rparr>)
      | (Inl _, r) \<Rightarrow>
          (case fs_p2p s of
             None \<Rightarrow> (None, s\<lparr>fs_repo := r\<rparr>)
           | Some p \<Rightarrow>
               (case get_compressed h p of
                  (Inl _, p') \<Rightarrow> (None, s\<lparr>fs_repo := r, fs_p2p := Some p'\<rparr>)
                | (Inr data, p') \<Rightarrow>
                    (case validate_compressed_chunk e h data of
                       Inl _ \<Rightarrow> (None, s\<lparr>fs_repo := r, fs_p2p := Some p'\<rparr>)
                     | Inr raw \<Rightarrow>
                         (Some raw, s\<lparr>fs_repo := snd (put_compressed h data r), fs_p2p := Some p',
                            fs_stats := (fs_stats s)\<lparr>rr_chunks_from_local_p2p_cas := rr_chunks_from_local_p2p_cas (fs_stats s) + reps\<rparr>\<rparr>)))))"

fun fetch_local_all ::
    "fetch_env \<Rightarrow> (string \<times> int) list \<Rightarrow> fetch_state \<Rightarrow> ((string \<times> bytes result) list \<times> string list) \<times> fetch_state" where
  "fetch_local_all e [] s = (([], []), s)"
| "fetch_local_all e ((h, reps) # hs) s =
     (case fetch_local e reps h s of
        (found, s1) \<Rightarrow> (case fetch_local_all e hs s1 of
          ((results, missing), s2) \<Rightarrow>
            (case found of
               Some raw \<Rightarrow> (((h, Inr raw) # results, missing), s2)
             | None \<Rightarrow> ((results, h # missing), s2))))"

record remote_progress =
  rp_results :: "(string \<times> bytes result) list"
  rp_unresolved :: "string list"
  rp_state :: fetch_state

text \<open>What the loop does with one hash of an answered group.\<close>

definition accept_remote ::
    "fetch_env \<Rightarrow> (string \<times> int) list \<Rightarrow> (string \<times> retrieved_chunk) list \<Rightarrow> remote_progress \<Rightarrow> string \<Rightarrow> remote_progress" where
  "accept_remote e mults batch p h =
     (let s = rp_state p; st = fs_stats s in
      if h \<notin> set (rp_unresolved p) then p
      else case map_of batch h of
        None \<Rightarrow> p
      | Some item \<Rightarrow>
          if rv_status item \<noteq> RETRIEVE_STATUS_FOUND then p
          else case validate_compressed_chunk e h (rv_chunk_data item) of
            Inl _ \<Rightarrow> p\<lparr>rp_state := s\<lparr>fs_stats := st\<lparr>rr_remote_chunks_corrupt := rr_remote_chunks_corrupt st + 1\<rparr>\<rparr>\<rparr>
          | Inr raw \<Rightarrow>
              p\<lparr>rp_results := AList.update h (Inr raw) (rp_results p),
                rp_unresolved := filter (\<lambda>x. x \<noteq> h) (rp_unresolved p),
                rp_state := s\<lparr>fs_repo := snd (put_compressed h (rv_chunk_data item) (fs_repo s)),
                  fs_stats := st\<lparr>rr_chunks_from_remote_replication := rr_chunks_from_remote_replication st
                    + (case map_of mults h of None \<Rightarrow> 1 | Some n \<Rightarrow> n)\<rparr>\<rparr>\<rparr>)"

definition consult_group ::
    "fetch_env \<Rightarrow> (string \<Rightarrow> string list \<Rightarrow> retrieved_chunk list result) \<Rightarrow> (string \<times> int) list \<Rightarrow> remote_progress
       \<Rightarrow> string \<times> string list \<Rightarrow> remote_progress" where
  "consult_group e stub mults p g =
     (case g of (addr, hs) \<Rightarrow>
        case retrieve_chunk_batch (fe_too_large e) stub addr hs of
          Inl _ \<Rightarrow> p
        | Inr batch \<Rightarrow> foldl (accept_remote e mults batch) p hs)"

fun group_rank :: "(string \<Rightarrow> cluster_member list) \<Rightarrow> nat \<Rightarrow> (string \<times> string list) list \<Rightarrow> string list \<Rightarrow> (string \<times> string list) list" where
  "group_rank targets rank groups [] = groups"
| "group_rank targets rank groups (h # hs) =
     (if length (targets h) \<le> rank then group_rank targets rank groups hs
      else group_rank targets rank (dict_append (address (targets h ! rank)) h groups) hs)"

fun rank_rounds ::
    "fetch_env \<Rightarrow> (string \<Rightarrow> string list \<Rightarrow> retrieved_chunk list result) \<Rightarrow> (string \<times> int) list
       \<Rightarrow> (string \<Rightarrow> cluster_member list) \<Rightarrow> remote_progress \<Rightarrow> nat list \<Rightarrow> remote_progress" where
  "rank_rounds e stub mults targets p [] = p"
| "rank_rounds e stub mults targets p (rank # ranks) =
     (if rp_unresolved p = [] then p
      else let groups = group_rank targets rank [] (fe_shuffle e (rp_unresolved p)) in
        if groups = [] then p
        else rank_rounds e stub mults targets (foldl (consult_group e stub mults) p (fe_completion e groups)) ranks)"

definition max_depth :: "nat list \<Rightarrow> nat" where
  "max_depth ns = foldr max ns 0"

definition fetch_missing_many_from_remote ::
    "fetch_env \<Rightarrow> (string \<times> int) list \<Rightarrow> string list \<Rightarrow> (fetch_state, (string \<times> bytes result) list) op" where
  "fetch_missing_many_from_remote e mults missing s =
     (case (fe_cluster e, fe_stub e) of
        (Some (view, origin), Some stub) \<Rightarrow>
          if fe_rf e = 0 then (Inr (set_all (Inl ChunkUnavailableError) missing []), s)
          else (case view of
            Inl exc \<Rightarrow> (Inl exc, s)
          | Inr cluster \<Rightarrow>
              let targets = (\<lambda>h. hrw_targets_excluding (fe_digest e) cluster h (fe_rf e) (fe_cluster_token e) {origin});
                  results = set_all (Inl ChunkUnavailableError) (filter (\<lambda>h. targets h = []) missing) [];
                  unresolved = filter (\<lambda>h. targets h \<noteq> []) missing;
                  p = rank_rounds e stub mults targets \<lparr>rp_results = results, rp_unresolved = unresolved, rp_state = s\<rparr>
                        [0..<max_depth (map (\<lambda>h. length (targets h)) unresolved)]
              in (Inr (set_all (Inl ChunkUnavailableError) (rp_unresolved p) (rp_results p)), rp_state p))
      | _ \<Rightarrow> (Inr (set_all (Inl ChunkUnavailableError) missing []), s))"

definition is_exception :: "bytes result option \<Rightarrow> bool" where
  "is_exception v = (case v of Some (Inl _) \<Rightarrow> True | _ \<Rightarrow> False)"

fun merge_ec ::
    "(string \<times> int) list \<Rightarrow> (string \<times> bytes result) list \<Rightarrow> string list \<Rightarrow> (string \<times> bytes result) list \<times> restore_run_stats
       \<Rightarrow> (string \<times> bytes result) list \<times> restore_run_stats" where
  "merge_ec mults ec [] acc = acc"
| "merge_ec mults ec (h # hs) (results, st) =
     (let m = (case map_of mults h of None \<Rightarrow> 1 | Some n \<Rightarrow> n) in
      case map_of ec h of
        None \<Rightarrow> merge_ec mults ec hs (results, st)
      | Some (Inr raw) \<Rightarrow>
          merge_ec mults ec hs (AList.update h (Inr raw) results, st\<lparr>rr_chunks_from_ec := rr_chunks_from_ec st + m\<rparr>)
      | Some (Inl exc) \<Rightarrow>
          if is_exception (map_of results h)
          then merge_ec mults ec hs (AList.update h (Inl ChunkUnavailableError) results,
                 st\<lparr>rr_ec_recovery_failures := rr_ec_recovery_failures st + m\<rparr>)
          else merge_ec mults ec hs (AList.update h (Inl exc) results, st))"

definition recover_unresolved_with_ec ::
    "fetch_env \<Rightarrow> ec_service \<Rightarrow> (string \<times> int) list \<Rightarrow> string list \<Rightarrow> (string \<times> bytes result) list
       \<Rightarrow> (fetch_state, (string \<times> bytes result) list) op" where
  "recover_unresolved_with_ec e svc mults missing remote_results s =
     (let unresolved = filter (\<lambda>h. is_exception (map_of remote_results h)) missing in
      if unresolved = [] then (Inr remote_results, s)
      else case recover_many_raw_chunks (fe_codec e) svc unresolved (fs_repo s) of
        (Inl exc, r) \<Rightarrow> (Inl exc, s\<lparr>fs_repo := r\<rparr>)
      | (Inr ec, r) \<Rightarrow>
          (case merge_ec mults ec unresolved (remote_results, fs_stats s) of
             (results, st) \<Rightarrow> (Inr results, s\<lparr>fs_repo := r, fs_stats := st\<rparr>)))"

definition multiplicity_of :: "(string \<times> int) list \<Rightarrow> string \<Rightarrow> int" where
  "multiplicity_of mults h = (case map_of mults h of None \<Rightarrow> 0 | Some n \<Rightarrow> n)"

definition count_failed :: "(string \<times> int) list \<Rightarrow> string list \<Rightarrow> (string \<times> bytes result) list \<Rightarrow> (fetch_state, unit) op" where
  "count_failed mults missing remote = op_modify (\<lambda>s. s\<lparr>fs_stats := (fs_stats s)\<lparr>rr_chunks_failed := rr_chunks_failed (fs_stats s)
     + sum_list (map (multiplicity_of mults) (filter (\<lambda>h. is_exception (map_of remote h)) missing))\<rparr>\<rparr>)"

definition fetch_remaining ::
    "fetch_env \<Rightarrow> (string \<times> int) list \<Rightarrow> string list \<Rightarrow> (fetch_state, (string \<times> bytes result) list) op" where
  "fetch_remaining e mults missing =
     op_bind (if fe_remote_chunk_recovery e then fetch_missing_many_from_remote e mults missing
              else op_return (set_all (Inl ChunkUnavailableError) missing [])) (\<lambda>remote.
     case fe_ec e of
       None \<Rightarrow> op_return remote
     | Some svc \<Rightarrow> recover_unresolved_with_ec e svc mults missing remote)"

definition fetch_many_raw_chunks :: "fetch_env \<Rightarrow> string list \<Rightarrow> (fetch_state, (string \<times> bytes result) list) op" where
  "fetch_many_raw_chunks e chunk_hashes s0 =
     (let s = s0\<lparr>fs_stats := (fs_stats s0)\<lparr>rr_chunks_requested := rr_chunks_requested (fs_stats s0) + int (length chunk_hashes)\<rparr>\<rparr>;
          mults = multiplicity_loop [] chunk_hashes
      in case fetch_local_all e mults s of
           ((results, missing), s1) \<Rightarrow>
             if missing = [] then (Inr results, s1)
             else op_bind (fetch_remaining e mults missing) (\<lambda>remote.
                    op_bind (count_failed mults missing remote) (\<lambda>_. op_return (dict_update results remote))) s1)"

section \<open>Windows (prefetcher.py)\<close>

text \<open>A window yields its chunks in order up to the first one that was not obtained, whose exception
  is raised then.\<close>

fun emit_window :: "(string \<times> bytes result) list \<Rightarrow> (int \<times> string \<times> int) list \<Rightarrow> (int \<times> string \<times> int \<times> bytes) list \<times> exn option" where
  "emit_window results [] = ([], None)"
| "emit_window results ((ord, h, sz) # recs) =
     (case map_of results h of
        None \<Rightarrow> ([], Some ChunkUnavailableError)
      | Some (Inl exc) \<Rightarrow> ([], Some exc)
      | Some (Inr raw) \<Rightarrow> (case emit_window results recs of (out, exc) \<Rightarrow> ((ord, h, sz, raw) # out, exc)))"

definition flush_record_window ::
    "fetch_env \<Rightarrow> (int \<times> string \<times> int) list \<Rightarrow> fetch_state \<Rightarrow> ((int \<times> string \<times> int \<times> bytes) list \<times> exn option) \<times> fetch_state" where
  "flush_record_window e recs s =
     (case fetch_many_raw_chunks e (map (\<lambda>(_, h, _). h) recs) s of
        (Inl exc, s') \<Rightarrow> (([], Some exc), s')
      | (Inr results, s') \<Rightarrow> (emit_window results recs, s'))"

section \<open>What is returned is authentic and accounted for\<close>

definition authentic :: "codec \<Rightarrow> (string \<times> bytes result) list \<Rightarrow> bool" where
  "authentic z d \<longleftrightarrow> (\<forall>h b. map_of d h = Some (Inr b) \<longrightarrow> blake3_hex z b = h)"

definition got :: "(string \<times> bytes result) list \<Rightarrow> string \<Rightarrow> bool" where
  "got d h \<longleftrightarrow> (\<exists>b. map_of d h = Some (Inr b))"

definition sum_got :: "(string \<times> int) list \<Rightarrow> string list \<Rightarrow> (string \<times> bytes result) list \<Rightarrow> int" where
  "sum_got mults hs d = sum_list (map (\<lambda>h. if got d h then multiplicity_of mults h else 0) hs)"

definition tally :: "restore_run_stats \<Rightarrow> int" where
  "tally st = rr_chunks_from_local_cas st + rr_chunks_from_local_p2p_cas st + rr_chunks_from_remote_replication st + rr_chunks_from_ec st"

lemma authentic_update: "authentic z d \<Longrightarrow> (\<And>b. v = Inr b \<Longrightarrow> blake3_hex z b = h) \<Longrightarrow> authentic z (AList.update h v d)"
  by (auto simp: authentic_def update_conv')

lemma authentic_Nil [simp]: "authentic z []"
  by (simp add: authentic_def)

lemma got_update: "got (AList.update h v d) k \<longleftrightarrow> (if k = h then \<exists>b. v = Inr b else got d k)"
  by (auto simp: got_def update_conv')

lemma keys_update: "fst ` set (AList.update h v d) = insert h (fst ` set d)"
  using dom_update [of h v d] by simp

lemma set_all_simps [simp]:
  "set_all v [] d = d" "set_all v (h # hs) d = set_all v hs (AList.update h v d)"
  by (simp_all add: set_all_def)

lemma set_all_authentic: "authentic z d \<Longrightarrow> authentic z (set_all (Inl x) hs d)"
proof (induction hs arbitrary: d)
  case (Cons h hs)
  then show ?case unfolding set_all_simps by (intro Cons.IH authentic_update) simp_all
qed simp

lemma set_all_got: "got (set_all (Inl x) hs d) k \<longleftrightarrow> k \<notin> set hs \<and> got d k"
  by (induction hs arbitrary: d) (auto simp: got_update)

lemma set_all_keys: "fst ` set (set_all v hs d) = set hs \<union> fst ` set d"
  by (induction hs arbitrary: d) (auto simp: keys_update)

lemma set_all_distinct: "distinct (map fst d) \<Longrightarrow> distinct (map fst (set_all v hs d))"
  by (induction hs arbitrary: d) (auto simp: distinct_update)

lemmas set_all_fail = set_all_authentic set_all_got set_all_keys set_all_distinct

lemma got_Nil [simp]: "\<not> got [] h"
  by (simp add: got_def)

lemma sum_got_cong: "(\<And>h. h \<in> set hs \<Longrightarrow> got d h = got d' h) \<Longrightarrow> sum_got m hs d = sum_got m hs d'"
  unfolding sum_got_def by (rule arg_cong [of _ _ sum_list], rule map_cong) auto

lemma sum_got_step:
  assumes "distinct hs" "h \<in> set hs" "\<not> got d h"
  shows "sum_got m hs (AList.update h (Inr b) d) = sum_got m hs d + multiplicity_of m h"
  using assms
proof (induction hs)
  case (Cons x xs)
  have tail: "sum_got m xs (AList.update h (Inr b) d) = sum_got m xs d" if "h = x"
    using that Cons.prems(1) by (intro sum_got_cong) (auto simp: got_update)
  show ?case
  proof (cases "h = x")
    case True
    then show ?thesis using tail Cons.prems(3) by (simp add: sum_got_def got_update)
  next
    case False
    then show ?thesis using Cons by (simp add: sum_got_def got_update)
  qed
qed simp

lemma sum_got_failed:
  assumes "\<And>h. h \<in> set hs \<Longrightarrow> h \<in> fst ` set d"
  shows "sum_got m hs d + sum_list (map (multiplicity_of m) (filter (\<lambda>h. is_exception (map_of d h)) hs)) = sum_list (map (multiplicity_of m) hs)"
  using assms
proof (induction hs)
  case (Cons h hs)
  obtain v where "map_of d h = Some v" using Cons.prems by (metis list.set_intros(1) map_of_eq_None_iff option.exhaust)
  then show ?case using Cons by (cases v) (auto simp: sum_got_def got_def is_exception_def)
qed (simp add: sum_got_def)

lemma foldl_invariant: "(\<And>p x. P p \<Longrightarrow> P (f p x)) \<Longrightarrow> P p \<Longrightarrow> P (foldl f p xs)"
  by (induction xs arbitrary: p) auto

lemma validate_authentic: "validate_compressed_chunk e h data = Inr raw \<Longrightarrow> blake3_hex (fe_codec e) raw = h"
  by (auto simp: validate_compressed_chunk_def split: sum.splits if_splits)

lemma get_authentic: "get z h r = (Inr raw, r') \<Longrightarrow> blake3_hex z raw = h"
  by (auto simp: get_def op_bind_def op_lift_def op_return_def op_raise_def decompress_and_validate_def split: prod.splits sum.splits if_splits)


text \<open>The invariant of the remote loop: every missing hash is settled or unresolved, never both, what
  is settled is authentic, and the counters moved by exactly what was obtained.\<close>

definition remote_inv :: "fetch_env \<Rightarrow> (string \<times> int) list \<Rightarrow> string list \<Rightarrow> restore_run_stats \<Rightarrow> remote_progress \<Rightarrow> bool" where
  "remote_inv e mults missing st0 p \<longleftrightarrow>
     fst ` set (rp_results p) \<union> set (rp_unresolved p) = set missing \<and> fst ` set (rp_results p) \<inter> set (rp_unresolved p) = {}
     \<and> authentic (fe_codec e) (rp_results p) \<and> distinct (map fst (rp_results p))
     \<and> tally (fs_stats (rp_state p)) = tally st0 + sum_got mults missing (rp_results p)
     \<and> rr_chunks_requested (fs_stats (rp_state p)) = rr_chunks_requested st0
     \<and> rr_chunks_failed (fs_stats (rp_state p)) = rr_chunks_failed st0"

lemma not_got: "h \<notin> fst ` set d \<Longrightarrow> \<not> got d h"
  using map_of_eq_None_iff [of d h] by (simp add: got_def)

lemma accept_remote_inv:
  assumes "distinct missing" "set missing \<subseteq> fst ` set mults" "remote_inv e mults missing st0 p"
  shows "remote_inv e mults missing st0 (accept_remote e mults batch p h)"
proof (cases "h \<in> set (rp_unresolved p)")
  case un: True
  show ?thesis
  proof (cases "\<exists>item raw. map_of batch h = Some item \<and> rv_status item = RETRIEVE_STATUS_FOUND
      \<and> validate_compressed_chunk e h (rv_chunk_data item) = Inr raw")
    case True
    then obtain item raw where i: "map_of batch h = Some item" "rv_status item = RETRIEVE_STATUS_FOUND"
      "validate_compressed_chunk e h (rv_chunk_data item) = Inr raw" by blast
    have h: "h \<in> set missing" "h \<notin> fst ` set (rp_results p)" using assms(3) un by (auto simp: remote_inv_def)
    then obtain n where n: "map_of mults h = Some n" using assms(2) by (metis map_of_eq_None_iff option.exhaust subsetD)
    note step = sum_got_step [OF assms(1) h(1) not_got [OF h(2)], of mults raw]
    have au: "authentic (fe_codec e) (AList.update h (Inr raw) (rp_results p))"
      using assms(3) validate_authentic [OF i(3)] by (intro authentic_update) (auto simp: remote_inv_def)
    then show ?thesis using assms(3) un i n h step
      by (auto simp: remote_inv_def accept_remote_def Let_def keys_update tally_def multiplicity_of_def distinct_update)
  next
    case False
    then show ?thesis using assms(3) by (auto simp: remote_inv_def accept_remote_def Let_def tally_def split: option.splits sum.splits)
  qed
qed (use assms in \<open>simp add: accept_remote_def Let_def\<close>)

lemma rank_rounds_inv:
  assumes "distinct missing" "set missing \<subseteq> fst ` set mults" "remote_inv e mults missing st0 p"
  shows "remote_inv e mults missing st0 (rank_rounds e stub mults targets p ranks)"
proof -
  have group: "remote_inv e mults missing st0 (consult_group e stub mults p g)" if "remote_inv e mults missing st0 p" for p g
    using foldl_invariant [of "remote_inv e mults missing st0", OF accept_remote_inv [OF assms(1,2)] that]
    by (auto simp: consult_group_def that split: prod.splits sum.splits)
  show ?thesis using assms(3)
  proof (induction ranks arbitrary: p)
    case (Cons rank ranks)
    show ?case using Cons.IH [OF foldl_invariant [of "remote_inv e mults missing st0" "consult_group e stub mults", OF group Cons.prems]] Cons.prems
      by (auto simp: Let_def)
  qed simp
qed

text \<open>Either way of obtaining the chunks that are not local settles all of them.\<close>

definition settled :: "fetch_env \<Rightarrow> (string \<times> int) list \<Rightarrow> string list \<Rightarrow> restore_run_stats \<Rightarrow> (string \<times> bytes result) list \<Rightarrow> restore_run_stats \<Rightarrow> bool" where
  "settled e mults missing st d st' \<longleftrightarrow> fst ` set d = set missing \<and> authentic (fe_codec e) d \<and> distinct (map fst d)
     \<and> tally st' = tally st + sum_got mults missing d
     \<and> rr_chunks_requested st' = rr_chunks_requested st \<and> rr_chunks_failed st' = rr_chunks_failed st"

lemma settled_disabled: "settled e mults missing st (set_all (Inl x) missing []) st"
proof -
  have "sum_got mults missing (set_all (Inl x) missing []) = sum_got mults missing []"
    by (rule sum_got_cong) (simp add: set_all_got)
  moreover have "sum_got mults missing [] = 0" by (induction missing) (simp_all add: sum_got_def got_def)
  ultimately show ?thesis by (simp add: settled_def set_all_fail)
qed

lemma remote_inv_settled:
  assumes "remote_inv e mults missing st p"
  shows "settled e mults missing st (set_all (Inl x) (rp_unresolved p) (rp_results p)) (fs_stats (rp_state p))"
proof -
  have "sum_got mults missing (set_all (Inl x) (rp_unresolved p) (rp_results p)) = sum_got mults missing (rp_results p)"
    using assms by (intro sum_got_cong) (auto simp: set_all_fail(2) remote_inv_def dest: not_got)
  then show ?thesis using assms by (auto simp: settled_def remote_inv_def set_all_fail)
qed

lemma fetch_missing_settled:
  assumes "distinct missing" "set missing \<subseteq> fst ` set mults"
    and "fetch_missing_many_from_remote e mults missing s = (Inr d, s')"
  shows "settled e mults missing (fs_stats s) d (fs_stats s')"
proof -
  define start where "start = (\<lambda>targets :: string \<Rightarrow> cluster_member list.
      \<lparr>rp_results = set_all (Inl ChunkUnavailableError) (filter (\<lambda>h. targets h = []) missing) [],
       rp_unresolved = filter (\<lambda>h. targets h \<noteq> []) missing, rp_state = s\<rparr>)"
  have inv: "remote_inv e mults missing (fs_stats s) (start targets)" for targets
  proof -
    have "sum_got mults missing (rp_results (start targets)) = sum_got mults missing []"
      by (rule sum_got_cong) (simp add: set_all_got start_def)
    moreover have "sum_got mults missing [] = 0" by (induction missing) (simp_all add: sum_got_def)
    ultimately show ?thesis by (auto simp: remote_inv_def set_all_fail start_def)
  qed
  show ?thesis
  proof (cases "\<exists>cluster origin stub. fe_cluster e = Some (Inr cluster, origin) \<and> fe_stub e = Some stub \<and> fe_rf e \<noteq> 0")
    case True
    then obtain cluster origin stub where c: "fe_cluster e = Some (Inr cluster, origin)" "fe_stub e = Some stub" "fe_rf e \<noteq> 0" by blast
    define targets where "targets = (\<lambda>h. hrw_targets_excluding (fe_digest e) cluster h (fe_rf e) (fe_cluster_token e) {origin})"
    define p where "p = rank_rounds e stub mults targets (start targets) [0..<max_depth (map (\<lambda>h. length (targets h)) (filter (\<lambda>h. targets h \<noteq> []) missing))]"
    have "d = set_all (Inl ChunkUnavailableError) (rp_unresolved p) (rp_results p)" "s' = rp_state p"
      using assms(3) c by (simp_all add: fetch_missing_many_from_remote_def Let_def p_def start_def targets_def)
    then show ?thesis using remote_inv_settled [OF rank_rounds_inv [OF assms(1,2) inv]] by (simp add: p_def)
  next
    case False
    then have "d = set_all (Inl ChunkUnavailableError) missing []" "s' = s"
      using assms(3) by (auto simp: fetch_missing_many_from_remote_def Let_def split: option.splits sum.splits prod.splits if_splits)
    then show ?thesis by (simp add: settled_disabled)
  qed
qed

lemma collect_wanted_authentic:
  assumes "authentic z d" "\<And>h b. (h, b) \<in> set recovered \<Longrightarrow> blake3_hex z b = h"
  shows "authentic z (collect_wanted recovered hs d)"
  using assms(1)
proof (induction hs arbitrary: d)
  case (Cons h hs)
  have "authentic z (AList.update h (case map_of recovered h of None \<Rightarrow> Inl ChunkUnavailableError | Some data \<Rightarrow> Inr data) d)"
    by (rule authentic_update [OF Cons.prems]) (auto split: option.splits dest!: map_of_SomeD intro: assms(2))
  then show ?case by (simp add: Cons.IH)
qed simp

lemma run_recovery_jobs_authentic: "authentic z d \<Longrightarrow> authentic z (fst (run_recovery_jobs z svc jobs d r))"
proof (induction jobs arbitrary: d r)
  case (Cons job jobs)
  show ?case
  proof (cases "recover_pack_chunks (blake3_hex z) svc job")
    case (Inr recovered)
    have "blake3_hex z b = h" if "(h, b) \<in> set recovered" for h b
      using Inr that by (auto simp: recover_pack_chunks_def bindE_eq_Inr dest: extract_pack_chunks_hashes)
    then show ?thesis using Inr Cons by (simp add: collect_wanted_authentic)
  qed (use Cons in \<open>simp add: set_all_authentic\<close>)
qed simp

lemma group_missing_authentic: "authentic z (fst acc) \<Longrightarrow> authentic z (fst (group_missing_loop locations acc hs))"
proof (induction locations acc hs rule: group_missing_loop.induct)
  case (2 locations results by_pack h hs)
  have "authentic z (AList.update h (Inl ChunkUnavailableError) results)" using 2(3) by (intro authentic_update) simp_all
  then show ?case using 2 by (auto split: option.split)
qed simp

lemma build_jobs_authentic: "authentic z d \<Longrightarrow> authentic z (fst (build_recovery_jobs t d packs))"
  by (induction t d packs rule: build_recovery_jobs.induct) (auto simp: set_all_authentic split: sum.splits prod.splits)

lemma recover_many_authentic:
  assumes "recover_many_raw_chunks z svc hs r = (Inr d, r')"
  shows "authentic z d"
proof (cases "ordered_unique hs = []")
  case False
  then obtain locations where l: "get_erasure_chunk_locations (es_tables svc) (ordered_unique hs) = Inr locations"
    using assms by (cases "get_erasure_chunk_locations (es_tables svc) (ordered_unique hs)")
      (auto simp: recover_many_raw_chunks_def Let_def op_bind_def op_lift_def op_raise_def)
  obtain d0 packs where g: "group_missing_loop locations ([], []) (ordered_unique hs) = (d0, packs)" by fastforce
  obtain d1 jobs where b: "build_recovery_jobs (es_tables svc) d0 packs = (d1, jobs)" by fastforce
  have "authentic z d0" using group_missing_authentic [of z "([], [])" locations "ordered_unique hs"] g by simp
  then have "authentic z d1" using build_jobs_authentic [of z d0 "es_tables svc" packs] b by simp
  moreover have "d = fst (run_recovery_jobs z svc (es_pack_completion svc jobs) d1 r)"
    using assms False l g b by (auto simp: recover_many_raw_chunks_def Let_def op_bind_def op_lift_def op_return_def split: prod.splits)
  ultimately show ?thesis by (simp add: run_recovery_jobs_authentic)
qed (use assms in \<open>auto simp: recover_many_raw_chunks_def op_return_def\<close>)

lemma merge_ec_settled:
  assumes "settled e mults missing st d st'" "authentic (fe_codec e) ec" "distinct missing" "set missing \<subseteq> fst ` set mults"
    and "distinct hs" "set hs \<subseteq> set missing" "\<And>h. h \<in> set hs \<Longrightarrow> is_exception (map_of d h)"
  shows "settled e mults missing st (fst (merge_ec mults ec hs (d, st'))) (snd (merge_ec mults ec hs (d, st')))"
  using assms(1,5,6,7)
proof (induction hs arbitrary: d st')
  case (Cons h hs)
  have h: "h \<in> set missing" "\<not> got d h" "map_of mults h \<noteq> None" "h \<in> fst ` set d"
  proof -
    show "h \<in> set missing" "map_of mults h \<noteq> None" using Cons.prems(3) assms(4) by (auto simp: map_of_eq_None_iff)
    show "\<not> got d h" using Cons.prems(4) [of h] by (auto simp: is_exception_def got_def)
    show "h \<in> fst ` set d" using Cons.prems(1,3) by (auto simp: settled_def)
  qed
  have keep: "is_exception (map_of (AList.update h v d) x)" if "x \<in> set hs" for v x
    using that Cons.prems(2,4) by (auto simp: update_conv')
  show ?case
  proof (cases "map_of ec h")
    case None
    then show ?thesis using Cons.IH [OF Cons.prems(1)] Cons.prems by (simp add: Let_def)
  next
    case (Some v)
    show ?thesis
    proof (cases v)
      case (Inl x)
      have "sum_got mults missing (AList.update h (Inl ChunkUnavailableError) d) = sum_got mults missing d"
        using h(2) by (intro sum_got_cong) (auto simp: got_update)
      then have "settled e mults missing st (AList.update h (Inl ChunkUnavailableError) d)
          (st'\<lparr>rr_ec_recovery_failures := rr_ec_recovery_failures st' + (case map_of mults h of None \<Rightarrow> 1 | Some n \<Rightarrow> n)\<rparr>)"
        using Cons.prems(1) h(4) by (auto simp: settled_def tally_def keys_update distinct_update intro: authentic_update)
      then show ?thesis using Cons.IH Cons.prems keep Some Inl by (auto simp: Let_def)
    next
      case (Inr raw)
      have au: "authentic (fe_codec e) (AList.update h (Inr raw) d)"
        using Cons.prems(1) assms(2) Some Inr by (intro authentic_update) (auto simp: settled_def authentic_def)
      have "settled e mults missing st (AList.update h (Inr raw) d)
          (st'\<lparr>rr_chunks_from_ec := rr_chunks_from_ec st' + (case map_of mults h of None \<Rightarrow> 1 | Some n \<Rightarrow> n)\<rparr>)"
        using Cons.prems(1) h(3,4) au sum_got_step [OF assms(3) h(1,2), of mults raw]
        by (auto simp: settled_def tally_def keys_update multiplicity_of_def distinct_update)
      then show ?thesis using Cons.IH Cons.prems keep Some Inr by (auto simp: Let_def)
    qed
  qed
qed simp

lemma fetch_remaining_settled:
  assumes "distinct missing" "set missing \<subseteq> fst ` set mults" "fetch_remaining e mults missing s = (Inr d, s')"
  shows "settled e mults missing (fs_stats s) d (fs_stats s')"
proof -
  define step where "step = (if fe_remote_chunk_recovery e then fetch_missing_many_from_remote e mults missing
      else op_return (set_all (Inl ChunkUnavailableError) missing []))"
  obtain d0 s0 where r: "step s = (Inr d0, s0)"
    using assms(3) unfolding fetch_remaining_def step_def [symmetric] by (auto simp: op_bind_def split: prod.splits sum.splits)
  have ok: "settled e mults missing (fs_stats s) d0 (fs_stats s0)"
    using r fetch_missing_settled [OF assms(1,2)] settled_disabled by (auto simp: step_def op_return_def split: if_splits)
  show ?thesis
  proof (cases "fe_ec e")
    case None
    then show ?thesis using assms(3) r ok by (simp add: fetch_remaining_def step_def [symmetric] op_bind_def op_return_def)
  next
    case (Some svc)
    then have m: "recover_unresolved_with_ec e svc mults missing d0 s0 = (Inr d, s')"
      using assms(3) r by (simp add: fetch_remaining_def step_def [symmetric] op_bind_def)
    let ?un = "filter (\<lambda>h. is_exception (map_of d0 h)) missing"
    show ?thesis
    proof (cases "?un = []")
      case True
      then show ?thesis using m ok by (simp add: recover_unresolved_with_ec_def)
    next
      case False
      then obtain ec r where e: "recover_many_raw_chunks (fe_codec e) svc ?un (fs_repo s0) = (Inr ec, r)"
        "d = fst (merge_ec mults ec ?un (d0, fs_stats s0))" "fs_stats s' = snd (merge_ec mults ec ?un (d0, fs_stats s0))"
        using m by (auto simp: recover_unresolved_with_ec_def Let_def simp del: filter_empty_conv split: prod.splits sum.splits)
      show ?thesis unfolding e(2,3)
        by (rule merge_ec_settled [OF ok recover_many_authentic [OF e(1)] assms(1,2)]) (use assms(1) in auto)
    qed
  qed
qed


lemma multiplicity_loop_props:
  assumes "distinct (map fst m)"
  shows "distinct (map fst (multiplicity_loop m hs))" "fst ` set (multiplicity_loop m hs) = fst ` set m \<union> set hs"
    "sum_list (map snd (multiplicity_loop m hs)) = sum_list (map snd m) + int (length hs)"
proof -
  have upd: "sum_list (map snd (AList.update h ((case map_of m h of None \<Rightarrow> 0 | Some n \<Rightarrow> n) + 1) m)) = sum_list (map snd m) + 1"
    if "distinct (map fst m)" for m :: "(string \<times> int) list" and h
    using that by (induction m) auto
  have "distinct (map fst (multiplicity_loop m hs)) \<and> fst ` set (multiplicity_loop m hs) = fst ` set m \<union> set hs
      \<and> sum_list (map snd (multiplicity_loop m hs)) = sum_list (map snd m) + int (length hs)"
    using assms
  proof (induction hs arbitrary: m)
    case (Cons h hs)
    let ?m = "AList.update h ((case map_of m h of None \<Rightarrow> 0 | Some n \<Rightarrow> n) + 1) m"
    have "distinct (map fst ?m)" using Cons.prems by (rule distinct_update)
    from Cons.IH [OF this] show ?case using upd [OF Cons.prems, of h] by (simp add: keys_update)
  qed simp
  then show "distinct (map fst (multiplicity_loop m hs))" "fst ` set (multiplicity_loop m hs) = fst ` set m \<union> set hs"
    "sum_list (map snd (multiplicity_loop m hs)) = sum_list (map snd m) + int (length hs)" by auto
qed

lemma fetch_local_step:
  assumes "fetch_local e reps h s = (found, s')"
  shows "tally (fs_stats s') = tally (fs_stats s) + (if found = None then 0 else reps)"
    "rr_chunks_requested (fs_stats s') = rr_chunks_requested (fs_stats s)" "rr_chunks_failed (fs_stats s') = rr_chunks_failed (fs_stats s)"
    "found = Some raw \<Longrightarrow> blake3_hex (fe_codec e) raw = h"
proof -
  have "tally (fs_stats s') = tally (fs_stats s) + (if found = None then 0 else reps)
      \<and> rr_chunks_requested (fs_stats s') = rr_chunks_requested (fs_stats s) \<and> rr_chunks_failed (fs_stats s') = rr_chunks_failed (fs_stats s)
      \<and> (found = Some raw \<longrightarrow> blake3_hex (fe_codec e) raw = h)"
    using assms by (auto simp: fetch_local_def tally_def dest: get_authentic validate_authentic
        split: prod.splits sum.splits option.splits)
  then show "tally (fs_stats s') = tally (fs_stats s) + (if found = None then 0 else reps)"
    "rr_chunks_requested (fs_stats s') = rr_chunks_requested (fs_stats s)" "rr_chunks_failed (fs_stats s') = rr_chunks_failed (fs_stats s)"
    "found = Some raw \<Longrightarrow> blake3_hex (fe_codec e) raw = h" by auto
qed

text \<open>The local stage splits the requested hashes into found and missing ones.\<close>

lemma fetch_local_all_splits:
  assumes "distinct (map fst mults)" "fetch_local_all e mults s = ((results, missing), s')"
  shows "distinct missing \<and> set missing \<inter> fst ` set results = {} \<and> set missing \<union> fst ` set results = fst ` set mults
    \<and> authentic (fe_codec e) results \<and> (\<forall>h \<in> fst ` set results. got results h)
    \<and> tally (fs_stats s') + sum_list (map (multiplicity_of mults) missing) = tally (fs_stats s) + sum_list (map snd mults)
    \<and> rr_chunks_requested (fs_stats s') = rr_chunks_requested (fs_stats s) \<and> rr_chunks_failed (fs_stats s') = rr_chunks_failed (fs_stats s)"
  using assms
proof (induction mults arbitrary: s results missing)
  case (Cons m mults)
  obtain h n where m: "m = (h, n)" by (cases m)
  obtain found s1 where f: "fetch_local e n h s = (found, s1)" by fastforce
  obtain results1 missing1 where l: "fetch_local_all e mults s1 = ((results1, missing1), s')"
    using Cons.prems(2) m f by (auto split: prod.splits option.splits)
  note ih = Cons.IH [OF _ l]
  note step = fetch_local_step [OF f]
  have h: "h \<notin> fst ` set mults" using Cons.prems(1) m by simp
  have other: "map (multiplicity_of (m # mults)) missing1 = map (multiplicity_of mults) missing1"
    using ih Cons.prems(1) h m by (intro map_cong) (auto simp: multiplicity_of_def)
  have osum: "sum_list (map (multiplicity_of (m # mults)) missing1) = sum_list (map (multiplicity_of mults) missing1)"
    unfolding other by simp
  show ?case
  proof (cases found)
    case None
    then have rm: "results = results1" "missing = h # missing1" using Cons.prems(2) m f l by auto
    have "multiplicity_of (m # mults) h = n" by (simp add: multiplicity_of_def m)
    then show ?thesis unfolding rm using ih Cons.prems(1) h m None step(1-3) osum by auto
  next
    case (Some raw)
    then have rm: "results = (h, Inr raw) # results1" "missing = missing1" using Cons.prems(2) m f l by auto
    have "authentic (fe_codec e) results" using ih Cons.prems(1) m step(4) [OF Some] by (auto simp: rm authentic_def)
    moreover have "\<forall>k \<in> fst ` set results. got results k" using ih Cons.prems(1) m by (auto simp: rm got_def)
    ultimately show ?thesis using ih Cons.prems(1) h m Some step(1-3) osum rm by auto
  qed
qed simp

lemma authentic_dict_update:
  assumes "authentic z d" "authentic z d'" "distinct (map fst d')"
  shows "authentic z (dict_update d d')"
  using assms
proof (induction d' arbitrary: d)
  case (Cons p d')
  obtain k v where p: "p = (k, v)" by (cases p)
  have "map_of d' k = None" using Cons.prems(3) p by (simp add: map_of_eq_None_iff)
  then have "authentic z d'" using Cons.prems(2) p unfolding authentic_def by (metis map_of_Cons_code(2) option.distinct(1))
  moreover have "authentic z (AList.update k v d)" using Cons.prems(1,2) p by (intro authentic_update) (auto simp: authentic_def)
  ultimately show ?case using Cons.IH [of "AList.update k v d"] Cons.prems(3) p by (simp add: dict_update_def)
qed (simp add: dict_update_def)

lemma fetch_many_authentic:
  assumes "fetch_many_raw_chunks e hs s = (Inr d, s')"
  shows "fst ` set d = set hs \<and> (\<forall>h b. map_of d h = Some (Inr b) \<longrightarrow> blake3_hex (fe_codec e) b = h)
    \<and> rr_chunks_requested (fs_stats s') = rr_chunks_requested (fs_stats s) + int (length hs)
    \<and> tally (fs_stats s') + rr_chunks_failed (fs_stats s') = tally (fs_stats s) + rr_chunks_failed (fs_stats s) + int (length hs)"
proof -
  define mults where "mults = multiplicity_loop [] hs"
  note ms = multiplicity_loop_props [of "[]" hs, folded mults_def, simplified]
  define s0 where "s0 = s\<lparr>fs_stats := (fs_stats s)\<lparr>rr_chunks_requested := rr_chunks_requested (fs_stats s) + int (length hs)\<rparr>\<rparr>"
  have s0: "tally (fs_stats s0) = tally (fs_stats s)" "rr_chunks_failed (fs_stats s0) = rr_chunks_failed (fs_stats s)"
    "rr_chunks_requested (fs_stats s0) = rr_chunks_requested (fs_stats s) + int (length hs)" by (simp_all add: s0_def tally_def)
  obtain results missing s1 where l: "fetch_local_all e mults s0 = ((results, missing), s1)" by (metis prod.collapse)
  note loc = fetch_local_all_splits [OF ms(1) l]
  show ?thesis
  proof (cases "missing = []")
    case True
    then have "d = results" "s' = s1" using assms l by (simp_all add: fetch_many_raw_chunks_def Let_def mults_def s0_def)
    then show ?thesis using loc True ms s0 by (auto simp: authentic_def)
  next
    case False
    then obtain remote s2 where r: "fetch_remaining e mults missing s1 = (Inr remote, s2)" "d = dict_update results remote"
      "s' = s2\<lparr>fs_stats := (fs_stats s2)\<lparr>rr_chunks_failed := rr_chunks_failed (fs_stats s2)
         + sum_list (map (multiplicity_of mults) (filter (\<lambda>h. is_exception (map_of remote h)) missing))\<rparr>\<rparr>"
      using assms l by (auto simp: fetch_many_raw_chunks_def Let_def mults_def s0_def op_bind_def count_failed_def op_modify_def op_return_def
          split: prod.splits sum.splits)
    have sub: "set missing \<subseteq> fst ` set mults" using loc by blast
    note se = fetch_remaining_settled [OF _ sub r(1)]
    have "settled e mults missing (fs_stats s1) remote (fs_stats s2)" using se loc by blast
    then have rem: "fst ` set remote = set missing" "authentic (fe_codec e) remote" "distinct (map fst remote)"
      "tally (fs_stats s2) = tally (fs_stats s1) + sum_got mults missing remote"
      "rr_chunks_requested (fs_stats s2) = rr_chunks_requested (fs_stats s1)" "rr_chunks_failed (fs_stats s2) = rr_chunks_failed (fs_stats s1)"
      by (auto simp: settled_def)
    have au: "authentic (fe_codec e) d" using loc rem r(2) by (simp add: authentic_dict_update)
    have keys: "fst ` set d = set hs" using loc rem(1) ms(2) r(2) by (auto simp: dict_update_keys)
    have "sum_got mults missing remote + sum_list (map (multiplicity_of mults) (filter (\<lambda>h. is_exception (map_of remote h)) missing))
        = sum_list (map (multiplicity_of mults) missing)"
      by (rule sum_got_failed) (simp add: rem(1))
    moreover have "tally (fs_stats s') = tally (fs_stats s2)" by (simp add: r(3) tally_def)
    ultimately show ?thesis using au keys loc rem ms(3) s0 by (auto simp: r(3) authentic_def)
  qed
qed

text \<open>C32. A restore is never fed foreign data and never loses count: whatever the local stores contain,
  whatever the remote nodes answer and in whichever order, every hash asked for gets a result and
  nothing else does, each result that is data has exactly the requested BLAKE3 hash, and the
  counters account for every request: it came from the local CAS, the node's CAS, a replica, a
  reconstructed data pack, or it failed.\<close>

theorem fetched_chunks_authentic:
  assumes "fetch_many_raw_chunks e hs s = (Inr d, s')"
  shows "fst ` set d = set hs \<and> (\<forall>h b. map_of d h = Some (Inr b) \<longrightarrow> blake3_hex (fe_codec e) b = h)
    \<and> rr_chunks_requested (fs_stats s') = rr_chunks_requested (fs_stats s) + int (length hs)
    \<and> tally (fs_stats s') + rr_chunks_failed (fs_stats s') = tally (fs_stats s) + rr_chunks_failed (fs_stats s) + int (length hs)"
  by (rule fetch_many_authentic [OF assms])

section \<open>Fetching leaves the item counters alone\<close>

definition item_counters :: "fetch_state \<Rightarrow> int \<times> int" where
  "item_counters s = (rr_processed_items (fs_stats s), rr_successful_items (fs_stats s))"

lemma fetch_local_items: "item_counters (snd (fetch_local e reps h s)) = item_counters s"
  by (auto simp: fetch_local_def item_counters_def split: prod.split sum.split option.split)

lemma fetch_local_all_items: "item_counters (snd (fetch_local_all e mults s)) = item_counters s"
proof (induction e mults s rule: fetch_local_all.induct)
  case (2 e h reps hs s)
  obtain found s1 where f: "fetch_local e reps h s = (found, s1)" by fastforce
  obtain results missing s2 where l: "fetch_local_all e hs s1 = ((results, missing), s2)" by (metis prod.collapse)
  show ?case using 2 [OF f [symmetric]] fetch_local_items [of e reps h s] f l by (simp split: option.split)
qed simp

lemma accept_remote_items: "item_counters (rp_state (accept_remote e mults batch p h)) = item_counters (rp_state p)"
  by (auto simp: accept_remote_def Let_def item_counters_def split: option.split sum.split)

lemma consult_group_items: "item_counters (rp_state (consult_group e stub mults p g)) = item_counters (rp_state p)"
proof -
  have "item_counters (rp_state (foldl (accept_remote e mults batch) p hs)) = item_counters (rp_state p)" for batch hs
    by (induction hs arbitrary: p) (simp_all add: accept_remote_items)
  then show ?thesis by (auto simp: consult_group_def split: prod.split sum.split)
qed

lemma rank_rounds_items: "item_counters (rp_state (rank_rounds e stub mults targets p ranks)) = item_counters (rp_state p)"
proof -
  have g: "item_counters (rp_state (foldl (consult_group e stub mults) p gs)) = item_counters (rp_state p)" for p gs
    by (induction gs arbitrary: p) (simp_all add: consult_group_items)
  show ?thesis by (induction ranks arbitrary: p) (simp_all add: Let_def g)
qed

lemma fetch_missing_items: "item_counters (snd (fetch_missing_many_from_remote e mults missing s)) = item_counters s"
  by (auto simp: fetch_missing_many_from_remote_def Let_def rank_rounds_items split: option.split sum.split)

lemma merge_ec_items:
  "rr_processed_items (snd (merge_ec mults ec hs acc)) = rr_processed_items (snd acc)
   \<and> rr_successful_items (snd (merge_ec mults ec hs acc)) = rr_successful_items (snd acc)"
  by (induction mults ec hs acc rule: merge_ec.induct) (auto simp: Let_def split: option.split sum.split)

lemma recover_unresolved_items: "item_counters (snd (recover_unresolved_with_ec e svc mults missing d s)) = item_counters s"
proof -
  let ?un = "filter (\<lambda>h. is_exception (map_of d h)) missing"
  obtain x r where r: "recover_many_raw_chunks (fe_codec e) svc ?un (fs_repo s) = (x, r)" by fastforce
  show ?thesis
  proof (cases x)
    case (Inr ec)
    obtain d' st where m: "merge_ec mults ec ?un (d, fs_stats s) = (d', st)" by fastforce
    show ?thesis using merge_ec_items [of mults ec ?un "(d, fs_stats s)"] m r Inr
      by (simp add: recover_unresolved_with_ec_def Let_def item_counters_def)
  qed (use r in \<open>simp add: recover_unresolved_with_ec_def Let_def item_counters_def\<close>)
qed

lemma fetch_many_items: "item_counters (snd (fetch_many_raw_chunks e hs s)) = item_counters s"
proof -
  have rem: "item_counters (snd (fetch_remaining e mults missing s)) = item_counters s" for mults missing s
  proof -
    obtain x t where "(if fe_remote_chunk_recovery e then fetch_missing_many_from_remote e mults missing
        else op_return (set_all (Inl ChunkUnavailableError) missing [])) s = (x, t)" by fastforce
    moreover from this have "item_counters t = item_counters s"
      using fetch_missing_items [of e mults missing s] by (auto simp: op_return_def split: if_splits)
    ultimately show ?thesis
      by (cases x) (simp_all add: fetch_remaining_def op_bind_def op_return_def recover_unresolved_items split: option.split)
  qed
  define s0 where "s0 = s\<lparr>fs_stats := (fs_stats s)\<lparr>rr_chunks_requested := rr_chunks_requested (fs_stats s) + int (length hs)\<rparr>\<rparr>"
  obtain results missing s1 where l: "fetch_local_all e (multiplicity_loop [] hs) s0 = ((results, missing), s1)" by (metis prod.collapse)
  have s1: "item_counters s1 = item_counters s"
    using fetch_local_all_items [of e "multiplicity_loop [] hs" s0] l by (simp add: s0_def item_counters_def)
  obtain y s2 where r: "fetch_remaining e (multiplicity_loop [] hs) missing s1 = (y, s2)" by fastforce
  then have "item_counters s2 = item_counters s" using rem [of "multiplicity_loop [] hs" missing s1] s1 by simp
  then show ?thesis using l r s1
    by (cases y) (auto simp: fetch_many_raw_chunks_def Let_def s0_def op_bind_def count_failed_def op_modify_def op_return_def item_counters_def)
qed

section \<open>One honest replica suffices\<close>

text \<open>The node at \<open>addr\<close> answers every batch that asks for \<open>h\<close> with a valid blob of it; what it answers
  for other hashes, and what any other node answers, is left open.\<close>

definition serves :: "fetch_env \<Rightarrow> (string \<Rightarrow> string list \<Rightarrow> retrieved_chunk list result) \<Rightarrow> string \<Rightarrow> string \<Rightarrow> bool" where
  "serves e stub addr h \<longleftrightarrow> (\<forall>hs. h \<in> set hs \<longrightarrow> (\<exists>items. stub addr hs = Inr items \<and> h \<in> rv_chunk_hash ` set items
     \<and> (\<forall>i \<in> set items. rv_chunk_hash i = h \<longrightarrow> rv_status i = RETRIEVE_STATUS_FOUND
          \<and> (\<exists>raw. validate_compressed_chunk e h (rv_chunk_data i) = Inr raw))))"

lemma fill_missing_keeps: "h \<in> fst ` set d \<Longrightarrow> map_of (fill_missing absent keys d) h = map_of d h"
proof (induction keys arbitrary: d)
  case (Cons k keys)
  have "fill_missing absent (k # keys) d = fill_missing absent keys (if k \<in> fst ` set d then d else AList.update k (absent k) d)"
    by (simp add: fill_missing_def)
  then show ?case using Cons.IH [of "if k \<in> fst ` set d then d else AList.update k (absent k) d"] Cons.prems
    by (auto simp: keys_update update_conv')
qed (simp add: fill_missing_def)

lemma serves_batch:
  assumes "serves e stub addr h" "h \<noteq> []" "h \<in> set hs"
  shows "\<exists>batch item raw. retrieve_chunk_batch too_large stub addr hs = Inr batch \<and> map_of batch h = Some item
    \<and> rv_status item = RETRIEVE_STATUS_FOUND \<and> validate_compressed_chunk e h (rv_chunk_data item) = Inr raw"
proof -
  have h: "h \<in> set (ordered_unique hs)" using assms(3) by simp
  then obtain items where i: "stub addr (ordered_unique hs) = Inr items" "h \<in> rv_chunk_hash ` set items"
    "\<forall>i \<in> set items. rv_chunk_hash i = h \<longrightarrow> rv_status i = RETRIEVE_STATUS_FOUND \<and> (\<exists>raw. validate_compressed_chunk e h (rv_chunk_data i) = Inr raw)"
    using assms(1) unfolding serves_def by blast
  define ps where "ps = map (\<lambda>i. (rv_chunk_hash i, i)) (filter (\<lambda>i. rv_chunk_hash i \<noteq> []) items)"
  have k: "h \<in> fst ` set (dict_of ps)"
    using i(2) assms(2) keys_dict_of [of ps] by (auto simp: ps_def image_iff)
  then obtain item where it: "map_of (dict_of ps) h = Some item" by (metis map_of_eq_None_iff option.exhaust)
  then have "(h, item) \<in> set ps" using set_dict_of by (metis map_of_SomeD subsetD)
  then have ok: "item \<in> set items" "rv_chunk_hash item = h" by (auto simp: ps_def)
  let ?d = "fill_missing (\<lambda>h. \<lparr>rv_chunk_hash = h, rv_status = RETRIEVE_STATUS_ERROR, rv_chunk_data = []\<rparr>) (ordered_unique hs) (dict_of ps)"
  have ne: "ordered_unique hs \<noteq> []" using h by (metis empty_iff empty_set)
  have once: "retrieve_chunk_batch_once stub addr (ordered_unique hs) = Inr ?d"
    using ne i(1) by (simp add: retrieve_chunk_batch_once_def ps_def)
  have "retrieve_chunk_batch too_large stub addr hs = Inr ?d"
    using ne once by (simp add: retrieve_chunk_batch_def Let_def run_adaptive_batch_call.simps [of _ _ "ordered_unique hs"])
  moreover have "map_of ?d h = Some item" using fill_missing_keeps [OF k] it by simp
  ultimately show ?thesis using i(3) ok by blast
qed

text \<open>\<open>pending\<close>: a hash that has targets is either unresolved or obtained, at every point of the loop.\<close>

definition pending :: "string \<Rightarrow> remote_progress \<Rightarrow> bool" where
  "pending h p \<longleftrightarrow> h \<in> set (rp_unresolved p) \<or> got (rp_results p) h"

lemma accept_remote_pending: "pending h p \<Longrightarrow> pending h (accept_remote e mults batch p k)"
  by (auto simp: pending_def accept_remote_def Let_def got_update split: option.splits sum.splits)

lemma accept_remote_shrinks: "h \<notin> set (rp_unresolved p) \<Longrightarrow> h \<notin> set (rp_unresolved (accept_remote e mults batch p k))"
  by (auto simp: accept_remote_def Let_def split: option.splits sum.splits)

lemma accept_all:
  "pending h p \<Longrightarrow> pending h (foldl (accept_remote e mults batch) p hs)"
  "h \<notin> set (rp_unresolved p) \<Longrightarrow> h \<notin> set (rp_unresolved (foldl (accept_remote e mults batch) p hs))"
  by (induction hs arbitrary: p) (auto simp: accept_remote_pending accept_remote_shrinks)

lemma consult_group_pending:
  "pending h p \<Longrightarrow> pending h (consult_group e stub mults p g)"
  "h \<notin> set (rp_unresolved p) \<Longrightarrow> h \<notin> set (rp_unresolved (consult_group e stub mults p g))"
  by (auto simp: consult_group_def accept_all split: prod.splits sum.splits)

lemma consult_all:
  "pending h p \<Longrightarrow> pending h (foldl (consult_group e stub mults) p gs)"
  "h \<notin> set (rp_unresolved p) \<Longrightarrow> h \<notin> set (rp_unresolved (foldl (consult_group e stub mults) p gs))"
  by (induction gs arbitrary: p) (auto simp: consult_group_pending)

lemma consult_group_resolves:
  assumes "serves e stub addr h" "h \<noteq> []" "h \<in> set hs"
  shows "h \<notin> set (rp_unresolved (consult_group e stub mults p (addr, hs)))"
proof -
  obtain batch item raw where b: "retrieve_chunk_batch (fe_too_large e) stub addr hs = Inr batch" "map_of batch h = Some item"
    "rv_status item = RETRIEVE_STATUS_FOUND" "validate_compressed_chunk e h (rv_chunk_data item) = Inr raw"
    using serves_batch [OF assms] by blast
  obtain as bs where hs: "hs = as @ h # bs" using assms(3) by (metis in_set_conv_decomp)
  define q where "q = foldl (accept_remote e mults batch) p as"
  have "h \<notin> set (rp_unresolved (accept_remote e mults batch q h))" using b(2-4) by (simp add: accept_remote_def Let_def)
  then have "h \<notin> set (rp_unresolved (foldl (accept_remote e mults batch) (accept_remote e mults batch q h) bs))"
    by (rule accept_all)
  then show ?thesis using b(1) by (simp add: consult_group_def hs q_def)
qed

lemma group_rank_member:
  assumes "h \<in> set hs \<and> rank < length (targets h) \<and> a = address (targets h ! rank)
      \<or> (\<exists>gs. map_of groups a = Some gs \<and> h \<in> set gs)"
  shows "\<exists>gs. map_of (group_rank targets rank groups hs) a = Some gs \<and> h \<in> set gs"
  using assms
proof (induction hs arbitrary: groups)
  case (Cons k hs)
  show ?case
  proof (cases "length (targets k) \<le> rank")
    case False
    have "h \<in> set hs \<and> rank < length (targets h) \<and> a = address (targets h ! rank)
        \<or> (\<exists>gs. map_of (dict_append (address (targets k ! rank)) k groups) a = Some gs \<and> h \<in> set gs)"
      using Cons.prems by (auto simp: dict_append_simps)
    from Cons.IH [OF this] show ?thesis using False by simp
  qed (use Cons in auto)
qed simp

lemma rank_rounds_resolves:
  assumes "serves e stub (address (targets h ! r)) h" "h \<noteq> []" "r < length (targets h)"
    and "\<And>xs. set (fe_shuffle e xs) = set xs" "\<And>gs. set (fe_completion e gs) = set gs"
    and "sorted ranks" "r \<in> set ranks"
  shows "h \<notin> set (rp_unresolved (rank_rounds e stub mults targets p ranks))"
  using assms(6,7)
proof (induction ranks arbitrary: p)
  case (Cons x ranks)
  have gone: "h \<notin> set (rp_unresolved p) \<Longrightarrow> h \<notin> set (rp_unresolved (rank_rounds e stub mults targets p ranks))" for p ranks
  proof (induction ranks arbitrary: p)
    case (Cons y ranks)
    then show ?case by (simp add: Let_def consult_all)
  qed simp
  show ?case
  proof (cases "h \<in> set (rp_unresolved p)")
    case True
    let ?groups = "group_rank targets x [] (fe_shuffle e (rp_unresolved p))"
    have "x \<le> r" using Cons.prems by auto
    then obtain gs where g: "map_of ?groups (address (targets h ! x)) = Some gs" "h \<in> set gs"
      using group_rank_member [of h "fe_shuffle e (rp_unresolved p)" x targets "address (targets h ! x)" "[]"] True assms(3,4) by auto
    then have ne: "?groups \<noteq> []" by auto
    define q where "q = foldl (consult_group e stub mults) p (fe_completion e ?groups)"
    have run: "rank_rounds e stub mults targets p (x # ranks) = rank_rounds e stub mults targets q ranks"
      using True ne by (auto simp: q_def Let_def)
    show ?thesis
    proof (cases "x = r")
      case eq: True
      have "(address (targets h ! r), gs) \<in> set (fe_completion e ?groups)" using g(1) eq assms(5) by (simp add: map_of_SomeD)
      then obtain as bs where ab: "fe_completion e ?groups = as @ (address (targets h ! r), gs) # bs" by (metis in_set_conv_decomp)
      have "h \<notin> set (rp_unresolved q)" unfolding q_def ab foldl_append foldl_Cons
        by (rule consult_all(2), rule consult_group_resolves [OF assms(1,2) g(2)])
      then show ?thesis unfolding run by (rule gone)
    next
      case False
      then show ?thesis unfolding run using Cons by auto
    qed
  qed (rule gone)
qed simp

lemma rank_rounds_pending: "pending h p \<Longrightarrow> pending h (rank_rounds e stub mults targets p ranks)"
proof (induction ranks arbitrary: p)
  case (Cons x ranks)
  then show ?case by (simp add: Let_def consult_all)
qed simp


lemma max_depth_bound: "n \<in> set ns \<Longrightarrow> n \<le> max_depth ns"
  by (induction ns) (auto simp: max_depth_def)

lemma remote_resolves:
  assumes "serves e stub (address m) h" "h \<noteq> []" "h \<in> set missing" "fe_rf e \<noteq> 0"
    and "fe_cluster e = Some (Inr cluster, origin)" "fe_stub e = Some stub"
    and m: "m \<in> set (hrw_targets_excluding (fe_digest e) cluster h (fe_rf e) (fe_cluster_token e) {origin})"
    and order: "\<And>xs. set (fe_shuffle e xs) = set xs" "\<And>gs. set (fe_completion e gs) = set gs"
  shows "\<exists>d s'. fetch_missing_many_from_remote e mults missing s = (Inr d, s') \<and> got d h"
proof -
  define targets where "targets = (\<lambda>h. hrw_targets_excluding (fe_digest e) cluster h (fe_rf e) (fe_cluster_token e) {origin})"
  define un where "un = filter (\<lambda>h. targets h \<noteq> []) missing"
  define start where "start = \<lparr>rp_results = set_all (Inl ChunkUnavailableError) (filter (\<lambda>h. targets h = []) missing) [],
       rp_unresolved = un, rp_state = s\<rparr>"
  define p where "p = rank_rounds e stub mults targets start [0..<max_depth (map (\<lambda>h. length (targets h)) un)]"
  obtain r where r: "r < length (targets h)" "targets h ! r = m" using m by (auto simp: targets_def in_set_conv_nth)
  have h: "h \<in> set un" using assms(3) r(1) by (auto simp: un_def)
  have "r < max_depth (map (\<lambda>h. length (targets h)) un)"
    using r(1) max_depth_bound [of "length (targets h)" "map (\<lambda>h. length (targets h)) un"] h by auto
  then have "h \<notin> set (rp_unresolved p)" unfolding p_def
    by (intro rank_rounds_resolves [where r = r]) (use assms(1,2) r order in auto)
  moreover have "pending h p" unfolding p_def by (rule rank_rounds_pending) (simp add: pending_def start_def h)
  ultimately have "got (set_all (Inl ChunkUnavailableError) (rp_unresolved p) (rp_results p)) h" by (simp add: set_all_got pending_def)
  moreover have "fetch_missing_many_from_remote e mults missing s
      = (Inr (set_all (Inl ChunkUnavailableError) (rp_unresolved p) (rp_results p)), rp_state p)"
    using assms(4-6) by (simp add: fetch_missing_many_from_remote_def Let_def p_def start_def un_def targets_def)
  ultimately show ?thesis by blast
qed

lemma merge_ec_keeps: "h \<notin> set hs \<Longrightarrow> map_of (fst (merge_ec mults ec hs acc)) h = map_of (fst acc) h"
  by (induction mults ec hs acc rule: merge_ec.induct) (auto simp: Let_def update_conv' split: option.split sum.split)

lemma recover_many_returns:
  assumes "list_all is_hex64 hs"
  shows "\<exists>d r'. recover_many_raw_chunks z svc hs r = (Inr d, r')"
proof -
  have "db_require_hash64 h = Inr h" if "h \<in> set hs" for h
    using assms that is_hex64_no_strip by (auto simp: db_require_hash64_def list_all_iff)
  then have "mapE db_require_hash64 (ordered_unique hs) = Inr (ordered_unique hs)"
    by (simp add: mapE_eq_Inr list_all2_same)
  then obtain locations where "get_erasure_chunk_locations (es_tables svc) (ordered_unique hs) = Inr locations"
    by (cases "ordered_unique (ordered_unique hs) = []") (auto simp: get_erasure_chunk_locations_def unique_hashes_def)
  then show ?thesis
    by (auto simp: recover_many_raw_chunks_def Let_def op_bind_def op_lift_def op_return_def split: prod.splits)
qed

lemma remote_returns:
  assumes "fe_cluster e = Some (Inr cluster, origin)"
  shows "\<exists>d s'. fetch_missing_many_from_remote e mults missing s = (Inr d, s')"
  using assms by (cases "fe_stub e"; cases "fe_rf e = 0") (simp_all add: fetch_missing_many_from_remote_def Let_def)

lemma fetch_remaining_keeps:
  assumes "fe_remote_chunk_recovery e" "fetch_missing_many_from_remote e mults missing s = (Inr d0, s0)" "list_all is_hex64 missing"
  shows "\<exists>d s'. fetch_remaining e mults missing s = (Inr d, s') \<and> (\<forall>h. got d0 h \<longrightarrow> got d h)"
proof (cases "fe_ec e")
  case None
  then show ?thesis using assms by (simp add: fetch_remaining_def op_bind_def op_return_def)
next
  case (Some svc)
  let ?un = "filter (\<lambda>h. is_exception (map_of d0 h)) missing"
  have hex: "list_all is_hex64 ?un" using assms(3) by (auto simp: list_all_iff)
  obtain ec r where ec: "recover_many_raw_chunks (fe_codec e) svc ?un (fs_repo s0) = (Inr ec, r)"
    using recover_many_returns [OF hex] by blast
  obtain d st where m: "merge_ec mults ec ?un (d0, fs_stats s0) = (d, st)" by fastforce
  have keep: "got d h" if "got d0 h" for h
  proof -
    have "h \<notin> set ?un" using that by (auto simp: got_def is_exception_def)
    from merge_ec_keeps [OF this, of mults ec "(d0, fs_stats s0)"] show ?thesis using that m by (simp add: got_def)
  qed
  have "fetch_remaining e mults missing s = recover_unresolved_with_ec e svc mults missing d0 s0"
    using assms(1,2) Some by (simp add: fetch_remaining_def op_bind_def)
  then show ?thesis using keep ec m
    by (cases "?un = []") (simp_all add: recover_unresolved_with_ec_def Let_def del: filter_empty_conv)
qed

lemma dict_update_other: "h \<notin> fst ` set d' \<Longrightarrow> map_of (dict_update x d') h = map_of x h"
  by (induction d' arbitrary: x) (auto simp: dict_update_def update_conv')

lemma got_dict_update:
  assumes "got d' h" "distinct (map fst d')"
  shows "got (dict_update d d') h"
  using assms
proof (induction d' arbitrary: d)
  case (Cons p d')
  obtain k v where p: "p = (k, v)" by (cases p)
  have run: "dict_update d (p # d') = dict_update (AList.update k v d) d'" by (simp add: dict_update_def p)
  show ?case
  proof (cases "h = k")
    case True
    then have "h \<notin> fst ` set d'" using Cons.prems(2) p by auto
    then show ?thesis unfolding run using dict_update_other [of h d' "AList.update k v d"] Cons.prems(1) p True by (auto simp: got_def update_conv')
  next
    case False
    then show ?thesis unfolding run using Cons p by (auto simp: got_def)
  qed
qed simp

text \<open>One honest replica is enough: a requested chunk for which one of its placement targets serves a valid blob is
  obtained, with its exact hash, whatever the local stores and all other nodes do, in whichever order answers arrive.\<close>

lemma honest_replica_restores:
  assumes "serves e stub (address m) h" "h \<in> set hs" "list_all is_hex64 hs"
    and "fe_remote_chunk_recovery e" "fe_rf e \<noteq> 0" "fe_cluster e = Some (Inr cluster, origin)" "fe_stub e = Some stub"
    and "m \<in> set (hrw_targets_excluding (fe_digest e) cluster h (fe_rf e) (fe_cluster_token e) {origin})"
    and "\<And>xs. set (fe_shuffle e xs) = set xs" "\<And>gs. set (fe_completion e gs) = set gs"
  shows "\<exists>d s' raw. fetch_many_raw_chunks e hs s = (Inr d, s') \<and> map_of d h = Some (Inr raw) \<and> blake3_hex (fe_codec e) raw = h"
proof -
  define mults where "mults = multiplicity_loop [] hs"
  note ms = multiplicity_loop_props [of "[]" hs, folded mults_def, simplified]
  define s0 where "s0 = s\<lparr>fs_stats := (fs_stats s)\<lparr>rr_chunks_requested := rr_chunks_requested (fs_stats s) + int (length hs)\<rparr>\<rparr>"
  obtain results missing s1 where l: "fetch_local_all e mults s0 = ((results, missing), s1)" by (metis prod.collapse)
  note loc = fetch_local_all_splits [OF ms(1) l]
  have sub: "set missing \<subseteq> fst ` set mults" "set missing \<subseteq> set hs" using loc ms(2) by auto
  have run: "fetch_many_raw_chunks e hs s = (if missing = [] then (Inr results, s1)
      else op_bind (fetch_remaining e mults missing) (\<lambda>remote.
             op_bind (count_failed mults missing remote) (\<lambda>_. op_return (dict_update results remote))) s1)"
    using l by (simp add: fetch_many_raw_chunks_def Let_def mults_def s0_def)
  have hex: "list_all is_hex64 missing" using assms(3) sub(2) by (auto simp: list_all_iff)
  have "\<exists>d s'. fetch_many_raw_chunks e hs s = (Inr d, s') \<and> got d h"
  proof (cases "missing = []")
    case True
    then have "h \<in> fst ` set results" using loc ms(2) assms(2) by auto
    then have "got results h" using loc by blast
    then show ?thesis using run True by simp
  next
    case False
    have "\<exists>d0 s2. fetch_missing_many_from_remote e mults missing s1 = (Inr d0, s2) \<and> (h \<in> set missing \<longrightarrow> got d0 h)"
    proof (cases "h \<in> set missing")
      case True
      have "h \<noteq> []" using assms(2,3) is_hex64_nonempty by (auto simp: list_all_iff)
      from remote_resolves [OF assms(1) this True assms(5-10)] show ?thesis by blast
    qed (use remote_returns [OF assms(6)] in blast)
    then obtain d0 s2 remote s3 where r: "fetch_remaining e mults missing s1 = (Inr remote, s3)" "h \<in> set missing \<longrightarrow> got remote h"
      using fetch_remaining_keeps [OF assms(4) _ hex] by metis
    have se: "settled e mults missing (fs_stats s1) remote (fs_stats s3)" using fetch_remaining_settled [OF _ sub(1) r(1)] loc by blast
    have "got (dict_update results remote) h"
    proof (cases "h \<in> set missing")
      case True
      then show ?thesis using r(2) se by (intro got_dict_update) (auto simp: settled_def)
    next
      case False
      then have "got results h" "h \<notin> fst ` set remote" using loc ms(2) assms(2) se by (auto simp: settled_def)
      then show ?thesis by (simp add: got_def dict_update_other)
    qed
    then show ?thesis using run False r(1) by (simp add: op_bind_def count_failed_def op_modify_def op_return_def)
  qed
  then obtain d s' raw where f: "fetch_many_raw_chunks e hs s = (Inr d, s')" "map_of d h = Some (Inr raw)" by (auto simp: got_def)
  then show ?thesis using fetch_many_authentic [OF f(1)] by blast
qed

text \<open>A cluster of one remote node that answers every request with the same blob.\<close>

definition demo_fetch_env :: fetch_env where
  "demo_fetch_env = \<lparr>fe_codec = demo_codec, fe_digest = (\<lambda>_. [1, 2]), fe_rf = 1, fe_cluster_token = ''t'', fe_max_chunk_size = 9,
     fe_cluster = Some (Inr \<lparr>self_node_id = None, members = [\<lparr>node_id = ''n'', address = ''x''\<rparr>]\<rparr>, ''o''),
     fe_stub = Some (\<lambda>addr hs. Inr (map (\<lambda>h. \<lparr>rv_chunk_hash = h, rv_status = RETRIEVE_STATUS_FOUND, rv_chunk_data = [7]\<rparr>) hs)),
     fe_too_large = (\<lambda>_. False), fe_remote_chunk_recovery = True, fe_ec = None, fe_shuffle = id, fe_completion = id\<rparr>"

definition demo_stats :: restore_run_stats where
  "demo_stats = \<lparr>rr_processed_items = 0, rr_successful_items = 0, rr_directories_created = 0, rr_files_restored = 0, rr_files_failed = 0,
     rr_chunks_requested = 0, rr_chunks_from_local_cas = 0, rr_chunks_from_local_p2p_cas = 0, rr_chunks_from_remote_replication = 0,
     rr_chunks_from_ec = 0, rr_chunks_failed = 0, rr_remote_chunks_corrupt = 0, rr_ec_recovery_failures = 0, rr_files_reused = 0,
     rr_files_resumed = 0, rr_chunks_reused = 0, rr_bytes_reused = 0, rr_bytes_written = 0\<rparr>"

definition demo_fetch_state :: fetch_state where
  "demo_fetch_state = \<lparr>fs_repo = demo_cas (\<lambda>_. IO_ok), fs_p2p = None, fs_stats = demo_stats\<rparr>"

definition demo_hashes :: "string list" where
  "demo_hashes = [replicate 64 CHR ''a'', replicate 64 CHR ''b'', replicate 64 CHR ''a'']"

lemma demo_fetch:
  "fst (fetch_many_raw_chunks demo_fetch_env demo_hashes demo_fetch_state) =
     Inr [(replicate 64 CHR ''a'', Inr [7]), (replicate 64 CHR ''b'', Inl ChunkUnavailableError)]"
  by code_simp

theorem fetched_chunks_authentic_witness:
  "let s' = snd (fetch_many_raw_chunks demo_fetch_env demo_hashes demo_fetch_state) in
     tally (fs_stats s') + rr_chunks_failed (fs_stats s') = 3"
proof -
  obtain d s' where f: "fetch_many_raw_chunks demo_fetch_env demo_hashes demo_fetch_state = (Inr d, s')"
    using demo_fetch by (metis prod.collapse)
  show ?thesis using fetched_chunks_authentic [OF f] f by (simp add: demo_fetch_state_def demo_stats_def tally_def demo_hashes_def)
qed

section \<open>An answer may displace an honest shard\<close>

text \<open>
  Two data shards and one parity shard on three nodes. Every node returns the shard asked for; the
  last one adds a shard of the same pack with index 0 that nobody asked for, under the hash of its own
  data. It is sorted before the shard with index 1, so that two shards with index 0 are chosen.
\<close>

definition echo_digest :: "bytes \<Rightarrow> string" where
  "echo_digest b = replicate 63 CHR ''a'' @ [if b = [9] then CHR ''f'' else CHR ''a'']"

definition demo_ec_service :: ec_service where
  "demo_ec_service = \<lparr>es_tables = \<lparr>erasure_data_packs = [], erasure_data_pack_chunks = [], erasure_data_pack_shards = []\<rparr>,
     es_stub = (\<lambda>addr refs. Inr (map (\<lambda>r. (identity_key r, DATA_PACK_SHARD_RETRIEVE_STATUS_FOUND, [1])) refs @
        (if addr = ''z'' then [((replicate 64 CHR ''b'', 0, echo_digest [9]), DATA_PACK_SHARD_RETRIEVE_STATUS_FOUND, [9])] else []))),
     es_too_large = (\<lambda>_. False), es_zfec = None,
     es_cluster = Inr \<lparr>self_node_id = None, members = [\<lparr>node_id = ''n0'', address = ''x''\<rparr>, \<lparr>node_id = ''n1'', address = ''y''\<rparr>, \<lparr>node_id = ''n2'', address = ''z''\<rparr>]\<rparr>,
     es_completion = id, es_pack_completion = id\<rparr>"

definition demo_shard_rows :: "erasure_shard_row list" where
  "demo_shard_rows = map (\<lambda>(i, n). \<lparr>er_pack_hash = replicate 64 CHR ''b'', er_shard_index = i, er_shard_hash = echo_digest [1], er_node_id = n\<rparr>)
     [(0, ''n0''), (1, ''n1''), (2, ''n2'')]"

lemma unrequested_shard_displaces:
  "(case retrieve_pack_shards echo_digest demo_ec_service demo_shard_rows 2 of Inr ss \<Rightarrow> map ds_shard_index ss | Inl _ \<Rightarrow> []) = [0, 0]"
  by code_simp


end
