(* ===== verification/RestorePaths.thy ===== *)
theory RestorePaths
  imports Json
begin

text \<open>
  Safe paths of a restore: \<open>stopan.restore.paths\<close> on a POSIX platform.

  The directory being restored into is an absolute path without repeated slashes, given by its
  components; a path stored in the metadata is a string. \<open>normpath\<close> is the algorithm of
  \<open>posixpath.normpath\<close>; its result is the number of leading slashes and the components. What
  \<open>lstat\<close> and \<open>realpath\<close> say of the file system is a parameter.
\<close>

datatype file_kind = Regular | Directory | Redirection

record fs_view =
  lstat :: "string list \<Rightarrow> file_kind option result"
  realpath :: "string list \<Rightarrow> string list result"

section \<open>Normalisation\<close>

fun split_slash :: "string \<Rightarrow> string list" where
  "split_slash [] = [[]]"
| "split_slash (c # cs) =
     (if c = CHR ''/'' then [] # split_slash cs
      else case split_slash cs of [] \<Rightarrow> [[c]] | w # ws \<Rightarrow> (c # w) # ws)"

fun norm_loop :: "bool \<Rightarrow> string list \<Rightarrow> string list \<Rightarrow> string list" where
  "norm_loop rooted new_comps [] = new_comps"
| "norm_loop rooted new_comps (part # comps) =
     (if part = [] \<or> part = ''.'' then norm_loop rooted new_comps comps
      else if part \<noteq> ''..'' \<or> (\<not> rooted \<and> new_comps = []) \<or> (new_comps \<noteq> [] \<and> last new_comps = ''..'')
        then norm_loop rooted (new_comps @ [part]) comps
      else if new_comps \<noteq> [] then norm_loop rooted (butlast new_comps) comps
      else norm_loop rooted new_comps comps)"

definition initial_slashes :: "string \<Rightarrow> nat" where
  "initial_slashes p =
     (if take 1 p \<noteq> ''/'' then 0 else if take 2 p = ''//'' \<and> take 3 p \<noteq> ''///'' then 2 else 1)"

definition normpath :: "string \<Rightarrow> nat \<times> string list" where
  "normpath p = (initial_slashes p, norm_loop (initial_slashes p \<noteq> 0) [] (split_slash p))"

text \<open>\<open>os.path.abspath(os.path.join(base, rel))\<close> for an absolute base and a relative path.\<close>

definition abs_join :: "string list \<Rightarrow> string list \<Rightarrow> string list" where
  "abs_join base rel = norm_loop True [] (base @ rel)"

definition is_within :: "string list \<Rightarrow> string list \<Rightarrow> bool" where
  "is_within base candidate \<longleftrightarrow> prefix base candidate"

section \<open>The checks\<close>

definition validate_restore_root :: "fs_view \<Rightarrow> string list \<Rightarrow> string list result" where
  "validate_restore_root fs base =
     bindE (lstat fs base) (\<lambda>st. case st of
         None \<Rightarrow> Inl RestorePathError
       | Some k \<Rightarrow>
           if k = Redirection then Inl RestorePathError
           else if k \<noteq> Directory then Inl RestorePathError
           else Inr base)"

fun reject_redirections_loop :: "fs_view \<Rightarrow> string list \<Rightarrow> string list \<Rightarrow> unit result" where
  "reject_redirections_loop fs current [] = Inr ()"
| "reject_redirections_loop fs current (component # comps) =
     (if component = [] \<or> component = ''.'' then reject_redirections_loop fs current comps
      else case lstat fs (current @ [component]) of
        Inl _ \<Rightarrow> Inl RestorePathError
      | Inr None \<Rightarrow> Inr ()
      | Inr (Some k) \<Rightarrow>
          if k = Redirection then Inl RestorePathError
          else reject_redirections_loop fs (current @ [component]) comps)"

text \<open>\<open>os.path.relpath(full_path, base)\<close> of a path inside the base.\<close>

definition reject_existing_redirections :: "fs_view \<Rightarrow> string list \<Rightarrow> string list \<Rightarrow> unit result" where
  "reject_existing_redirections fs base full_path =
     (let relative = drop (length base) full_path in
      if relative = [] then Inr () else reject_redirections_loop fs base relative)"

definition safe_restore_path :: "fs_view \<Rightarrow> string list \<Rightarrow> string \<Rightarrow> string list result" where
  "safe_restore_path fs base rel_path =
     bindE (validate_restore_root fs base) (\<lambda>base_abs.
       case normpath rel_path of (slashes, comps) \<Rightarrow>
         if slashes \<noteq> 0 then Inl RestorePathError
         else let full_path = (if comps = [] then base_abs else abs_join base_abs comps) in
           if \<not> is_within base_abs full_path then Inl RestorePathError
           else bindE (reject_existing_redirections fs base_abs full_path) (\<lambda>_.
             case (realpath fs base_abs, realpath fs full_path) of
               (Inr base_real, Inr full_real) \<Rightarrow>
                 if is_within base_real full_real then Inr full_path else Inl RestorePathError
             | _ \<Rightarrow> Inl RestorePathError))"

text \<open>\<open>RestorePaths.for_snapshot\<close> and \<open>resume_file\<close>: the digest of the relative path names the partial.\<close>

record restore_paths =
  final_dir :: "string list"
  incomplete_dir :: "string list"
  resume_dir :: "string list"

definition for_snapshot :: "string list \<Rightarrow> string \<Rightarrow> restore_paths" where
  "for_snapshot base_output_dir snapshot_uuid =
     \<lparr>final_dir = base_output_dir @ [''snapshot_'' @ snapshot_uuid],
      incomplete_dir = base_output_dir @ [''snapshot_'' @ snapshot_uuid @ ''.incomplete''],
      resume_dir = base_output_dir @ [''snapshot_'' @ snapshot_uuid @ ''.incomplete'' @ ''.resume'']\<rparr>"

definition resume_file :: "(bytes \<Rightarrow> string) \<Rightarrow> restore_paths \<Rightarrow> string \<Rightarrow> string list" where
  "resume_file hx paths rel_path = resume_dir paths @ [hx (utf8_encode rel_path) @ ''.part'']"

section \<open>Normalised components\<close>

text \<open>A component a file name can have: not empty, no slash, neither \<open>.\<close> nor \<open>..\<close>.\<close>

definition plain :: "string \<Rightarrow> bool" where
  "plain c \<longleftrightarrow> c \<noteq> [] \<and> c \<noteq> ''.'' \<and> c \<noteq> ''..'' \<and> CHR ''/'' \<notin> set c"

lemma split_slash_no_slash: "w \<in> set (split_slash s) \<Longrightarrow> CHR ''/'' \<notin> set w"
  by (induction s arbitrary: w rule: split_slash.induct) (auto split: if_splits list.splits)

lemma norm_loop_rooted:
  assumes "list_all plain acc" "\<forall>c \<in> set comps. CHR ''/'' \<notin> set c"
  shows "list_all plain (norm_loop True acc comps)"
  using assms
proof (induction True acc comps rule: norm_loop.induct)
  case (2 acc part comps)
  have acc: "acc \<noteq> [] \<Longrightarrow> last acc \<noteq> ''..''" using 2(5) by (auto simp: list_all_iff plain_def)
  have "list_all plain (butlast acc)" using 2(5) by (auto simp: list_all_iff dest: in_set_butlastD)
  then show ?case using 2 acc by (auto simp: plain_def)
qed simp

text \<open>A relative path of plain components is kept as it is.\<close>

lemma norm_loop_plain: "list_all plain comps \<Longrightarrow> norm_loop rooted acc comps = acc @ comps"
  by (induction rooted acc comps rule: norm_loop.induct) (auto simp: plain_def)

lemma abs_join_plain:
  assumes "list_all plain base" "\<forall>c \<in> set rel. CHR ''/'' \<notin> set c"
  shows "list_all plain (abs_join base rel)"
  unfolding abs_join_def using assms by (intro norm_loop_rooted) (auto simp: plain_def list_all_iff)

lemma norm_loop_set: "set (norm_loop rooted acc comps) \<subseteq> set acc \<union> set comps"
proof (induction rooted acc comps rule: norm_loop.induct)
  case (2 rooted acc part comps)
  have "set (butlast acc) \<subseteq> set acc" by (auto dest: in_set_butlastD)
  then show ?case using 2 by (fastforce split: if_splits)
qed simp

text \<open>What the walk over the components establishes.\<close>

lemma reject_loop_ok:
  assumes "reject_redirections_loop fs current comps = Inr ()" "list_all plain comps"
    and "n < length comps" "\<forall>i \<le> n. lstat fs (current @ take (Suc i) comps) \<noteq> Inr None"
  shows "\<exists>k. lstat fs (current @ take (Suc n) comps) = Inr (Some k) \<and> k \<noteq> Redirection"
  using assms
proof (induction fs current comps arbitrary: n rule: reject_redirections_loop.induct)
  case (2 fs current component comps)
  have pl: "component \<noteq> []" "component \<noteq> ''.''" using "2.prems"(2) by (auto simp: plain_def)
  have "lstat fs (current @ [component]) \<noteq> Inr None" using "2.prems"(4) by (auto dest: spec [of _ 0])
  then obtain k where k: "lstat fs (current @ [component]) = Inr (Some k)" "k \<noteq> Redirection"
    using "2.prems"(1) pl by (auto split: sum.splits option.splits if_splits)
  show ?case
  proof (cases n)
    case 0
    then show ?thesis using k by simp
  next
    case (Suc m)
    have "reject_redirections_loop fs (current @ [component]) comps = Inr ()" using "2.prems"(1) pl k by auto
    moreover have "\<forall>i \<le> m. lstat fs ((current @ [component]) @ take (Suc i) comps) \<noteq> Inr None"
    proof (intro allI impI)
      fix i assume "i \<le> m"
      then show "lstat fs ((current @ [component]) @ take (Suc i) comps) \<noteq> Inr None" using "2.prems"(4) [rule_format, of "Suc i"] Suc by simp
    qed
    ultimately show ?thesis using "2.IH"(2) [of "Some k" k m] pl k "2.prems"(2,3) Suc by auto
  qed
qed simp

text \<open>C33. A restore cannot be made to write outside its tree: for any path text in the metadata, an
  accepted path is the base followed by plain components (no \<open>..\<close>, no \<open>.\<close>, no slash inside), no
  existing component on the way is a symbolic link or other redirection, and the canonical paths
  agree that it lies inside.\<close>

theorem restore_path_inside:
  assumes "list_all plain base" "safe_restore_path fs base rel_path = Inr p"
  shows "\<exists>comps. p = base @ comps \<and> list_all plain comps
    \<and> (\<forall>n < length comps. (\<forall>i \<le> n. lstat fs (base @ take (Suc i) comps) \<noteq> Inr None) \<longrightarrow>
         (\<exists>k. lstat fs (base @ take (Suc n) comps) = Inr (Some k) \<and> k \<noteq> Redirection))
    \<and> (\<exists>r r'. realpath fs base = Inr r \<and> realpath fs p = Inr r' \<and> prefix r r')"
proof -
  obtain slashes rel where n: "normpath rel_path = (slashes, rel)" by (cases "normpath rel_path")
  have rel: "\<forall>c \<in> set rel. CHR ''/'' \<notin> set c"
    using n norm_loop_set [of "initial_slashes rel_path \<noteq> 0" "[]" "split_slash rel_path"] split_slash_no_slash [of _ rel_path]
    by (auto simp: normpath_def)
  define full where "full = (if rel = [] then base else abs_join base rel)"
  have ok: "p = full" "is_within base full" "reject_existing_redirections fs base full = Inr ()"
    "\<exists>r r'. realpath fs base = Inr r \<and> realpath fs full = Inr r' \<and> prefix r r'"
    using assms(2) n by (auto simp: safe_restore_path_def bindE_eq_Inr validate_restore_root_def full_def is_within_def Let_def
        split: if_splits option.splits sum.splits)
  obtain comps where c: "full = base @ comps" using ok(2) by (auto simp: is_within_def prefix_def)
  have "list_all plain full" using assms(1) abs_join_plain [OF assms(1) rel] by (simp add: full_def)
  then have pl: "list_all plain comps" by (simp add: c)
  have "\<exists>k. lstat fs (base @ take (Suc n) comps) = Inr (Some k) \<and> k \<noteq> Redirection"
    if "n < length comps" "\<forall>i \<le> n. lstat fs (base @ take (Suc i) comps) \<noteq> Inr None" for n
    using ok(3) that by (intro reject_loop_ok [OF _ pl]) (auto simp: reject_existing_redirections_def c Let_def split: if_splits)
  then show ?thesis using ok c pl by blast
qed

text \<open>A view with one directory and no links.\<close>

definition demo_view_of :: "string list \<Rightarrow> fs_view" where
  "demo_view_of base = \<lparr>lstat = (\<lambda>p. Inr (if p = base then Some Directory else None)), realpath = Inr\<rparr>"

theorem restore_path_inside_witness:
  "safe_restore_path (demo_view_of [''r'']) [''r''] ''a/./b/../c'' = Inr [''r'', ''a'', ''c'']
   \<and> safe_restore_path (demo_view_of [''r'']) [''r''] ''a/../../etc'' = Inl RestorePathError
   \<and> (\<exists>comps. [''r'', ''a'', ''c''] = [''r''] @ comps \<and> list_all plain comps)"
proof -
  have a: "safe_restore_path (demo_view_of [''r'']) [''r''] ''a/./b/../c'' = Inr [''r'', ''a'', ''c'']" by code_simp
  have b: "safe_restore_path (demo_view_of [''r'']) [''r''] ''a/../../etc'' = Inl RestorePathError" by code_simp
  have "list_all plain [''r'']" by code_simp
  from restore_path_inside [OF this a] a b show ?thesis by auto
qed

text \<open>Paths as the scanner records them are accepted and kept literally.\<close>

lemma safe_restore_path_plain:
  assumes "list_all plain base" "lstat fs base = Inr (Some Directory)" "normpath rel = (0, comps)" "list_all plain comps"
    and "reject_redirections_loop fs base comps = Inr ()" "realpath fs base = Inr r" "realpath fs (base @ comps) = Inr (r @ r')"
  shows "safe_restore_path fs base rel = Inr (base @ comps)"
proof -
  have "abs_join base comps = base @ comps" unfolding abs_join_def
    using assms(1,4) norm_loop_plain [of "base @ comps" True "[]"] by simp
  then show ?thesis using assms by (simp add: safe_restore_path_def validate_restore_root_def is_within_def
        reject_existing_redirections_def Let_def bindE_def)
qed


end
