(* ===== verification/Restorer.thy ===== *)
theory Restorer
  imports Fetch RestorePaths
begin

text \<open>
  Rebuilding a snapshot on disk: \<open>stopan.restore.restorer\<close> with the recipe queries of
  \<open>stopan.metadata.database\<close> and the windows of \<open>stopan.restore.prefetcher\<close>.

  The state holds the regular files and the directories by absolute path, the partial of a file
  being a file in the resume directory. Permissions, times, locks and \<open>fsync\<close> are not represented. Every
  other call to the operating system succeeds or fails as \<open>io_ok\<close> says, and a write may fail after some
  of its bytes (\<open>write_fails\<close>). An interruption from the keyboard is not modelled.
\<close>

section \<open>Recipes (database.py)\<close>

record recipe_row =
  rc_recipe_id :: int
  rc_chunk_order :: int
  rc_chunk_hash :: string
  rc_chunk_size :: int

text \<open>\<open>recipes\<close> maps an id to chunk count and total size.\<close>

record restore_db =
  recipes :: "(int \<times> int \<times> int) list"
  recipe_chunks :: "recipe_row list"

type_synonym entry = "int \<times> string \<times> int"

definition get_recipe_restore_summary :: "restore_db \<Rightarrow> int \<Rightarrow> (int \<times> int) result" where
  "get_recipe_restore_summary db recipe_id =
     (case map_of (recipes db) recipe_id of
        None \<Rightarrow> Inl MetadataDatabaseValueError
      | Some (chunk_count, total_size) \<Rightarrow>
          if chunk_count < 0 \<or> total_size < 0 then Inl MetadataDatabaseError
          else if (chunk_count = 0) \<noteq> (total_size = 0) then Inl MetadataDatabaseError
          else Inr (chunk_count, total_size))"

text \<open>A generator is the list of what it yields and the exception it ends with, if any.\<close>

fun entry_stream :: "int \<Rightarrow> recipe_row list \<Rightarrow> entry list \<times> exn option" where
  "entry_stream expected_order [] = ([], None)"
| "entry_stream expected_order (row # rows) =
     (if rc_chunk_order row \<noteq> expected_order then ([], Some MetadataDatabaseError)
      else if rc_chunk_size row < 1 then ([], Some MetadataDatabaseError)
      else case entry_stream (expected_order + 1) rows of
             (es, exc) \<Rightarrow> ((rc_chunk_order row, rc_chunk_hash row, rc_chunk_size row) # es, exc))"

definition recipe_rows :: "restore_db \<Rightarrow> int \<Rightarrow> recipe_row list" where
  "recipe_rows db recipe_id = sort_key rc_chunk_order (filter (\<lambda>r. rc_recipe_id r = recipe_id) (recipe_chunks db))"

definition iter_recipe_chunk_entries :: "restore_db \<Rightarrow> int \<Rightarrow> int \<Rightarrow> entry list \<times> exn option" where
  "iter_recipe_chunk_entries db recipe_id start_order =
     (if start_order < 0 then ([], Some ValueError)
      else entry_stream start_order (filter (\<lambda>r. start_order \<le> rc_chunk_order r) (recipe_rows db recipe_id)))"

section \<open>One file\<close>

text \<open>The loop of \<open>_verify_resume_prefix\<close>: number of chunks and bytes that agree with the recipe.\<close>

fun verify_prefix_loop ::
    "(bytes \<Rightarrow> string) \<Rightarrow> bytes \<Rightarrow> int \<Rightarrow> int \<Rightarrow> int \<Rightarrow> entry list \<Rightarrow> exn option \<Rightarrow> (int \<times> int) result" where
  "verify_prefix_loop hx file expected n b [] exc = (case exc of None \<Rightarrow> Inr (n, b) | Some x \<Rightarrow> Inl x)"
| "verify_prefix_loop hx file expected n b ((ord, h, sz) # es) exc =
     (if ord \<noteq> n then Inl RestoreDataError
      else if b + sz > int (length file) then Inr (n, b)
      else if hx (py_slice file b (b + sz)) \<noteq> h then Inr (n, b)
      else if n + 1 = expected then Inr (n + 1, b + sz)
      else verify_prefix_loop hx file expected (n + 1) (b + sz) es exc)"

definition verify_resume_prefix ::
    "(bytes \<Rightarrow> string) \<Rightarrow> bytes \<Rightarrow> entry list \<times> exn option \<Rightarrow> int \<Rightarrow> int \<Rightarrow> (int \<times> int) result" where
  "verify_resume_prefix hx file stream expected_chunk_count expected_size =
     bindE (verify_prefix_loop hx file expected_chunk_count 0 0 (fst stream) (snd stream)) (\<lambda>(n, b).
       if n > expected_chunk_count \<or> b > expected_size then Inl RestoreDataError else Inr (n, b))"

text \<open>\<open>_validate_completed_file\<close> on the content of a regular file, if there is one.\<close>

fun validate_loop :: "(bytes \<Rightarrow> string) \<Rightarrow> bytes \<Rightarrow> int \<Rightarrow> int \<Rightarrow> entry list \<Rightarrow> exn option \<Rightarrow> (int \<times> int) option result" where
  "validate_loop hx file n b [] exc = (case exc of None \<Rightarrow> Inr (Some (n, b)) | Some x \<Rightarrow> Inl x)"
| "validate_loop hx file n b ((ord, h, sz) # es) exc =
     (if ord \<noteq> n then Inl RestoreDataError
      else let raw = py_slice file b (b + sz) in
        if int (length raw) \<noteq> sz then Inr None
        else if hx raw \<noteq> h then Inr None
        else validate_loop hx file (n + 1) (b + sz) es exc)"

definition validate_completed_file ::
    "(bytes \<Rightarrow> string) \<Rightarrow> bytes option \<Rightarrow> entry list \<times> exn option \<Rightarrow> int \<Rightarrow> int \<Rightarrow> bool result" where
  "validate_completed_file hx existing stream expected_chunk_count expected_size =
     (case existing of
        None \<Rightarrow> Inr False
      | Some file \<Rightarrow>
          if int (length file) \<noteq> expected_size then Inr False
          else bindE (validate_loop hx file 0 0 (fst stream) (snd stream)) (\<lambda>v. case v of
              None \<Rightarrow> Inr False
            | Some (n, b) \<Rightarrow>
                if n \<noteq> expected_chunk_count then Inl RestoreDataError
                else if b \<noteq> expected_size then Inl RestoreDataError
                else Inr (drop (nat b) file = [])))"

record file_work =
  fw_content :: bytes
  fw_next_order :: int
  fw_fetch :: fetch_state
  fw_write_fails :: "nat \<Rightarrow> nat option"
  fw_writes :: nat

definition update_stats :: "(restore_run_stats \<Rightarrow> restore_run_stats) \<Rightarrow> fetch_state \<Rightarrow> fetch_state" where
  "update_stats f s = s\<lparr>fs_stats := f (fs_stats s)\<rparr>"

definition write_record :: "int \<times> string \<times> int \<times> bytes \<Rightarrow> (file_work, unit) op" where
  "write_record r w = (case r of (chunk_order, chunk_hash, chunk_size, raw_chunk) \<Rightarrow>
     if chunk_order \<noteq> fw_next_order w then (Inl RestoreDataError, w)
     else if int (length raw_chunk) \<noteq> chunk_size then (Inl RestoreDataError, w)
     else case fw_write_fails w (fw_writes w) of
       Some n \<Rightarrow> (Inl OSError, w\<lparr>fw_content := fw_content w @ take n raw_chunk, fw_writes := Suc (fw_writes w)\<rparr>)
     | None \<Rightarrow> (Inr (), w\<lparr>fw_content := fw_content w @ raw_chunk, fw_next_order := fw_next_order w + 1,
         fw_fetch := update_stats (\<lambda>st. st\<lparr>rr_bytes_written := rr_bytes_written st + int (length raw_chunk)\<rparr>) (fw_fetch w),
         fw_writes := Suc (fw_writes w)\<rparr>))"

definition raise_opt :: "exn option \<Rightarrow> ('s, unit) op" where
  "raise_opt exc = (case exc of None \<Rightarrow> op_return () | Some x \<Rightarrow> op_raise x)"

definition process_window :: "fetch_env \<Rightarrow> entry list \<Rightarrow> (file_work, unit) op" where
  "process_window e recs w =
     (case flush_record_window e recs (fw_fetch w) of
        ((out, exc), f) \<Rightarrow> op_bind (op_iter write_record out) (\<lambda>_. raise_opt exc) (w\<lparr>fw_fetch := f\<rparr>))"

text \<open>The windows of \<open>iter_raw_chunk_records\<close>: when the records end with an exception the last
  window that is not full is never resolved.\<close>

definition stream_windows :: "int \<Rightarrow> entry list \<times> exn option \<Rightarrow> entry list list" where
  "stream_windows window stream =
     (let ws = iter_batches (fst stream) (max window 1) in
      if snd stream = None then ws else filter (\<lambda>b. max window 1 \<le> int (length b)) ws)"

definition copy_chunks :: "fetch_env \<Rightarrow> int \<Rightarrow> entry list \<times> exn option \<Rightarrow> (file_work, unit) op" where
  "copy_chunks e window stream =
     op_bind (op_iter (process_window e) (stream_windows window stream)) (\<lambda>_. raise_opt (snd stream))"

text \<open>The body of the \<open>with\<close> statement over the partial: verified prefix, missing chunks, final checks.\<close>

definition fill_partial :: "fetch_env \<Rightarrow> int \<Rightarrow> restore_db \<Rightarrow> bool \<Rightarrow> int \<Rightarrow> int \<Rightarrow> int \<Rightarrow> (file_work, unit) op" where
  "fill_partial e window db resume_existed recipe_id expected_chunk_count expected_size = op_read (\<lambda>w0.
     op_bind (op_lift (verify_resume_prefix (blake3_hex (fe_codec e)) (fw_content w0) (iter_recipe_chunk_entries db recipe_id 0)
                expected_chunk_count expected_size)) (\<lambda>(n, b).
     op_bind (op_modify (\<lambda>w. w\<lparr>fw_content := take (nat b) (fw_content w), fw_next_order := n,
                fw_fetch := update_stats (\<lambda>st. st\<lparr>rr_chunks_reused := rr_chunks_reused st + n, rr_bytes_reused := rr_bytes_reused st + b,
                  rr_files_resumed := rr_files_resumed st + (if resume_existed \<and> (n > 0 \<or> expected_chunk_count = 0) then 1 else 0)\<rparr>) (fw_fetch w)\<rparr>)) (\<lambda>_.
     op_bind (copy_chunks e window (iter_recipe_chunk_entries db recipe_id n)) (\<lambda>_. op_read (\<lambda>w.
       if fw_next_order w \<noteq> expected_chunk_count then op_raise RestoreDataError
       else if int (length (fw_content w)) \<noteq> expected_size then op_raise RestoreDataError
       else op_return ())))))"

section \<open>Items and publication\<close>

record snapshot_item =
  si_path :: string
  si_item_type :: string
  si_size :: int
  si_recipe_id :: "int option"

record restore_env =
  re_fetch :: fetch_env
  re_window :: int
  re_db :: restore_db
  re_fs :: fs_view

record restore_state =
  rt_files :: "string list \<Rightarrow> bytes option"
  rt_dirs :: "string list set"
  rt_prepared :: "string list set"
  rt_fetch :: fetch_state
  rt_write_fails :: "nat \<Rightarrow> nat option"
  rt_writes :: nat
  rt_io_ok :: "nat \<Rightarrow> bool"
  rt_calls :: nat

definition bump :: "(restore_run_stats \<Rightarrow> restore_run_stats) \<Rightarrow> (restore_state, unit) op" where
  "bump f = op_modify (\<lambda>t. t\<lparr>rt_fetch := update_stats f (rt_fetch t)\<rparr>)"

definition io_call :: "(restore_state, unit) op" where
  "io_call t = (if rt_io_ok t (rt_calls t) then Inr () else Inl OSError, t\<lparr>rt_calls := Suc (rt_calls t)\<rparr>)"

text \<open>\<open>os.makedirs(p, exist_ok=True)\<close> followed by the permissions of the directory.\<close>

definition make_dirs :: "string list \<Rightarrow> (restore_state, unit) op" where
  "make_dirs p = op_bind io_call (\<lambda>_. op_read (\<lambda>t.
     if list_ex (\<lambda>q. rt_files t q \<noteq> None) (prefixes p) then op_raise FileExistsError
     else op_modify (\<lambda>t. t\<lparr>rt_dirs := rt_dirs t \<union> set (prefixes p), rt_prepared := insert p (rt_prepared t)\<rparr>)))"

definition discard_resume_file :: "string list \<Rightarrow> (restore_state, unit) op" where
  "discard_resume_file p = op_read (\<lambda>t. if rt_files t p = None then op_return ()
     else op_bind io_call (\<lambda>_. op_modify (\<lambda>t. t\<lparr>rt_files := (rt_files t)(p := None)\<rparr>)))"

text \<open>The partial is opened, filled and left behind whatever happens.\<close>

definition with_resume_file :: "string list \<Rightarrow> (bool \<Rightarrow> (file_work, unit) op) \<Rightarrow> (restore_state, unit) op" where
  "with_resume_file p body = op_bind io_call (\<lambda>_ t.
     let w = \<lparr>fw_content = (case rt_files t p of None \<Rightarrow> [] | Some c \<Rightarrow> c), fw_next_order = 0, fw_fetch = rt_fetch t,
              fw_write_fails = rt_write_fails t, fw_writes = rt_writes t\<rparr>
     in case body (rt_files t p \<noteq> None) w of
          (r, w') \<Rightarrow> (r, t\<lparr>rt_files := (rt_files t)(p \<mapsto> fw_content w'), rt_fetch := fw_fetch w', rt_writes := fw_writes w'\<rparr>))"

text \<open>The first \<open>try\<close> of a file: \<open>True\<close> when the file in the tree is already complete.\<close>

definition prepare_file :: "restore_env \<Rightarrow> string list \<Rightarrow> string list \<Rightarrow> snapshot_item \<Rightarrow> (restore_state, bool) op" where
  "prepare_file env full_path resume_path item =
     (case si_recipe_id item of
        None \<Rightarrow> op_raise RestoreDataError
      | Some recipe_id \<Rightarrow>
          op_bind (op_lift (get_recipe_restore_summary (re_db env) recipe_id)) (\<lambda>(count, sz).
            if si_size item \<noteq> sz then op_raise RestoreDataError
            else op_bind (op_read (\<lambda>t. op_lift (validate_completed_file (blake3_hex (fe_codec (re_fetch env))) (rt_files t full_path)
                            (iter_recipe_chunk_entries (re_db env) recipe_id 0) count sz))) (\<lambda>complete.
              if complete then
                op_bind (discard_resume_file resume_path) (\<lambda>_.
                op_bind (bump (\<lambda>st. st\<lparr>rr_files_reused := rr_files_reused st + 1, rr_files_restored := rr_files_restored st + 1,
                    rr_chunks_reused := rr_chunks_reused st + count, rr_bytes_reused := rr_bytes_reused st + sz,
                    rr_successful_items := rr_successful_items st + 1\<rparr>)) (\<lambda>_. op_return True))
              else
                op_bind (with_resume_file resume_path (\<lambda>existed.
                  fill_partial (re_fetch env) (re_window env) (re_db env) existed recipe_id count sz)) (\<lambda>_. op_return False))))"

definition publish_file :: "restore_env \<Rightarrow> string list \<Rightarrow> string list \<Rightarrow> snapshot_item \<Rightarrow> (restore_state, unit) op" where
  "publish_file env incomplete resume_path item =
     op_bind (op_lift (safe_restore_path (re_fs env) incomplete (si_path item))) (\<lambda>full_path.
     op_bind io_call (\<lambda>_. op_read (\<lambda>t.
       if full_path \<in> rt_dirs t then op_raise OSError
       else case rt_files t resume_path of
         None \<Rightarrow> op_raise FileNotFoundError
       | Some c \<Rightarrow> op_bind (op_modify (\<lambda>t. t\<lparr>rt_files := ((rt_files t)(resume_path := None))(full_path \<mapsto> c)\<rparr>)) (\<lambda>_.
           bump (\<lambda>st. st\<lparr>rr_files_restored := rr_files_restored st + 1, rr_successful_items := rr_successful_items st + 1\<rparr>)))))"

definition file_failed :: "(restore_state, unit) op" where
  "file_failed = bump (\<lambda>st. st\<lparr>rr_files_failed := rr_files_failed st + 1\<rparr>)"

definition restore_file :: "restore_env \<Rightarrow> restore_paths \<Rightarrow> string list \<Rightarrow> snapshot_item \<Rightarrow> (restore_state, unit) op" where
  "restore_file env paths full_path item t =
     (let resume_path = resume_file (blake3_hex (fe_codec (re_fetch env))) paths (si_path item) in
      case prepare_file env full_path resume_path item t of
        (Inr True, t') \<Rightarrow> (Inr (), t')
      | (Inr False, t') \<Rightarrow> op_catch (publish_file env (incomplete_dir paths) resume_path item) (\<lambda>_. True) file_failed t'
      | (Inl _, t') \<Rightarrow> file_failed t')"

definition restore_item :: "restore_env \<Rightarrow> restore_paths \<Rightarrow> snapshot_item \<Rightarrow> (restore_state, unit) op" where
  "restore_item env paths item =
     op_bind (bump (\<lambda>st. st\<lparr>rr_processed_items := rr_processed_items st + 1\<rparr>)) (\<lambda>_.
     case safe_restore_path (re_fs env) (incomplete_dir paths) (si_path item) of
       Inl x \<Rightarrow> if x = RestorePathError then op_return () else op_raise x
     | Inr full_path \<Rightarrow>
         if si_item_type item = ''dir'' then
           op_bind (make_dirs full_path) (\<lambda>_. bump (\<lambda>st. st\<lparr>rr_directories_created := rr_directories_created st + 1,
             rr_successful_items := rr_successful_items st + 1\<rparr>))
         else if si_item_type item \<noteq> ''file'' then op_return ()
         else op_bind (op_read (\<lambda>t. if butlast full_path \<in> rt_prepared t then op_return () else make_dirs (butlast full_path))) (\<lambda>_.
           op_read (\<lambda>t. if full_path \<in> rt_dirs t then file_failed else restore_file env paths full_path item)))"

text \<open>\<open>atomic_rename_noreplace(incomplete_dir, final_dir)\<close> moves everything below.\<close>

definition move_tree :: "string list \<Rightarrow> string list \<Rightarrow> restore_state \<Rightarrow> restore_state" where
  "move_tree src dst t = t\<lparr>rt_files := (\<lambda>p. if prefix dst p then rt_files t (src @ drop (length dst) p) else if prefix src p then None else rt_files t p),
     rt_dirs := (\<lambda>p. if prefix src p then dst @ drop (length src) p else p) ` rt_dirs t\<rparr>"

definition lexists :: "string list \<Rightarrow> restore_state \<Rightarrow> bool" where
  "lexists p t \<longleftrightarrow> p \<in> rt_dirs t \<or> rt_files t p \<noteq> None"

text \<open>\<open>os.rmdir(resume_dir)\<close> fails while a partial is left in it; \<open>partials\<close> are the paths that may be there.\<close>

definition remove_resume_dir :: "restore_paths \<Rightarrow> string list list \<Rightarrow> (restore_state, bool) op" where
  "remove_resume_dir paths partials = op_read (\<lambda>t.
     if resume_dir paths \<notin> rt_dirs t then op_return True
     else if list_ex (\<lambda>p. rt_files t p \<noteq> None) partials then op_return False
     else op_catch (op_bind io_call (\<lambda>_. op_bind (op_modify (\<lambda>t. t\<lparr>rt_dirs := rt_dirs t - {resume_dir paths}\<rparr>)) (\<lambda>_. op_return True)))
            (\<lambda>_. True) (op_return False))"

definition publish_tree :: "restore_paths \<Rightarrow> (restore_state, bool) op" where
  "publish_tree paths = op_read (\<lambda>t.
     if lexists (final_dir paths) t then op_return False
     else op_catch (op_bind io_call (\<lambda>_. op_bind (op_modify (move_tree (incomplete_dir paths) (final_dir paths))) (\<lambda>_. op_return True)))
            (\<lambda>_. True) (op_return False))"

text \<open>\<open>SnapshotRestorer.restore\<close> of a snapshot with status, uuid and items from the database. The
  result is whether it completed.\<close>

definition restore :: "restore_env \<Rightarrow> string list \<Rightarrow> string option \<Rightarrow> string option \<Rightarrow> snapshot_item list \<Rightarrow> (restore_state, bool) op" where
  "restore env base_output_dir status snapshot_uuid items =
     (if status \<noteq> Some ''COMPLETE'' then op_return False
      else case snapshot_uuid of
        None \<Rightarrow> op_raise RestoreDataError
      | Some uuid \<Rightarrow>
          if uuid = [] then op_raise RestoreDataError
          else let paths = for_snapshot base_output_dir uuid;
                   partials = map (\<lambda>i. resume_file (blake3_hex (fe_codec (re_fetch env))) paths (si_path i)) items
          in op_read (\<lambda>t.
            if lexists (final_dir paths) t then op_return False
            else if items = [] then op_return False
            else
              op_bind (op_wrap (\<lambda>x. x = OSError \<or> x = FileExistsError \<or> x = RestorePathError) StopanStorageError
                (op_bind (make_dirs (incomplete_dir paths)) (\<lambda>_.
                 op_bind (op_lift (validate_restore_root (re_fs env) (incomplete_dir paths))) (\<lambda>_.
                 op_bind (make_dirs (resume_dir paths)) (\<lambda>_.
                 op_bind (op_lift (validate_restore_root (re_fs env) (resume_dir paths))) (\<lambda>_.
                 op_modify (\<lambda>t. t\<lparr>rt_prepared := {incomplete_dir paths}\<rparr>))))))) (\<lambda>_.
              op_bind (op_iter (restore_item env paths) items) (\<lambda>_. op_read (\<lambda>t.
                let st = fs_stats (rt_fetch t) in
                if rr_successful_items st = rr_processed_items st \<and> rr_processed_items st > 0 then
                  op_bind (remove_resume_dir paths partials) (\<lambda>closed.
                    if closed then publish_tree paths else op_return False)
                else op_return False)))))"


section \<open>A restored file is its recipe\<close>

fun entry_ok :: "(bytes \<Rightarrow> string) \<Rightarrow> entry \<Rightarrow> bytes \<Rightarrow> bool" where
  "entry_ok hx (ord, h, sz) raw \<longleftrightarrow> hx raw = h \<and> int (length raw) = sz"

definition wrote :: "(bytes \<Rightarrow> string) \<Rightarrow> entry list \<Rightarrow> file_work \<Rightarrow> file_work \<Rightarrow> bool" where
  "wrote hx es w w' \<longleftrightarrow> (\<exists>raws. list_all2 (entry_ok hx) es raws \<and> fw_content w' = fw_content w @ concat raws)"

lemma wrote_Nil: "wrote hx [] w w"
  by (simp add: wrote_def)

lemma wrote_append: "wrote hx es w w' \<Longrightarrow> wrote hx fs w' w'' \<Longrightarrow> wrote hx (es @ fs) w w''"
  unfolding wrote_def by (metis append_assoc concat_append list_all2_appendI)

lemma op_iter_wrote:
  assumes "\<And>x w w' u. f x w = (Inr u, w') \<Longrightarrow> x \<in> set xs \<Longrightarrow> wrote hx (g x) w w'" "op_iter f xs w = (Inr u, w')"
  shows "wrote hx (concat (map g xs)) w w'"
  using assms
proof (induction xs arbitrary: w)
  case (Cons x xs)
  obtain v w1 where s: "f x w = (Inr v, w1)" "op_iter f xs w1 = (Inr u, w')"
    using Cons.prems(2) by (auto simp: op_bind_def split: prod.splits sum.splits)
  have "wrote hx (concat (map g xs)) w1 w'" using Cons.IH [OF _ s(2)] Cons.prems(1) by auto
  then show ?case using Cons.prems(1) [OF s(1)] by (simp add: wrote_append)
qed (simp add: op_return_def wrote_Nil)

lemma write_record_wrote:
  assumes "write_record (ord, h, sz, raw) w = (Inr u, w')" "hx raw = h"
  shows "wrote hx [(ord, h, sz)] w w'"
  using assms by (auto simp: write_record_def wrote_def split: if_splits option.splits intro!: exI [of _ "[raw]"])

lemma emit_window_ok:
  assumes "emit_window results recs = (out, exc)" "authentic z results"
  shows "\<forall>(ord, h, sz, raw) \<in> set out. blake3_hex z raw = h" "exc = None \<Longrightarrow> map (\<lambda>(ord, h, sz, raw). (ord, h, sz)) out = recs"
proof -
  have "(\<forall>(ord, h, sz, raw) \<in> set out. blake3_hex z raw = h) \<and> (exc = None \<longrightarrow> map (\<lambda>(ord, h, sz, raw). (ord, h, sz)) out = recs)"
    using assms(1)
  proof (induction recs arbitrary: out)
    case (Cons p recs)
    obtain ord h sz where p: "p = (ord, h, sz)" by (cases p)
    show ?case using Cons assms(2) [unfolded authentic_def, rule_format, of h] by (auto simp: p split: option.splits sum.splits prod.splits)
  qed simp
  then show "\<forall>(ord, h, sz, raw) \<in> set out. blake3_hex z raw = h" "exc = None \<Longrightarrow> map (\<lambda>(ord, h, sz, raw). (ord, h, sz)) out = recs" by auto
qed

lemma process_window_wrote:
  assumes "process_window e recs w = (Inr u, w')"
  shows "wrote (blake3_hex (fe_codec e)) recs w w'"
proof -
  let ?hx = "blake3_hex (fe_codec e)"
  obtain out exc f where fl: "flush_record_window e recs (fw_fetch w) = ((out, exc), f)" by (metis prod.collapse)
  have run: "op_bind (op_iter write_record out) (\<lambda>_. raise_opt exc) (w\<lparr>fw_fetch := f\<rparr>) = (Inr u, w')"
    using assms fl by (simp add: process_window_def)
  then have exc: "exc = None" and wr: "\<exists>v. op_iter write_record out (w\<lparr>fw_fetch := f\<rparr>) = (Inr v, w')"
    by (auto simp: op_bind_def raise_opt_def op_return_def op_raise_def split: prod.splits sum.splits option.splits)
  obtain results s where r: "fetch_many_raw_chunks e (map (\<lambda>(_, h, _). h) recs) (fw_fetch w) = (Inr results, s)"
    "emit_window results recs = (out, None)"
    using fl exc by (auto simp: flush_record_window_def split: prod.splits sum.splits)
  have "authentic (fe_codec e) results" using fetch_many_authentic [OF r(1)] by (simp add: authentic_def)
  note ok = emit_window_ok [OF r(2) this, simplified]
  have "wrote ?hx (case x of (ord, h, sz, raw) \<Rightarrow> [(ord, h, sz)]) v v'" if "write_record x v = (Inr i, v')" "x \<in> set out" for x v v' i
    using that ok(1) write_record_wrote [of _ _ _ _ v i v' ?hx] by (cases x) fastforce
  then have "wrote ?hx (concat (map (\<lambda>(ord, h, sz, raw). [(ord, h, sz)]) out)) (w\<lparr>fw_fetch := f\<rparr>) w'"
    using wr op_iter_wrote [of write_record out ?hx "\<lambda>(ord, h, sz, raw). [(ord, h, sz)]"] by blast
  moreover have "concat (map (\<lambda>(ord, h, sz, raw). [(ord, h, sz)]) out) = recs"
    using ok(2) by (induction out arbitrary: recs) auto
  ultimately show ?thesis by (simp add: wrote_def)
qed

lemma copy_chunks_wrote:
  assumes "copy_chunks e window stream w = (Inr u, w')"
  shows "snd stream = None" "wrote (blake3_hex (fe_codec e)) (fst stream) w w'"
proof -
  obtain v w1 where s: "op_iter (process_window e) (stream_windows window stream) w = (Inr v, w1)" "raise_opt (snd stream) w1 = (Inr u, w')"
    using assms by (auto simp: copy_chunks_def op_bind_def split: prod.splits sum.splits)
  then show none: "snd stream = None" by (auto simp: raise_opt_def op_raise_def split: option.splits)
  have "w' = w1" using s(2) none by (simp add: raise_opt_def op_return_def)
  then show "wrote (blake3_hex (fe_codec e)) (fst stream) w w'"
    using op_iter_wrote [of "process_window e" "stream_windows window stream" "blake3_hex (fe_codec e)" "\<lambda>x. x" w v w1] s(1) none process_window_wrote
    by (simp add: stream_windows_def Let_def)
qed

text \<open>The entries of a recipe in order, and what the two streams over it yield.\<close>

definition recipe_entries :: "restore_db \<Rightarrow> int \<Rightarrow> entry list" where
  "recipe_entries db rid = map (\<lambda>r. (rc_chunk_order r, rc_chunk_hash r, rc_chunk_size r)) (filter (\<lambda>r. 0 \<le> rc_chunk_order r) (recipe_rows db rid))"

text \<open>The primary key \<open>(recipe_id, chunk_order)\<close>.\<close>

definition recipe_key :: "restore_db \<Rightarrow> bool" where
  "recipe_key db \<longleftrightarrow> distinct (map (\<lambda>r. (rc_recipe_id r, rc_chunk_order r)) (recipe_chunks db))"

lemma entry_stream_prefix:
  assumes "entry_stream n rows = (es, exc)"
  shows "es = map (\<lambda>r. (rc_chunk_order r, rc_chunk_hash r, rc_chunk_size r)) (take (length es) rows)"
    "exc = None \<Longrightarrow> length es = length rows" "i < length es \<Longrightarrow> rc_chunk_order (rows ! i) = n + int i"
    "(ord, h, sz) \<in> set es \<Longrightarrow> 1 \<le> sz" "length es \<le> length rows"
proof -
  have "es = map (\<lambda>r. (rc_chunk_order r, rc_chunk_hash r, rc_chunk_size r)) (take (length es) rows)
      \<and> (exc = None \<longrightarrow> length es = length rows) \<and> (\<forall>i < length es. rc_chunk_order (rows ! i) = n + int i)
      \<and> (\<forall>(ord, h, sz) \<in> set es. 1 \<le> sz) \<and> length es \<le> length rows"
    using assms
  proof (induction n rows arbitrary: es rule: entry_stream.induct)
    case (2 n row rows)
    show ?case
    proof (cases "rc_chunk_order row = n \<and> \<not> rc_chunk_size row < 1")
      case True
      then obtain es' where es': "entry_stream (n + 1) rows = (es', exc)" "es = (rc_chunk_order row, rc_chunk_hash row, rc_chunk_size row) # es'"
        using 2(2) by (auto split: prod.splits)
      have "rc_chunk_order ((row # rows) ! i) = n + int i" if "i < length es" for i
        using that True 2(1) [OF _ _ es'(1)] es'(2) by (cases i) auto
      then show ?thesis using 2(1) [OF _ _ es'(1)] True es'(2) by auto
    qed (use 2(2) in \<open>auto split: if_splits\<close>)
  qed auto
  then show "es = map (\<lambda>r. (rc_chunk_order r, rc_chunk_hash r, rc_chunk_size r)) (take (length es) rows)"
    "exc = None \<Longrightarrow> length es = length rows" "i < length es \<Longrightarrow> rc_chunk_order (rows ! i) = n + int i"
    "(ord, h, sz) \<in> set es \<Longrightarrow> 1 \<le> sz" "length es \<le> length rows" by auto
qed


lemma recipe_rows_sorted:
  assumes "recipe_key db"
  shows "sorted_wrt (\<lambda>r s. rc_chunk_order r < rc_chunk_order s) (recipe_rows db rid)"
proof -
  let ?rows = "filter (\<lambda>r. rc_recipe_id r = rid) (recipe_chunks db)"
  have "distinct (map (\<lambda>r. (rc_recipe_id r, rc_chunk_order r)) ?rows)"
    using assms unfolding recipe_key_def by (rule distinct_map_filter)
  then have "distinct (map rc_chunk_order ?rows)" by (auto simp: distinct_map inj_on_def)
  then have "distinct (map rc_chunk_order (recipe_rows db rid))"
    unfolding recipe_rows_def by (metis mset_map mset_eq_imp_distinct_iff mset_sort)
  moreover have "sorted (map rc_chunk_order (recipe_rows db rid))" by (simp add: recipe_rows_def)
  ultimately have "sorted_wrt (<) (map rc_chunk_order (recipe_rows db rid))" by (simp add: strict_sorted_iff)
  then show ?thesis by (simp add: sorted_wrt_map)
qed

text \<open>Skipping the first \<open>k\<close> verified orders is dropping the first \<open>k\<close> rows.\<close>

lemma rows_from:
  assumes "sorted_wrt (\<lambda>r s. rc_chunk_order r < rc_chunk_order s) rows" "\<forall>r \<in> set rows. 0 \<le> rc_chunk_order r"
    and "k \<le> length rows" "\<And>i. i < k \<Longrightarrow> rc_chunk_order (rows ! i) = int i"
  shows "filter (\<lambda>r. int k \<le> rc_chunk_order r) rows = drop k rows"
proof -
  have "filter (\<lambda>r. int k \<le> rc_chunk_order r) (take k rows) = []"
    using assms(3,4) by (auto simp: filter_empty_conv in_set_conv_nth)
  moreover have "int k \<le> rc_chunk_order r" if r: "r \<in> set (drop k rows)" for r
  proof (cases k)
    case (Suc j)
    obtain i where "i < length (drop k rows)" "drop k rows ! i = r" using r by (metis in_set_conv_nth)
    then have i: "r = rows ! (k + i)" "k + i < length rows" by auto
    have "rc_chunk_order (rows ! j) < rc_chunk_order r" unfolding i(1)
      by (rule sorted_wrt_nth_less [OF assms(1)]) (use i(2) Suc in auto)
    then show ?thesis using assms(4) [of j] Suc by simp
  qed (use r assms(2) in \<open>auto dest: in_set_dropD\<close>)
  then have "filter (\<lambda>r. int k \<le> rc_chunk_order r) (drop k rows) = drop k rows" by (simp add: filter_id_conv)
  ultimately show ?thesis by (metis append_Nil append_take_drop_id filter_append)
qed

lemma iter_entries_split:
  assumes "recipe_key db" "iter_recipe_chunk_entries db rid 0 = (es, exc)" "k \<le> length es"
    and "iter_recipe_chunk_entries db rid (int k) = (fs, None)"
  shows "take k es @ fs = recipe_entries db rid"
proof -
  let ?rows = "filter (\<lambda>r. 0 \<le> rc_chunk_order r) (recipe_rows db rid)"
  let ?e = "\<lambda>r. (rc_chunk_order r, rc_chunk_hash r, rc_chunk_size r)"
  have s0: "entry_stream 0 ?rows = (es, exc)" using assms(2) by (simp add: iter_recipe_chunk_entries_def)
  note p0 = entry_stream_prefix [OF s0]
  have srt: "sorted_wrt (\<lambda>r s. rc_chunk_order r < rc_chunk_order s) ?rows"
    using recipe_rows_sorted [OF assms(1)] by (rule sorted_wrt_filter)
  have "filter (\<lambda>r. int k \<le> rc_chunk_order r) (recipe_rows db rid) = filter (\<lambda>r. int k \<le> rc_chunk_order r) ?rows"
    by (auto intro: filter_cong)
  also have "\<dots> = drop k ?rows"
    by (rule rows_from [OF srt]) (use assms(3) p0(3,5) in auto)
  finally have s1: "entry_stream (int k) (drop k ?rows) = (fs, None)" using assms(4) by (simp add: iter_recipe_chunk_entries_def)
  note p1 = entry_stream_prefix [OF s1]
  have "take k es = map ?e (take k ?rows)" using arg_cong [OF p0(1), of "take k"] assms(3) by (simp add: take_map min_absorb1)
  moreover have "fs = map ?e (drop k ?rows)" using p1(1,2) by simp
  ultimately have "take k es @ fs = map ?e (take k ?rows @ drop k ?rows)" by (simp only: map_append)
  then show ?thesis by (simp only: append_take_drop_id recipe_entries_def)
qed

lemma take_slice:
  assumes "0 \<le> b" "0 \<le> sz" "b + sz \<le> int (length data)"
  shows "take (nat (b + sz)) data = take (nat b) data @ py_slice data b (b + sz)" "int (length (py_slice data b (b + sz))) = sz"
proof -
  have "py_slice data b (b + sz) = take (nat sz) (drop (nat b) data)"
    using assms by (simp add: py_slice_def py_clamp_def nat_add_distrib)
  then show "take (nat (b + sz)) data = take (nat b) data @ py_slice data b (b + sz)" "int (length (py_slice data b (b + sz))) = sz"
    using assms by (auto simp: nat_add_distrib take_add)
qed

lemma verify_prefix_loop_ok:
  assumes "verify_prefix_loop hx data ex n b es exc = Inr (n', b')" "0 \<le> b" "b \<le> int (length data)"
    and "\<forall>(ord, h, sz) \<in> set es. 1 \<le> sz"
  shows "\<exists>k raws. k \<le> length es \<and> n' = n + int k \<and> list_all2 (entry_ok hx) (take k es) raws
    \<and> take (nat b') data = take (nat b) data @ concat raws \<and> b \<le> b' \<and> b' \<le> int (length data)"
  using assms
proof (induction hx data ex n b es exc rule: verify_prefix_loop.induct)
  case (2 hx data ex n b ord h sz es exc)
  let ?raw = "py_slice data b (b + sz)"
  have stop: ?case if "n' = n" "b' = b" using that "2.prems" by (intro exI [of _ 0] exI [of _ "[]"]) auto
  show ?case
  proof (cases "ord = n \<and> b + sz \<le> int (length data) \<and> hx ?raw = h")
    case False
    then show ?thesis using "2.prems"(1) stop by (auto split: if_splits)
  next
    case True
    have sz: "0 \<le> sz" using "2.prems"(4) by auto
    note sl = take_slice [OF "2.prems"(2) sz, of data]
    have one: "entry_ok hx (ord, h, sz) ?raw" using True sl(2) by simp
    show ?thesis
    proof (cases "n + 1 = ex")
      case last: True
      then have "n' = n + 1" "b' = b + sz" using "2.prems"(1) True by auto
      then show ?thesis using one sl(1) True sz by (intro exI [of _ 1] exI [of _ "[?raw]"]) auto
    next
      case False
      have run: "verify_prefix_loop hx data ex (n + 1) (b + sz) es exc = Inr (n', b')" using "2.prems"(1) True False by auto
      obtain k raws where ih: "k \<le> length es" "n' = n + 1 + int k" "list_all2 (entry_ok hx) (take k es) raws"
        "take (nat b') data = take (nat (b + sz)) data @ concat raws" "b + sz \<le> b'" "b' \<le> int (length data)"
        using "2.IH" [OF _ _ _ _ run] True False "2.prems" sz by auto
      show ?thesis using ih one sl(1) True sz by (intro exI [of _ "Suc k"] exI [of _ "?raw # raws"]) auto
    qed
  qed
qed (auto split: option.splits intro!: exI [of _ 0] exI [of _ "[]"])


text \<open>The content the recipe prescribes.\<close>

definition recipe_content :: "(bytes \<Rightarrow> string) \<Rightarrow> restore_db \<Rightarrow> int \<Rightarrow> bytes \<Rightarrow> bool" where
  "recipe_content hx db rid content \<longleftrightarrow> (\<exists>raws. list_all2 (entry_ok hx) (recipe_entries db rid) raws \<and> content = concat raws)"

lemma iter_entries_sizes: "iter_recipe_chunk_entries db rid n = (es, exc) \<Longrightarrow> \<forall>(ord, h, sz) \<in> set es. 1 \<le> sz"
  using entry_stream_prefix(4) by (fastforce simp: iter_recipe_chunk_entries_def split: if_splits)

text \<open>What the two phases of \<open>fill_partial\<close> leave, whatever the partial held before.\<close>

lemma fill_partial_run:
  assumes "fill_partial e window db existed rid cnt sz w = (r, w')"
  shows "(\<exists>x. r = Inl x \<and> verify_resume_prefix (blake3_hex (fe_codec e)) (fw_content w) (iter_recipe_chunk_entries db rid 0) cnt sz = Inl x \<and> w' = w)
    \<or> (\<exists>n b v y w1. verify_resume_prefix (blake3_hex (fe_codec e)) (fw_content w) (iter_recipe_chunk_entries db rid 0) cnt sz = Inr (n, b)
       \<and> fw_content v = take (nat b) (fw_content w) \<and> fw_next_order v = n \<and> fw_writes v = fw_writes w
       \<and> copy_chunks e window (iter_recipe_chunk_entries db rid n) v = (y, w') \<and> (r = Inr () \<longrightarrow> y = Inr () \<and> int (length (fw_content w')) = sz
            \<and> fw_next_order w' = cnt))"
proof (cases "verify_resume_prefix (blake3_hex (fe_codec e)) (fw_content w) (iter_recipe_chunk_entries db rid 0) cnt sz")
  case (Inl x)
  then show ?thesis using assms by (simp add: fill_partial_def op_read_def op_bind_def op_lift_def op_raise_def)
next
  case (Inr nb)
  obtain n b where nb: "nb = (n, b)" by (cases nb)
  let ?v = "w\<lparr>fw_content := take (nat b) (fw_content w), fw_next_order := n,
                fw_fetch := update_stats (\<lambda>st. st\<lparr>rr_chunks_reused := rr_chunks_reused st + n, rr_bytes_reused := rr_bytes_reused st + b,
                  rr_files_resumed := rr_files_resumed st + (if existed \<and> (n > 0 \<or> cnt = 0) then 1 else 0)\<rparr>) (fw_fetch w)\<rparr>"
  obtain y w1 where y: "copy_chunks e window (iter_recipe_chunk_entries db rid n) ?v = (y, w1)" by fastforce
  have "w1 = w' \<and> (r = Inr () \<longrightarrow> y = Inr () \<and> int (length (fw_content w')) = sz \<and> fw_next_order w' = cnt)"
    using assms Inr nb y
    by (cases y) (auto simp: fill_partial_def op_read_def op_bind_def op_lift_def op_modify_def op_return_def op_raise_def split: if_splits)
  then show ?thesis using Inr nb y by (intro disjI2 exI [of _ n] exI [of _ b] exI [of _ ?v] exI [of _ y]) auto
qed

lemma verify_resume_prefix_ok:
  assumes "verify_resume_prefix hx content (iter_recipe_chunk_entries db rid 0) cnt sz = Inr (n, b)"
  shows "\<exists>es exc k raws. iter_recipe_chunk_entries db rid 0 = (es, exc) \<and> k \<le> length es \<and> n = int k
    \<and> list_all2 (entry_ok hx) (take k es) raws \<and> take (nat b) content = concat raws \<and> b \<le> int (length content)"
proof -
  obtain es exc where es: "iter_recipe_chunk_entries db rid 0 = (es, exc)" by fastforce
  have "verify_prefix_loop hx content cnt 0 0 es exc = Inr (n, b)"
    using assms es by (auto simp: verify_resume_prefix_def bindE_eq_Inr split: if_splits)
  from verify_prefix_loop_ok [OF this] iter_entries_sizes [OF es] show ?thesis using es by auto
qed

lemma fill_partial_content:
  assumes "recipe_key db" "fill_partial e window db existed rid cnt sz w = (Inr u, w')"
  shows "recipe_content (blake3_hex (fe_codec e)) db rid (fw_content w') \<and> int (length (fw_content w')) = sz"
proof -
  let ?hx = "blake3_hex (fe_codec e)"
  obtain n b v where v: "verify_resume_prefix ?hx (fw_content w) (iter_recipe_chunk_entries db rid 0) cnt sz = Inr (n, b)"
    "fw_content v = take (nat b) (fw_content w)" "copy_chunks e window (iter_recipe_chunk_entries db rid n) v = (Inr (), w')"
    "int (length (fw_content w')) = sz" using fill_partial_run [OF assms(2)] by auto
  obtain es exc k raws where p: "iter_recipe_chunk_entries db rid 0 = (es, exc)" "k \<le> length es" "n = int k"
    "list_all2 (entry_ok ?hx) (take k es) raws" "take (nat b) (fw_content w) = concat raws"
    using verify_resume_prefix_ok [OF v(1)] by blast
  obtain fs where fs: "iter_recipe_chunk_entries db rid (int k) = (fs, None)"
    using copy_chunks_wrote(1) [OF v(3)] p(3) by (metis prod.collapse)
  then obtain raws' where w: "list_all2 (entry_ok ?hx) fs raws'" "fw_content w' = fw_content v @ concat raws'"
    using copy_chunks_wrote(2) [OF v(3)] p(3) by (auto simp: wrote_def)
  have "list_all2 (entry_ok ?hx) (take k es @ fs) (raws @ raws')" using p(4) w(1) by (rule list_all2_appendI)
  then have "list_all2 (entry_ok ?hx) (recipe_entries db rid) (raws @ raws')" unfolding iter_entries_split [OF assms(1) p(1,2) fs] .
  then show ?thesis using w(2) v(2,4) p(5) unfolding recipe_content_def by (metis concat_append)
qed

text \<open>Nothing that was verified is lost when the copying fails.\<close>

interpretation fwork: op_relation "\<lambda>(w :: file_work) w'. prefix (fw_content w) (fw_content w')"
  by unfold_locales auto

lemma copy_chunks_extends: "fwork.stays (copy_chunks e window stream)"
proof -
  have wr: "fwork.stays (write_record r)" for r
    by (rule fwork.staysI) (auto simp: write_record_def split: prod.splits option.splits)
  have ra: "fwork.stays (raise_opt exc)" for exc
    by (auto simp: raise_opt_def fwork.stays_pure split: option.split)
  have win: "fwork.stays (process_window e recs)" for recs
  proof (rule fwork.staysI)
    fix w :: file_work
    obtain out exc f where "flush_record_window e recs (fw_fetch w) = ((out, exc), f)" by (metis prod.collapse)
    moreover have "prefix (fw_content (w\<lparr>fw_fetch := f\<rparr>)) (fw_content (snd (op_bind (op_iter write_record out) (\<lambda>_. raise_opt exc) (w\<lparr>fw_fetch := f\<rparr>))))"
      by (rule fwork.stays_state, rule fwork.stays_bind, rule fwork.stays_iter, rule wr, rule ra)
    ultimately show "prefix (fw_content w) (fw_content (snd (process_window e recs w)))" by (simp add: process_window_def)
  qed
  show ?thesis unfolding copy_chunks_def by (rule fwork.stays_bind, rule fwork.stays_iter, rule win, rule ra)
qed




section \<open>A completed restore is the snapshot\<close>

interpretation fitems: op_relation "\<lambda>(w :: file_work) w'. item_counters (fw_fetch w') = item_counters (fw_fetch w)"
  by unfold_locales auto

lemma copy_chunks_items: "fitems.stays (copy_chunks e window stream)"
proof -
  have wr: "fitems.stays (write_record r)" for r
    by (rule fitems.staysI) (auto simp: write_record_def item_counters_def update_stats_def split: prod.splits option.splits)
  have ra: "fitems.stays (raise_opt exc)" for exc
    by (auto simp: raise_opt_def fitems.stays_pure split: option.split)
  have win: "fitems.stays (process_window e recs)" for recs
  proof (rule fitems.staysI)
    fix w :: file_work
    obtain out exc f where fl: "flush_record_window e recs (fw_fetch w) = ((out, exc), f)" by (metis prod.collapse)
    have "item_counters f = item_counters (fw_fetch w)"
      using fl fetch_many_items [of e "map (\<lambda>(_, h, _). h) recs" "fw_fetch w"] by (auto simp: flush_record_window_def split: prod.splits sum.splits)
    moreover have "item_counters (fw_fetch (snd (op_bind (op_iter write_record out) (\<lambda>_. raise_opt exc) (w\<lparr>fw_fetch := f\<rparr>))))
        = item_counters (fw_fetch (w\<lparr>fw_fetch := f\<rparr>))"
      by (rule fitems.stays_state, rule fitems.stays_bind, rule fitems.stays_iter, rule wr, rule ra)
    ultimately show "item_counters (fw_fetch (snd (process_window e recs w))) = item_counters (fw_fetch w)"
      using fl by (simp add: process_window_def)
  qed
  show ?thesis unfolding copy_chunks_def by (rule fitems.stays_bind, rule fitems.stays_iter, rule win, rule ra)
qed

lemma fitems_reuse:
  "fitems.stays (op_modify (\<lambda>w. w\<lparr>fw_content := f w, fw_next_order := n,
     fw_fetch := update_stats (\<lambda>st. st\<lparr>rr_chunks_reused := a st, rr_bytes_reused := b st, rr_files_resumed := c st\<rparr>) (fw_fetch w)\<rparr>))"
  "fitems.stays (op_modify (\<lambda>w. w\<lparr>fw_content := f w, fw_next_order := n,
     fw_fetch := update_stats (\<lambda>st. st\<lparr>rr_chunks_reused := a st, rr_bytes_reused := b st\<rparr>) (fw_fetch w)\<rparr>))"
  by (rule fitems.staysI; simp add: op_modify_def item_counters_def update_stats_def)+

lemma fill_partial_items: "fitems.stays (fill_partial e window db existed rid cnt sz)"
  unfolding fill_partial_def
  by (intro fitems.stays_read fitems.stays_bind fitems.stays_pure(3))
    (auto split: prod.split intro!: fitems.stays_read fitems.stays_bind fitems_reuse copy_chunks_items fitems.stays_pure)

lemma validate_loop_ok:
  assumes "validate_loop hx data n b es exc = Inr (Some (n', b'))" "0 \<le> b" "b \<le> int (length data)"
    and "\<forall>(ord, h, sz) \<in> set es. 1 \<le> sz"
  shows "exc = None \<and> (\<exists>raws. list_all2 (entry_ok hx) es raws \<and> take (nat b') data = take (nat b) data @ concat raws \<and> b' \<le> int (length data))"
  using assms
proof (induction hx data n b es exc rule: validate_loop.induct)
  case (2 hx data n b ord h sz es exc)
  let ?raw = "py_slice data b (b + sz)"
  have sz: "0 \<le> sz" using "2.prems"(4) by auto
  have ok: "ord = n" "int (length ?raw) = sz" "hx ?raw = h" and run: "validate_loop hx data (n + 1) (b + sz) es exc = Inr (Some (n', b'))"
    using "2.prems"(1) by (auto simp: Let_def split: if_splits)
  have le: "b + sz \<le> int (length data)"
    using ok(2) sz "2.prems"(2,3) by (auto simp: py_slice_def py_clamp_def min_def split: if_splits)
  obtain raws where ih: "exc = None" "list_all2 (entry_ok hx) es raws" "take (nat b') data = take (nat (b + sz)) data @ concat raws" "b' \<le> int (length data)"
    using "2.IH" [OF _ refl _ _ run] ok sz le "2.prems" by auto
  show ?case using ih ok take_slice(1) [OF "2.prems"(2) sz le] by (intro conjI exI [of _ "?raw # raws"]) auto
qed (auto split: option.splits)

lemma validate_completed_content:
  assumes "recipe_key db" "validate_completed_file hx existing (iter_recipe_chunk_entries db rid 0) cnt sz = Inr True"
  shows "\<exists>c. existing = Some c \<and> recipe_content hx db rid c \<and> int (length c) = sz"
proof -
  obtain es exc where es: "iter_recipe_chunk_entries db rid 0 = (es, exc)" by fastforce
  obtain c n b where c: "existing = Some c" "int (length c) = sz" "validate_loop hx c 0 0 es exc = Inr (Some (n, b))" "drop (nat b) c = []"
  proof -
    obtain c where c: "existing = Some c" "int (length c) = sz"
      using assms(2) by (auto simp: validate_completed_file_def split: option.splits if_splits)
    then obtain v where "validate_loop hx c 0 0 es exc = Inr v" using assms(2) es
      by (cases "validate_loop hx c 0 0 es exc") (auto simp: validate_completed_file_def bindE_def)
    with c that show thesis using assms(2) es
      by (cases v) (auto simp: validate_completed_file_def bindE_def split: if_splits)
  qed
  have "exc = None \<and> (\<exists>raws. list_all2 (entry_ok hx) es raws \<and> take (nat b) c = take (nat 0) c @ concat raws \<and> b \<le> int (length c))"
    by (rule validate_loop_ok [OF c(3)]) (use iter_entries_sizes [OF es] in auto)
  then obtain raws where r: "exc = None" "list_all2 (entry_ok hx) es raws" "take (nat b) c = concat raws" by auto
  have "c = concat raws" using r(3) c(4) by (metis append_Nil2 append_take_drop_id)
  moreover have "es = recipe_entries db rid" using iter_entries_split [OF assms(1) es, of 0 es] es r(1) by simp
  ultimately show ?thesis using c r(2) by (auto simp: recipe_content_def)
qed

text \<open>\<open>calm P\<close>: directories only appear, files change only in \<open>P\<close>, and no item is counted.\<close>

definition calm :: "string list set \<Rightarrow> restore_state \<Rightarrow> restore_state \<Rightarrow> bool" where
  "calm P t t' \<longleftrightarrow> rt_dirs t \<subseteq> rt_dirs t' \<and> (\<forall>p. p \<notin> P \<longrightarrow> rt_files t' p = rt_files t p) \<and> item_counters (rt_fetch t') = item_counters (rt_fetch t)"

interpretation calm: op_relation "calm P" for P
  by unfold_locales (auto simp: calm_def)

lemma calm_io: "calm.stays P io_call"
  by (rule calm.staysI) (simp add: io_call_def calm_def)

lemma calm_make_dirs: "calm.stays P (make_dirs p)"
  unfolding make_dirs_def
  by (intro calm.stays_bind calm_io calm.stays_read calm.stays_if calm.stays_pure calm.staysI) (auto simp: op_modify_def calm_def)

lemma calm_discard: "p \<in> P \<Longrightarrow> calm.stays P (discard_resume_file p)"
  unfolding discard_resume_file_def
  by (intro calm.stays_read calm.stays_if calm.stays_pure calm.stays_bind calm_io calm.staysI) (auto simp: op_modify_def calm_def)

lemma with_resume_run:
  assumes "with_resume_file p (\<lambda>existed. fill_partial e window db existed rid cnt sz) t = (r, t')" "p \<in> P"
  shows "calm P t t'" "recipe_key db \<Longrightarrow> r = Inr u \<Longrightarrow> \<exists>c. rt_files t' p = Some c \<and> recipe_content (blake3_hex (fe_codec e)) db rid c"
proof -
  define w where "w = \<lparr>fw_content = (case rt_files t p of None \<Rightarrow> [] | Some c \<Rightarrow> c), fw_next_order = 0, fw_fetch = rt_fetch t,
              fw_write_fails = rt_write_fails t, fw_writes = rt_writes t\<rparr>"
  obtain y w' where y: "fill_partial e window db (rt_files t p \<noteq> None) rid cnt sz w = (y, w')" by fastforce
  have items: "item_counters (fw_fetch w') = item_counters (rt_fetch t)"
    using fitems.stays_state [OF fill_partial_items [of e window db "rt_files t p \<noteq> None" rid cnt sz], of w] y by (simp add: w_def)
  show "calm P t t'"
    using assms y items by (auto simp: with_resume_file_def op_bind_def io_call_def Let_def calm_def w_def [symmetric] split: if_splits)
  assume "recipe_key db" "r = Inr u"
  then have "y = Inr u" "rt_files t' p = Some (fw_content w')"
    using assms y by (auto simp: with_resume_file_def op_bind_def io_call_def Let_def w_def [symmetric] split: if_splits)
  then show "\<exists>c. rt_files t' p = Some c \<and> recipe_content (blake3_hex (fe_codec e)) db rid c"
    using fill_partial_content [OF \<open>recipe_key db\<close>] y by blast
qed

text \<open>\<open>counted P t t'\<close>: the same, but one item was counted as successful.\<close>

definition counted :: "string list set \<Rightarrow> restore_state \<Rightarrow> restore_state \<Rightarrow> bool" where
  "counted P t t' \<longleftrightarrow> rt_dirs t \<subseteq> rt_dirs t' \<and> (\<forall>p. p \<notin> P \<longrightarrow> rt_files t' p = rt_files t p)
     \<and> item_counters (rt_fetch t') = (fst (item_counters (rt_fetch t)), snd (item_counters (rt_fetch t)) + 1)"

definition holds :: "restore_env \<Rightarrow> int \<Rightarrow> string list \<Rightarrow> restore_state \<Rightarrow> bool" where
  "holds env rid p t \<longleftrightarrow> (\<exists>c. rt_files t p = Some c \<and> recipe_content (blake3_hex (fe_codec (re_fetch env))) (re_db env) rid c)"

lemma bind_run:
  "op_bind m f s = (r, t) \<longleftrightarrow> (\<exists>e. m s = (Inl e, t) \<and> r = Inl e) \<or> (\<exists>x u. m s = (Inr x, u) \<and> f x u = (r, t))"
  by (cases "m s"; cases "fst (m s)") (auto simp: op_bind_def)

lemma prepare_file_run:
  assumes "prepare_file env full resume item t = (r, t')" "full \<noteq> resume" "recipe_key (re_db env)"
  shows "(r = Inr True \<longrightarrow> counted {full, resume} t t' \<and> (\<exists>rid. si_recipe_id item = Some rid \<and> holds env rid full t'))
    \<and> (r \<noteq> Inr True \<longrightarrow> calm {full, resume} t t')
    \<and> (r = Inr False \<longrightarrow> (\<exists>rid. si_recipe_id item = Some rid \<and> holds env rid resume t'))"
proof -
  let ?hx = "blake3_hex (fe_codec (re_fetch env))"
  have refl: "calm {full, resume} t t" by (simp add: calm_def)
  show ?thesis
  proof (cases "si_recipe_id item")
    case None
    then show ?thesis using assms(1) refl by (auto simp: prepare_file_def op_raise_def)
  next
    case (Some rid)
    let ?str = "iter_recipe_chunk_entries (re_db env) rid 0"
    have early: ?thesis if "r = Inl x" "t' = t" for x using that refl by auto
    show ?thesis
    proof (cases "get_recipe_restore_summary (re_db env) rid")
      case (Inl x)
      then show ?thesis using assms(1) Some early by (auto simp: prepare_file_def op_bind_def op_lift_def op_raise_def)
    next
      case (Inr cs)
      obtain cnt sz where cs: "cs = (cnt, sz)" by (cases cs)
      obtain v where v: "validate_completed_file ?hx (rt_files t full) ?str cnt sz = v" by simp
      show ?thesis
      proof (cases "si_size item \<noteq> sz \<or> (\<exists>x. v = Inl x)")
        case True
        then have "(\<exists>x. r = Inl x) \<and> t' = t" using assms(1) Some Inr cs v
          by (cases "si_size item = sz") (auto simp: prepare_file_def op_bind_def op_lift_def op_raise_def op_return_def op_read_def dest!: sym [of "Inl _"])
        then show ?thesis using early by blast
      next
        case False
        then obtain complete where c: "v = Inr complete" by (cases v) auto
        show ?thesis
        proof (cases complete)
          case True
          obtain c where full: "rt_files t full = Some c" "recipe_content ?hx (re_db env) rid c"
            using validate_completed_content [OF assms(3)] v c True by metis
          obtain y u where d: "discard_resume_file resume t = (y, u)" by fastforce
          have cu: "calm {resume} t u" using calm.stays_state [OF calm_discard [of resume "{resume}"], of t] d by simp
          show ?thesis
          proof (cases y)
            case (Inl x)
            then have "r = Inl x" "t' = u" using assms(1) Some Inr cs v c True False d
              by (auto simp: prepare_file_def op_bind_def op_lift_def op_return_def op_read_def)
            then show ?thesis using cu by (auto simp: calm_def)
          next
            case ok: (Inr i)
            then have r: "r = Inr True" and t': "rt_dirs t' = rt_dirs u" "rt_files t' = rt_files u"
                "item_counters (rt_fetch t') = (fst (item_counters (rt_fetch u)), snd (item_counters (rt_fetch u)) + 1)"
              using assms(1) Some Inr cs v c True False d
              by (auto simp: prepare_file_def op_bind_def op_lift_def op_return_def op_read_def bump_def op_modify_def update_stats_def item_counters_def)
            have "rt_files t' full = Some c" using t'(2) cu full(1) assms(2) by (simp add: calm_def)
            then show ?thesis using r t' cu full(2) Some by (auto simp: calm_def counted_def holds_def)
          qed
        next
          case no: False
          obtain y u where d: "with_resume_file resume (\<lambda>existed. fill_partial (re_fetch env) (re_window env) (re_db env) existed rid cnt sz) t = (y, u)"
            by fastforce
          note wr = with_resume_run [OF d, of "{full, resume}", simplified]
          have "t' = u" "r \<noteq> Inr True" "r = Inr False \<longrightarrow> (\<exists>i. y = Inr i)"
            using assms(1) Some Inr cs v c no False d
            by (auto simp: prepare_file_def op_bind_def op_lift_def op_return_def op_read_def split: sum.splits)
          then show ?thesis using wr assms(3) Some by (auto simp: holds_def)
        qed
      qed
    qed
  qed
qed

lemma publish_file_run:
  assumes "publish_file env incomplete resume item t = (r, t')" "safe_restore_path (re_fs env) incomplete (si_path item) = Inr full" "full \<noteq> resume"
  shows "(\<exists>x. r = Inl x \<and> calm {full, resume} t t') \<or> (r = Inr () \<and> counted {full, resume} t t' \<and> (holds env rid resume t \<longrightarrow> holds env rid full t'))"
proof (cases "rt_io_ok t (rt_calls t) \<and> full \<notin> rt_dirs t \<and> rt_files t resume \<noteq> None")
  case True
  then show ?thesis using assms
    by (auto simp: publish_file_def op_bind_def op_lift_def op_return_def op_read_def io_call_def op_modify_def bump_def update_stats_def counted_def
        holds_def item_counters_def)
next
  case False
  then show ?thesis using assms
    by (auto simp: publish_file_def op_bind_def op_lift_def op_return_def op_read_def io_call_def op_raise_def calm_def item_counters_def split: if_splits)
qed

lemma file_failed_calm: "file_failed t = (Inr (), t') \<Longrightarrow> calm P t t'"
  by (auto simp: file_failed_def bump_def op_modify_def update_stats_def calm_def item_counters_def)

lemma file_failed_run: "\<exists>t'. file_failed t = (Inr (), t')"
  by (simp add: file_failed_def bump_def op_modify_def)

lemma calm_trans: "calm P t u \<Longrightarrow> calm P u v \<Longrightarrow> calm P t v"
  by (rule calm.R_trans)

lemma calm_counted: "calm P t u \<Longrightarrow> counted P u v \<Longrightarrow> counted P t v"
  by (auto simp: calm_def counted_def)

lemma restore_file_run:
  assumes "restore_file env paths full item t = (r, t')" "resume = resume_file (blake3_hex (fe_codec (re_fetch env))) paths (si_path item)"
    and "safe_restore_path (re_fs env) (incomplete_dir paths) (si_path item) = Inr full" "full \<noteq> resume" "recipe_key (re_db env)"
  shows "r = Inr () \<and> (calm {full, resume} t t' \<or> (counted {full, resume} t t' \<and> (\<exists>rid. si_recipe_id item = Some rid \<and> holds env rid full t')))"
proof -
  obtain y u where y: "prepare_file env full resume item t = (y, u)" by fastforce
  note pr = prepare_file_run [OF y assms(4,5)]
  obtain f where f: "file_failed u = (Inr (), f)" using file_failed_run by blast
  consider (inl) x where "y = Inl x" | (reuse) "y = Inr True" | (fresh) "y = Inr False" by (cases y) auto
  then show ?thesis
  proof cases
    case inl
    then have "r = Inr ()" "t' = f" using assms(1,2) y f by (auto simp: restore_file_def Let_def)
    then show ?thesis using pr inl file_failed_calm [OF f] by (auto intro: calm_trans)
  next
    case reuse
    then show ?thesis using assms(1,2) y pr by (auto simp: restore_file_def Let_def)
  next
    case fresh
    obtain z v where z: "publish_file env (incomplete_dir paths) resume item u = (z, v)" by fastforce
    have run: "op_catch (publish_file env (incomplete_dir paths) resume item) (\<lambda>_. True) file_failed u = (r, t')"
      using assms(1,2) y fresh by (simp add: restore_file_def Let_def)
    obtain rid where rid: "si_recipe_id item = Some rid" "holds env rid resume u" "calm {full, resume} t u" using pr fresh by auto
    from publish_file_run [OF z assms(3,4), of rid] show ?thesis
    proof (elim disjE exE conjE)
      fix x assume a: "z = Inl x" "calm {full, resume} u v"
      obtain g where g: "file_failed v = (Inr (), g)" using file_failed_run by blast
      then have "r = Inr ()" "t' = g" using run z a(1) by (auto simp: op_catch_def)
      then show ?thesis using rid(3) a(2) file_failed_calm [OF g] by (blast intro: calm_trans)
    next
      assume a: "z = Inr ()" "counted {full, resume} u v" "holds env rid resume u \<longrightarrow> holds env rid full v"
      then have "r = Inr ()" "t' = v" using run z by (auto simp: op_catch_def)
      then show ?thesis using rid a by (blast intro: calm_counted)
    qed
  qed
qed


definition touched :: "restore_env \<Rightarrow> restore_paths \<Rightarrow> snapshot_item \<Rightarrow> string list set" where
  "touched env paths item = (if si_item_type item = ''file''
     then insert (resume_file (blake3_hex (fe_codec (re_fetch env))) paths (si_path item))
            {p. safe_restore_path (re_fs env) (incomplete_dir paths) (si_path item) = Inr p} else {})"

definition item_done :: "restore_env \<Rightarrow> restore_paths \<Rightarrow> snapshot_item \<Rightarrow> restore_state \<Rightarrow> bool" where
  "item_done env paths item t \<longleftrightarrow> (\<exists>p. safe_restore_path (re_fs env) (incomplete_dir paths) (si_path item) = Inr p
     \<and> (si_item_type item = ''dir'' \<and> p \<in> rt_dirs t
        \<or> si_item_type item = ''file'' \<and> (\<exists>rid. si_recipe_id item = Some rid \<and> holds env rid p t)))"

lemma safe_restore_path_prefix: "safe_restore_path fs base rel = Inr p \<Longrightarrow> prefix base p"
  by (auto simp: safe_restore_path_def bindE_eq_Inr validate_restore_root_def is_within_def Let_def
      split: if_splits option.splits sum.splits prod.splits)

lemma resume_outside:
  assumes "prefix (incomplete_dir (for_snapshot b u)) p"
  shows "p \<noteq> resume_file hx (for_snapshot b u) rel" "p \<noteq> resume_dir (for_snapshot b u)"
  using assms by (auto simp: for_snapshot_def resume_file_def prefix_def)

lemma holds_mono: "rt_files t' p = rt_files t p \<Longrightarrow> holds env rid p t \<Longrightarrow> holds env rid p t'"
  by (simp add: holds_def)

lemma restore_item_run:
  assumes "restore_item env paths item t = (Inr u, t')" "paths = for_snapshot b uuid" "recipe_key (re_db env)"
  shows "rt_dirs t \<subseteq> rt_dirs t' \<and> (\<forall>q. q \<notin> touched env paths item \<longrightarrow> rt_files t' q = rt_files t q)
    \<and> fst (item_counters (rt_fetch t')) = fst (item_counters (rt_fetch t)) + 1
    \<and> (snd (item_counters (rt_fetch t')) = snd (item_counters (rt_fetch t))
       \<or> snd (item_counters (rt_fetch t')) = snd (item_counters (rt_fetch t)) + 1 \<and> item_done env paths item t')"
proof -
  let ?safe = "safe_restore_path (re_fs env) (incomplete_dir paths) (si_path item)"
  let ?resume = "resume_file (blake3_hex (fe_codec (re_fetch env))) paths (si_path item)"
  define t0 where "t0 = t\<lparr>rt_fetch := update_stats (\<lambda>st. st\<lparr>rr_processed_items := rr_processed_items st + 1\<rparr>) (rt_fetch t)\<rparr>"
  have t0: "rt_dirs t0 = rt_dirs t" "rt_files t0 = rt_files t" "item_counters (rt_fetch t0) = (fst (item_counters (rt_fetch t)) + 1, snd (item_counters (rt_fetch t)))"
    by (simp_all add: t0_def update_stats_def item_counters_def)
  have run: "(case ?safe of Inl x \<Rightarrow> if x = RestorePathError then op_return () else op_raise x
     | Inr full_path \<Rightarrow>
         if si_item_type item = ''dir'' then
           op_bind (make_dirs full_path) (\<lambda>_. bump (\<lambda>st. st\<lparr>rr_directories_created := rr_directories_created st + 1,
             rr_successful_items := rr_successful_items st + 1\<rparr>))
         else if si_item_type item \<noteq> ''file'' then op_return ()
         else op_bind (op_read (\<lambda>t. if butlast full_path \<in> rt_prepared t then op_return () else make_dirs (butlast full_path))) (\<lambda>_.
           op_read (\<lambda>t. if full_path \<in> rt_dirs t then file_failed else restore_file env paths full_path item))) t0 = (Inr u, t')"
    using assms(1) by (simp add: restore_item_def op_bind_def bump_def op_modify_def t0_def)
  show ?thesis
  proof (cases ?safe)
    case (Inl x)
    then have "t' = t0" using run by (auto simp: op_return_def op_raise_def split: if_splits)
    then show ?thesis using t0 by simp
  next
    case (Inr full)
    have out: "full \<noteq> ?resume" using resume_outside(1) safe_restore_path_prefix [OF Inr] assms(2) by blast
    consider (dir) "si_item_type item = ''dir''" | (other) "si_item_type item \<noteq> ''dir''" "si_item_type item \<noteq> ''file''" | (regular) "si_item_type item = ''file''" by blast
    then show ?thesis
    proof cases
      case dir
      then obtain v t1 where m: "make_dirs full t0 = (Inr v, t1)" and t': "t' = t1\<lparr>rt_fetch := update_stats (\<lambda>st. st\<lparr>rr_directories_created := rr_directories_created st + 1,
             rr_successful_items := rr_successful_items st + 1\<rparr>) (rt_fetch t1)\<rparr>"
        using run Inr by (auto simp: bind_run bump_def op_modify_def)
      have c: "calm {} t0 t1" using calm.stays_state [OF calm_make_dirs, of "{}" t0 full] m by simp
      have "full \<in> rt_dirs t1" using m
        by (auto simp: make_dirs_def bind_run op_read_def op_modify_def op_raise_def split: if_splits)
      then show ?thesis using c t' t0 Inr dir by (auto simp: calm_def item_done_def item_counters_def update_stats_def)
    next
      case other
      then have "t' = t0" using run Inr by (simp add: op_return_def)
      then show ?thesis using t0 by simp
    next
      case regular
      obtain v t1 where m: "(if butlast full \<in> rt_prepared t0 then op_return () else make_dirs (butlast full)) t0 = (Inr v, t1)"
        and rest: "(if full \<in> rt_dirs t1 then file_failed else restore_file env paths full item) t1 = (Inr u, t')"
        using run Inr regular by (auto simp: bind_run op_read_def)
      have c: "calm {full, ?resume} t0 t1"
        using calm.stays_state [OF calm.stays_if [OF calm.stays_pure(1) calm_make_dirs], of "{full, ?resume}" t0 "butlast full \<in> rt_prepared t0" "()" "butlast full"] m
        by simp
      have "calm {full, ?resume} t1 t' \<or> (counted {full, ?resume} t1 t' \<and> (\<exists>rid. si_recipe_id item = Some rid \<and> holds env rid full t'))"
      proof (cases "full \<in> rt_dirs t1")
        case True
        then show ?thesis using rest file_failed_calm by simp
      next
        case False
        then show ?thesis using rest restore_file_run [OF _ refl Inr out assms(3), of t1 "Inr u" t'] by simp
      qed
      then have "calm {full, ?resume} t0 t' \<or> (counted {full, ?resume} t0 t' \<and> (\<exists>rid. si_recipe_id item = Some rid \<and> holds env rid full t'))"
        using c by (blast intro: calm_trans calm_counted)
      moreover have "touched env paths item = {full, ?resume}" using regular Inr by (auto simp: touched_def)
      ultimately show ?thesis using t0 Inr regular by (auto simp: calm_def counted_def item_done_def)
    qed
  qed
qed

text \<open>Items that are files go to different paths.\<close>

definition separate_files :: "restore_env \<Rightarrow> restore_paths \<Rightarrow> snapshot_item list \<Rightarrow> bool" where
  "separate_files env paths items \<longleftrightarrow> sorted_wrt (\<lambda>i j. si_item_type i = ''file'' \<longrightarrow> si_item_type j = ''file'' \<longrightarrow>
     safe_restore_path (re_fs env) (incomplete_dir paths) (si_path i) \<noteq> safe_restore_path (re_fs env) (incomplete_dir paths) (si_path j)) items"

lemma item_done_kept:
  assumes "item_done env paths i t" "restore_item env paths j t = (Inr u, t')" "paths = for_snapshot b uuid" "recipe_key (re_db env)"
    and "si_item_type i = ''file'' \<longrightarrow> si_item_type j = ''file'' \<longrightarrow>
      safe_restore_path (re_fs env) (incomplete_dir paths) (si_path i) \<noteq> safe_restore_path (re_fs env) (incomplete_dir paths) (si_path j)"
  shows "item_done env paths i t'"
proof -
  note run = restore_item_run [OF assms(2-4)]
  obtain p where p: "safe_restore_path (re_fs env) (incomplete_dir paths) (si_path i) = Inr p" using assms(1) by (auto simp: item_done_def)
  have "p \<notin> touched env paths j" if "si_item_type i = ''file''"
    using that assms(5) p resume_outside(1) safe_restore_path_prefix [OF p] assms(3) by (auto simp: touched_def)
  then show ?thesis using run assms(1) p by (auto simp: item_done_def intro: holds_mono)
qed

lemma restore_items_run:
  assumes "op_iter (restore_item env paths) items t = (Inr u, t')" "paths = for_snapshot b uuid" "recipe_key (re_db env)"
    and "separate_files env paths (pre @ items)" "\<forall>i \<in> set pre. item_done env paths i t"
  shows "fst (item_counters (rt_fetch t')) = fst (item_counters (rt_fetch t)) + int (length items)
    \<and> snd (item_counters (rt_fetch t')) \<le> snd (item_counters (rt_fetch t)) + int (length items)
    \<and> (snd (item_counters (rt_fetch t')) = snd (item_counters (rt_fetch t)) + int (length items) \<longrightarrow> (\<forall>i \<in> set (pre @ items). item_done env paths i t'))"
  using assms
proof (induction items arbitrary: t pre)
  case (Cons item items)
  obtain v t1 where s: "restore_item env paths item t = (Inr v, t1)" "op_iter (restore_item env paths) items t1 = (Inr u, t')"
    using Cons.prems(1) by (auto simp: bind_run)
  note run = restore_item_run [OF s(1) Cons.prems(2,3)]
  have kept: "\<forall>i \<in> set pre. item_done env paths i t1"
    using item_done_kept [OF _ s(1) Cons.prems(2,3)] Cons.prems(4,5) by (auto simp: separate_files_def sorted_wrt_append)
  have sep: "separate_files env paths ((pre @ [item]) @ items)" using Cons.prems(4) by simp
  show ?case
  proof (cases "item_done env paths item t1 \<and> snd (item_counters (rt_fetch t1)) = snd (item_counters (rt_fetch t)) + 1")
    case True
    then show ?thesis using Cons.IH [OF s(2) Cons.prems(2,3) sep] kept run by auto
  next
    case False
    have sep': "separate_files env paths (pre @ items)" using Cons.prems(4) by (auto simp: separate_files_def sorted_wrt_append)
    then show ?thesis using Cons.IH [OF s(2) Cons.prems(2,3) sep' kept] run False by auto
  qed
qed (auto simp: op_return_def)


lemma move_tree_inside:
  "rt_files (move_tree src dst t) (dst @ comps) = rt_files t (src @ comps)"
  "src @ comps \<in> rt_dirs t \<Longrightarrow> dst @ comps \<in> rt_dirs (move_tree src dst t)"
  by (auto simp: move_tree_def image_iff intro!: bexI [of _ "src @ comps"])

lemma remove_resume_run:
  assumes "remove_resume_dir paths partials t = (Inr ok, t')"
  shows "rt_files t' = rt_files t" "p \<noteq> resume_dir paths \<Longrightarrow> p \<in> rt_dirs t' \<longleftrightarrow> p \<in> rt_dirs t"
  using assms by (auto simp: remove_resume_dir_def op_read_def op_return_def op_catch_def op_bind_def io_call_def op_modify_def split: if_splits)

lemma publish_tree_run:
  assumes "publish_tree paths t = (Inr True, t')"
  shows "\<not> lexists (final_dir paths) t" "rt_files t' = rt_files (move_tree (incomplete_dir paths) (final_dir paths) t)"
    "rt_dirs t' = rt_dirs (move_tree (incomplete_dir paths) (final_dir paths) t)"
  using assms by (auto simp: publish_tree_def op_read_def op_return_def op_catch_def op_bind_def io_call_def op_modify_def move_tree_def split: if_splits)

lemma restore_run:
  assumes "restore env out status (Some uuid) items t = (Inr True, t')" "paths = for_snapshot out uuid"
  shows "\<exists>t1 u t2 t3 partials. status = Some ''COMPLETE'' \<and> \<not> lexists (final_dir paths) t
    \<and> op_iter (restore_item env paths) items t1 = (Inr u, t2) \<and> item_counters (rt_fetch t1) = item_counters (rt_fetch t)
    \<and> snd (item_counters (rt_fetch t2)) = fst (item_counters (rt_fetch t2))
    \<and> remove_resume_dir paths partials t2 = (Inr True, t3) \<and> publish_tree paths t3 = (Inr True, t')"
proof -
  define prep where "prep = op_wrap (\<lambda>x. x = OSError \<or> x = FileExistsError \<or> x = RestorePathError) StopanStorageError
                (op_bind (make_dirs (incomplete_dir paths)) (\<lambda>_.
                 op_bind (op_lift (validate_restore_root (re_fs env) (incomplete_dir paths))) (\<lambda>_.
                 op_bind (make_dirs (resume_dir paths)) (\<lambda>_.
                 op_bind (op_lift (validate_restore_root (re_fs env) (resume_dir paths))) (\<lambda>_.
                 op_modify (\<lambda>t. t\<lparr>rt_prepared := {incomplete_dir paths}\<rparr>))))))"
  define partials where "partials = map (\<lambda>i. resume_file (blake3_hex (fe_codec (re_fetch env))) paths (si_path i)) items"
  have early: "status = Some ''COMPLETE''" "uuid \<noteq> []" "\<not> lexists (final_dir paths) t" "items \<noteq> []"
    using assms by (auto simp: restore_def op_return_def op_raise_def op_read_def Let_def split: if_splits)
  have "op_bind prep (\<lambda>_. op_bind (op_iter (restore_item env paths) items) (\<lambda>_. op_read (\<lambda>t.
      let st = fs_stats (rt_fetch t) in
      if rr_successful_items st = rr_processed_items st \<and> rr_processed_items st > 0 then
        op_bind (remove_resume_dir paths partials) (\<lambda>closed. if closed then publish_tree paths else op_return False)
      else op_return False))) t = (Inr True, t')"
    using assms(1) early unfolding restore_def prep_def partials_def assms(2) by (simp add: op_read_def Let_def)
  then obtain x t1 u t2 where a: "prep t = (Inr x, t1)" "op_iter (restore_item env paths) items t1 = (Inr u, t2)"
    "(let st = fs_stats (rt_fetch t2) in
      if rr_successful_items st = rr_processed_items st \<and> rr_processed_items st > 0 then
        op_bind (remove_resume_dir paths partials) (\<lambda>closed. if closed then publish_tree paths else op_return False)
      else op_return False) t2 = (Inr True, t')" by (auto simp: bind_run op_read_def)
  then obtain t3 where b: "remove_resume_dir paths partials t2 = (Inr True, t3)" "publish_tree paths t3 = (Inr True, t')"
    "rr_successful_items (fs_stats (rt_fetch t2)) = rr_processed_items (fs_stats (rt_fetch t2))"
    by (auto simp: Let_def bind_run op_return_def split: if_splits)
  have "calm {} t (snd (prep t))" unfolding prep_def op_wrap_def
    by (rule calm.stays_state, intro calm.stays_catch calm.stays_bind calm_make_dirs calm.stays_pure calm.staysI)
      (simp add: op_modify_def calm_def)
  then have "item_counters (rt_fetch t1) = item_counters (rt_fetch t)" using a(1) by (simp add: calm_def)
  then show ?thesis using early a(2) b by (auto simp: item_counters_def)
qed

text \<open>C30. A restore that reports completion has published the whole snapshot: starting with no item
  counted and with files at different paths, under any behaviour of remote nodes and any failures of
  the disk, completion means that the snapshot was complete, the final directory did not exist, and
  afterwards it contains every directory of the snapshot and every file with exactly the chunks its
  recipe prescribes, at its own path below the final directory.\<close>

theorem completed_restore_is_snapshot:
  assumes "restore env out status (Some uuid) items t = (Inr True, t')" "paths = for_snapshot out uuid"
    and "recipe_key (re_db env)" "separate_files env paths items" "item_counters (rt_fetch t) = (0, 0)"
  shows "status = Some ''COMPLETE'' \<and> \<not> lexists (final_dir paths) t
    \<and> (\<forall>item \<in> set items. \<exists>comps. safe_restore_path (re_fs env) (incomplete_dir paths) (si_path item) = Inr (incomplete_dir paths @ comps)
        \<and> (si_item_type item = ''dir'' \<and> final_dir paths @ comps \<in> rt_dirs t'
           \<or> si_item_type item = ''file'' \<and> (\<exists>rid content. si_recipe_id item = Some rid \<and> rt_files t' (final_dir paths @ comps) = Some content
               \<and> recipe_content (blake3_hex (fe_codec (re_fetch env))) (re_db env) rid content)))"
proof -
  obtain t1 u t2 t3 partials where r: "status = Some ''COMPLETE''" "\<not> lexists (final_dir paths) t"
    "op_iter (restore_item env paths) items t1 = (Inr u, t2)" "item_counters (rt_fetch t1) = (0, 0)"
    "snd (item_counters (rt_fetch t2)) = fst (item_counters (rt_fetch t2))"
    "remove_resume_dir paths partials t2 = (Inr True, t3)" "publish_tree paths t3 = (Inr True, t')"
    using restore_run [OF assms(1,2)] assms(5) by auto
  have all_done: "\<forall>i \<in> set items. item_done env paths i t2"
    using restore_items_run [OF r(3) assms(2,3), of "[]"] assms(4) r(4,5) by simp
  have "\<exists>comps. safe_restore_path (re_fs env) (incomplete_dir paths) (si_path item) = Inr (incomplete_dir paths @ comps)
        \<and> (si_item_type item = ''dir'' \<and> final_dir paths @ comps \<in> rt_dirs t'
           \<or> si_item_type item = ''file'' \<and> (\<exists>rid content. si_recipe_id item = Some rid \<and> rt_files t' (final_dir paths @ comps) = Some content
               \<and> recipe_content (blake3_hex (fe_codec (re_fetch env))) (re_db env) rid content))" if "item \<in> set items" for item
  proof -
    have d: "item_done env paths item t2" using all_done that by blast
    then obtain p where p: "safe_restore_path (re_fs env) (incomplete_dir paths) (si_path item) = Inr p" by (auto simp: item_done_def)
    have pre: "prefix (incomplete_dir paths) p" using safe_restore_path_prefix [OF p] .
    then obtain comps where c: "p = incomplete_dir paths @ comps" by (auto simp: prefix_def)
    have "p \<noteq> resume_dir paths" using pre resume_outside(2) assms(2) by blast
    then have "rt_files t' (final_dir paths @ comps) = rt_files t2 p" "p \<in> rt_dirs t2 \<Longrightarrow> final_dir paths @ comps \<in> rt_dirs t'"
      using publish_tree_run(2,3) [OF r(7)] remove_resume_run [OF r(6)] by (simp_all add: move_tree_inside c)
    then show ?thesis using d p c by (auto simp: item_done_def holds_def)
  qed
  then show ?thesis using r(1,2) by blast
qed


section \<open>Concrete restores\<close>

definition demo_recipe_db :: restore_db where
  "demo_recipe_db = \<lparr>recipes = [(1, 2, 2), (2, 1, 1)],
     recipe_chunks = [\<lparr>rc_recipe_id = 1, rc_chunk_order = 1, rc_chunk_hash = replicate 64 CHR ''b'', rc_chunk_size = 1\<rparr>,
                      \<lparr>rc_recipe_id = 1, rc_chunk_order = 0, rc_chunk_hash = replicate 64 CHR ''a'', rc_chunk_size = 1\<rparr>,
                      \<lparr>rc_recipe_id = 2, rc_chunk_order = 0, rc_chunk_hash = replicate 64 CHR ''a'', rc_chunk_size = 1\<rparr>]\<rparr>"

definition demo_work :: file_work where
  "demo_work = \<lparr>fw_content = [5, 6], fw_next_order = 0, fw_fetch = demo_fetch_state, fw_write_fails = (\<lambda>_. None), fw_writes = 0\<rparr>"

lemma demo_recipe_key: "recipe_key demo_recipe_db"
  by code_simp

text \<open>The first chunk of the partial agrees with the recipe, the second does not and cannot be obtained.\<close>

lemma demo_resume:
  "fst (fill_partial demo_fetch_env 4 demo_recipe_db True 1 2 2 demo_work) = Inl ChunkUnavailableError"
  "fw_content (snd (fill_partial demo_fetch_env 4 demo_recipe_db True 1 2 2 demo_work)) = [5]"
  by code_simp+


definition demo_items :: "snapshot_item list" where
  "demo_items = [\<lparr>si_path = ''d'', si_item_type = ''dir'', si_size = 0, si_recipe_id = None\<rparr>,
                 \<lparr>si_path = ''d/f'', si_item_type = ''file'', si_size = 1, si_recipe_id = Some 2\<rparr>]"

definition demo_restore_env :: restore_env where
  "demo_restore_env = \<lparr>re_fetch = demo_fetch_env, re_window = 4, re_db = demo_recipe_db,
     re_fs = \<lparr>lstat = (\<lambda>p. Inr (if length p = 1 then Some Directory else None)), realpath = Inr\<rparr>\<rparr>"

definition demo_restore_state :: restore_state where
  "demo_restore_state = \<lparr>rt_files = (\<lambda>_. None), rt_dirs = {}, rt_prepared = {}, rt_fetch = demo_fetch_state,
     rt_write_fails = (\<lambda>_. None), rt_writes = 0, rt_io_ok = (\<lambda>_. True), rt_calls = 0\<rparr>"

lemma demo_restore: "fst (restore demo_restore_env [] (Some ''COMPLETE'') (Some ''u'') demo_items demo_restore_state) = Inr True"
  by code_simp

lemma demo_separate: "separate_files demo_restore_env (for_snapshot [] ''u'') demo_items"
  by (simp add: separate_files_def demo_items_def)

theorem completed_restore_is_snapshot_witness:
  "\<exists>comps content. rt_files (snd (restore demo_restore_env [] (Some ''COMPLETE'') (Some ''u'') demo_items demo_restore_state))
       (''snapshot_u'' # comps) = Some content \<and> recipe_content (blake3_hex demo_codec) demo_recipe_db 2 content"
proof -
  let ?t' = "snd (restore demo_restore_env [] (Some ''COMPLETE'') (Some ''u'') demo_items demo_restore_state)"
  have run: "restore demo_restore_env [] (Some ''COMPLETE'') (Some ''u'') demo_items demo_restore_state = (Inr True, ?t')"
    using demo_restore by (metis prod.collapse)
  have key: "recipe_key (re_db demo_restore_env)" using demo_recipe_key by (simp add: demo_restore_env_def)
  have zero: "item_counters (rt_fetch demo_restore_state) = (0, 0)"
    by (simp add: item_counters_def demo_restore_state_def demo_fetch_state_def demo_stats_def)
  have "\<lparr>si_path = ''d/f'', si_item_type = ''file'', si_size = 1, si_recipe_id = Some 2\<rparr> \<in> set demo_items" by (simp add: demo_items_def)
  with completed_restore_is_snapshot [OF run refl key demo_separate zero] show ?thesis
    by (fastforce simp: for_snapshot_def demo_restore_env_def demo_fetch_env_def)
qed


end
