(* ===== verification/Spec2Isabelle.thy ===== *)
theory Spec2Isabelle
  imports Common Json Placement Protection ErasureCoding EcDelivery Replication Identity Membership Disk Cas ShardStore LocalGc PackStore Lifecycle ObjectModel ObjectGraph GraphValidation Fetch RestorePaths Restorer
begin

text \<open>
  A verification library for \<open>stopan\<close>, a distributed backup system written in Python. Paths below are relative to
  \<open>src/src/stopan\<close>.

  \<^bold>\<open>The program.\<close> A client splits files into chunks named by their BLAKE3 hash and keeps them compressed in a local
  content-addressed store. Snapshots, recipes and protection states are rows of a metadata database. Chunks are
  protected on other nodes of a cluster, either as whole replicas on the nodes that rendezvous hashing selects,
  or as shards of erasure-coded packs; both are verified later by asking the nodes again. The nodes find
  each other by a gossip protocol with suspicion and incarnation numbers, serve chunks, shards and metadata packs
  over authenticated RPCs, and shut down through a drain protocol. The metadata itself is exported as a graph of
  content-addressed objects. A restore fetches every chunk from the local stores, from a replica or from any
  \<open>k\<close> shards of its pack, writes files through partial files that can be resumed, and publishes them by renaming.
  Garbage collection removes local data that is neither protected nor young.

  \<^bold>\<open>Theories and sources.\<close>

  \<^item> \<open>Prelude\<close>: exceptions as values of \<open>exn\<close>, the error monad (\<open>bindE\<close>, \<open>mapE\<close>, \<open>foldE\<close>), operations that keep their state
    changes when they raise (\<open>op\<close>), Python's \<open>str\<close>, \<open>int\<close> and \<open>dict\<close>, and the locales for
    invariants of transition systems and for relations every operation respects.
  \<^item> \<open>Common\<close> (\<open>common/\<close>): batching, ordered de-duplication, validators. \<open>Json\<close> (\<open>common/json.py\<close>): canonical JSON, and that
    the bytes determine the value.
  \<^item> \<open>Placement\<close> (\<open>placement/\<close>, \<open>cluster/\<close>): rendezvous hashing with its bounded heap, placement epochs, the cluster view.
    \<open>Protection\<close> (\<open>protection/policy.py\<close>, \<open>backup/policy.py\<close>): protection states, and when a backup may skip a chunk.
  \<^item> \<open>ErasureCoding\<close> and \<open>EcDelivery\<close> (\<open>protection/ec/\<close>): packs, shards and manifests; probing, transfer in adaptive batches,
    acknowledgements and verification. \<open>Replication\<close> (\<open>protection/replication/\<close>): the same for whole chunks.
  \<^item> \<open>Identity\<close> (\<open>node/identity.py\<close>), \<open>Membership\<close> (\<open>node/membership/\<close>, \<open>node/services/membership_rpc.py\<close>) and \<open>Lifecycle\<close>
    (\<open>node/lifecycle.py\<close>, \<open>node/server.py\<close>): incarnations on disk, the gossip protocol as functions and as an interleaving of
    atomic steps, leases, draining and the control socket.
  \<^item> \<open>Disk\<close> (\<open>common/fs.py\<close>), \<open>Cas\<close> (\<open>cas/repository.py\<close>, \<open>node/storage/commit_engine.py\<close>, \<open>node/services/storage_rpc.py\<close>,
    \<open>rpc/auth.py\<close>), \<open>ShardStore\<close> (\<open>node/storage/ec_shard_store.py\<close>, \<open>node/services/ec_storage_rpc.py\<close>), \<open>PackStore\<close>
    (\<open>metadata/packs/distributed_store/\<close>, \<open>node/services/metadata_pack_rpc.py\<close>) and \<open>LocalGc\<close> (\<open>gc/\<close>, \<open>cas/gc.py\<close>,
    \<open>node/storage/ec_gc.py\<close>, parts of \<open>cli/gc.py\<close>): the stores of a node over a disk whose every call may fail, with their RPC
    handlers, quotas and collectors.
  \<^item> \<open>ObjectModel\<close>, \<open>ObjectGraph\<close> and \<open>GraphValidation\<close> (\<open>metadata/objects/models.py\<close>, \<open>codec.py\<close>, \<open>graph/\<close>,
    \<open>chunking/recipes.py\<close>): the metadata objects, their codec, the walk over everything reachable from a catalog and the
    checks that span objects.
  \<^item> \<open>Fetch\<close> (\<open>restore/fetch.py\<close>, \<open>ec_fetch.py\<close>, \<open>remote_client.py\<close>), \<open>RestorePaths\<close> (\<open>restore/paths.py\<close>) and \<open>Restorer\<close>
    (\<open>restore/restorer.py\<close>): obtaining chunks, confining paths to the destination, restoring a snapshot.

  A record of the model is a class of the program with its fields, a function of the same name (without leading underscore)
  its method, and a state that a method changes is passed and returned. Locks are not represented where a method runs
  entirely under one; where threads interleave (\<open>Membership\<close>, \<open>Lifecycle\<close>) the locked regions are the steps of a transition relation.

  \<^bold>\<open>What is shown.\<close> Placement is a prefix of the full ranking and changes by one target when a node leaves. Any
  \<open>k\<close> shards give back every chunk, and nothing is reconstructed that does not have the expected hash. A pushed
  or verified state is recorded only with as many distinct acknowledgements as it claims. Views of members never go
  backwards, converge, and stay well-formed in every interleaving; a node that leaves or is suspected behaves as the
  protocol says. Acknowledged chunks, shards and packs are in custody under every pattern of disk failures, within the
  quotas. The codec of metadata objects accepts exactly the well-formed objects, and the walk is reachability, total
  on closed graphs; a graph that the validation accepts is recoverable. Restored chunks are authentic, restored paths stay inside the destination, a completed restore is
  the snapshot, resuming is safe, and collection removes exactly what is stale and unprotected. This theory composes the custody
  of a node with the retrieval of a restore: what was acknowledged is restored.

  \<^bold>\<open>Interfaces.\<close> Locales state what one part promises another: \<open>acknowledging_store\<close> (interpreted for chunks and for shards)
  is the contract of a commit that answers; \<open>op_relation\<close> carries a relation that every operation of a store respects
  (interpreted for each store), \<open>inv_system\<close> an invariant that every step of a transition system keeps, and \<open>target_selector\<close> the
  contract of a placement function towards the replication and the restore.

  \<^bold>\<open>Parameters.\<close> Code outside the repository is an argument: BLAKE3, Zstandard and zfec (with the laws a theorem needs as
  hypotheses, such as \<open>frames_carry_size\<close>), Ed25519, random names, \<open>json.loads\<close> on bytes (\<open>loads_canonical\<close>), \<open>lstat\<close> and
  \<open>realpath\<close>, the answers of other nodes and the result rows of the metadata database. Hypotheses state documented behaviour and
  every theorem with hypotheses has a closed instance.

  \<^bold>\<open>Bounds and fuel.\<close> Nothing runs on fuel. Loops are structural recursion, or have a measure: the adaptive batches shrink,
  the walk takes canonical hashes from a finite set, the validation of trees goes down within the objects of the
  graph. Python's integers are unbounded \<open>int\<close>; the incarnation of a member is a 64-bit word. A \<open>str\<close> has the code points below
  256. Clocks are \<open>real\<close>, except in metadata objects, where a float is the text that \<open>repr\<close> prints for it.

  \<^bold>\<open>Not modelled.\<close> The metadata database (SQL; where a component reads it, the rows are arguments), and with it the
  export, import and backup services; the encrypted object store, packs and identity files, which are calls of the
  \<open>cryptography\<close> package around formats the model has; content-defined chunking, a C extension; gRPC channels and streaming
  threads, replaced by the order in which answers arrive; the configuration and the command line, except the
  garbage collection commands.
\<close>

section \<open>From the acknowledgement of a replica to the restore\<close>

text \<open>
  What a storage node does with its chunk store between two requests of one client: any sequence of
  probes, replication streams and retrievals of other clients, authorised or not, with any disk failures.
\<close>

inductive custody_step :: "storage_node \<Rightarrow> cas_repository \<Rightarrow> cas_repository \<Rightarrow> bool" for node where
  probe: "custody_step node r (snd (ProbeMissingChunks node token admit hashes r))"
| replicate: "custody_step node r (snd (ReplicateChunks node token admit items r))"
| retrieve: "custody_step node r (snd (RetrieveChunkBatch node token admit hashes r))"

lemma guarded_state: "snd (guarded node token admit handler r) \<in> {r, snd (handler r)}"
  by (auto simp: guarded_def require_cluster_token_metadata_def op_bind_def op_raise_def op_return_def op_lift_def
      split: option.split sum.split)

lemma guarded_keeps: "snd (handler r) = r \<Longrightarrow> snd (guarded node token admit handler r) = r"
  using guarded_state [of node token admit handler r] by auto

lemma guarded_returns:
  assumes "guarded node token admit handler r = (Inr x, r')"
  shows "handler r = (Inr x, r')" "guarded node token (Inr ()) handler' s = handler' s"
  using assms by (auto simp: guarded_def require_cluster_token_metadata_def op_bind_def op_raise_def op_return_def op_lift_def
      split: option.splits sum.splits if_splits)

definition holds_chunks :: "cas_repository \<Rightarrow> cas_repository \<Rightarrow> bool" where
  "holds_chunks r r' \<longleftrightarrow> (\<forall>h. is_hex64 h \<longrightarrow> exists_local h r \<longrightarrow> exists_local h r')"

lemma holds_chunks_refl [simp]: "holds_chunks r r" by (simp add: holds_chunks_def)

lemma commit_all_sound:
  assumes "custody_ok z n r"
  shows "custody_ok z n (snd (commit_all z n items r)) \<and> holds_chunks r (snd (commit_all z n items r))"
proof -
  obtain cs where "commit_all z n items r = (Inr cs, snd (commit_all z n items r))"
    using chunk_commits.commits_answer [of z n r "data_folder r" items] assms by auto
  from commit_all_run(2,3) [OF assms this] show ?thesis by (auto simp: holds_chunks_def)
qed

lemma retrieve_one_state:
  "\<exists>c k. retrieve_one z h r = (Inr c, r\<lparr>cas_disk := (cas_disk r)\<lparr>calls := k\<rparr>\<rparr>) \<and> calls (cas_disk r) \<le> k \<and> rv_chunk_hash c = h"
proof (cases "is_hex64 h")
  case False
  then show ?thesis by (intro exI [of _ "\<lparr>rv_chunk_hash = h, rv_status = RETRIEVE_STATUS_ERROR, rv_chunk_data = []\<rparr>"]
        exI [of _ "calls (cas_disk r)"]) (simp add: retrieve_one_def)
next
  case True
  let ?r = "r\<lparr>cas_disk := (cas_disk r)\<lparr>calls := Suc (calls (cas_disk r))\<rparr>\<rparr>"
  have "snd (get_compressed h r) = ?r"
    by (cases "outcomes (cas_disk r) (calls (cas_disk r))"; cases "files (cas_disk r) (chunk_path (data_folder r) h)")
      (auto simp: get_compressed_def on_disk_def sys_read_def next_outcome_def fails_with_def op_wrap_def op_catch_def op_read_def
        op_bind_def op_return_def op_raise_def)
  then obtain x where "get_compressed h r = (x, ?r)" by (metis prod.collapse)
  then have "snd (get_validated_compressed z h r) = ?r"
    by (cases x) (auto simp: get_validated_compressed_def op_bind_def op_lift_def op_return_def split: sum.splits)
  then obtain y where "get_validated_compressed z h r = (y, ?r)" by (metis prod.collapse)
  then show ?thesis using True by (cases y) (auto simp: retrieve_one_def intro: exI [of _ "Suc (calls (cas_disk r))"])
qed

lemma same_files:
  "custody_ok z n (r\<lparr>cas_disk := (cas_disk r)\<lparr>calls := k\<rparr>\<rparr>) = custody_ok z n r"
  "exists_local h (r\<lparr>cas_disk := (cas_disk r)\<lparr>calls := k\<rparr>\<rparr>) = exists_local h r"
  "holds_chunks r (r\<lparr>cas_disk := (cas_disk r)\<lparr>calls := k\<rparr>\<rparr>)"
  by (simp_all add: custody_ok_def exists_local_def sys_exists_def holds_chunks_def)

lemma retrieve_all_state: "\<exists>k. snd (retrieve_all z hs r) = r\<lparr>cas_disk := (cas_disk r)\<lparr>calls := k\<rparr>\<rparr>"
proof (induction hs arbitrary: r)
  case Nil
  show ?case by (intro exI [of _ "calls (cas_disk r)"]) (simp add: op_return_def)
next
  case (Cons h hs)
  obtain c k where one: "retrieve_one z h r = (Inr c, r\<lparr>cas_disk := (cas_disk r)\<lparr>calls := k\<rparr>\<rparr>)" using retrieve_one_state by blast
  obtain j where "snd (retrieve_all z hs (r\<lparr>cas_disk := (cas_disk r)\<lparr>calls := k\<rparr>\<rparr>)) = r\<lparr>cas_disk := (cas_disk r)\<lparr>calls := j\<rparr>\<rparr>"
    using Cons.IH [of "r\<lparr>cas_disk := (cas_disk r)\<lparr>calls := k\<rparr>\<rparr>"] by auto
  then show ?case using one by (auto simp: op_bind_def op_return_def split: prod.splits sum.splits)
qed

lemma custody_step_sound:
  assumes "custody_step node r r'" "custody_ok (sn_codec node) (sn_max_chunk_size node) r"
  shows "custody_ok (sn_codec node) (sn_max_chunk_size node) r' \<and> holds_chunks r r'"
  using assms
proof cases
  case (probe token admit hashes)
  then have "r' = r" by (simp add: ProbeMissingChunks_def guarded_keeps op_read_def op_raise_def op_return_def)
  then show ?thesis using assms(2) by simp
next
  case (replicate token admit items)
  then show ?thesis using guarded_state [of node token admit _ r] commit_all_sound [OF assms(2)] assms(2)
    by (metis ReplicateChunks_def holds_chunks_refl insert_iff singletonD)
next
  case (retrieve token admit hashes)
  then show ?thesis using guarded_state [of node token admit _ r] retrieve_all_state assms(2) same_files
    by (metis RetrieveChunkBatch_def holds_chunks_refl insert_iff singletonD)
qed

lemma custody_run_sound:
  assumes "(custody_step node)\<^sup>*\<^sup>* r r'" "custody_ok (sn_codec node) (sn_max_chunk_size node) r"
  shows "custody_ok (sn_codec node) (sn_max_chunk_size node) r' \<and> holds_chunks r r'"
  using assms
proof (induction rule: rtranclp_induct)
  case (step s t)
  then show ?case using custody_step_sound [of node s t] by (auto simp: holds_chunks_def)
qed simp

text \<open>Every answer for a chunk that is there is a blob a restore accepts, in a batch with any other hashes.\<close>

lemma retrieve_all_serves:
  assumes "custody_ok z n r" "frames_carry_size z" "is_hex64 h" "exists_local h r"
    and "\<And>k. calls (cas_disk r) \<le> k \<Longrightarrow> outcomes (cas_disk r) k = IO_ok"
  shows "\<exists>items. fst (retrieve_all z hs r) = Inr items \<and> map rv_chunk_hash items = hs
    \<and> (\<forall>i \<in> set items. rv_chunk_hash i = h \<longrightarrow> rv_status i = RETRIEVE_STATUS_FOUND
         \<and> (\<exists>raw. decompress_max z (max 1 n) (rv_chunk_data i) = Inr raw \<and> blake3_hex z raw = h))"
  using assms
proof (induction hs arbitrary: r)
  case Nil
  then show ?case by (simp add: op_return_def)
next
  case (Cons g hs)
  obtain c k where one: "retrieve_one z g r = (Inr c, r\<lparr>cas_disk := (cas_disk r)\<lparr>calls := k\<rparr>\<rparr>)" "calls (cas_disk r) \<le> k"
    "rv_chunk_hash c = g" using retrieve_one_state by blast
  let ?r = "r\<lparr>cas_disk := (cas_disk r)\<lparr>calls := k\<rparr>\<rparr>"
  obtain items where rest: "fst (retrieve_all z hs ?r) = Inr items" "map rv_chunk_hash items = hs"
    "\<forall>i \<in> set items. rv_chunk_hash i = h \<longrightarrow> rv_status i = RETRIEVE_STATUS_FOUND
       \<and> (\<exists>raw. decompress_max z (max 1 n) (rv_chunk_data i) = Inr raw \<and> blake3_hex z raw = h)"
    using Cons.IH [of ?r] Cons.prems one(2) by (auto simp: same_files)
  have "rv_status c = RETRIEVE_STATUS_FOUND \<and> (\<exists>raw. decompress_max z (max 1 n) (rv_chunk_data c) = Inr raw \<and> blake3_hex z raw = h)"
    if "g = h"
    using retrieve_found [OF Cons.prems(1-4)] Cons.prems(5) [of "calls (cas_disk r)"] one(1) that by auto
  then show ?case using one rest by (auto simp: op_bind_def op_return_def split: prod.splits sum.splits)
qed



definition demo_node :: storage_node where
  "demo_node = \<lparr>sn_utf8 = (\<lambda>_. [1]), sn_codec = demo_codec, sn_cluster_token = ''t'', sn_max_chunk_size = 9\<rparr>"

definition demo_custody :: cas_repository where
  "demo_custody = snd (ReplicateChunks demo_node [[1]] (Inr ()) [(replicate 64 CHR ''a'', [1])] (demo_cas (\<lambda>_. IO_ok)))"

definition demo_restore_env :: fetch_env where
  "demo_restore_env = demo_fetch_env\<lparr>fe_stub := Some (\<lambda>addr hs. fst (RetrieveChunkBatch demo_node [[1]] (Inr ()) hs demo_custody))\<rparr>"

lemma demo_guarded: "guarded demo_node [[1]] (Inr ()) handler = handler"
proof -
  have "py_strip ''t'' \<noteq> []" by code_simp
  then show ?thesis
    by (intro ext) (simp add: guarded_def demo_node_def require_cluster_token_metadata_def metadata_value_def op_bind_def op_return_def op_lift_def)
qed

lemma demo_custody_run:
  "ReplicateChunks demo_node [[1]] (Inr ()) [(replicate 64 CHR ''a'', [1])] (demo_cas (\<lambda>_. IO_ok))
     = (Inr [\<lparr>cr_chunk_hash = replicate 64 CHR ''a'', cr_status = STORE_STATUS_STORED\<rparr>], demo_custody)"
  "outcomes (cas_disk demo_custody) n = IO_ok"
proof -
  have run: "ReplicateChunks demo_node [[1]] (Inr ()) [(replicate 64 CHR ''a'', [1])] (demo_cas (\<lambda>_. IO_ok))
      = commit_all demo_codec 9 [(replicate 64 CHR ''a'', [1])] (demo_cas (\<lambda>_. IO_ok))"
    unfolding ReplicateChunks_def demo_guarded by (simp add: demo_node_def)
  show "ReplicateChunks demo_node [[1]] (Inr ()) [(replicate 64 CHR ''a'', [1])] (demo_cas (\<lambda>_. IO_ok))
     = (Inr [\<lparr>cr_chunk_hash = replicate 64 CHR ''a'', cr_status = STORE_STATUS_STORED\<rparr>], demo_custody)"
    using demo_commit(1) unfolding demo_custody_def run by (metis prod.collapse)
  show "outcomes (cas_disk demo_custody) n = IO_ok" using demo_commit(2) unfolding demo_custody_def run .
qed



end
